(* ===== verification/Dwpal_Prelude.thy ===== *)
theory Dwpal_Prelude
  imports Main "HOL-Library.Word" "HOL-Library.Monad_Syntax" "HOL-Library.Multiset"
begin

text \<open>
  Shared vocabulary of the development: pointers, machine integers, chains of linked
  cells and the return codes that the C code uses.  A C pointer that may be NULL is a
  \<open>ptr\<close>; a memory access through it that the C code makes without owning the memory is
  undefined behaviour, and every model function that could make one returns an option whose
  value None stands for it (and, for a loop, for not returning).
\<close>

unbundle bit_operations_syntax

section \<open>Types\<close>

type_synonym ptr = "nat option"
type_synonym u8 = "8 word"
type_synonym u16 = "16 word"
type_synonym u32 = "32 word"
type_synonym rc = int

named_theorems null_guards \<open>what an operation does when it is handed a NULL pointer\<close>
named_theorems model_steps \<open>one-step characterisations of the operations\<close>
named_theorems keeps_wf \<open>an operation keeps the well-formedness of its component\<close>

section \<open>Chains of cells\<close>

text \<open>
  A singly linked list in memory: following the link function \<open>nx\<close> from the pointer
  \<open>p\<close> visits exactly the cells of the list, in order, and ends at NULL.
\<close>

fun chain :: "(nat \<Rightarrow> ptr) \<Rightarrow> ptr \<Rightarrow> nat list \<Rightarrow> bool" where
  "chain nx p [] \<longleftrightarrow> p = None"
| "chain nx p (c # cs) \<longleftrightarrow> p = Some c \<and> chain nx (nx c) cs"

lemma chain_None [simp]: "chain nx None cs \<longleftrightarrow> cs = []"
  by (cases cs) auto

lemma chain_Some: "chain nx (Some c) cs \<longleftrightarrow> (\<exists>ds. cs = c # ds \<and> chain nx (nx c) ds)"
  by (cases cs) auto

lemma chain_cong: "(\<And>c. c \<in> set cs \<Longrightarrow> nx c = ny c) \<Longrightarrow> chain nx p cs = chain ny p cs"
  by (induction cs arbitrary: p) auto

lemma chain_frame [simp]: "c \<notin> set cs \<Longrightarrow> chain (nx(c := v)) p cs = chain nx p cs"
  by (rule chain_cong) auto

lemma chain_det: "chain nx p cs \<Longrightarrow> chain nx p ds \<Longrightarrow> cs = ds"
proof (induction cs arbitrary: p ds)
  case Nil
  then show ?case by simp
next
  case (Cons c cs)
  then show ?case by (cases ds) auto
qed

lemma chain_suffix: "chain nx p (bs @ c # cs) \<Longrightarrow> chain nx (nx c) cs"
  by (induction bs arbitrary: p) auto

lemma chain_distinct: "chain nx p cs \<Longrightarrow> distinct cs"
proof (induction cs arbitrary: p)
  case Nil
  then show ?case by simp
next
  case (Cons c cs)
  have "c \<notin> set cs"
  proof
    assume "c \<in> set cs"
    then obtain xs ys where split: "cs = xs @ c # ys" by (meson split_list)
    with Cons.prems have "chain nx (nx c) (xs @ c # ys)" by simp
    then have "chain nx (nx c) ys" by (rule chain_suffix)
    with Cons.prems split have "ys = xs @ c # ys" by (auto dest: chain_det)
    then have "length ys = length (xs @ c # ys)" by metis
    then show False by simp
  qed
  with Cons show ?case by auto
qed

lemma chain_relink:
  assumes "chain nx p (bs @ b # ds)" and "chain (nx(b := q)) q cs"
  shows "chain (nx(b := q)) p (bs @ b # cs)"
proof -
  have "b \<notin> set bs" using chain_distinct [OF assms(1)] by auto
  with assms show ?thesis by (induction bs arbitrary: p) auto
qed

lemma chain_link_last: "chain nx p (bs @ c # ds) \<Longrightarrow> bs \<noteq> [] \<Longrightarrow> nx (last bs) = Some c"
  by (induction bs arbitrary: p) auto

section \<open>Options and lists\<close>

lemma bind_SomeD: "m \<bind> f = Some y \<Longrightarrow> \<exists>x. m = Some x \<and> f x = Some y"
  by (cases m) auto

lemma last_snoc_eq [simp]: "xs \<noteq> [] \<Longrightarrow> last (x # xs) = last xs"
  by simp

lemma removeAll_notin: "x \<notin> set xs \<Longrightarrow> removeAll x xs = xs"
  by (induction xs) auto

lemma distinct_insert_mid: "distinct (xs @ ys) \<Longrightarrow> a \<notin> set (xs @ ys) \<Longrightarrow> distinct (xs @ a # ys)"
  by simp

end
