(* ===== verification/Obj_Pool.thy ===== *)
theory Obj_Pool
  imports Dwpal_Prelude
begin

text \<open>
  The object pool of wv_ipc/obj_pool.c, at the level of its pointers.  A pooled object is a
  cell of the heap with the two links of \<open>struct _pooled_obj\<close>; the address that the
  callers see (\<open>obj->data\<close>) and the address of the cell determine each other
  (\<open>container_of\<close>), so both are the cell's address here.  The heap holds the cells that
  malloc returned and free did not take back.  Reading a cell that is not in it is a use
  after free or a wild read: the result None.  Whether the n-th malloc succeeds is decided by
  the environment (\<open>malloc_ok\<close>).  Each operation runs under the pool's lock, so it is one
  atomic step.
\<close>

section \<open>State\<close>

record pooled_obj =
  po_next :: ptr
  po_all_next :: ptr
  po_pool :: nat
  po_allocated :: bool

record obj_pool =
  pool_id :: nat
  available_objects :: ptr
  all_objects :: ptr
  pool_name :: string
  destroy_started :: bool
  pool_callback :: bool
  object_byte_size :: nat
  min_size :: nat
  max_size :: nat
  curr_size :: nat
  num_traveling_objects :: nat
  thread_safety_needed :: bool

record pheap =
  objs :: "nat \<Rightarrow> pooled_obj option"
  brk :: nat
  malloc_ok :: "nat \<Rightarrow> bool"

definition malloc :: "pheap \<Rightarrow> ptr \<times> pheap" where
  "malloc h = (if malloc_ok h (brk h) then Some (brk h) else None, h\<lparr>brk := Suc (brk h)\<rparr>)"

definition put_cell :: "nat \<Rightarrow> pooled_obj \<Rightarrow> pheap \<Rightarrow> pheap" where
  "put_cell a ob h = h\<lparr>objs := (objs h)(a \<mapsto> ob)\<rparr>"

definition free_cell :: "nat \<Rightarrow> pheap \<Rightarrow> pheap" where
  "free_cell a h = h\<lparr>objs := (objs h)(a := None)\<rparr>"

definition next_of :: "pheap \<Rightarrow> nat \<Rightarrow> ptr" where
  "next_of h a = (case objs h a of None \<Rightarrow> None | Some ob \<Rightarrow> po_next ob)"

definition all_next_of :: "pheap \<Rightarrow> nat \<Rightarrow> ptr" where
  "all_next_of h a = (case objs h a of None \<Rightarrow> None | Some ob \<Rightarrow> po_all_next ob)"

section \<open>Operations\<close>

definition obj_pool_set_callback :: "obj_pool option \<Rightarrow> bool \<Rightarrow> obj_pool option" where
  "obj_pool_set_callback pool cb =
     (case pool of None \<Rightarrow> None | Some p \<Rightarrow> Some (p\<lparr>pool_callback := cb\<rparr>))"

definition obj_pool_get_name :: "obj_pool option \<Rightarrow> string" where
  "obj_pool_get_name pool =
     (case pool of None \<Rightarrow> ''(no pool)'' | Some p \<Rightarrow> pool_name p)"

text \<open>The for loop of \<open>obj_pool_increase_size_to\<close>, for the number of rounds it has left.\<close>

fun grow_loop :: "nat \<Rightarrow> obj_pool \<Rightarrow> pheap \<Rightarrow> rc \<times> obj_pool \<times> pheap" where
  "grow_loop 0 p h = (0, p, h)"
| "grow_loop (Suc n) p h =
     (case malloc h of
        (None, h') \<Rightarrow> (1, p, h')
      | (Some a, h') \<Rightarrow>
          grow_loop n
            (p\<lparr>available_objects := Some a, all_objects := Some a,
               curr_size := Suc (curr_size p)\<rparr>)
            (put_cell a \<lparr>po_next = available_objects p, po_all_next = all_objects p,
               po_pool = pool_id p, po_allocated = False\<rparr> h'))"

definition obj_pool_increase_size_to :: "obj_pool \<Rightarrow> nat \<Rightarrow> pheap \<Rightarrow> rc \<times> obj_pool \<times> pheap" where
  "obj_pool_increase_size_to p new_size h =
     (if new_size \<le> curr_size p then (1, p, h)
      else if max_size p \<noteq> 0 \<and> new_size > max_size p then
        (if max_size p \<le> curr_size p then (1, p, h)
         else grow_loop (max_size p - curr_size p) p h)
      else grow_loop (new_size - curr_size p) p h)"

text \<open>
  \<open>(int)((pool->curr_size * 3)/2) + 1\<close>, passed as a \<open>size_t\<close>: the product wraps at 64
  bits, the cast keeps the low 32 bits as a signed value, the sum is converted back.
\<close>

definition c_int_of_nat :: "nat \<Rightarrow> int" where
  "c_int_of_nat n = (let m = int (n mod 2 ^ 32) in if m < 2 ^ 31 then m else m - 2 ^ 32)"

definition pool_grow_size :: "nat \<Rightarrow> nat" where
  "pool_grow_size n = nat ((c_int_of_nat (((n * 3) mod 2 ^ 64) div 2) + 1) mod 2 ^ 64)"

definition obj_pool_alloc_object ::
  "obj_pool option \<Rightarrow> pheap \<Rightarrow> (ptr \<times> obj_pool option \<times> pheap) option" where
  "obj_pool_alloc_object pool h =
     (case pool of
        None \<Rightarrow> Some (None, None, h)
      | Some p \<Rightarrow>
          if destroy_started p then Some (None, pool, h)
          else
            let (r, p1, h1) =
              (if available_objects p = None
               then obj_pool_increase_size_to p (pool_grow_size (curr_size p)) h
               else (0, p, h))
            in if r \<noteq> 0 then Some (None, Some p1, h1)
               else case available_objects p1 of
                      None \<Rightarrow> Some (None, Some p1, h1)
                    | Some a \<Rightarrow>
                        (case objs h1 a of
                           None \<Rightarrow> None
                         | Some ob \<Rightarrow>
                             Some (Some a,
                               Some (p1\<lparr>available_objects := po_next ob,
                                  num_traveling_objects := Suc (num_traveling_objects p1)\<rparr>),
                               put_cell a (ob\<lparr>po_allocated := True\<rparr>) h1)))"

definition obj_pool_put_object ::
  "obj_pool option \<Rightarrow> ptr \<Rightarrow> pheap \<Rightarrow> (obj_pool option \<times> pheap) option" where
  "obj_pool_put_object pool object h =
     (case (pool, object) of
        (Some p, Some a) \<Rightarrow>
          if destroy_started p then Some (pool, h)
          else (case objs h a of
                  None \<Rightarrow> None
                | Some ob \<Rightarrow>
                    if po_pool ob \<noteq> pool_id p then Some (pool, h)
                    else if \<not> po_allocated ob then Some (pool, h)
                    else Some
                      (Some (p\<lparr>available_objects := Some a,
                          num_traveling_objects := num_traveling_objects p - 1\<rparr>),
                       put_cell a (ob\<lparr>po_allocated := False,
                          po_next := available_objects p\<rparr>) h))
      | _ \<Rightarrow> Some (pool, h))"

text \<open>The two loops of \<open>obj_pool_destroy\<close>, and the loop of \<open>obj_pool_walk\<close>.\<close>

partial_function (option) destroy_free_loop ::
  "obj_pool \<Rightarrow> pheap \<Rightarrow> (obj_pool \<times> pheap) option" where
  "destroy_free_loop p h =
     (case available_objects p of
        None \<Rightarrow> Some (p, h)
      | Some a \<Rightarrow>
          (case objs h a of
             None \<Rightarrow> None
           | Some ob \<Rightarrow>
               destroy_free_loop (p\<lparr>available_objects := po_next ob\<rparr>) (free_cell a h)))"

partial_function (option) destroy_callback_loop ::
  "ptr \<Rightarrow> pheap \<Rightarrow> nat list \<Rightarrow> nat list option" where
  "destroy_callback_loop obj h called =
     (case obj of
        None \<Rightarrow> Some called
      | Some a \<Rightarrow>
          (case objs h a of
             None \<Rightarrow> None
           | Some ob \<Rightarrow> destroy_callback_loop (po_next ob) h (called @ [a])))"

definition obj_pool_destroy ::
  "obj_pool option \<Rightarrow> pheap \<Rightarrow> (nat \<times> nat list \<times> pheap) option" where
  "obj_pool_destroy pool h =
     (case pool of
        None \<Rightarrow> Some (0, [], h)
      | Some p \<Rightarrow>
          do {
            (p1, h1) \<leftarrow> destroy_free_loop (p\<lparr>destroy_started := True\<rparr>) h;
            called \<leftarrow> (if num_traveling_objects p1 \<noteq> 0 \<and> pool_callback p1
                       then destroy_callback_loop (all_objects p1) h1 []
                       else Some []);
            Some (num_traveling_objects p1, called, h1)
          })"

definition obj_pool_init ::
  "string option \<Rightarrow> nat \<Rightarrow> nat \<Rightarrow> nat \<Rightarrow> bool \<Rightarrow> pheap
   \<Rightarrow> (obj_pool option \<times> pheap) option" where
  "obj_pool_init name byte_size mn mx thread_safety h =
     (case name of
        None \<Rightarrow> Some (None, h)
      | Some nm \<Rightarrow>
          (case malloc h of
             (None, h1) \<Rightarrow> Some (None, h1)
           | (Some self, h1) \<Rightarrow>
               let p = \<lparr>pool_id = self, available_objects = None, all_objects = None,
                        pool_name = nm, destroy_started = False, pool_callback = False,
                        object_byte_size = byte_size, min_size = mn, max_size = mx,
                        curr_size = 0, num_traveling_objects = 0,
                        thread_safety_needed = False\<rparr>;
                   (r, p1, h2) = obj_pool_increase_size_to p mn h1
               in if r \<noteq> 0
                  then do { (_, _, h3) \<leftarrow> obj_pool_destroy (Some p1) h2; Some (None, h3) }
                  else Some (Some (p1\<lparr>thread_safety_needed := thread_safety\<rparr>), h2)))"

partial_function (option) walk_loop ::
  "ptr \<Rightarrow> pheap \<Rightarrow> nat \<Rightarrow> nat list \<Rightarrow> (nat \<times> nat list) option" where
  "walk_loop obj h obj_num called =
     (case obj of
        None \<Rightarrow> Some (obj_num, called)
      | Some a \<Rightarrow>
          (case objs h a of
             None \<Rightarrow> None
           | Some ob \<Rightarrow>
               if po_allocated ob
               then walk_loop (po_next ob) h (Suc obj_num) (called @ [a])
               else walk_loop (po_next ob) h obj_num called))"

definition obj_pool_walk :: "obj_pool option \<Rightarrow> pheap \<Rightarrow> (nat \<times> nat list) option" where
  "obj_pool_walk pool h =
     (case pool of
        None \<Rightarrow> Some (0, [])
      | Some p \<Rightarrow>
          if num_traveling_objects p > 0 then walk_loop (all_objects p) h 0 []
          else Some (0, []))"

section \<open>Well-formedness\<close>

text \<open>
  The pool owns the cells \<open>as\<close> of its list of all objects; the cells \<open>fs\<close> of its
  free list are the ones that are not allocated, and the two counters count them.
\<close>

definition pool_cells :: "obj_pool \<Rightarrow> pheap \<Rightarrow> nat list \<Rightarrow> nat set \<Rightarrow> bool" where
  "pool_cells p h as fs \<longleftrightarrow>
     (\<forall>a \<in> set as. \<exists>ob. objs h a = Some ob \<and> po_pool ob = pool_id p \<and>
        (po_allocated ob \<longleftrightarrow> a \<notin> fs)) \<and>
     (\<forall>a ob. objs h a = Some ob \<and> po_pool ob = pool_id p \<longrightarrow> a \<in> set as)"

definition pool_wf :: "obj_pool \<Rightarrow> pheap \<Rightarrow> nat list \<Rightarrow> nat list \<Rightarrow> bool" where
  "pool_wf p h fs as \<longleftrightarrow>
     chain (next_of h) (available_objects p) fs \<and>
     chain (all_next_of h) (all_objects p) as \<and>
     set fs \<subseteq> set as \<and> pool_cells p h as (set fs) \<and>
     (\<forall>a. objs h a \<noteq> None \<longrightarrow> a < brk h) \<and>
     curr_size p = length as \<and>
     num_traveling_objects p + length fs = length as \<and>
     (max_size p \<noteq> 0 \<longrightarrow> curr_size p \<le> max_size p) \<and>
     \<not> destroy_started p"

definition pool_owned :: "obj_pool \<Rightarrow> pheap \<Rightarrow> nat set" where
  "pool_owned p h =
     {a. \<exists>ob. objs h a = Some ob \<and> po_pool ob = pool_id p \<and> po_allocated ob}"

lemma pool_wf_owned: "pool_wf p h fs as \<Longrightarrow> pool_owned p h = set as - set fs"
  unfolding pool_wf_def pool_cells_def pool_owned_def by fastforce

lemma pool_wf_distinct: "pool_wf p h fs as \<Longrightarrow> distinct fs \<and> distinct as"
  unfolding pool_wf_def by (auto dest: chain_distinct)

lemma pool_wf_traveling:
  assumes "pool_wf p h fs as"
  shows "num_traveling_objects p = card (pool_owned p h)"
proof -
  have "card (set as - set fs) = length as - length fs"
    using assms pool_wf_distinct [OF assms]
    by (simp add: pool_wf_def card_Diff_subset distinct_card)
  then show ?thesis
    using assms unfolding pool_wf_owned [OF assms] pool_wf_def by linarith
qed

lemma next_of_put_cell [simp]:
  "next_of (put_cell a ob h) = (next_of h)(a := po_next ob)"
  by (auto simp: next_of_def put_cell_def)

lemma all_next_of_put_cell [simp]:
  "all_next_of (put_cell a ob h) = (all_next_of h)(a := po_all_next ob)"
  by (auto simp: all_next_of_def put_cell_def)

lemma put_cell_simps [simp]:
  "objs (put_cell a ob h) = (objs h)(a \<mapsto> ob)"
  "brk (put_cell a ob h) = brk h"
  "malloc_ok (put_cell a ob h) = malloc_ok h"
  by (simp_all add: put_cell_def)

lemma malloc_Some:
  "malloc h = (Some a, h') \<Longrightarrow> a = brk h \<and> h' = h\<lparr>brk := Suc (brk h)\<rparr>"
  by (auto simp: malloc_def split: if_splits)

lemma malloc_None:
  "malloc h = (None, h') \<Longrightarrow> h' = h\<lparr>brk := Suc (brk h)\<rparr>"
  by (auto simp: malloc_def split: if_splits)

lemma next_of_brk [simp]: "next_of (h\<lparr>brk := n\<rparr>) = next_of h"
  "all_next_of (h\<lparr>brk := n\<rparr>) = all_next_of h"
  by (auto simp: next_of_def all_next_of_def)

lemma pool_wf_brk: "pool_wf p h fs as \<Longrightarrow> pool_wf p (h\<lparr>brk := Suc (brk h)\<rparr>) fs as"
  unfolding pool_wf_def pool_cells_def by (auto intro: less_SucI)

lemma pool_wf_fresh: "pool_wf p h fs as \<Longrightarrow> a \<ge> brk h \<Longrightarrow> objs h a = None \<and> a \<notin> set as"
proof -
  assume wf: "pool_wf p h fs as" and "a \<ge> brk h"
  then have "objs h a = None" unfolding pool_wf_def by (meson leD)
  moreover have "a \<in> set as \<Longrightarrow> objs h a \<noteq> None"
    using wf unfolding pool_wf_def pool_cells_def by fastforce
  ultimately show ?thesis by blast
qed

text \<open>One round of the growth loop adds a fresh cell to both lists.\<close>

lemma pool_wf_grow_step:
  assumes wf: "pool_wf p h fs as" and room: "max_size p \<noteq> 0 \<longrightarrow> curr_size p < max_size p"
  defines "a \<equiv> brk h"
  shows "pool_wf
    (p\<lparr>available_objects := Some a, all_objects := Some a, curr_size := Suc (curr_size p)\<rparr>)
    (put_cell a \<lparr>po_next = available_objects p, po_all_next = all_objects p,
       po_pool = pool_id p, po_allocated = False\<rparr> (h\<lparr>brk := Suc (brk h)\<rparr>))
    (a # fs) (a # as)"
proof -
  have fresh: "objs h a = None" "a \<notin> set as" using pool_wf_fresh [OF wf] by (auto simp: a_def)
  with wf have "a \<notin> set fs" by (auto simp: pool_wf_def)
  with fresh wf room show ?thesis
    unfolding pool_wf_def pool_cells_def by (auto simp: a_def less_Suc_eq)
qed

lemma grow_loop_wf:
  assumes "grow_loop n p h = (r, p', h')" and "pool_wf p h fs as"
    and "max_size p \<noteq> 0 \<longrightarrow> curr_size p + n \<le> max_size p"
  shows "\<exists>gs. pool_wf p' h' (gs @ fs) (gs @ as) \<and> length gs \<le> n \<and> (r = 0 \<longrightarrow> length gs = n) \<and>
    pool_id p' = pool_id p \<and> max_size p' = max_size p \<and> malloc_ok h' = malloc_ok h \<and>
    ((\<forall>k. malloc_ok h k) \<longrightarrow> r = 0)"
  using assms
proof (induction n p h arbitrary: fs as rule: grow_loop.induct)
  case (1 p h)
  then show ?case by auto
next
  case (2 n p h)
  show ?case
  proof (cases "malloc_ok h (brk h)")
    case False
    with 2(2) have "r = 1" "p' = p" "h' = h\<lparr>brk := Suc (brk h)\<rparr>" by (auto simp: malloc_def)
    with pool_wf_brk [OF 2(3)] False show ?thesis by (intro exI [of _ "[]"]) auto
  next
    case True
    define q where "q = p\<lparr>available_objects := Some (brk h), all_objects := Some (brk h),
      curr_size := Suc (curr_size p)\<rparr>"
    define k where "k = put_cell (brk h) \<lparr>po_next = available_objects p,
      po_all_next = all_objects p, po_pool = pool_id p, po_allocated = False\<rparr>
      (h\<lparr>brk := Suc (brk h)\<rparr>)"
    have m: "malloc h = (Some (brk h), h\<lparr>brk := Suc (brk h)\<rparr>)" using True by (simp add: malloc_def)
    have step: "grow_loop n q k = (r, p', h')" using 2(2) m by (simp add: q_def k_def)
    have wf: "pool_wf q k (brk h # fs) (brk h # as)"
      unfolding q_def k_def using 2(3,4) by (intro pool_wf_grow_step) auto
    have room: "max_size q \<noteq> 0 \<longrightarrow> curr_size q + n \<le> max_size q" using 2(4) by (simp add: q_def)
    obtain gs where gs: "pool_wf p' h' (gs @ brk h # fs) (gs @ brk h # as)" "length gs \<le> n"
      "r = 0 \<longrightarrow> length gs = n" "pool_id p' = pool_id q" "max_size p' = max_size q"
      "malloc_ok h' = malloc_ok k" "(\<forall>j. malloc_ok k j) \<longrightarrow> r = 0"
      using 2(1) [OF m [symmetric] refl, folded q_def k_def, OF step wf room] by auto
    then show ?thesis by (intro exI [of _ "gs @ [brk h]"]) (auto simp: q_def k_def)
  qed
qed


lemma pool_grow_size_small:
  assumes "n < 2 ^ 30"
  shows "pool_grow_size n = 3 * n div 2 + 1"
proof -
  have "(n * 3) mod 2 ^ 64 = n * 3" and q: "n * 3 div 2 < 2 ^ 31" using assms by auto
  moreover have "c_int_of_nat (n * 3 div 2) = int (n * 3 div 2)"
    using q by (simp add: c_int_of_nat_def Let_def)
  moreover have "(int (n * 3 div 2) + 1) mod 2 ^ 64 = int (n * 3 div 2) + 1"
    using q by (intro mod_pos_pos_trivial) auto
  ultimately show ?thesis unfolding pool_grow_size_def by (simp add: mult.commute nat_add_distrib)
qed

lemma increase_size_wf:
  assumes "obj_pool_increase_size_to p new_size h = (r, p', h')" and "pool_wf p h fs as"
  shows "\<exists>gs. pool_wf p' h' (gs @ fs) (gs @ as) \<and> pool_id p' = pool_id p \<and>
    max_size p' = max_size p \<and> malloc_ok h' = malloc_ok h \<and>
    (r = 0 \<longrightarrow> gs \<noteq> [] \<and> (max_size p = 0 \<longrightarrow> length gs + length as = new_size)) \<and>
    ((\<forall>k. malloc_ok h k) \<and> max_size p = 0 \<and> curr_size p < new_size \<longrightarrow> r = 0)"
proof (cases "r = 1 \<and> p' = p \<and> h' = h \<and>
    (new_size \<le> curr_size p \<or> max_size p \<noteq> 0)")
  case True
  with assms(2) show ?thesis by (intro exI [of _ "[]"]) auto
next
  case False
  then obtain n where n: "grow_loop n p h = (r, p', h')" "0 < n"
    "max_size p \<noteq> 0 \<longrightarrow> curr_size p + n \<le> max_size p"
    "max_size p = 0 \<longrightarrow> n = new_size - curr_size p" "curr_size p < new_size"
    using assms(1) by (auto simp: obj_pool_increase_size_to_def split: if_splits)
  from grow_loop_wf [OF n(1) assms(2) n(3)] obtain gs where
    "pool_wf p' h' (gs @ fs) (gs @ as)" "r = 0 \<longrightarrow> length gs = n" "pool_id p' = pool_id p"
    "max_size p' = max_size p" "malloc_ok h' = malloc_ok h" "(\<forall>k. malloc_ok h k) \<longrightarrow> r = 0"
    by blast
  moreover have "curr_size p = length as" using assms(2) by (simp add: pool_wf_def)
  ultimately show ?thesis using n by (intro exI [of _ gs]) auto
qed

text \<open>Taking the head of the free list.\<close>

lemma pool_wf_take:
  assumes wf: "pool_wf p h (a # fs) as"
  shows "\<exists>ob. objs h a = Some ob \<and> available_objects p = Some a \<and>
    pool_wf (p\<lparr>available_objects := po_next ob,
        num_traveling_objects := Suc (num_traveling_objects p)\<rparr>)
      (put_cell a (ob\<lparr>po_allocated := True\<rparr>) h) fs as"
proof -
  from wf obtain ob where ob: "objs h a = Some ob" "po_pool ob = pool_id p"
    unfolding pool_wf_def pool_cells_def by fastforce
  have d: "a \<notin> set fs" "available_objects p = Some a"
    using wf pool_wf_distinct [OF wf] by (auto simp: pool_wf_def)
  have keep: "next_of (put_cell a (ob\<lparr>po_allocated := True\<rparr>) h) = next_of h"
    "all_next_of (put_cell a (ob\<lparr>po_allocated := True\<rparr>) h) = all_next_of h"
    using ob by (auto simp: next_of_def all_next_of_def)
  have "next_of h a = po_next ob" using ob by (simp add: next_of_def)
  with wf ob d keep show ?thesis
    unfolding pool_wf_def pool_cells_def by auto
qed

lemma pool_wf_empty: "pool_wf p h fs as \<Longrightarrow> available_objects p = None \<longleftrightarrow> fs = []"
  unfolding pool_wf_def by (cases fs) auto

lemma alloc_object_wf:
  assumes wf: "pool_wf p h fs as"
  obtains r p' h' gs where
    "obj_pool_alloc_object (Some p) h = Some (r, Some p', h')"
    "pool_id p' = pool_id p" "max_size p' = max_size p" "malloc_ok h' = malloc_ok h"
    "r = None \<Longrightarrow> pool_wf p' h' (gs @ fs) (gs @ as)"
    "\<And>a. r = Some a \<Longrightarrow> \<exists>fs'. gs @ fs = a # fs' \<and> pool_wf p' h' fs' (gs @ as)"
    "(\<forall>k. malloc_ok h k) \<Longrightarrow> max_size p = 0 \<Longrightarrow> curr_size p < 2 ^ 30 \<Longrightarrow> r \<noteq> None"
proof (cases fs)
  case (Cons a fs')
  obtain ob where ob: "objs h a = Some ob" "available_objects p = Some a"
    "pool_wf (p\<lparr>available_objects := po_next ob,
        num_traveling_objects := Suc (num_traveling_objects p)\<rparr>)
      (put_cell a (ob\<lparr>po_allocated := True\<rparr>) h) fs' as"
    using pool_wf_take [OF wf [unfolded Cons]] by blast
  moreover have "\<not> destroy_started p" using wf by (simp add: pool_wf_def)
  ultimately have "obj_pool_alloc_object (Some p) h = Some (Some a,
      Some (p\<lparr>available_objects := po_next ob,
        num_traveling_objects := Suc (num_traveling_objects p)\<rparr>),
      put_cell a (ob\<lparr>po_allocated := True\<rparr>) h)"
    by (simp add: obj_pool_alloc_object_def)
  from that [OF this, of "[]"] ob(3) Cons show ?thesis by simp
next
  case Nil
  obtain r p1 h1 where inc:
    "obj_pool_increase_size_to p (pool_grow_size (curr_size p)) h = (r, p1, h1)"
    by (metis prod_cases3)
  from increase_size_wf [OF inc wf] obtain gs where gs:
    "pool_wf p1 h1 (gs @ fs) (gs @ as)" "pool_id p1 = pool_id p" "max_size p1 = max_size p"
    "malloc_ok h1 = malloc_ok h" "r = 0 \<longrightarrow> gs \<noteq> []"
    "(\<forall>k. malloc_ok h k) \<and> max_size p = 0 \<and> curr_size p < pool_grow_size (curr_size p) \<longrightarrow> r = 0"
    by blast
  have empty: "available_objects p = None" "\<not> destroy_started p"
    using wf Nil pool_wf_empty [OF wf] by (auto simp: pool_wf_def)
  show ?thesis
  proof (cases "r = 0")
    case False
    have "\<not> ((\<forall>k. malloc_ok h k) \<and> max_size p = 0 \<and> curr_size p < 2 ^ 30)"
      using False gs(6) by (auto simp: pool_grow_size_small)
    with False gs inc empty show ?thesis
      by (intro that [of None p1 h1 gs]) (auto simp: obj_pool_alloc_object_def)
  next
    case True
    with gs(5) obtain a gs' where a: "gs = a # gs'" by (cases gs) auto
    with gs(1) have wf1: "pool_wf p1 h1 (a # gs' @ fs) (gs @ as)" by simp
    obtain ob where ob: "objs h1 a = Some ob" "available_objects p1 = Some a"
      "pool_wf (p1\<lparr>available_objects := po_next ob,
          num_traveling_objects := Suc (num_traveling_objects p1)\<rparr>)
        (put_cell a (ob\<lparr>po_allocated := True\<rparr>) h1) (gs' @ fs) (gs @ as)"
      using pool_wf_take [OF wf1] by blast
    then have "obj_pool_alloc_object (Some p) h = Some (Some a,
        Some (p1\<lparr>available_objects := po_next ob,
          num_traveling_objects := Suc (num_traveling_objects p1)\<rparr>),
        put_cell a (ob\<lparr>po_allocated := True\<rparr>) h1)"
      using inc empty True by (simp add: obj_pool_alloc_object_def)
    from that [OF this, of gs] ob(3) gs a show ?thesis by simp
  qed
qed

lemma put_object_wf:
  assumes wf: "pool_wf p h fs as" and a: "a \<in> pool_owned p h"
  shows "\<exists>p' h'. obj_pool_put_object (Some p) (Some a) h = Some (Some p', h') \<and>
    pool_id p' = pool_id p \<and> max_size p' = max_size p \<and> malloc_ok h' = malloc_ok h \<and>
    pool_wf p' h' (a # fs) as"
proof -
  from a obtain ob where ob: "objs h a = Some ob" "po_pool ob = pool_id p" "po_allocated ob"
    by (auto simp: pool_owned_def)
  have mem: "a \<in> set as" "a \<notin> set fs" using a pool_wf_owned [OF wf] by auto
  define h' where "h' = put_cell a (ob\<lparr>po_allocated := False, po_next := available_objects p\<rparr>) h"
  have "all_next_of h a = po_all_next ob" using ob by (simp add: all_next_of_def)
  then have keep: "all_next_of h' = all_next_of h" "next_of h' = (next_of h)(a := available_objects p)"
    by (auto simp: h'_def)
  have "set fs \<subset> set as" using wf mem by (auto simp: pool_wf_def)
  then have "length fs < length as"
    using pool_wf_distinct [OF wf] psubset_card_mono [of "set as" "set fs"] by (simp add: distinct_card)
  then have "num_traveling_objects p > 0" using wf unfolding pool_wf_def by linarith
  with wf ob mem keep have "pool_wf (p\<lparr>available_objects := Some a,
      num_traveling_objects := num_traveling_objects p - 1\<rparr>) h' (a # fs) as"
    unfolding pool_wf_def pool_cells_def by (auto simp: h'_def)
  moreover have "\<not> destroy_started p" using wf by (simp add: pool_wf_def)
  ultimately show ?thesis
    using ob by (simp add: obj_pool_put_object_def h'_def)
qed

lemma put_object_idle:
  assumes wf: "pool_wf p h fs as" and "objs h a \<noteq> None" and "a \<notin> pool_owned p h"
  shows "obj_pool_put_object (Some p) (Some a) h = Some (Some p, h)"
  using assms by (auto simp: obj_pool_put_object_def pool_owned_def)


section \<open>The interface of an object pool\<close>

text \<open>
  What a client of a pool relies on: an allocation never faults and hands out an object that
  nobody holds, a release of a held object never faults and takes back that object only.
\<close>

fun alloc_many :: "('p \<Rightarrow> (ptr \<times> 'p) option) \<Rightarrow> nat \<Rightarrow> 'p \<Rightarrow> (nat list \<times> 'p) option" where
  "alloc_many alloc 0 p = Some ([], p)"
| "alloc_many alloc (Suc n) p =
     (case alloc p of
        None \<Rightarrow> None
      | Some (None, q) \<Rightarrow> Some ([], q)
      | Some (Some a, q) \<Rightarrow> map_option (\<lambda>(as, q'). (a # as, q')) (alloc_many alloc n q))"

locale object_pool =
  fixes alloc :: "'p \<Rightarrow> (ptr \<times> 'p) option"
    and put :: "ptr \<Rightarrow> 'p \<Rightarrow> 'p option"
    and owned :: "'p \<Rightarrow> nat set"
    and wf :: "'p \<Rightarrow> bool"
  assumes alloc_returns: "wf p \<Longrightarrow> \<exists>r q. alloc p = Some (r, q) \<and> wf q \<and>
      (case r of None \<Rightarrow> owned q = owned p
               | Some a \<Rightarrow> a \<notin> owned p \<and> owned q = insert a (owned p))"
    and put_returns: "wf p \<Longrightarrow> a \<in> owned p \<Longrightarrow>
      \<exists>q. put (Some a) p = Some q \<and> wf q \<and> owned q = owned p - {a}"
begin

lemma alloc_Some:
  assumes "wf p" and "alloc p = Some (Some a, q)"
  shows "wf q" and "a \<notin> owned p" and "owned q = insert a (owned p)"
  using alloc_returns [OF assms(1)] assms(2) by auto

lemma alloc_None:
  assumes "wf p" and "alloc p = Some (None, q)"
  shows "wf q" and "owned q = owned p"
  using alloc_returns [OF assms(1)] assms(2) by auto

lemma alloc_no_fault: "wf p \<Longrightarrow> alloc p \<noteq> None"
  using alloc_returns by fastforce

lemma alloc_put:
  assumes "wf p" and "alloc p = Some (Some a, q)"
  shows "\<exists>p'. put (Some a) q = Some p' \<and> wf p' \<and> owned p' = owned p"
  using alloc_Some [OF assms] put_returns [of q a] by auto

lemma alloc_many_distinct:
  assumes "wf p"
  shows "\<exists>as q. alloc_many alloc n p = Some (as, q) \<and> wf q \<and> distinct as \<and>
    set as \<inter> owned p = {} \<and> owned q = owned p \<union> set as"
  using assms
proof (induction n arbitrary: p)
  case 0
  then show ?case by simp
next
  case (Suc n)
  obtain r q where rq: "alloc p = Some (r, q)" using alloc_no_fault [OF Suc.prems] by auto
  show ?case
  proof (cases r)
    case None
    with rq alloc_None [OF Suc.prems] show ?thesis by simp
  next
    case (Some a)
    note q = alloc_Some [OF Suc.prems rq [unfolded Some]]
    from Suc.IH [OF q(1)] obtain as q' where
      "alloc_many alloc n q = Some (as, q')" "wf q'" "distinct as"
      "set as \<inter> owned q = {}" "owned q' = owned q \<union> set as"
      by blast
    with q rq Some show ?thesis by auto
  qed
qed

end

section \<open>The pool of the code is one\<close>

type_synonym pool_state = "obj_pool option \<times> pheap"

definition pool_alloc :: "pool_state \<Rightarrow> (ptr \<times> pool_state) option" where
  "pool_alloc s = obj_pool_alloc_object (fst s) (snd s)"

definition pool_put :: "ptr \<Rightarrow> pool_state \<Rightarrow> pool_state option" where
  "pool_put a s = obj_pool_put_object (fst s) a (snd s)"

definition pool_held :: "pool_state \<Rightarrow> nat set" where
  "pool_held s = (case fst s of None \<Rightarrow> {} | Some p \<Rightarrow> pool_owned p (snd s))"

definition pool_ok :: "pool_state \<Rightarrow> bool" where
  "pool_ok s \<longleftrightarrow> (\<exists>p fs as. fst s = Some p \<and> pool_wf p (snd s) fs as)"

lemma pool_alloc_law:
  assumes "pool_ok s"
  shows "\<exists>r q. pool_alloc s = Some (r, q) \<and> pool_ok q \<and>
    (case r of None \<Rightarrow> pool_held q = pool_held s
             | Some a \<Rightarrow> a \<notin> pool_held s \<and> pool_held q = insert a (pool_held s))"
proof -
  from assms obtain p fs as where s: "fst s = Some p" and wf: "pool_wf p (snd s) fs as"
    by (auto simp: pool_ok_def)
  from alloc_object_wf [OF wf] obtain r p' h' gs where res:
    "obj_pool_alloc_object (Some p) (snd s) = Some (r, Some p', h')"
    "r = None \<Longrightarrow> pool_wf p' h' (gs @ fs) (gs @ as)"
    "\<And>a. r = Some a \<Longrightarrow> \<exists>fs'. gs @ fs = a # fs' \<and> pool_wf p' h' fs' (gs @ as)"
    by metis
  show ?thesis
  proof (cases r)
    case None
    then have wf': "pool_wf p' h' (gs @ fs) (gs @ as)" by (rule res(2))
    have "pool_owned p' h' = pool_owned p (snd s)"
      using pool_wf_distinct [OF wf'] wf
      by (auto simp: pool_wf_owned [OF wf'] pool_wf_owned [OF wf])
    with None wf' res(1) s show ?thesis
      by (auto simp: pool_alloc_def pool_ok_def pool_held_def)
  next
    case (Some a)
    with res(3) obtain fs' where fs': "gs @ fs = a # fs'" and wf': "pool_wf p' h' fs' (gs @ as)"
      by blast
    have d: "distinct (gs @ as)" "set fs \<subseteq> set as" "distinct fs"
      using pool_wf_distinct [OF wf'] pool_wf_distinct [OF wf] wf by (auto simp: pool_wf_def)
    then have "distinct (gs @ fs)" by auto
    with fs' have af: "a \<notin> set fs'" "insert a (set fs') = set gs \<union> set fs" "a \<in> set gs \<union> set fs"
      by (simp_all flip: set_append)
    have "pool_owned p' h' = insert a (pool_owned p (snd s)) \<and> a \<notin> pool_owned p (snd s)"
      unfolding pool_wf_owned [OF wf'] pool_wf_owned [OF wf] using d af by auto
    with Some wf' res(1) s show ?thesis
      by (auto simp: pool_alloc_def pool_ok_def pool_held_def)
  qed
qed

lemma pool_put_law:
  assumes "pool_ok s" and "a \<in> pool_held s"
  shows "\<exists>q. pool_put (Some a) s = Some q \<and> pool_ok q \<and> pool_held q = pool_held s - {a}"
proof -
  from assms obtain p fs as where s: "fst s = Some p" and wf: "pool_wf p (snd s) fs as"
    and a: "a \<in> pool_owned p (snd s)"
    by (auto simp: pool_ok_def pool_held_def)
  from put_object_wf [OF wf a] obtain p' h' where put:
    "obj_pool_put_object (Some p) (Some a) (snd s) = Some (Some p', h')" "pool_wf p' h' (a # fs) as"
    by blast
  then have "pool_owned p' h' = pool_owned p (snd s) - {a}"
    by (auto simp: pool_wf_owned [OF wf] pool_wf_owned [OF put(2)])
  with put s show ?thesis by (auto simp: pool_put_def pool_ok_def pool_held_def)
qed

interpretation op: object_pool pool_alloc pool_put pool_held pool_ok
  by unfold_locales (fact pool_alloc_law pool_put_law)+


section \<open>Creation and destruction\<close>

definition heap_ok :: "pheap \<Rightarrow> bool" where
  "heap_ok h \<longleftrightarrow> (\<forall>a ob. objs h a = Some ob \<longrightarrow> a < brk h \<and> po_pool ob < brk h)"

lemma pool_wf_new:
  assumes "heap_ok h" and "pool_id p = brk h" and "available_objects p = None"
    and "all_objects p = None" and "curr_size p = 0" and "num_traveling_objects p = 0"
    and "\<not> destroy_started p"
  shows "pool_wf p (h\<lparr>brk := Suc (brk h)\<rparr>) [] []"
  using assms unfolding pool_wf_def pool_cells_def heap_ok_def
  by (auto intro: less_SucI) (metis less_irrefl)

lemma pool_wf_safety: "pool_wf (p\<lparr>thread_safety_needed := b\<rparr>) h fs as = pool_wf p h fs as"
  by (simp add: pool_wf_def pool_cells_def)

lemma next_of_free_cell: "next_of (free_cell a h) = (next_of h)(a := None)"
  by (auto simp: next_of_def free_cell_def)

lemma destroy_free_loop_frees:
  assumes "chain (next_of h) (available_objects p) fs" and "\<forall>a \<in> set fs. objs h a \<noteq> None"
  shows "destroy_free_loop p h =
    Some (p\<lparr>available_objects := None\<rparr>, h\<lparr>objs := objs h |` (- set fs)\<rparr>)"
  using assms
proof (induction fs arbitrary: p h)
  case Nil
  then show ?case by (simp add: destroy_free_loop.simps)
next
  case (Cons a fs)
  from Cons.prems obtain ob where ob: "available_objects p = Some a" "objs h a = Some ob"
    "chain (next_of h) (next_of h a) fs"
    by auto
  have d: "a \<notin> set fs" using chain_distinct [OF Cons.prems(1)] by simp
  let ?p = "p\<lparr>available_objects := po_next ob\<rparr>"
  have "next_of h a = po_next ob" using ob by (simp add: next_of_def)
  then have "chain (next_of (free_cell a h)) (available_objects ?p) fs"
    using ob d by (simp add: next_of_free_cell)
  moreover have "\<forall>b \<in> set fs. objs (free_cell a h) b \<noteq> None"
    using Cons.prems d by (auto simp: free_cell_def)
  ultimately have "destroy_free_loop ?p (free_cell a h) =
    Some (?p\<lparr>available_objects := None\<rparr>,
      free_cell a h\<lparr>objs := objs (free_cell a h) |` (- set fs)\<rparr>)"
    by (rule Cons.IH)
  moreover have "objs (free_cell a h) |` (- set fs) = objs h |` (- set (a # fs))"
    by (auto simp: free_cell_def restrict_map_def)
  ultimately show ?case
    using ob by (subst destroy_free_loop.simps) (simp add: free_cell_def)
qed

lemma pool_wf_free_cells: "pool_wf p h fs as \<Longrightarrow> \<forall>a \<in> set fs. objs h a \<noteq> None"
  unfolding pool_wf_def pool_cells_def by fastforce

lemma destroy_no_callback:
  assumes wf: "pool_wf p h fs as" and cb: "\<not> pool_callback p \<or> pool_owned p h = {}"
  shows "obj_pool_destroy (Some p) h =
    Some (card (pool_owned p h), [], h\<lparr>objs := objs h |` (- set fs)\<rparr>)"
proof -
  have "chain (next_of h) (available_objects (p\<lparr>destroy_started := True\<rparr>)) fs"
    using wf by (simp add: pool_wf_def)
  from destroy_free_loop_frees [OF this pool_wf_free_cells [OF wf]] cb show ?thesis
    by (auto simp: obj_pool_destroy_def pool_wf_traveling [OF wf])
qed

lemma obj_pool_init_wf:
  assumes ok: "heap_ok h" and init: "obj_pool_init (Some nm) sz mn mx ts h = Some (Some p, h')"
  shows "\<exists>fs. pool_wf p h' fs fs \<and> max_size p = mx \<and> (mx = 0 \<longrightarrow> length fs = mn) \<and>
    malloc_ok h' = malloc_ok h"
proof -
  have m: "malloc h = (Some (brk h), h\<lparr>brk := Suc (brk h)\<rparr>)"
    using init by (auto simp: obj_pool_init_def malloc_def split: if_splits)
  define q where "q = \<lparr>pool_id = brk h, available_objects = None, all_objects = None,
      pool_name = nm, destroy_started = False, pool_callback = False, object_byte_size = sz,
      min_size = mn, max_size = mx, curr_size = 0, num_traveling_objects = 0,
      thread_safety_needed = False\<rparr>"
  obtain r p1 h2 where inc:
    "obj_pool_increase_size_to q mn (h\<lparr>brk := Suc (brk h)\<rparr>) = (r, p1, h2)"
    by (metis prod_cases3)
  have r0: "r = 0" and p: "p = p1\<lparr>thread_safety_needed := ts\<rparr>" and h': "h' = h2"
    using init m inc [unfolded q_def]
    by (auto simp: obj_pool_init_def Let_def bind_eq_Some_conv split: if_splits)
  have "pool_wf q (h\<lparr>brk := Suc (brk h)\<rparr>) [] []"
    using ok by (intro pool_wf_new) (auto simp: q_def)
  from increase_size_wf [OF inc this] r0 p h' show ?thesis
    by (auto simp: pool_wf_safety q_def)
qed


lemma obj_pool_init_ok:
  assumes ok: "heap_ok h" and mem: "\<forall>k. malloc_ok h k" and "0 < mn"
  shows "\<exists>p h'. obj_pool_init (Some nm) sz mn 0 ts h = Some (Some p, h')"
proof -
  have m: "malloc h = (Some (brk h), h\<lparr>brk := Suc (brk h)\<rparr>)" using mem by (simp add: malloc_def)
  define q where "q = \<lparr>pool_id = brk h, available_objects = None, all_objects = None,
      pool_name = nm, destroy_started = False, pool_callback = False, object_byte_size = sz,
      min_size = mn, max_size = 0, curr_size = 0, num_traveling_objects = 0,
      thread_safety_needed = False\<rparr>"
  obtain r p1 h2 where inc:
    "obj_pool_increase_size_to q mn (h\<lparr>brk := Suc (brk h)\<rparr>) = (r, p1, h2)"
    by (metis prod_cases3)
  have "pool_wf q (h\<lparr>brk := Suc (brk h)\<rparr>) [] []"
    using ok by (intro pool_wf_new) (auto simp: q_def)
  from increase_size_wf [OF inc this] mem assms(3) have "r = 0" by (auto simp: q_def)
  with m inc show ?thesis by (simp add: obj_pool_init_def q_def)
qed

section \<open>Walking the outstanding objects\<close>

text \<open>
  Both loops that visit the outstanding objects start at \<open>all_objects\<close> but follow the
  free-list link \<open>next\<close> instead of \<open>all_next\<close>.
\<close>

lemma walk_loop_idle:
  assumes "chain (next_of h) q fs" and "\<forall>a \<in> set fs. \<exists>ob. objs h a = Some ob \<and> \<not> po_allocated ob"
  shows "walk_loop q h n called = Some (n, called)"
  using assms
proof (induction fs arbitrary: q)
  case Nil
  then show ?case by (simp add: walk_loop.simps)
next
  case (Cons a fs)
  then obtain ob where ob: "q = Some a" "objs h a = Some ob" "\<not> po_allocated ob" by auto
  then have "next_of h a = po_next ob" by (simp add: next_of_def)
  with Cons ob show ?case by (subst walk_loop.simps) simp
qed

lemma chain_from_member:
  assumes "chain nx p cs" and "c \<in> set cs"
  obtains ds where "chain nx (Some c) (c # ds)" and "set (c # ds) \<subseteq> set cs"
proof -
  from assms(2) obtain xs ds where split: "cs = xs @ c # ds" by (meson split_list)
  with assms(1) have "chain nx (Some c) (c # ds)" by (auto dest: chain_suffix)
  with split that show thesis by auto
qed

lemma pool_wf_idle: "pool_wf p h fs as \<Longrightarrow> \<forall>a \<in> set fs. \<exists>ob. objs h a = Some ob \<and> \<not> po_allocated ob"
  unfolding pool_wf_def pool_cells_def by fastforce

section \<open>Properties\<close>

definition empty_heap :: pheap where
  "empty_heap = \<lparr>objs = Map.empty, brk = 0, malloc_ok = (\<lambda>_. True)\<rparr>"

lemma empty_heap_ok: "heap_ok empty_heap" "\<forall>k. malloc_ok empty_heap k"
  by (simp_all add: heap_ok_def empty_heap_def)

definition ex_heap :: pheap where
  "ex_heap = \<lparr>objs = [1 \<mapsto> \<lparr>po_next = None, po_all_next = None, po_pool = 0, po_allocated = True\<rparr>,
                  2 \<mapsto> \<lparr>po_next = None, po_all_next = Some 1, po_pool = 0, po_allocated = False\<rparr>],
             brk = 3, malloc_ok = (\<lambda>_. True)\<rparr>"

definition ex_pool :: obj_pool where
  "ex_pool = \<lparr>pool_id = 0, available_objects = Some 2, all_objects = Some 2,
     pool_name = ''ex'', destroy_started = False, pool_callback = False, object_byte_size = 8,
     min_size = 2, max_size = 0, curr_size = 2, num_traveling_objects = 1,
     thread_safety_needed = False\<rparr>"

lemma ex_pool_wf: "pool_wf ex_pool ex_heap [2] [2, 1]"
  by (simp add: pool_wf_def pool_cells_def ex_pool_def ex_heap_def next_of_def all_next_of_def)

lemma ex_pool_wf_callback: "pool_wf (ex_pool\<lparr>pool_callback := True\<rparr>) ex_heap [2] [2, 1]"
  by (simp add: pool_wf_def pool_cells_def ex_pool_def ex_heap_def next_of_def all_next_of_def)

lemma ex_pool_ok: "pool_ok (Some ex_pool, ex_heap)"
  using ex_pool_wf by (auto simp: pool_ok_def)

text \<open>
  C20. In a well-formed pool any number of allocations runs without touching memory that is
  not the pool's, and hands out objects that are pairwise different and that nobody held
  before; afterwards exactly these are held in addition.
\<close>
theorem obj_pool_allocations_distinct:
  assumes "pool_ok s"
  shows "\<exists>as q. alloc_many pool_alloc n s = Some (as, q) \<and> pool_ok q \<and> distinct as \<and>
    set as \<inter> pool_held s = {} \<and> pool_held q = pool_held s \<union> set as"
  using assms by (rule op.alloc_many_distinct)

theorem obj_pool_allocations_distinct_witness:
  "\<exists>as q. alloc_many pool_alloc 3 (Some ex_pool, ex_heap) = Some (as, q) \<and> pool_ok q \<and>
    distinct as \<and> set as \<inter> pool_held (Some ex_pool, ex_heap) = {} \<and>
    pool_held q = pool_held (Some ex_pool, ex_heap) \<union> set as"
  by (rule obj_pool_allocations_distinct [OF ex_pool_ok])

text \<open>
  An object that was allocated can be put back, and then the pool holds exactly what it
  held before; putting back an object that is not allocated changes nothing.
\<close>
theorem obj_pool_put_returns_object:
  assumes "pool_ok s"
  shows "(\<forall>a q. pool_alloc s = Some (Some a, q) \<longrightarrow>
        (\<exists>s'. pool_put (Some a) q = Some s' \<and> pool_ok s' \<and> pool_held s' = pool_held s)) \<and>
    (\<forall>a. objs (snd s) a \<noteq> None \<and> a \<notin> pool_held s \<longrightarrow> pool_put (Some a) s = Some s)"
proof (intro conjI allI impI)
  fix a q
  assume "pool_alloc s = Some (Some a, q)"
  with assms show "\<exists>s'. pool_put (Some a) q = Some s' \<and> pool_ok s' \<and> pool_held s' = pool_held s"
    by (rule op.alloc_put)
next
  fix a
  assume "objs (snd s) a \<noteq> None \<and> a \<notin> pool_held s"
  with assms show "pool_put (Some a) s = Some s"
    by (cases s) (auto simp: pool_ok_def pool_held_def pool_put_def dest: put_object_idle)
qed

theorem obj_pool_put_returns_object_witness:
  "(\<exists>q s'. pool_alloc (Some ex_pool, ex_heap) = Some (Some 2, q) \<and> pool_put (Some 2) q = Some s' \<and> pool_ok s' \<and>
      pool_held s' = pool_held (Some ex_pool, ex_heap)) \<and>
    pool_put (Some 2) (Some ex_pool, ex_heap) = Some (Some ex_pool, ex_heap)"
proof -
  have "objs ex_heap 2 \<noteq> None \<and> 2 \<notin> pool_held (Some ex_pool, ex_heap)"
    by (auto simp: pool_held_def pool_owned_def ex_heap_def)
  moreover obtain q where "pool_alloc (Some ex_pool, ex_heap) = Some (Some 2, q)"
    by (simp add: pool_alloc_def obj_pool_alloc_object_def ex_pool_def ex_heap_def)
  ultimately show ?thesis
    using obj_pool_put_returns_object [OF ex_pool_ok] unfolding snd_conv by blast
qed

text \<open>
  Destroying a well-formed pool that has no callback frees exactly the idle objects,
  keeps the ones still held, and returns how many these are.
\<close>
theorem obj_pool_destroy_reports_unreturned:
  assumes "pool_wf p h fs as" and "\<not> pool_callback p"
  shows "obj_pool_destroy (Some p) h =
    Some (card (pool_owned p h), [], h\<lparr>objs := objs h |` (- set fs)\<rparr>)"
  using assms by (simp add: destroy_no_callback)

theorem obj_pool_destroy_reports_unreturned_witness:
  "\<not> pool_callback ex_pool \<and> obj_pool_destroy (Some ex_pool) ex_heap =
    Some (card (pool_owned ex_pool ex_heap), [], ex_heap\<lparr>objs := objs ex_heap |` (- {2})\<rparr>)"
  using obj_pool_destroy_reports_unreturned [OF ex_pool_wf] by (simp add: ex_pool_def)

text \<open>
  With a callback set and objects outstanding, \<open>obj_pool_destroy\<close> reads memory it has
  just freed whenever the newest cell of the pool is idle: the callback loop starts at
  \<open>all_objects\<close>, which the first loop freed.
\<close>
theorem obj_pool_destroy_use_after_free:
  assumes wf: "pool_wf p h fs (a # as)" and idle: "a \<in> set fs"
    and "pool_callback p" and "pool_owned p h \<noteq> {}"
  shows "obj_pool_destroy (Some p) h = None"
proof -
  have "chain (next_of h) (available_objects (p\<lparr>destroy_started := True\<rparr>)) fs"
    and all: "all_objects p = Some a"
    using wf by (simp_all add: pool_wf_def)
  note frees = destroy_free_loop_frees [OF this(1) pool_wf_free_cells [OF wf]]
  have "finite (pool_owned p h)" by (simp add: pool_wf_owned [OF wf])
  then have "num_traveling_objects p \<noteq> 0"
    using assms(4) by (simp add: pool_wf_traveling [OF wf])
  with frees all idle assms(3) show ?thesis
    by (simp add: obj_pool_destroy_def destroy_callback_loop.simps)
qed

theorem obj_pool_destroy_use_after_free_witness:
  "obj_pool_destroy (Some (ex_pool\<lparr>pool_callback := True\<rparr>)) ex_heap = None"
proof -
  have "1 \<in> pool_owned (ex_pool\<lparr>pool_callback := True\<rparr>) ex_heap"
    by (simp add: pool_owned_def ex_pool_def ex_heap_def)
  then show ?thesis
    by (intro obj_pool_destroy_use_after_free [OF ex_pool_wf_callback]) auto
qed

text \<open>
  \<open>obj_pool_walk\<close> reports no object at all whenever the newest cell of the pool is
  idle, however many objects are outstanding.
\<close>
theorem obj_pool_walk_misses_objects:
  assumes wf: "pool_wf p h fs (a # as)" and idle: "a \<in> set fs"
  shows "obj_pool_walk (Some p) h = Some (0, [])"
proof -
  from wf have "chain (next_of h) (available_objects p) fs" and all: "all_objects p = Some a"
    by (simp_all add: pool_wf_def)
  from chain_from_member [OF this(1) idle] obtain ds
    where ds: "chain (next_of h) (Some a) (a # ds)" "set (a # ds) \<subseteq> set fs" by blast
  have "\<forall>b \<in> set (a # ds). \<exists>ob. objs h b = Some ob \<and> \<not> po_allocated ob"
    using pool_wf_idle [OF wf] ds(2) by blast
  from walk_loop_idle [OF ds(1) this] all show ?thesis by (simp add: obj_pool_walk_def)
qed

theorem obj_pool_walk_misses_objects_witness:
  "obj_pool_walk (Some ex_pool) ex_heap = Some (0, []) \<and> num_traveling_objects ex_pool = 1"
  using obj_pool_walk_misses_objects [OF ex_pool_wf] by (simp add: ex_pool_def)

end
