(* ===== verification/Linked_List.thy ===== *)
theory Linked_List
  imports Obj_Pool
begin

text \<open>
  The linked list of wv_ipc/linked_list.c and of the macros of wv_ipc/linked_list.h, at the
  level of its nodes, which come from the list's own object pool.  The payload \<open>void *\<close>
  is the type variable; a NULL payload is None.  \<open>list_foreach_start\<close> \dots
  \<open>list_foreach_end\<close> is one loop function that takes the loop's body as an argument.  The
  second half of the theory gives the sequence operations that the list implements, and the
  interface through which the other components use lists.
\<close>

section \<open>State\<close>

record 'a node =
  n_obj :: 'a
  n_next :: ptr

record 'a l_list =
  node_pool :: "obj_pool option"
  l_first :: ptr
  l_last :: ptr
  l_size :: nat
  l_mem :: pheap
  l_nodes :: "nat \<Rightarrow> 'a node option"

section \<open>Operations\<close>

definition list_init :: "pheap \<Rightarrow> ('a l_list option \<times> pheap) option" where
  "list_init h =
     (case malloc h of
        (None, h1) \<Rightarrow> Some (None, h1)
      | (Some _, h1) \<Rightarrow>
          do {
            (pool, h2) \<leftarrow> obj_pool_init (Some ''list node'') 16 4 0 False h1;
            (case pool of
               None \<Rightarrow> Some (None, h2)
             | Some p \<Rightarrow>
                 Some (Some \<lparr>node_pool = Some p, l_first = None, l_last = None, l_size = 0,
                             l_mem = h2, l_nodes = Map.empty\<rparr>, h2))
          })"

definition node_alloc :: "'a l_list \<Rightarrow> (ptr \<times> 'a l_list) option" where
  "node_alloc l =
     do {
       (r, pool, h) \<leftarrow> obj_pool_alloc_object (node_pool l) (l_mem l);
       Some (r, l\<lparr>node_pool := pool, l_mem := h\<rparr>)
     }"

definition node_put :: "nat \<Rightarrow> 'a l_list \<Rightarrow> 'a l_list option" where
  "node_put c l =
     do {
       (pool, h) \<leftarrow> obj_pool_put_object (node_pool l) (Some c) (l_mem l);
       Some (l\<lparr>node_pool := pool, l_mem := h\<rparr>)
     }"

definition list_push_front :: "'a l_list option \<Rightarrow> 'a option \<Rightarrow> (rc \<times> 'a l_list option) option" where
  "list_push_front lst obj =
     (case (lst, obj) of
        (Some l, Some v) \<Rightarrow>
          do {
            (n, l1) \<leftarrow> node_alloc l;
            (case n of
               None \<Rightarrow> Some (1, Some l1)
             | Some a \<Rightarrow>
                 Some (0, Some (l1\<lparr>
                   l_nodes := (l_nodes l1)(a \<mapsto> \<lparr>n_obj = v, n_next = l_first l1\<rparr>),
                   l_first := Some a,
                   l_last := (if l_last l1 = None then Some a else l_last l1),
                   l_size := Suc (l_size l1)\<rparr>)))
          }
      | _ \<Rightarrow> Some (1, lst))"

definition list_push_back :: "'a l_list option \<Rightarrow> 'a option \<Rightarrow> (rc \<times> 'a l_list option) option" where
  "list_push_back lst obj =
     (case (lst, obj) of
        (Some l, Some v) \<Rightarrow>
          (case l_last l of
             None \<Rightarrow> list_push_front lst obj
           | Some e \<Rightarrow>
               do {
                 (n, l1) \<leftarrow> node_alloc l;
                 (case n of
                    None \<Rightarrow> Some (1, Some l1)
                  | Some a \<Rightarrow>
                      let nodes = (l_nodes l1)(a \<mapsto> \<lparr>n_obj = v, n_next = None\<rparr>) in
                      do {
                        nd \<leftarrow> nodes e;
                        Some (0, Some (l1\<lparr>
                          l_nodes := nodes(e \<mapsto> nd\<lparr>n_next := Some a\<rparr>),
                          l_last := Some a,
                          l_size := Suc (l_size l1)\<rparr>))
                      })
               })
      | _ \<Rightarrow> Some (1, lst))"

definition list_pop_front :: "'a l_list option \<Rightarrow> ('a option \<times> 'a l_list option) option" where
  "list_pop_front lst =
     (case lst of
        None \<Rightarrow> Some (None, None)
      | Some l \<Rightarrow>
          (case l_first l of
             None \<Rightarrow> Some (None, lst)
           | Some n \<Rightarrow>
               do {
                 nd \<leftarrow> l_nodes l n;
                 let l1 = l\<lparr>l_first := n_next nd, l_size := l_size l - 1,
                   l_last := (if n_next nd = None then None else l_last l)\<rparr>;
                 l2 \<leftarrow> node_put n l1;
                 Some (Some (n_obj nd), Some l2)
               }))"

definition list_peek_front :: "'a l_list option \<Rightarrow> 'a option option" where
  "list_peek_front lst =
     (case lst of
        None \<Rightarrow> Some None
      | Some l \<Rightarrow>
          (case l_first l of
             None \<Rightarrow> Some None
           | Some n \<Rightarrow> map_option (\<lambda>nd. Some (n_obj nd)) (l_nodes l n)))"

definition list_get_size :: "'a l_list option \<Rightarrow> nat" where
  "list_get_size lst = (case lst of None \<Rightarrow> 0 | Some l \<Rightarrow> l_size l)"

text \<open>
  What one round of a loop body does to the current entry: leave it, unlink it
  (\<open>list_foreach_remove_current_entry\<close>), or put a new entry in front of it
  (\<open>list_foreach_insert_before_current\<close>, whose users all leave the loop; the argument
  of the continuation says whether a node could be allocated).  The \<open>Stop\<close> forms leave the
  loop (\<open>break\<close>, \<open>goto\<close> or \<open>return\<close>).  The other component is the state of the
  function around the loop.
\<close>

datatype ('a, 's) foreach_act =
    Keep 's
  | KeepStop 's
  | Remove 's
  | RemoveStop 's
  | InsertBefore 'a "bool \<Rightarrow> 's"

definition list_foreach_remove_current_entry ::
  "ptr \<Rightarrow> nat \<Rightarrow> ptr \<Rightarrow> 'a l_list \<Rightarrow> 'a l_list option" where
  "list_foreach_remove_current_entry prev cur next_cur l =
     do {
       l1 \<leftarrow> (case prev of
                None \<Rightarrow> Some (l\<lparr>l_first := next_cur\<rparr>)
              | Some p \<Rightarrow>
                  map_option (\<lambda>nd. l\<lparr>l_nodes := (l_nodes l)(p \<mapsto> nd\<lparr>n_next := next_cur\<rparr>)\<rparr>)
                    (l_nodes l p));
       let l2 = l1\<lparr>l_last := (if l_last l1 = Some cur then prev else l_last l1)\<rparr>;
       l3 \<leftarrow> node_put cur l2;
       Some (l3\<lparr>l_size := l_size l3 - 1\<rparr>)
     }"

definition list_foreach_insert_before_current ::
  "'a \<Rightarrow> ptr \<Rightarrow> nat \<Rightarrow> 'a l_list \<Rightarrow> (bool \<times> 'a l_list) option" where
  "list_foreach_insert_before_current v prev cur l =
     do {
       (n, l1) \<leftarrow> node_alloc l;
       (case n of
          None \<Rightarrow> Some (False, l1)
        | Some a \<Rightarrow>
            let l2 = l1\<lparr>l_nodes := (l_nodes l1)(a \<mapsto> \<lparr>n_obj = v, n_next = Some cur\<rparr>)\<rparr> in
            do {
              l3 \<leftarrow> (case prev of
                       None \<Rightarrow> Some (l2\<lparr>l_first := Some a\<rparr>)
                     | Some p \<Rightarrow>
                         map_option
                           (\<lambda>nd. l2\<lparr>l_nodes := (l_nodes l2)(p \<mapsto> nd\<lparr>n_next := Some a\<rparr>)\<rparr>)
                           (l_nodes l2 p));
              Some (True, l3\<lparr>l_size := Suc (l_size l3)\<rparr>)
            })
     }"

partial_function (option) list_foreach ::
  "('s \<Rightarrow> 'a \<Rightarrow> ('a, 's) foreach_act) \<Rightarrow> ptr \<Rightarrow> ptr \<Rightarrow> 's \<Rightarrow> 'a l_list
   \<Rightarrow> ('s \<times> 'a l_list) option" where
  "list_foreach body prev cur s l =
     (case cur of
        None \<Rightarrow> Some (s, l)
      | Some c \<Rightarrow>
          (case l_nodes l c of
             None \<Rightarrow> None
           | Some nd \<Rightarrow>
               (case body s (n_obj nd) of
                  Keep s' \<Rightarrow> list_foreach body (Some c) (n_next nd) s' l
                | KeepStop s' \<Rightarrow> Some (s', l)
                | Remove s' \<Rightarrow>
                    (case list_foreach_remove_current_entry prev c (n_next nd) l of
                       None \<Rightarrow> None
                     | Some l' \<Rightarrow> list_foreach body prev (n_next nd) s' l')
                | RemoveStop s' \<Rightarrow>
                    map_option (\<lambda>l'. (s', l'))
                      (list_foreach_remove_current_entry prev c (n_next nd) l)
                | InsertBefore v k \<Rightarrow>
                    map_option (\<lambda>(ok, l'). (k ok, l'))
                      (list_foreach_insert_before_current v prev c l))))"

definition list_clear :: "'a l_list option \<Rightarrow> 'a l_list option option" where
  "list_clear lst =
     (case lst of
        None \<Rightarrow> Some None
      | Some l \<Rightarrow>
          map_option (\<lambda>(_, l'). Some l') (list_foreach (\<lambda>_ _. Remove ()) None (l_first l) () l))"

definition list_free :: "'a l_list option \<Rightarrow> (nat \<times> pheap) option option" where
  "list_free lst =
     (case lst of
        None \<Rightarrow> Some None
      | Some _ \<Rightarrow>
          do {
            lst' \<leftarrow> list_clear lst;
            (case lst' of
               None \<Rightarrow> Some None
             | Some l' \<Rightarrow>
                 do {
                   (unreturned, _, h) \<leftarrow> obj_pool_destroy (node_pool l') (l_mem l');
                   Some (Some (unreturned, h))
                 })
          })"

definition list_remove :: "'a l_list option \<Rightarrow> 'a option \<Rightarrow> (rc \<times> 'a l_list option) option" where
  "list_remove lst obj =
     (case (lst, obj) of
        (Some l, Some v) \<Rightarrow>
          map_option (\<lambda>(r, l'). (r, Some l'))
            (list_foreach (\<lambda>_ x. if x = v then RemoveStop 0 else Keep 1) None (l_first l) 1 l)
      | _ \<Rightarrow> Some (1, lst))"

definition list_find_first :: "'a l_list option \<Rightarrow> ('a \<Rightarrow> bool) option \<Rightarrow> 'a option option" where
  "list_find_first lst cmp =
     (case (lst, cmp) of
        (Some l, Some f) \<Rightarrow>
          map_option fst
            (list_foreach (\<lambda>_ x. if f x then KeepStop (Some x) else Keep None) None (l_first l) None l)
      | _ \<Rightarrow> Some None)"

section \<open>The sequence that a list holds\<close>

fun seq_foreach ::
  "bool \<Rightarrow> ('s \<Rightarrow> 'a \<Rightarrow> ('a, 's) foreach_act) \<Rightarrow> 's \<Rightarrow> 'a list \<Rightarrow> 's \<times> 'a list" where
  "seq_foreach ok body s [] = (s, [])"
| "seq_foreach ok body s (x # xs) =
     (case body s x of
        Keep s' \<Rightarrow> map_prod id (Cons x) (seq_foreach ok body s' xs)
      | KeepStop s' \<Rightarrow> (s', x # xs)
      | Remove s' \<Rightarrow> seq_foreach ok body s' xs
      | RemoveStop s' \<Rightarrow> (s', xs)
      | InsertBefore v k \<Rightarrow> (k ok, if ok then v # x # xs else x # xs))"

definition nlink :: "(nat \<Rightarrow> 'a node option) \<Rightarrow> nat \<Rightarrow> ptr" where
  "nlink nodes a = (case nodes a of None \<Rightarrow> None | Some nd \<Rightarrow> n_next nd)"

definition ncontent :: "(nat \<Rightarrow> 'a node option) \<Rightarrow> nat list \<Rightarrow> 'a list \<Rightarrow> bool" where
  "ncontent nodes ns xs \<longleftrightarrow> map (\<lambda>a. map_option n_obj (nodes a)) ns = map Some xs"

definition last_ptr :: "nat list \<Rightarrow> ptr" where
  "last_ptr ns = (if ns = [] then None else Some (last ns))"

definition list_rep :: "'a l_list \<Rightarrow> nat list \<Rightarrow> 'a list \<Rightarrow> bool" where
  "list_rep l ns xs \<longleftrightarrow>
     chain (nlink (l_nodes l)) (l_first l) ns \<and> ncontent (l_nodes l) ns xs \<and>
     l_last l = last_ptr ns \<and> l_size l = length ns \<and>
     pool_ok (node_pool l, l_mem l) \<and> pool_held (node_pool l, l_mem l) = set ns"


section \<open>Lemmas on nodes\<close>

abbreviation list_pool :: "'a l_list \<Rightarrow> pool_state" where
  "list_pool l \<equiv> (node_pool l, l_mem l)"

definition same_links :: "'a l_list \<Rightarrow> 'a l_list \<Rightarrow> bool" where
  "same_links l l' \<longleftrightarrow> l_first l' = l_first l \<and> l_last l' = l_last l \<and>
     l_size l' = l_size l \<and> l_nodes l' = l_nodes l"

lemma node_alloc_cases:
  assumes "pool_ok (list_pool l)"
  obtains (none) l' where "node_alloc l = Some (None, l')" "pool_ok (list_pool l')"
      "pool_held (list_pool l') = pool_held (list_pool l)" "same_links l l'"
  | (some) a l' where "node_alloc l = Some (Some a, l')" "pool_ok (list_pool l')"
      "a \<notin> pool_held (list_pool l)"
      "pool_held (list_pool l') = insert a (pool_held (list_pool l))" "same_links l l'"
proof -
  obtain r q where rq: "pool_alloc (list_pool l) = Some (r, q)"
    using op.alloc_no_fault [OF assms] by auto
  define l' where "l' = l\<lparr>node_pool := fst q, l_mem := snd q\<rparr>"
  have na: "node_alloc l = Some (r, l')"
    using rq by (cases q) (simp add: node_alloc_def pool_alloc_def l'_def)
  have q: "list_pool l' = q" and same: "same_links l l'"
    by (simp_all add: l'_def same_links_def)
  show thesis
  proof (cases r)
    case None
    with op.alloc_None [OF assms] rq na q same show thesis by (intro none) auto
  next
    case (Some a)
    with op.alloc_Some [OF assms] rq na q same show thesis by (intro some) auto
  qed
qed

lemma node_put_held:
  assumes "pool_ok (list_pool l)" and "c \<in> pool_held (list_pool l)"
  obtains l' where "node_put c l = Some l'" "pool_ok (list_pool l')"
    "pool_held (list_pool l') = pool_held (list_pool l) - {c}" "same_links l l'"
proof -
  from op.put_returns [OF assms] obtain q where q: "pool_put (Some c) (list_pool l) = Some q"
    "pool_ok q" "pool_held q = pool_held (list_pool l) - {c}" by blast
  then have "node_put c l = Some (l\<lparr>node_pool := fst q, l_mem := snd q\<rparr>)"
    by (cases q) (simp add: node_put_def pool_put_def)
  from that [OF this] q show thesis by (simp add: same_links_def)
qed

lemma nlink_upd: "nlink (nodes(a \<mapsto> nd)) = (nlink nodes)(a := n_next nd)"
  by (auto simp: nlink_def)

lemma ncontent_simps [simp]:
  "ncontent nodes [] xs \<longleftrightarrow> xs = []"
  "ncontent nodes ns [] \<longleftrightarrow> ns = []"
  "ncontent nodes (a # ns) (x # xs) \<longleftrightarrow>
     map_option n_obj (nodes a) = Some x \<and> ncontent nodes ns xs"
  by (auto simp: ncontent_def)

lemma ncontent_length: "ncontent nodes ns xs \<Longrightarrow> length ns = length xs"
  by (metis ncontent_def length_map)

lemma ncontent_append:
  "length ns = length xs \<Longrightarrow>
   ncontent nodes (ns @ ms) (xs @ ys) \<longleftrightarrow> ncontent nodes ns xs \<and> ncontent nodes ms ys"
  by (auto simp: ncontent_def)

lemma ncontent_split:
  assumes "ncontent nodes ns (xs @ ys)"
  obtains as bs where "ns = as @ bs" and "ncontent nodes as xs" and "ncontent nodes bs ys"
    and "length as = length xs"
proof -
  let ?as = "take (length xs) ns" and ?bs = "drop (length xs) ns"
  have len: "length ?as = length xs" using ncontent_length [OF assms] by simp
  with assms have "ncontent nodes ?as xs \<and> ncontent nodes ?bs ys"
    by (metis append_take_drop_id ncontent_append)
  with that len show thesis by (metis append_take_drop_id)
qed

lemma ncontent_frame: "a \<notin> set ns \<Longrightarrow> ncontent (nodes(a := v)) ns xs = ncontent nodes ns xs"
proof -
  assume "a \<notin> set ns"
  then have "map (\<lambda>b. map_option n_obj ((nodes(a := v)) b)) ns = map (\<lambda>b. map_option n_obj (nodes b)) ns"
    by (intro map_cong) auto
  then show ?thesis unfolding ncontent_def by (simp only:)
qed

lemma ncontent_relink:
  assumes "nodes p = Some nd"
  shows "ncontent (nodes(p \<mapsto> nd\<lparr>n_next := q\<rparr>)) ns xs = ncontent nodes ns xs"
proof -
  have "map_option n_obj ((nodes(p \<mapsto> nd\<lparr>n_next := q\<rparr>)) a) = map_option n_obj (nodes a)" for a
    using assms by simp
  then show ?thesis by (simp add: ncontent_def)
qed

lemma ncontent_node: "ncontent nodes ns xs \<Longrightarrow> a \<in> set ns \<Longrightarrow> \<exists>nd. nodes a = Some nd"
proof (induction ns arbitrary: xs)
  case Nil
  then show ?case by simp
next
  case (Cons b ns)
  then show ?case by (cases xs) auto
qed

lemma last_ptr_simps [simp]:
  "last_ptr [] = None" "last_ptr (ns @ [a]) = Some a" "last_ptr (a # ns) = Some (last (a # ns))"
  by (auto simp: last_ptr_def)

lemma last_ptr_None [simp]: "last_ptr ns = None \<longleftrightarrow> ns = []"
  by (simp add: last_ptr_def)

lemma list_rep_distinct: "list_rep l ns xs \<Longrightarrow> distinct ns"
  unfolding list_rep_def by (auto dest: chain_distinct)

lemma list_rep_length: "list_rep l ns xs \<Longrightarrow> length ns = length xs"
  unfolding list_rep_def by (auto dest: ncontent_length)

section \<open>The list operations implement the sequence operations\<close>

lemma list_push_front_rep:
  assumes "list_rep l ns xs"
  shows "\<exists>r l' ns'. list_push_front (Some l) (Some v) = Some (r, Some l') \<and>
    (r = 0 \<and> list_rep l' ns' (v # xs) \<or> r = 1 \<and> list_rep l' ns' xs)"
proof -
  have ok: "pool_ok (list_pool l)" using assms by (simp add: list_rep_def)
  from ok show ?thesis
  proof (cases rule: node_alloc_cases)
    case (none l')
    with assms have "list_rep l' ns xs" by (simp add: list_rep_def same_links_def)
    with none show ?thesis by (auto simp: list_push_front_def)
  next
    case (some a l')
    let ?l = "l'\<lparr>l_nodes := (l_nodes l')(a \<mapsto> \<lparr>n_obj = v, n_next = l_first l'\<rparr>),
       l_first := Some a, l_last := (if l_last l' = None then Some a else l_last l'),
       l_size := Suc (l_size l')\<rparr>"
    have "a \<notin> set ns" using some assms by (simp add: list_rep_def)
    with some assms have "list_rep ?l (a # ns) (v # xs)"
      by (auto simp: list_rep_def same_links_def nlink_upd ncontent_frame last_ptr_def)
    with some show ?thesis by (auto simp: list_push_front_def split del: if_split)
  qed
qed

lemma list_push_back_rep:
  assumes "list_rep l ns xs"
  shows "\<exists>r l' ns'. list_push_back (Some l) (Some v) = Some (r, Some l') \<and>
    (r = 0 \<and> list_rep l' ns' (xs @ [v]) \<or> r = 1 \<and> list_rep l' ns' xs)"
proof (cases ns rule: rev_cases)
  case Nil
  with assms have "l_last l = None" "xs = []" by (auto simp: list_rep_def)
  with list_push_front_rep [OF assms, of v] show ?thesis by (simp add: list_push_back_def)
next
  case (snoc ms e)
  have ok: "pool_ok (list_pool l)" and last: "l_last l = Some e"
    using assms snoc by (simp_all add: list_rep_def)
  from ok show ?thesis
  proof (cases rule: node_alloc_cases)
    case (none l')
    with assms have "list_rep l' ns xs" by (simp add: list_rep_def same_links_def)
    with none last show ?thesis by (auto simp: list_push_back_def)
  next
    case (some a l')
    let ?nodes = "(l_nodes l')(a \<mapsto> \<lparr>n_obj = v, n_next = None\<rparr>)"
    have a: "a \<notin> set ns" using some assms by (simp add: list_rep_def)
    have rep: "chain (nlink ?nodes) (l_first l') ns" "ncontent ?nodes ns xs"
      using assms some a by (simp_all add: list_rep_def same_links_def nlink_upd ncontent_frame)
    then obtain nd where nd: "?nodes e = Some nd" using snoc by (auto dest: ncontent_node)
    have ne: "e \<noteq> a" using a snoc by auto
    let ?nodes' = "?nodes(e \<mapsto> nd\<lparr>n_next := Some a\<rparr>)"
    have "chain ((nlink ?nodes)(e := Some a)) (Some a) [a]"
      using a snoc by (auto simp: nlink_upd)
    with rep(1) snoc have "chain ((nlink ?nodes)(e := Some a)) (l_first l') (ms @ e # [a])"
      by (intro chain_relink [where ds = "[]"]) auto
    then have "chain (nlink ?nodes') (l_first l') (ns @ [a])"
      using snoc by (simp add: nlink_upd)
    moreover have "ncontent ?nodes' (ns @ [a]) (xs @ [v])"
      using rep(2) ne by (simp add: ncontent_relink [where nodes = ?nodes and p = e and nd = nd, OF nd] ncontent_append [OF ncontent_length [OF rep(2)]])
    ultimately have "list_rep (l'\<lparr>l_nodes := ?nodes', l_last := Some a,
        l_size := Suc (l_size l')\<rparr>) (ns @ [a]) (xs @ [v])"
      using assms some by (auto simp: list_rep_def same_links_def)
    with some last nd show ?thesis by (auto simp: list_push_back_def Let_def)
  qed
qed

lemma list_pop_front_rep:
  assumes "list_rep l ns xs"
  shows "\<exists>l' ns'. list_pop_front (Some l) = Some (case xs of [] \<Rightarrow> None | x # _ \<Rightarrow> Some x, Some l') \<and>
    list_rep l' ns' (tl xs)"
proof (cases ns)
  case Nil
  with assms have "l_first l = None" "xs = []" by (auto simp: list_rep_def)
  with assms show ?thesis by (auto simp: list_pop_front_def)
next
  case (Cons n ms)
  with assms obtain x ys where xs: "xs = x # ys" by (cases xs) (auto dest: list_rep_length)
  obtain nd where nd: "l_nodes l n = Some nd" "n_obj nd = x" "l_first l = Some n"
    using assms Cons xs by (auto simp: list_rep_def)
  let ?l = "l\<lparr>l_first := n_next nd, l_size := l_size l - 1,
      l_last := (if n_next nd = None then None else l_last l)\<rparr>"
  have nxt: "chain (nlink (l_nodes l)) (n_next nd) ms" "(n_next nd = None) = (ms = [])"
    using assms Cons nd by (cases ms; auto simp: list_rep_def nlink_def)+
  have "pool_ok (list_pool ?l)" "n \<in> pool_held (list_pool ?l)"
    using assms Cons by (simp_all add: list_rep_def)
  then obtain l' where l': "node_put n ?l = Some l'" "pool_ok (list_pool l')"
    "pool_held (list_pool l') = pool_held (list_pool ?l) - {n}" "same_links ?l l'"
    by (rule node_put_held)
  have "list_rep l' ms ys"
    using assms Cons xs l' nxt list_rep_distinct [OF assms]
    by (auto simp: list_rep_def same_links_def last_ptr_def)
  with l' nd xs show ?thesis by (auto simp: list_pop_front_def Let_def)
qed

lemma list_peek_front_rep:
  "list_rep l ns xs \<Longrightarrow> list_peek_front (Some l) = Some (case xs of [] \<Rightarrow> None | x # _ \<Rightarrow> Some x)"
  by (cases ns; cases xs) (auto simp: list_rep_def list_peek_front_def)

lemma list_get_size_rep: "list_rep l ns xs \<Longrightarrow> list_get_size (Some l) = length xs"
  using list_rep_length [of l ns xs] by (simp add: list_get_size_def list_rep_def)


section \<open>The loop over the entries\<close>

definition first_ptr :: "nat list \<Rightarrow> ptr" where
  "first_ptr ns = (case ns of [] \<Rightarrow> None | n # _ \<Rightarrow> Some n)"

lemma chain_first: "chain nx p ns \<Longrightarrow> p = first_ptr ns"
  by (cases ns) (auto simp: first_ptr_def)

lemma chain_next: "chain nx p (as @ c # cs) \<Longrightarrow> nx c = first_ptr cs"
  using chain_suffix chain_first by metis

lemma list_rep_entry:
  assumes "list_rep l (as @ c # cs) (xs @ x # ys)" and "length as = length xs"
  obtains nd where "l_nodes l c = Some nd" "n_obj nd = x" "n_next nd = first_ptr cs"
    "chain (nlink (l_nodes l)) (first_ptr cs) cs"
proof -
  from assms obtain nd where nd: "l_nodes l c = Some nd" "n_obj nd = x"
    by (auto simp: list_rep_def ncontent_append)
  from assms(1) have ch: "chain (nlink (l_nodes l)) (l_first l) (as @ c # cs)"
    by (simp add: list_rep_def)
  from chain_next [OF ch] nd have "n_next nd = first_ptr cs" by (simp add: nlink_def)
  with chain_suffix [OF ch] nd that show thesis by (simp add: nlink_def)
qed

lemma last_ptr_remove:
  "distinct (as @ c # cs) \<Longrightarrow>
   last_ptr (as @ cs) = (if last_ptr (as @ c # cs) = Some c then last_ptr as else last_ptr (as @ c # cs))"
  by (cases cs rule: rev_cases) (auto simp: last_ptr_def)

lemma remove_current_entry_rep:
  assumes rep: "list_rep l (as @ c # cs) (xs @ x # ys)" and len: "length as = length xs"
  shows "\<exists>l'. list_foreach_remove_current_entry (last_ptr as) c (first_ptr cs) l = Some l' \<and>
    list_rep l' (as @ cs) (xs @ ys)"
proof -
  have ch: "chain (nlink (l_nodes l)) (l_first l) (as @ c # cs)"
    and con: "ncontent (l_nodes l) (as @ cs) (xs @ ys)"
    using rep len by (auto simp: list_rep_def ncontent_append)
  note d = list_rep_distinct [OF rep]
  have rest: "chain (nlink (l_nodes l)) (first_ptr cs) cs"
    using list_rep_entry [OF rep len] by blast
  define l1 where "l1 = (case last_ptr as of None \<Rightarrow> l\<lparr>l_first := first_ptr cs\<rparr>
    | Some p \<Rightarrow> l\<lparr>l_nodes := (l_nodes l)(p \<mapsto> (the (l_nodes l p))\<lparr>n_next := first_ptr cs\<rparr>)\<rparr>)"
  have l1: "chain (nlink (l_nodes l1)) (l_first l1) (as @ cs) \<and>
      ncontent (l_nodes l1) (as @ cs) (xs @ ys) \<and> l_last l1 = l_last l \<and> l_size l1 = l_size l \<and>
      list_pool l1 = list_pool l \<and> (\<forall>p. last_ptr as = Some p \<longrightarrow> l_nodes l p \<noteq> None)"
  proof (cases as rule: rev_cases)
    case Nil
    with rest con show ?thesis by (simp add: l1_def)
  next
    case (snoc bs p)
    obtain pn where pn: "l_nodes l p = Some pn" using ncontent_node [OF con, of p] snoc by auto
    have "chain ((nlink (l_nodes l))(p := first_ptr cs)) (l_first l) (bs @ p # cs)"
      using ch rest d snoc by (intro chain_relink [where ds = "c # cs"]) auto
    with snoc pn con show ?thesis by (simp add: l1_def nlink_upd ncontent_relink)
  qed
  let ?l2 = "l1\<lparr>l_last := (if l_last l1 = Some c then last_ptr as else l_last l1)\<rparr>"
  have "pool_ok (list_pool ?l2)" "c \<in> pool_held (list_pool ?l2)"
    using rep l1 by (simp_all add: list_rep_def)
  then obtain l3 where l3: "node_put c ?l2 = Some l3" "pool_ok (list_pool l3)"
    "pool_held (list_pool l3) = pool_held (list_pool ?l2) - {c}" "same_links ?l2 l3"
    by (rule node_put_held)
  have "list_foreach_remove_current_entry (last_ptr as) c (first_ptr cs) l =
      Some (l3\<lparr>l_size := l_size l3 - 1\<rparr>)"
    using l1 l3(1)
    by (cases "last_ptr as")
      (auto simp: list_foreach_remove_current_entry_def Let_def l1_def split: if_splits)
  moreover have "list_rep (l3\<lparr>l_size := l_size l3 - 1\<rparr>) (as @ cs) (xs @ ys)"
    using l1 l3 rep d last_ptr_remove [OF d] by (auto simp: list_rep_def same_links_def)
  ultimately show ?thesis by blast
qed

lemma insert_before_current_rep:
  assumes rep: "list_rep l (as @ c # cs) (xs @ x # ys)" and len: "length as = length xs"
  shows "\<exists>ok l' ns'. list_foreach_insert_before_current v (last_ptr as) c l = Some (ok, l') \<and>
    list_rep l' ns' (if ok then xs @ v # x # ys else xs @ x # ys)"
proof -
  have ok: "pool_ok (list_pool l)" using rep by (simp add: list_rep_def)
  from ok show ?thesis
  proof (cases rule: node_alloc_cases)
    case (none l')
    with rep have "list_rep l' (as @ c # cs) (xs @ x # ys)" by (simp add: list_rep_def same_links_def)
    with none show ?thesis by (auto simp: list_foreach_insert_before_current_def)
  next
    case (some a l')
    let ?nodes = "(l_nodes l')(a \<mapsto> \<lparr>n_obj = v, n_next = Some c\<rparr>)"
    have a: "a \<notin> set (as @ c # cs)" using some rep by (simp add: list_rep_def)
    have ch: "chain (nlink ?nodes) (l_first l') (as @ c # cs)"
      and con: "ncontent ?nodes (as @ a # c # cs) (xs @ v # x # ys)"
      using rep some a len
      by (simp_all add: list_rep_def same_links_def nlink_upd ncontent_frame ncontent_append)
    have d: "distinct (as @ c # cs)" using list_rep_distinct [OF rep] .
    have rest: "chain (nlink ?nodes) (Some c) (c # cs)" using ch by (auto dest: chain_suffix)
    show ?thesis
    proof (cases as rule: rev_cases)
      case Nil
      with some rep rest con have "list_rep (l'\<lparr>l_nodes := ?nodes, l_first := Some a,
          l_size := Suc (l_size l')\<rparr>) (a # c # cs) (xs @ v # x # ys)"
        by (auto simp: list_rep_def same_links_def nlink_upd)
      with some Nil show ?thesis
        by (auto simp: list_foreach_insert_before_current_def Let_def)
    next
      case (snoc bs p)
      obtain pn where pn: "?nodes p = Some pn" using ncontent_node [OF con, of p] snoc by auto
      let ?nodes' = "?nodes(p \<mapsto> pn\<lparr>n_next := Some a\<rparr>)"
      have "chain ((nlink ?nodes)(p := Some a)) (Some a) (a # c # cs)"
        using rest a d snoc by (auto simp: nlink_upd)
      with ch snoc have "chain ((nlink ?nodes)(p := Some a)) (l_first l') (bs @ p # a # c # cs)"
        by (intro chain_relink [where ds = "c # cs"]) auto
      then have "chain (nlink ?nodes') (l_first l') (as @ a # c # cs)"
        using snoc by (simp add: nlink_upd)
      moreover have "ncontent ?nodes' (as @ a # c # cs) (xs @ v # x # ys)"
        using con by (simp only: ncontent_relink [where nodes = ?nodes and p = p and nd = pn, OF pn])
      moreover have "last_ptr (as @ a # c # cs) = last_ptr (as @ c # cs)" by (simp add: last_ptr_def)
      ultimately have "list_rep (l'\<lparr>l_nodes := ?nodes', l_size := Suc (l_size l')\<rparr>)
          (as @ a # c # cs) (xs @ v # x # ys)"
        using some rep by (auto simp: list_rep_def same_links_def)
      moreover have "last_ptr as = Some p" using snoc by simp
      ultimately show ?thesis
        using some pn by (auto simp: list_foreach_insert_before_current_def Let_def)
    qed
  qed
qed


lemma list_foreach_rep:
  assumes "list_rep l (as @ cs) (xs @ ys)" and "length as = length xs"
  shows "\<exists>ok l' ns'. list_foreach body (last_ptr as) (first_ptr cs) s l =
      Some (fst (seq_foreach ok body s ys), l') \<and>
    list_rep l' ns' (xs @ snd (seq_foreach ok body s ys))"
  using assms
proof (induction ys arbitrary: as cs xs l s)
  case Nil
  then have "cs = []" using list_rep_length by fastforce
  with Nil show ?case by (auto simp: first_ptr_def list_foreach.simps)
next
  case (Cons x ys)
  then obtain c ds where cs: "cs = c # ds"
    using list_rep_length [OF Cons.prems(1)] by (cases cs) auto
  note rep = Cons.prems(1) [unfolded cs]
  obtain nd where nd: "l_nodes l c = Some nd" "n_obj nd = x" "n_next nd = first_ptr ds"
    using list_rep_entry [OF rep Cons.prems(2)] by blast
  have first: "first_ptr cs = Some c" by (simp add: cs first_ptr_def)
  note unf = list_foreach.simps [of body "last_ptr as" "first_ptr cs" s l, unfolded first]
  show ?case
  proof (cases "body s x")
    case (Keep s')
    have "list_rep l ((as @ [c]) @ ds) ((xs @ [x]) @ ys)" "length (as @ [c]) = length (xs @ [x])"
      using rep Cons.prems(2) by simp_all
    from Cons.IH [OF this, of s'] Keep nd show ?thesis
      unfolding first unf by auto
  next
    case (KeepStop s')
    with nd rep show ?thesis unfolding first unf by auto
  next
    case (Remove s')
    obtain l' where l': "list_foreach_remove_current_entry (last_ptr as) c (first_ptr ds) l = Some l'"
      "list_rep l' (as @ ds) (xs @ ys)"
      using remove_current_entry_rep [OF rep Cons.prems(2)] by blast
    from Cons.IH [OF l'(2) Cons.prems(2), of s'] Remove nd l'(1) show ?thesis
      unfolding first unf by auto
  next
    case (RemoveStop s')
    with remove_current_entry_rep [OF rep Cons.prems(2)] nd show ?thesis
      unfolding first unf by auto
  next
    case (InsertBefore v k)
    obtain ok l' ns' where ins: "list_foreach_insert_before_current v (last_ptr as) c l = Some (ok, l')"
      "list_rep l' ns' (if ok then xs @ v # x # ys else xs @ x # ys)"
      using insert_before_current_rep [OF rep Cons.prems(2)] by blast
    with InsertBefore nd show ?thesis
      unfolding first unf by (intro exI [of _ ok] exI [of _ l'] exI [of _ ns']) auto
  qed
qed

corollary list_foreach_all:
  assumes "list_rep l ns xs"
  obtains ok l' ns' where "list_foreach body None (l_first l) s l =
      Some (fst (seq_foreach ok body s xs), l')"
    and "list_rep l' ns' (snd (seq_foreach ok body s xs))"
proof -
  have "l_first l = first_ptr ns" using assms chain_first by (auto simp: list_rep_def)
  with list_foreach_rep [of l "[]" ns "[]" xs body s] assms that show thesis by auto
qed

section \<open>The functions built on the loop\<close>

lemma seq_foreach_clear: "seq_foreach ok (\<lambda>_ _. Remove ()) () xs = ((), [])"
  by (induction xs) auto

lemma seq_foreach_remove:
  "seq_foreach ok (\<lambda>_ x. if x = v then RemoveStop 0 else Keep 1) (r :: rc) xs =
     (if v \<in> set xs then 0 else if xs = [] then r else 1, remove1 v xs)"
  by (induction xs arbitrary: r) auto

lemma seq_foreach_find:
  "fst (seq_foreach ok (\<lambda>_ x. if f x then KeepStop (Some x) else Keep None) None xs) = find f xs"
  by (induction xs) auto

lemma list_clear_rep:
  assumes "list_rep l ns xs"
  shows "\<exists>l' ns'. list_clear (Some l) = Some (Some l') \<and> list_rep l' ns' []"
  using assms by (rule list_foreach_all [where body = "\<lambda>_ _. Remove ()" and s = "()"])
    (auto simp: list_clear_def seq_foreach_clear)

lemma list_remove_rep:
  assumes "list_rep l ns xs"
  shows "\<exists>l' ns'. list_remove (Some l) (Some v) = Some (if v \<in> set xs then 0 else 1, Some l') \<and>
    list_rep l' ns' (remove1 v xs)"
  using assms
  by (rule list_foreach_all [where body = "\<lambda>_ x. if x = v then RemoveStop (0 :: rc) else Keep 1" and s = 1])
    (auto simp: list_remove_def seq_foreach_remove)

lemma list_find_first_rep:
  assumes "list_rep l ns xs"
  shows "list_find_first (Some l) (Some f) = Some (find f xs)"
  using assms
  by (rule list_foreach_all [where body = "\<lambda>_ x. if f x then KeepStop (Some x) else Keep None"
        and s = None])
    (auto simp: list_find_first_def seq_foreach_find)

lemma list_init_rep:
  assumes "heap_ok h" and "list_init h = Some (Some l, h')"
  shows "list_rep l [] []"
proof -
  define h1 where "h1 = h\<lparr>brk := Suc (brk h)\<rparr>"
  have "malloc h = (Some (brk h), h1)"
    using assms by (auto simp: list_init_def malloc_def h1_def split: if_splits)
  have ok: "heap_ok h1"
    using assms(1) by (auto simp: heap_ok_def h1_def intro: less_SucI)
  note \<open>malloc h = (Some (brk h), h1)\<close>
  with assms(2) obtain p h2 where init: "obj_pool_init (Some ''list node'') 16 4 0 False h1 = Some (Some p, h2)"
    and l: "l = \<lparr>node_pool = Some p, l_first = None, l_last = None, l_size = 0,
                             l_mem = h2, l_nodes = Map.empty\<rparr>"
    by (auto simp: list_init_def bind_eq_Some_conv split: option.splits)
  from obj_pool_init_wf [OF ok init] obtain fs where wf: "pool_wf p h2 fs fs" by blast
  then show ?thesis
    by (auto simp: list_rep_def l pool_ok_def pool_held_def pool_wf_owned [OF wf])
qed

section \<open>The interface of a list\<close>

datatype 'a list_op =
    PushFront 'a
  | PushBack 'a
  | PopFront
  | PeekFront
  | RemoveObj 'a
  | GetSize
  | Clear

datatype 'a list_out =
    OutRc rc
  | OutObj "'a option"
  | OutSize nat
  | OutNothing

fun list_step :: "'a list_op \<Rightarrow> 'a l_list option \<Rightarrow> ('a list_out \<times> 'a l_list option) option" where
  "list_step (PushFront v) l = map_option (map_prod OutRc id) (list_push_front l (Some v))"
| "list_step (PushBack v) l = map_option (map_prod OutRc id) (list_push_back l (Some v))"
| "list_step PopFront l = map_option (map_prod OutObj id) (list_pop_front l)"
| "list_step PeekFront l = map_option (\<lambda>v. (OutObj v, l)) (list_peek_front l)"
| "list_step (RemoveObj v) l = map_option (map_prod OutRc id) (list_remove l (Some v))"
| "list_step GetSize l = Some (OutSize (list_get_size l), l)"
| "list_step Clear l = map_option (\<lambda>l'. (OutNothing, l')) (list_clear l)"

text \<open>The same operations on the sequence; \<open>ok\<close> says whether a node could be allocated.\<close>

fun seq_step :: "bool \<Rightarrow> 'a list_op \<Rightarrow> 'a list \<Rightarrow> 'a list_out \<times> 'a list" where
  "seq_step ok (PushFront v) xs = (if ok then (OutRc 0, v # xs) else (OutRc 1, xs))"
| "seq_step ok (PushBack v) xs = (if ok then (OutRc 0, xs @ [v]) else (OutRc 1, xs))"
| "seq_step ok PopFront xs = (case xs of [] \<Rightarrow> (OutObj None, []) | x # ys \<Rightarrow> (OutObj (Some x), ys))"
| "seq_step ok PeekFront xs = (OutObj (case xs of [] \<Rightarrow> None | x # _ \<Rightarrow> Some x), xs)"
| "seq_step ok (RemoveObj v) xs = (OutRc (if v \<in> set xs then 0 else 1), remove1 v xs)"
| "seq_step ok GetSize xs = (OutSize (length xs), xs)"
| "seq_step ok Clear xs = (OutNothing, [])"

fun seq_run :: "bool list \<Rightarrow> 'a list_op list \<Rightarrow> 'a list \<Rightarrow> 'a list_out list \<times> 'a list" where
  "seq_run (ok # oks) (c # cs) xs =
     (let (out, ys) = seq_step ok c xs; (outs, zs) = seq_run oks cs ys in (out # outs, zs))"
| "seq_run _ _ xs = ([], xs)"

fun run_ops :: "('op \<Rightarrow> 's \<Rightarrow> ('out \<times> 's) option) \<Rightarrow> 'op list \<Rightarrow> 's \<Rightarrow> ('out list \<times> 's) option" where
  "run_ops step [] s = Some ([], s)"
| "run_ops step (c # cs) s =
     (case step c s of
        None \<Rightarrow> None
      | Some (out, s') \<Rightarrow> map_option (map_prod (Cons out) id) (run_ops step cs s'))"

locale sequence_container =
  fixes step :: "'a list_op \<Rightarrow> 'l \<Rightarrow> ('a list_out \<times> 'l) option"
    and rep :: "'l \<Rightarrow> 'a list \<Rightarrow> bool"
  assumes step_rep: "rep l xs \<Longrightarrow> \<exists>ok l'. step c l = Some (fst (seq_step ok c xs), l') \<and>
      rep l' (snd (seq_step ok c xs))"
begin

lemma run_rep:
  assumes "rep l xs"
  shows "\<exists>oks l'. length oks = length cs \<and>
    run_ops step cs l = Some (fst (seq_run oks cs xs), l') \<and> rep l' (snd (seq_run oks cs xs))"
  using assms
proof (induction cs arbitrary: l xs)
  case Nil
  then show ?case by auto
next
  case (Cons c cs)
  obtain ok l1 where one: "step c l = Some (fst (seq_step ok c xs), l1)"
    "rep l1 (snd (seq_step ok c xs))"
    using step_rep [OF Cons.prems] by blast
  obtain oks l' where rest: "length oks = length cs"
    "run_ops step cs l1 = Some (fst (seq_run oks cs (snd (seq_step ok c xs))), l')"
    "rep l' (snd (seq_run oks cs (snd (seq_step ok c xs))))"
    using Cons.IH [OF one(2)] by blast
  from one rest show ?case
    by (intro exI [of _ "ok # oks"] exI [of _ l']) (auto simp: Let_def split: prod.splits)
qed

lemma run_no_fault: "rep l xs \<Longrightarrow> run_ops step cs l \<noteq> None"
  using run_rep by fastforce

lemma pop_all_in_order:
  "rep l xs \<Longrightarrow> \<exists>l'. run_ops step (replicate (length xs) PopFront) l = Some (map (OutObj \<circ> Some) xs, l') \<and>
    rep l' []"
proof (induction xs arbitrary: l)
  case Nil
  then show ?case by simp
next
  case (Cons x xs)
  from step_rep [OF Cons.prems, of PopFront] obtain l1 where
    "step PopFront l = Some (OutObj (Some x), l1)" "rep l1 xs" by auto
  with Cons.IH show ?case by fastforce
qed

end

definition list_represents :: "'a l_list option \<Rightarrow> 'a list \<Rightarrow> bool" where
  "list_represents lst xs \<longleftrightarrow> (\<exists>l ns. lst = Some l \<and> list_rep l ns xs)"

lemma list_step_rep:
  assumes "list_represents lst xs"
  shows "\<exists>ok lst'. list_step c lst = Some (fst (seq_step ok c xs), lst') \<and>
    list_represents lst' (snd (seq_step ok c xs))"
proof -
  obtain l ns where l: "lst = Some l" and rep: "list_rep l ns xs"
    using assms by (auto simp: list_represents_def)
  show ?thesis
  proof (cases c)
    case (PushFront v)
    from list_push_front_rep [OF rep, of v] PushFront l show ?thesis
      by (auto simp: list_represents_def intro: exI [of _ True] exI [of _ False])
  next
    case (PushBack v)
    from list_push_back_rep [OF rep, of v] PushBack l show ?thesis
      by (auto simp: list_represents_def intro: exI [of _ True] exI [of _ False])
  next
    case PopFront
    with list_pop_front_rep [OF rep] l show ?thesis
      by (cases xs) (auto simp: list_represents_def)
  next
    case PeekFront
    with list_peek_front_rep [OF rep] assms l show ?thesis by simp
  next
    case (RemoveObj v)
    with list_remove_rep [OF rep, of v] l show ?thesis by (auto simp: list_represents_def)
  next
    case GetSize
    with list_get_size_rep [OF rep] assms l show ?thesis by simp
  next
    case Clear
    with list_clear_rep [OF rep] l show ?thesis by (auto simp: list_represents_def)
  qed
qed

interpretation ll: sequence_container list_step list_represents
  by unfold_locales (rule list_step_rep)


section \<open>Properties\<close>

lemma list_init_empty_heap: "\<exists>l h'. list_init empty_heap = Some (Some (l :: 'a l_list), h')"
proof -
  define h1 where "h1 = empty_heap\<lparr>brk := Suc (brk empty_heap)\<rparr>"
  have "malloc empty_heap = (Some (brk empty_heap), h1)" by (simp add: malloc_def h1_def empty_heap_def)
  moreover have "heap_ok h1" "\<forall>k. malloc_ok h1 k" by (simp_all add: heap_ok_def h1_def empty_heap_def)
  then have "\<exists>p h'. obj_pool_init (Some ''list node'') 16 4 0 False h1 = Some (Some p, h')"
    by (intro obj_pool_init_ok) auto
  ultimately show ?thesis by (auto simp: list_init_def)
qed

lemma list_rep_exists: "\<exists>l. list_rep (l :: 'a l_list) [] []"
proof -
  obtain l h' where "list_init empty_heap = Some (Some (l :: 'a l_list), h')"
    using list_init_empty_heap by blast
  from list_init_rep [OF empty_heap_ok(1) this] show ?thesis by blast
qed



text \<open>
  The \<open>list_foreach\<close> loop visits the entries in order and does to the sequence what
  its body asks for, entries removed and inserted on the way included; it always ends.
\<close>
theorem list_foreach_refines:
  assumes "list_rep l ns xs"
  shows "\<exists>ok l' ns'. list_foreach body None (l_first l) s l =
      Some (fst (seq_foreach ok body s xs), l') \<and>
    list_rep l' ns' (snd (seq_foreach ok body s xs))"
  using list_foreach_all [OF assms] by metis

theorem list_foreach_refines_witness:
  "\<exists>(l :: nat l_list) ok l' ns'. list_foreach (\<lambda>n x. if x = 1 then Remove (n + x) else Keep n) None
      (l_first l) (0 :: nat) l =
      Some (fst (seq_foreach ok (\<lambda>n x. if x = 1 then Remove (n + x) else Keep n) (0 :: nat) []), l') \<and>
    list_rep l' ns' (snd (seq_foreach ok (\<lambda>n x. if x = 1 then Remove (n + x) else Keep n) (0 :: nat) []))"
proof -
  obtain l :: "nat l_list" where "list_rep l [] []" using list_rep_exists by blast
  from list_foreach_refines [OF this, of "\<lambda>n x. if x = 1 then Remove (n + x) else Keep n" "0 :: nat"]
  show ?thesis by blast
qed

text \<open>
  \<open>list_free\<close> releases every node: whatever the list holds, it returns normally and
  the node pool that it destroys reports no outstanding object.
\<close>
theorem list_free_returns_every_node:
  assumes "list_rep l ns xs"
  shows "\<exists>h. list_free (Some l) = Some (Some (0, h))"
proof -
  from list_clear_rep [OF assms] obtain l' ns' where clear: "list_clear (Some l) = Some (Some l')"
    and rep: "list_rep l' ns' []" by blast
  from rep have "pool_ok (list_pool l')" "pool_held (list_pool l') = {}"
    using list_rep_length [OF rep] by (auto simp: list_rep_def)
  then obtain p fs as where p: "node_pool l' = Some p" "pool_wf p (l_mem l') fs as"
    "pool_owned p (l_mem l') = {}" by (auto simp: pool_ok_def pool_held_def)
  from destroy_no_callback [OF p(2)] p clear show ?thesis by (simp add: list_free_def)
qed

theorem list_free_returns_every_node_witness:
  "\<exists>(l :: nat l_list) h. list_free (Some l) = Some (Some (0, h))"
proof -
  obtain l :: "nat l_list" where "list_rep l [] []" using list_rep_exists by blast
  from list_free_returns_every_node [OF this] show ?thesis by blast
qed

end
