(* ===== verification/Work_Serializer.thy ===== *)
theory Work_Serializer
  imports Linked_List
begin

text \<open>
  The work serializer of wv_ipc/work_serializer.c: one thread that executes works handed to
  it by other threads.  A work is a heap cell; the heap \<open>works\<close> maps an address to the cell
  while it is allocated.  The two lists are the sequences of addresses that \<open>Linked_List\<close>
  proves the C lists to represent, walked by the loop \<open>seq_foreach\<close> that the
  \<open>list_foreach\<close> macros implement.  Each critical section under \<open>work_lock\<close> is one
  function from state to state; an access to a freed cell gives None.  The user callback
  \<open>work_func\<close> is the environment: while it runs the thread is at \<open>DoWork\<close>, where the
  functions reserved for the serializer's context may be called, and its result is an
  argument of \<open>thread_finish_work\<close>.  The sections at the end put the critical sections of
  all threads into one step relation.
\<close>

section \<open>Data\<close>

definition ASYNC_WORK_LIST_MAX_SIZE :: nat where "ASYNC_WORK_LIST_MAX_SIZE = 500"
definition DELAYED_WORK_LIST_MAX_SIZE :: nat where "DELAYED_WORK_LIST_MAX_SIZE = 200"
definition ETIMEDOUT :: int where "ETIMEDOUT = 110"

record timespec =
  tv_sec :: int
  tv_nsec :: int

datatype serializer_state = SERIALIZER_PAUSED | SERIALIZER_RUNNING

datatype work_state = WORK_ASYNC | WORK_DELAYED | WORK_WAITING_FOR_FINISH | WORK_DONE
  | WORK_ABANDONED | WORK_ABORTED

record work =
  w_ctx :: nat
  w_obj :: nat
  w_id :: nat
  w_ts :: timespec
  w_state :: work_state
  w_result :: int

text \<open>
  Of \<open>work_ops_t\<close> the state keeps whether there is a \<open>free_func\<close> and the \<open>cmp_func\<close>, as a
  function of the object and the key; the calls of \<open>free_func\<close> are recorded in the trace.
\<close>

record work_op =
  has_free_func :: bool
  cmp_func :: "(nat \<Rightarrow> nat \<Rightarrow> int) option"

datatype ser_event =
    FreeFunc (ev_id: nat) (ev_obj: nat) (ev_ctx: nat)
  | CondSignal
  | CondBroadcast
  | ThreadCreate

record work_serializer =
  thread_id :: "nat option"
  ser_state :: serializer_state
  ser_stop :: bool
  ser_ops :: "work_op list"
  work_list :: "nat list"
  delayed_work_list :: "nat list"
  works :: "nat \<Rightarrow> work option"
  ser_trace :: "ser_event list"

abbreviation num_ops :: "work_serializer \<Rightarrow> nat" where
  "num_ops s \<equiv> length (ser_ops s)"

section \<open>Small helpers\<close>

definition is_delayed_work_before :: "work \<Rightarrow> timespec \<Rightarrow> bool" where
  "is_delayed_work_before w ts \<longleftrightarrow>
     tv_sec (w_ts w) < tv_sec ts \<or>
     (tv_sec (w_ts w) = tv_sec ts \<and> tv_nsec (w_ts w) < tv_nsec ts)"

text \<open>\<open>secs + (msecs / 1000)\<close> is computed in 32 bits and then widened to \<open>time_t\<close>.\<close>

definition add_time_to_timespec :: "timespec \<Rightarrow> u32 \<Rightarrow> u32 \<Rightarrow> timespec" where
  "add_time_to_timespec ts secs msecs =
     (let sec = tv_sec ts + uint (secs + msecs div 1000);
          nsec = tv_nsec ts + uint ((msecs mod 1000) * 1000000)
      in if nsec \<ge> 1000000000
         then \<lparr>tv_sec = sec + 1, tv_nsec = nsec mod 1000000000\<rparr>
         else \<lparr>tv_sec = sec, tv_nsec = nsec\<rparr>)"

definition emit :: "ser_event \<Rightarrow> work_serializer \<Rightarrow> work_serializer" where
  "emit e s = s\<lparr>ser_trace := ser_trace s @ [e]\<rparr>"

definition put_work :: "nat \<Rightarrow> work \<Rightarrow> work_serializer \<Rightarrow> work_serializer" where
  "put_work a w s = s\<lparr>works := (works s)(a \<mapsto> w)\<rparr>"

text \<open>\<open>free(work)\<close>: freeing a cell that is not allocated is undefined.\<close>

definition free_work :: "nat \<Rightarrow> work_serializer \<Rightarrow> work_serializer option" where
  "free_work a s = (if works s a = None then None else Some (s\<lparr>works := (works s)(a := None)\<rparr>))"

text \<open>\<open>if (ops[work->id].free_func) ops[work->id].free_func(work->obj, work->ctx)\<close>\<close>

definition call_free_func :: "nat \<Rightarrow> work_serializer \<Rightarrow> work_serializer option" where
  "call_free_func a s =
     do { w \<leftarrow> works s a;
          if w_id w < num_ops s
          then Some (if has_free_func (ser_ops s ! w_id w)
                     then emit (FreeFunc (w_id w) (w_obj w) (w_ctx w)) s else s)
          else None }"

section \<open>Creation\<close>

text \<open>
  \<open>mem_ok\<close> tells which of the two allocations succeed.  The thread that
  \<open>pthread_create\<close> starts has the identity \<open>tid\<close>.
\<close>

definition start_thread :: "nat \<Rightarrow> work_serializer \<Rightarrow> work_serializer" where
  "start_thread tid s = emit ThreadCreate (s\<lparr>ser_state := SERIALIZER_RUNNING, thread_id := Some tid\<rparr>)"

definition serializer_create ::
  "bool \<times> bool \<Rightarrow> nat \<Rightarrow> work_op list option \<Rightarrow> nat \<Rightarrow> bool \<Rightarrow> work_serializer option" where
  "serializer_create mem_ok tid ops n start_now =
     (case ops of
        None \<Rightarrow> None
      | Some os \<Rightarrow>
          if n = 0 then None
          else if \<not> fst mem_ok then None
          else if \<not> snd mem_ok then None
          else (let s = \<lparr>thread_id = None, ser_state = SERIALIZER_PAUSED, ser_stop = False,
                         ser_ops = take n os, work_list = [], delayed_work_list = [],
                         works = Map.empty, ser_trace = []\<rparr>
                in Some (if start_now then start_thread tid s else s)))"

definition fill_basic_work_data ::
  "timespec \<Rightarrow> nat \<Rightarrow> nat \<Rightarrow> nat \<Rightarrow> work_state \<Rightarrow> work" where
  "fill_basic_work_data now wid obj ctx st =
     \<lparr>w_ctx = ctx, w_obj = obj, w_id = wid, w_ts = now, w_state = st, w_result = 0\<rparr>"

text \<open>\<open>m\<close> is what \<open>malloc\<close> returns; a non-NULL result is a fresh address.\<close>

definition create_new_work ::
  "ptr \<Rightarrow> timespec \<Rightarrow> nat \<Rightarrow> nat \<Rightarrow> nat \<Rightarrow> work_state \<Rightarrow> work_serializer \<Rightarrow> ptr \<times> work_serializer" where
  "create_new_work m now wid obj ctx st s =
     (case m of
        None \<Rightarrow> (None, s)
      | Some a \<Rightarrow> (Some a, put_work a (fill_basic_work_data now wid obj ctx st) s))"

section \<open>Handing a work to the serializer\<close>

text \<open>
  The result of one pass through \<open>_serializer_exec_work\<close> up to the wait: the list was full
  and the caller sleeps and tries again, the function has returned, or the caller of a
  synchronous work waits for it.
\<close>

datatype exec_result = Again | Return (exec_rc: rc) | WaitForFinish

text \<open>
  The loops that place a work stop at the first entry it has to stand before.  Their state
  tells whether the work was inserted, its insertion failed, or a freed entry was read.
\<close>

datatype place_state = Looking | Placed | PlaceFailed | PlaceFault

definition place_before ::
  "(work \<Rightarrow> bool) \<Rightarrow> (nat \<Rightarrow> work option) \<Rightarrow> nat \<Rightarrow> place_state \<Rightarrow> nat \<Rightarrow> (nat, place_state) foreach_act" where
  "place_before stand ws a st e =
     (case ws e of
        None \<Rightarrow> KeepStop PlaceFault
      | Some we \<Rightarrow> if stand we then InsertBefore a (\<lambda>ok. if ok then Placed else PlaceFailed)
                   else Keep st)"

definition place_work ::
  "bool \<Rightarrow> (work \<Rightarrow> bool) \<Rightarrow> (nat \<Rightarrow> work option) \<Rightarrow> nat \<Rightarrow> nat list \<Rightarrow> (bool \<times> nat list) option" where
  "place_work ok stand ws a xs =
     (case seq_foreach ok (place_before stand ws a) Looking xs of
        (Looking, ys) \<Rightarrow> Some (if ok then (True, ys @ [a]) else (False, ys))
      | (Placed, ys) \<Rightarrow> Some (True, ys)
      | (PlaceFailed, ys) \<Rightarrow> Some (False, ys)
      | (PlaceFault, ys) \<Rightarrow> None)"

text \<open>
  One pass under the lock.  \<open>ok\<close> tells whether the list node can be allocated.  \<open>tid\<close> is
  the identity the thread gets when this call starts it.
\<close>

definition exec_insert :: "bool \<Rightarrow> nat \<Rightarrow> nat \<Rightarrow> work_serializer \<Rightarrow> (exec_result \<times> work_serializer) option" where
  "exec_insert ok tid a s =
     do { w \<leftarrow> works s a;
          if w_state w = WORK_ASYNC \<and> length (work_list s) \<ge> ASYNC_WORK_LIST_MAX_SIZE
          then Some (Again, s)
          else if w_state w = WORK_DELAYED \<and> length (delayed_work_list s) \<ge> DELAYED_WORK_LIST_MAX_SIZE
          then Some (Again, s)
          else do {
            (placed, s1) \<leftarrow>
              (if w_state w = WORK_ASYNC
               then Some (if ok then (True, s\<lparr>work_list := work_list s @ [a]\<rparr>) else (False, s))
               else if w_state w = WORK_DELAYED
               then do { (r, ds) \<leftarrow> place_work ok (\<lambda>e. is_delayed_work_before w (w_ts e)) (works s) a
                                     (delayed_work_list s);
                         Some (r, s\<lparr>delayed_work_list := ds\<rparr>) }
               else do { (r, ws) \<leftarrow> place_work ok (\<lambda>e. w_state e \<noteq> WORK_WAITING_FOR_FINISH) (works s) a
                                     (work_list s);
                         Some (r, s\<lparr>work_list := ws\<rparr>) });
            if \<not> placed then do { s2 \<leftarrow> free_work a s1; Some (Return 1, s2) }
            else (let s2 = (if ser_state s1 = SERIALIZER_PAUSED then start_thread tid s1
                            else emit CondSignal s1)
                  in if w_state w = WORK_ASYNC \<or> w_state w = WORK_DELAYED
                     then Some (Return 0, s2) else Some (WaitForFinish, s2)) } }"

text \<open>
  The part of \<open>_serializer_exec_work\<close> after the timed wait, which ends when the state of
  the work has changed or with an error.  The result is the return code and what \<open>*res\<close>
  is set to.
\<close>

definition exec_wait_over :: "nat \<Rightarrow> work_serializer \<Rightarrow> ((rc \<times> int option) \<times> work_serializer) option" where
  "exec_wait_over a s =
     do { w \<leftarrow> works s a;
          let (abandoned, s1) =
            (if w_state w = WORK_WAITING_FOR_FINISH
             then (if a \<in> set (work_list s)
                   then (False, s\<lparr>work_list := remove1 a (work_list s)\<rparr>)
                   else (True, put_work a (w\<lparr>w_state := WORK_ABANDONED\<rparr>) s))
             else (False, s));
          if abandoned then Some ((1, None), s1)
          else do { s2 \<leftarrow> free_work a s1;
                    if w_state w = WORK_WAITING_FOR_FINISH \<or> w_state w = WORK_ABORTED
                    then Some ((1, None), s2)
                    else Some ((0, Some (w_result w)), s2) } }"

text \<open>The entry points, up to the first pass through \<open>_serializer_exec_work\<close>.\<close>

definition serializer_exec_work ::
  "ptr \<Rightarrow> timespec \<Rightarrow> nat \<Rightarrow> nat \<Rightarrow> nat \<Rightarrow> nat \<Rightarrow> work_serializer option \<Rightarrow> (rc + nat) \<times> work_serializer option" where
  "serializer_exec_work m now self wid obj ctx sp =
     (case sp of
        None \<Rightarrow> (Inl 1, None)
      | Some s \<Rightarrow>
          if num_ops s \<le> wid then (Inl 1, sp)
          else if thread_id s = Some self then (Inl 1, sp)
          else (case create_new_work m now wid obj ctx WORK_WAITING_FOR_FINISH s of
                  (None, s') \<Rightarrow> (Inl 1, Some s')
                | (Some a, s') \<Rightarrow> (Inr a, Some s')))"

definition serializer_exec_work_async ::
  "ptr \<Rightarrow> timespec \<Rightarrow> nat \<Rightarrow> nat \<Rightarrow> nat \<Rightarrow> work_serializer option \<Rightarrow> (rc + nat) \<times> work_serializer option" where
  "serializer_exec_work_async m now wid obj ctx sp =
     (case sp of
        None \<Rightarrow> (Inl 1, None)
      | Some s \<Rightarrow>
          if num_ops s \<le> wid then (Inl 1, sp)
          else (case create_new_work m now wid obj ctx WORK_ASYNC s of
                  (None, s') \<Rightarrow> (Inl 1, Some s')
                | (Some a, s') \<Rightarrow> (Inr a, Some s')))"

definition serializer_add_delayed_work ::
  "ptr \<Rightarrow> timespec \<Rightarrow> nat \<Rightarrow> nat \<Rightarrow> nat \<Rightarrow> u32 \<Rightarrow> u32 \<Rightarrow> work_serializer option \<Rightarrow>
     (rc + nat) \<times> work_serializer option" where
  "serializer_add_delayed_work m now wid obj ctx secs msecs sp =
     (case sp of
        None \<Rightarrow> (Inl 1, None)
      | Some s \<Rightarrow>
          if num_ops s \<le> wid then (Inl 1, sp)
          else (case create_new_work m now wid obj ctx WORK_DELAYED s of
                  (None, s') \<Rightarrow> (Inl 1, Some s')
                | (Some a, s') \<Rightarrow>
                    (Inr a, Some (put_work a
                       ((fill_basic_work_data now wid obj ctx WORK_DELAYED)
                          \<lparr>w_ts := add_time_to_timespec now secs msecs\<rparr>) s'))))"

section \<open>The serializer thread\<close>

text \<open>
  The program points of \<open>serializer_work_thread\<close> between its critical sections;
  \<open>cw\<close> is the variable \<open>cw_res\<close>, which keeps its value from one iteration to the next.
  \<open>Took a cw\<close> is the code after the loop with \<open>work\<close> set, \<open>DoWork a cw\<close> the label
  \<open>do_work\<close>.
\<close>

datatype worker_pc =
    NotStarted
  | LoopTop int
  | Polling int
  | Sleeping timespec
  | Took nat int
  | DoWork nat int
  | Exited rc

definition thread_poll :: "timespec \<Rightarrow> int \<Rightarrow> work_serializer \<Rightarrow> (worker_pc \<times> work_serializer) option" where
  "thread_poll now cw s =
     (case work_list s of
        a # rest \<Rightarrow>
          do { w \<leftarrow> works s a;
               let s1 = s\<lparr>work_list := rest\<rparr>;
               Some (if w_state w = WORK_WAITING_FOR_FINISH then (DoWork a cw, s1) else (Took a cw, s1)) }
      | [] \<Rightarrow>
          (case delayed_work_list s of
             a # rest \<Rightarrow>
               do { w \<leftarrow> works s a;
                    if is_delayed_work_before w now
                    then Some (Took a cw, s\<lparr>delayed_work_list := rest\<rparr>)
                    else if tv_sec (w_ts w) < tv_sec now + 10 then Some (Sleeping (w_ts w), s)
                    else Some (Sleeping (now\<lparr>tv_sec := tv_sec now + 10\<rparr>), s) }
           | [] \<Rightarrow> Some (Sleeping (now\<lparr>tv_sec := tv_sec now + 10\<rparr>), s)))"

text \<open>The end of the loop: the work that was taken but not executed is released.\<close>

definition thread_release :: "nat \<Rightarrow> work_serializer \<Rightarrow> work_serializer option" where
  "thread_release a s = do { s1 \<leftarrow> call_free_func a s; free_work a s1 }"

definition thread_after_loop :: "ptr \<Rightarrow> int \<Rightarrow> work_serializer \<Rightarrow> (worker_pc \<times> work_serializer) option" where
  "thread_after_loop a cw s =
     (let leave = (\<lambda>ret. case a of
                     None \<Rightarrow> Some (Exited ret, s)
                   | Some b \<Rightarrow> do { s1 \<leftarrow> thread_release b s; Some (Exited ret, s1) })
      in if cw \<noteq> 0 \<and> cw \<noteq> ETIMEDOUT then leave (-1)
         else if ser_stop s then leave 0
         else (case a of None \<Rightarrow> Some (LoopTop cw, s) | Some b \<Rightarrow> Some (DoWork b cw, s)))"

text \<open>\<open>pthread_cond_timedwait\<close> has returned \<open>cw\<close>, the lock is held again.\<close>

definition thread_woken :: "int \<Rightarrow> work_serializer \<Rightarrow> (worker_pc \<times> work_serializer) option" where
  "thread_woken cw s =
     (if cw = 0 \<and> \<not> ser_stop s then Some (Polling cw, s) else thread_after_loop None cw s)"

definition thread_loop_top :: "int \<Rightarrow> work_serializer \<Rightarrow> worker_pc" where
  "thread_loop_top cw s = (if ser_stop s then Exited 0 else Polling cw)"

text \<open>\<open>work_func\<close> has returned \<open>work_res\<close>.\<close>

definition thread_finish_work :: "nat \<Rightarrow> int \<Rightarrow> int \<Rightarrow> work_serializer \<Rightarrow> (worker_pc \<times> work_serializer) option" where
  "thread_finish_work a work_res cw s =
     do { s1 \<leftarrow> call_free_func a s;
          w \<leftarrow> works s1 a;
          if w_state w = WORK_WAITING_FOR_FINISH
          then Some (LoopTop cw, emit CondBroadcast
                       (put_work a (w\<lparr>w_result := work_res, w_state := WORK_DONE\<rparr>) s1))
          else do { s2 \<leftarrow> free_work a s1; Some (LoopTop cw, s2) } }"

section \<open>Functions of the serializer's context\<close>

text \<open>A loop body cannot fault inside \<open>seq_foreach\<close>, so its state is the optional serializer.\<close>

definition cancel_body ::
  "nat \<Rightarrow> nat \<Rightarrow> nat \<Rightarrow> work_serializer option \<Rightarrow> nat \<Rightarrow> (nat, work_serializer option) foreach_act" where
  "cancel_body wid key ctx so a =
     (case so of
        None \<Rightarrow> KeepStop None
      | Some s \<Rightarrow>
          (case works s a of
             None \<Rightarrow> KeepStop None
           | Some w \<Rightarrow>
               if wid = w_id w \<and> ctx = w_ctx w \<and>
                  (case cmp_func (ser_ops s ! wid) of None \<Rightarrow> True | Some cmp \<Rightarrow> cmp (w_obj w) key = 0)
               then Remove (thread_release a s)
               else Keep (Some s)))"

definition serializer_cancel_delayed_work ::
  "nat \<Rightarrow> nat \<Rightarrow> nat \<Rightarrow> nat \<Rightarrow> work_serializer option \<Rightarrow> (rc \<times> work_serializer option) option" where
  "serializer_cancel_delayed_work self wid key ctx sp =
     (case sp of
        None \<Rightarrow> Some (1, None)
      | Some s \<Rightarrow>
          if num_ops s \<le> wid then Some (1, sp)
          else if thread_id s \<noteq> Some self then Some (1, sp)
          else (case seq_foreach True (cancel_body wid key ctx) (Some s) (delayed_work_list s) of
                  (None, _) \<Rightarrow> None
                | (Some s', ds) \<Rightarrow> Some (0, Some (s'\<lparr>delayed_work_list := ds\<rparr>))))"

text \<open>
  The loop of \<open>serializer_stop_all_by_ctx\<close>; the flag is \<open>need_notify\<close>.  The state is
  set to \<open>WORK_ABORTED\<close> before it is compared with \<open>WORK_WAITING_FOR_FINISH\<close> again, so every
  removed work is freed.
\<close>

definition stop_body ::
  "nat \<Rightarrow> (bool \<times> work_serializer) option \<Rightarrow> nat \<Rightarrow> (nat, (bool \<times> work_serializer) option) foreach_act" where
  "stop_body ctx st a =
     (case st of
        None \<Rightarrow> KeepStop None
      | Some (notify, s) \<Rightarrow>
          (case works s a of
             None \<Rightarrow> KeepStop None
           | Some w \<Rightarrow>
               if ctx = w_ctx w
               then Remove
                 (let sync = (w_state w = WORK_WAITING_FOR_FINISH);
                      w' = (if sync then w\<lparr>w_state := WORK_ABORTED\<rparr> else w)
                  in do { s1 \<leftarrow> call_free_func a (put_work a w' s);
                          s2 \<leftarrow> (if w_state w' \<noteq> WORK_WAITING_FOR_FINISH then free_work a s1 else Some s1);
                          Some (notify \<or> sync, s2) })
               else Keep (Some (notify, s))))"

text \<open>Both passes of the loop walk \<open>s->work_list\<close>.\<close>

definition stop_pass :: "nat \<Rightarrow> bool \<times> work_serializer \<Rightarrow> (bool \<times> work_serializer) option" where
  "stop_pass ctx st =
     (case seq_foreach True (stop_body ctx) (Some st) (work_list (snd st)) of
        (None, _) \<Rightarrow> None
      | (Some (notify, s'), ws) \<Rightarrow> Some (notify, s'\<lparr>work_list := ws\<rparr>))"

definition serializer_stop_all_by_ctx ::
  "nat \<Rightarrow> nat \<Rightarrow> work_serializer option \<Rightarrow> (rc \<times> work_serializer option) option" where
  "serializer_stop_all_by_ctx self ctx sp =
     (case sp of
        None \<Rightarrow> Some (1, None)
      | Some s \<Rightarrow>
          if thread_id s \<noteq> Some self then Some (1, sp)
          else do { st1 \<leftarrow> stop_pass ctx (False, s);
                    (notify, s2) \<leftarrow> stop_pass ctx st1;
                    Some (0, Some (if notify then emit CondBroadcast s2 else s2)) })"

section \<open>Destruction and queries\<close>

text \<open>
  \<open>serializer_destroy\<close> comes in two parts: the request to stop, and what follows once the
  thread has been joined.
\<close>

definition serializer_request_stop :: "work_serializer \<Rightarrow> work_serializer" where
  "serializer_request_stop s = emit CondSignal (s\<lparr>ser_stop := True\<rparr>)"

fun release_all :: "nat list \<Rightarrow> work_serializer \<Rightarrow> work_serializer option" where
  "release_all [] s = Some s"
| "release_all (a # as) s = do { s1 \<leftarrow> thread_release a s; release_all as s1 }"

definition serializer_destroy :: "work_serializer option \<Rightarrow> (rc \<times> work_serializer option) option" where
  "serializer_destroy sp =
     (case sp of
        None \<Rightarrow> Some (1, None)
      | Some s \<Rightarrow>
          do { s1 \<leftarrow> release_all (work_list s) s;
               s2 \<leftarrow> release_all (delayed_work_list s) s1;
               Some (0, Some (s2\<lparr>work_list := [], delayed_work_list := []\<rparr>)) })"

definition serializer_is_running :: "work_serializer option \<Rightarrow> bool" where
  "serializer_is_running sp =
     (case sp of None \<Rightarrow> False | Some s \<Rightarrow> ser_state s = SERIALIZER_RUNNING)"

definition serializer_in_context :: "nat \<Rightarrow> work_serializer option \<Rightarrow> bool" where
  "serializer_in_context self sp =
     (case sp of None \<Rightarrow> False | Some s \<Rightarrow> thread_id s = Some self)"

section \<open>All threads together\<close>

text \<open>
  The state of the whole: the serializer, the program point of its thread, the works whose
  submitter waits for them, and the works that are created and not yet on a list.  The
  actions are the critical sections; the environment chooses addresses, times, results of
  allocations and of the waits.
\<close>

record system =
  ser :: work_serializer
  pc :: worker_pc
  waiting :: "nat set"
  inserting :: "nat set"

datatype ser_action =
    SubmitSync nat timespec nat nat nat nat
  | SubmitAsync nat timespec nat nat nat
  | SubmitDelayed nat timespec nat nat nat u32 u32
  | TryInsert bool nat nat
  | WaitOver bool nat
  | RequestStop
  | ThreadLoopTop
  | ThreadPoll timespec
  | ThreadWoken int
  | ThreadAfterLoop
  | ThreadFinish int
  | CancelDelayed nat nat nat
  | StopAllByCtx nat

datatype outcome = Disabled | Fault | Next system

fun thread_moves :: "system \<Rightarrow> (worker_pc \<times> work_serializer) option \<Rightarrow> outcome" where
  "thread_moves \<sigma> None = Fault"
| "thread_moves \<sigma> (Some (p, s)) = Next (\<sigma>\<lparr>ser := s, pc := p\<rparr>)"

fun submitted :: "system \<Rightarrow> (rc + nat) \<times> work_serializer option \<Rightarrow> outcome" where
  "submitted \<sigma> (Inr a, Some s) = Next (\<sigma>\<lparr>ser := s, inserting := insert a (inserting \<sigma>)\<rparr>)"
| "submitted \<sigma> _ = Disabled"

fun in_context :: "system \<Rightarrow> (rc \<times> work_serializer option) option \<Rightarrow> outcome" where
  "in_context \<sigma> None = Fault"
| "in_context \<sigma> (Some (r, Some s)) = Next (\<sigma>\<lparr>ser := s\<rparr>)"
| "in_context \<sigma> (Some (r, None)) = Disabled"

definition started :: "work_serializer \<Rightarrow> worker_pc \<Rightarrow> worker_pc" where
  "started s p = (if ser_state s = SERIALIZER_PAUSED then LoopTop 0 else p)"

fun inserted :: "system \<Rightarrow> nat \<Rightarrow> (exec_result \<times> work_serializer) option \<Rightarrow> outcome" where
  "inserted \<sigma> a None = Fault"
| "inserted \<sigma> a (Some (Again, s)) = Next (\<sigma>\<lparr>ser := s\<rparr>)"
| "inserted \<sigma> a (Some (Return r, s)) =
     Next (\<sigma>\<lparr>ser := s, pc := (if r = 0 then started (ser \<sigma>) (pc \<sigma>) else pc \<sigma>),
            inserting := inserting \<sigma> - {a}\<rparr>)"
| "inserted \<sigma> a (Some (WaitForFinish, s)) =
     Next (\<sigma>\<lparr>ser := s, pc := started (ser \<sigma>) (pc \<sigma>), inserting := inserting \<sigma> - {a},
            waiting := insert a (waiting \<sigma>)\<rparr>)"

fun act :: "ser_action \<Rightarrow> system \<Rightarrow> outcome" where
  "act (SubmitSync a now self wid obj ctx) \<sigma> =
     (if works (ser \<sigma>) a \<noteq> None then Disabled
      else submitted \<sigma> (serializer_exec_work (Some a) now self wid obj ctx (Some (ser \<sigma>))))"
| "act (SubmitAsync a now wid obj ctx) \<sigma> =
     (if works (ser \<sigma>) a \<noteq> None then Disabled
      else submitted \<sigma> (serializer_exec_work_async (Some a) now wid obj ctx (Some (ser \<sigma>))))"
| "act (SubmitDelayed a now wid obj ctx secs msecs) \<sigma> =
     (if works (ser \<sigma>) a \<noteq> None then Disabled
      else submitted \<sigma> (serializer_add_delayed_work (Some a) now wid obj ctx secs msecs (Some (ser \<sigma>))))"
| "act (TryInsert ok tid a) \<sigma> =
     (if a \<in> inserting \<sigma> then inserted \<sigma> a (exec_insert ok tid a (ser \<sigma>)) else Disabled)"
| "act (WaitOver timed_out a) \<sigma> =
     (if a \<notin> waiting \<sigma> then Disabled
      else case works (ser \<sigma>) a of
             None \<Rightarrow> Fault
           | Some w \<Rightarrow>
               if \<not> timed_out \<and> w_state w = WORK_WAITING_FOR_FINISH then Disabled
               else (case exec_wait_over a (ser \<sigma>) of
                       None \<Rightarrow> Fault
                     | Some (r, s) \<Rightarrow> Next (\<sigma>\<lparr>ser := s, waiting := waiting \<sigma> - {a}\<rparr>)))"
| "act RequestStop \<sigma> = Next (\<sigma>\<lparr>ser := serializer_request_stop (ser \<sigma>)\<rparr>)"
| "act ThreadLoopTop \<sigma> =
     (case pc \<sigma> of LoopTop cw \<Rightarrow> Next (\<sigma>\<lparr>pc := thread_loop_top cw (ser \<sigma>)\<rparr>) | _ \<Rightarrow> Disabled)"
| "act (ThreadPoll now) \<sigma> =
     (case pc \<sigma> of Polling cw \<Rightarrow> thread_moves \<sigma> (thread_poll now cw (ser \<sigma>)) | _ \<Rightarrow> Disabled)"
| "act (ThreadWoken cw) \<sigma> =
     (case pc \<sigma> of Sleeping _ \<Rightarrow> thread_moves \<sigma> (thread_woken cw (ser \<sigma>)) | _ \<Rightarrow> Disabled)"
| "act ThreadAfterLoop \<sigma> =
     (case pc \<sigma> of Took a cw \<Rightarrow> thread_moves \<sigma> (thread_after_loop (Some a) cw (ser \<sigma>)) | _ \<Rightarrow> Disabled)"
| "act (ThreadFinish res) \<sigma> =
     (case pc \<sigma> of DoWork a cw \<Rightarrow> thread_moves \<sigma> (thread_finish_work a res cw (ser \<sigma>)) | _ \<Rightarrow> Disabled)"
| "act (CancelDelayed wid key ctx) \<sigma> =
     (case pc \<sigma> of
        DoWork a cw \<Rightarrow>
          in_context \<sigma> (serializer_cancel_delayed_work (the (thread_id (ser \<sigma>))) wid key ctx (Some (ser \<sigma>)))
      | _ \<Rightarrow> Disabled)"
| "act (StopAllByCtx ctx) \<sigma> =
     (case pc \<sigma> of
        DoWork a cw \<Rightarrow>
          in_context \<sigma> (serializer_stop_all_by_ctx (the (thread_id (ser \<sigma>))) ctx (Some (ser \<sigma>)))
      | _ \<Rightarrow> Disabled)"

text \<open>
  What the callers have to respect: nobody waits for a synchronous work of the context that
  is stopped.
\<close>

fun respected :: "ser_action \<Rightarrow> system \<Rightarrow> bool" where
  "respected (StopAllByCtx ctx) \<sigma> \<longleftrightarrow>
     (\<forall>a \<in> set (work_list (ser \<sigma>)). \<forall>w. works (ser \<sigma>) a = Some w \<longrightarrow>
        w_state w = WORK_WAITING_FOR_FINISH \<longrightarrow> w_ctx w \<noteq> ctx)"
| "respected _ \<sigma> \<longleftrightarrow> True"

inductive ser_reach :: "system \<Rightarrow> bool" where
  ser_created:
    "serializer_create (True, True) tid (Some ops) n start_now = Some s \<Longrightarrow>
     ser_reach \<lparr>ser = s, pc = (if start_now then LoopTop 0 else NotStarted), waiting = {}, inserting = {}\<rparr>"
| ser_acts: "ser_reach \<sigma> \<Longrightarrow> respected ac \<sigma> \<Longrightarrow> act ac \<sigma> = Next \<sigma>' \<Longrightarrow> ser_reach \<sigma>'"

section \<open>The order of time stamps\<close>

definition ts_less :: "timespec \<Rightarrow> timespec \<Rightarrow> bool" where
  "ts_less t u \<longleftrightarrow> tv_sec t < tv_sec u \<or> (tv_sec t = tv_sec u \<and> tv_nsec t < tv_nsec u)"

lemma before_ts_less: "is_delayed_work_before w ts = ts_less (w_ts w) ts"
  by (simp add: is_delayed_work_before_def ts_less_def)

lemma ts_less_trans: "ts_less t u \<Longrightarrow> ts_less u v \<Longrightarrow> ts_less t v"
  by (auto simp: ts_less_def)

lemma ts_less_irrefl [simp]: "\<not> ts_less t t"
  by (simp add: ts_less_def)

lemma ts_less_neg_trans: "\<not> ts_less u t \<Longrightarrow> \<not> ts_less v u \<Longrightarrow> \<not> ts_less v t"
  by (auto simp: ts_less_def)

section \<open>Releasing works\<close>

text \<open>What releasing works does, as one update, and the calls of \<open>free_func\<close> it makes.\<close>

definition valid_ids :: "work_serializer \<Rightarrow> bool" where
  "valid_ids s \<longleftrightarrow> (\<forall>a w. works s a = Some w \<longrightarrow> w_id w < num_ops s)"

definition free_event :: "work_serializer \<Rightarrow> nat \<Rightarrow> ser_event list" where
  "free_event s a =
     (case works s a of
        Some w \<Rightarrow> if has_free_func (ser_ops s ! w_id w) then [FreeFunc (w_id w) (w_obj w) (w_ctx w)] else []
      | None \<Rightarrow> [])"

definition released :: "nat list \<Rightarrow> work_serializer \<Rightarrow> work_serializer" where
  "released as s = s\<lparr>works := works s |` (- set as),
                     ser_trace := ser_trace s @ concat (map (free_event s) as)\<rparr>"

lemma released_sel [simp]:
  "works (released as s) = works s |` (- set as)"
  "work_list (released as s) = work_list s" "delayed_work_list (released as s) = delayed_work_list s"
  "ser_ops (released as s) = ser_ops s" "thread_id (released as s) = thread_id s"
  "ser_state (released as s) = ser_state s" "ser_stop (released as s) = ser_stop s"
  by (simp_all add: released_def)

lemma released_trace: "ser_trace (released as s) = ser_trace s @ concat (map (free_event s) as)"
  by (simp add: released_def)

lemma released_upd:
  "(released as s)\<lparr>works := ws, ser_trace := tr\<rparr> = s\<lparr>works := ws, ser_trace := tr\<rparr>"
  by (simp add: released_def)

lemma released_Nil [simp]: "released [] s = s"
  by (simp add: released_def restrict_map_def)

lemma valid_ids_released: "valid_ids s \<Longrightarrow> valid_ids (released as s)"
  by (auto simp: valid_ids_def restrict_map_def split: if_splits)

lemma free_event_released: "x \<noteq> a \<Longrightarrow> free_event (released [a] s) x = free_event s x"
  by (simp add: free_event_def restrict_map_def split: option.split)

lemma released_Cons: "a \<notin> set bs \<Longrightarrow> released bs (released [a] s) = released (a # bs) s"
proof -
  assume a: "a \<notin> set bs"
  have "works s |` (- {a}) |` (- set bs) = works s |` (- set (a # bs))"
    by (auto simp: restrict_map_def)
  moreover have "map (free_event (released [a] s)) bs = map (free_event s) bs"
  proof (rule map_cong [OF refl])
    fix x assume "x \<in> set bs"
    with a have "x \<noteq> a" by auto
    then show "free_event (released [a] s) x = free_event s x" by (rule free_event_released)
  qed
  ultimately have "map (free_event (released [a] s)) bs = map (free_event s) bs"
    "works (released [a] s) |` (- set bs) = works s |` (- set (a # bs))" by simp_all
  then show ?thesis
    by (simp only: released_def [of bs "released [a] s"] released_def [of "a # bs"] released_upd released_trace)
       simp
qed

lemma thread_release_ok:
  "valid_ids s \<Longrightarrow> works s a \<noteq> None \<Longrightarrow> thread_release a s = Some (released [a] s)"
  by (auto simp: thread_release_def call_free_func_def free_work_def emit_def released_def
      free_event_def valid_ids_def restrict_map_def fun_eq_iff)

lemma release_all_ok:
  "valid_ids s \<Longrightarrow> distinct as \<Longrightarrow> \<forall>a \<in> set as. works s a \<noteq> None \<Longrightarrow>
   release_all as s = Some (released as s)"
proof (induction as arbitrary: s)
  case Nil
  then show ?case by simp
next
  case (Cons a as)
  then have "release_all as (released [a] s) = Some (released as (released [a] s))"
    by (intro Cons.IH) (auto simp: valid_ids_released restrict_map_def)
  with Cons.prems show ?case by (simp add: thread_release_ok released_Cons)
qed


section \<open>The loops\<close>

lemma place_loop:
  assumes "\<forall>e \<in> set xs. ws e \<noteq> None"
  shows "seq_foreach ok (place_before stand ws a) Looking xs =
     (let ys = takeWhile (\<lambda>e. \<not> stand (the (ws e))) xs; zs = dropWhile (\<lambda>e. \<not> stand (the (ws e))) xs
      in if zs = [] then (Looking, xs)
         else if ok then (Placed, ys @ a # zs) else (PlaceFailed, xs))"
  using assms by (induction xs) (auto simp: place_before_def Let_def)

lemma place_work_split:
  assumes "\<forall>e \<in> set xs. ws e \<noteq> None"
  shows "place_work ok stand ws a xs =
     Some (if ok then (True, takeWhile (\<lambda>e. \<not> stand (the (ws e))) xs @ a #
                             dropWhile (\<lambda>e. \<not> stand (the (ws e))) xs)
           else (False, xs))"
proof (cases "dropWhile (\<lambda>e. \<not> stand (the (ws e))) xs = []")
  case True
  then have "takeWhile (\<lambda>e. \<not> stand (the (ws e))) xs = xs"
    by (metis takeWhile_dropWhile_id append_Nil2)
  with True show ?thesis
    by (simp only: place_work_def place_loop [OF assms] Let_def simp_thms if_True prod.case place_state.case)
next
  case False
  then show ?thesis
    by (simp add: place_work_def place_loop [OF assms] Let_def del: dropWhile_eq_Nil_conv)
qed

definition cancelled :: "nat \<Rightarrow> nat \<Rightarrow> nat \<Rightarrow> work_serializer \<Rightarrow> nat \<Rightarrow> bool" where
  "cancelled wid key ctx s a =
     (case works s a of
        None \<Rightarrow> False
      | Some w \<Rightarrow> wid = w_id w \<and> ctx = w_ctx w \<and>
          (case cmp_func (ser_ops s ! wid) of None \<Rightarrow> True | Some cmp \<Rightarrow> cmp (w_obj w) key = 0))"

lemma cancelled_released:
  "x \<noteq> a \<Longrightarrow> cancelled wid key ctx (released [a] s) x = cancelled wid key ctx s x"
  by (simp add: cancelled_def restrict_map_def split: option.split)

lemma filter_released:
  assumes "a \<notin> set xs" and P: "\<And>x. x \<noteq> a \<Longrightarrow> P (released [a] s) x = P s x"
  shows "filter (P (released [a] s)) xs = filter (P s) xs"
    and "filter (\<lambda>x. \<not> P (released [a] s) x) xs = filter (\<lambda>x. \<not> P s x) xs"
proof -
  have "P (released [a] s) x = P s x" if "x \<in> set xs" for x
    using that assms(1) by (metis P)
  then show "filter (P (released [a] s)) xs = filter (P s) xs"
    and "filter (\<lambda>x. \<not> P (released [a] s) x) xs = filter (\<lambda>x. \<not> P s x) xs"
    by (auto cong: filter_cong)
qed

lemma still_allocated:
  "a \<notin> set xs \<Longrightarrow> \<forall>e \<in> set xs. works s e \<noteq> None \<Longrightarrow> \<forall>e \<in> set xs. works (released [a] s) e \<noteq> None"
  by (auto simp: restrict_map_def)

lemma cancel_loop:
  "valid_ids s \<Longrightarrow> distinct xs \<Longrightarrow> \<forall>e \<in> set xs. works s e \<noteq> None \<Longrightarrow>
   seq_foreach True (cancel_body wid key ctx) (Some s) xs =
     (Some (released (filter (cancelled wid key ctx s) xs) s), filter (\<lambda>a. \<not> cancelled wid key ctx s a) xs)"
proof (induction xs arbitrary: s)
  case Nil
  then show ?case by simp
next
  case (Cons a xs)
  then obtain w where w: "works s a = Some w" by auto
  show ?case
  proof (cases "cancelled wid key ctx s a")
    case True
    let ?s = "released [a] s"
    have same: "filter (cancelled wid key ctx ?s) xs = filter (cancelled wid key ctx s) xs"
      "filter (\<lambda>a. \<not> cancelled wid key ctx ?s a) xs = filter (\<lambda>a. \<not> cancelled wid key ctx s a) xs"
      using Cons.prems(2) by (auto intro!: filter_released cancelled_released)
    have "cancel_body wid key ctx (Some s) a = Remove (Some ?s)"
      using True w Cons.prems by (auto simp: cancel_body_def cancelled_def thread_release_ok)
    moreover have "seq_foreach True (cancel_body wid key ctx) (Some ?s) xs =
        (Some (released (filter (cancelled wid key ctx s) xs) ?s), filter (\<lambda>a. \<not> cancelled wid key ctx s a) xs)"
      unfolding same [symmetric] using Cons.prems
      by (intro Cons.IH valid_ids_released still_allocated) simp_all
    ultimately show ?thesis using True Cons.prems(2) by (simp add: released_Cons)
  next
    case False
    with w have "cancel_body wid key ctx (Some s) a = Keep (Some s)"
      by (auto simp: cancel_body_def cancelled_def split: option.splits)
    with False Cons show ?thesis by (simp add: map_prod_def)
  qed
qed

definition of_ctx :: "nat \<Rightarrow> work_serializer \<Rightarrow> nat \<Rightarrow> bool" where
  "of_ctx ctx s a = (case works s a of None \<Rightarrow> False | Some w \<Rightarrow> w_ctx w = ctx)"

definition is_sync :: "work_serializer \<Rightarrow> nat \<Rightarrow> bool" where
  "is_sync s a = (case works s a of None \<Rightarrow> False | Some w \<Rightarrow> w_state w = WORK_WAITING_FOR_FINISH)"

lemma of_ctx_released: "x \<noteq> a \<Longrightarrow> of_ctx ctx (released [a] s) x = of_ctx ctx s x"
  by (simp add: of_ctx_def restrict_map_def split: option.split)

lemma is_sync_released: "x \<noteq> a \<Longrightarrow> is_sync (released [a] s) x = is_sync s x"
  by (simp add: is_sync_def restrict_map_def split: option.split)

lemma stop_body_release:
  assumes "valid_ids s" "of_ctx ctx s a"
  shows "stop_body ctx (Some (n, s)) a = Remove (Some (n \<or> is_sync s a, released [a] s))"
proof -
  from assms obtain w where w: "works s a = Some w" "w_ctx w = ctx" by (auto simp: of_ctx_def split: option.splits)
  moreover from assms w have "w_id w < num_ops s" by (auto simp: valid_ids_def)
  ultimately show ?thesis
    by (auto simp: stop_body_def is_sync_def call_free_func_def put_work_def free_work_def emit_def
        released_def free_event_def restrict_map_def fun_eq_iff Let_def)
qed

lemma stop_loop:
  "valid_ids s \<Longrightarrow> distinct xs \<Longrightarrow> \<forall>e \<in> set xs. works s e \<noteq> None \<Longrightarrow>
   seq_foreach True (stop_body ctx) (Some (n, s)) xs =
     (Some (n \<or> (\<exists>a \<in> set xs. of_ctx ctx s a \<and> is_sync s a), released (filter (of_ctx ctx s) xs) s),
      filter (\<lambda>a. \<not> of_ctx ctx s a) xs)"
proof (induction xs arbitrary: s n)
  case Nil
  then show ?case by simp
next
  case (Cons a xs)
  then obtain w where w: "works s a = Some w" by auto
  show ?case
  proof (cases "of_ctx ctx s a")
    case True
    let ?s = "released [a] s"
    have same: "filter (of_ctx ctx ?s) xs = filter (of_ctx ctx s) xs"
      "filter (\<lambda>a. \<not> of_ctx ctx ?s a) xs = filter (\<lambda>a. \<not> of_ctx ctx s a) xs"
      using Cons.prems(2) by (auto intro!: filter_released of_ctx_released)
    have same2: "(\<exists>x \<in> set xs. of_ctx ctx ?s x \<and> is_sync ?s x) = (\<exists>x \<in> set xs. of_ctx ctx s x \<and> is_sync s x)"
      using Cons.prems(2) by (metis of_ctx_released is_sync_released distinct.simps(2))
    have "seq_foreach True (stop_body ctx) (Some (n \<or> is_sync s a, ?s)) xs =
        (Some ((n \<or> is_sync s a) \<or> (\<exists>a \<in> set xs. of_ctx ctx s a \<and> is_sync s a),
               released (filter (of_ctx ctx s) xs) ?s), filter (\<lambda>a. \<not> of_ctx ctx s a) xs)"
      unfolding same [symmetric] same2 [symmetric] using Cons.prems
      by (intro Cons.IH valid_ids_released still_allocated) simp_all
    with True Cons.prems show ?thesis by (simp add: stop_body_release released_Cons)
  next
    case False
    with w have "stop_body ctx (Some (n, s)) a = Keep (Some (n, s))"
      by (auto simp: stop_body_def of_ctx_def)
    with False Cons show ?thesis by (simp add: map_prod_def)
  qed
qed

lemma stop_pass_ok:
  assumes "valid_ids s" "distinct (work_list s)" "\<forall>e \<in> set (work_list s). works s e \<noteq> None"
  shows "stop_pass ctx (n, s) =
     Some (n \<or> (\<exists>a \<in> set (work_list s). of_ctx ctx s a \<and> is_sync s a),
           (released (filter (of_ctx ctx s) (work_list s)) s)
             \<lparr>work_list := filter (\<lambda>a. \<not> of_ctx ctx s a) (work_list s)\<rparr>)"
  by (simp add: stop_pass_def stop_loop [OF assms])


section \<open>Who owns a work\<close>

text \<open>
  \<open>W\<close> and \<open>D\<close> are the works on the two lists, \<open>R\<close> the one the thread has taken,
  \<open>T\<close> those whose submitter waits, \<open>I\<close> those not yet on a list.  Every allocated work
  is in one of the sets, and its state tells which thread will free it.
\<close>

definition state_of :: "(nat \<Rightarrow> work option) \<Rightarrow> nat \<Rightarrow> work_state option" where
  "state_of ws a = map_option w_state (ws a)"

definition owner_ok ::
  "(nat \<Rightarrow> work option) \<Rightarrow> nat set \<Rightarrow> nat set \<Rightarrow> nat set \<Rightarrow> nat set \<Rightarrow> nat set \<Rightarrow> bool" where
  "owner_ok ws W D R T I \<longleftrightarrow>
     (R \<union> I) \<inter> (W \<union> D) = {} \<and> R \<inter> I = {} \<and> T \<inter> I = {} \<and>
     (\<forall>a \<in> W. state_of ws a \<in> {Some WORK_ASYNC, Some WORK_WAITING_FOR_FINISH}) \<and>
     (\<forall>a \<in> D. state_of ws a = Some WORK_DELAYED) \<and>
     (\<forall>a \<in> R. state_of ws a \<in> {Some WORK_ASYNC, Some WORK_DELAYED, Some WORK_WAITING_FOR_FINISH, Some WORK_ABANDONED}) \<and>
     (\<forall>a \<in> I. state_of ws a \<in> {Some WORK_ASYNC, Some WORK_DELAYED, Some WORK_WAITING_FOR_FINISH}) \<and>
     (\<forall>a \<in> T. state_of ws a = Some WORK_DONE \<or> (state_of ws a = Some WORK_WAITING_FOR_FINISH \<and> a \<in> W \<union> R)) \<and>
     (\<forall>a \<in> W \<union> R. state_of ws a = Some WORK_WAITING_FOR_FINISH \<longrightarrow> a \<in> T) \<and>
     dom ws = W \<union> D \<union> R \<union> T \<union> I"

lemma state_of_upd [simp]:
  "state_of (ws(a \<mapsto> w)) b = (if b = a then Some (w_state w) else state_of ws b)"
  "state_of (ws(a := None)) b = (if b = a then None else state_of ws b)"
  by (simp_all add: state_of_def)

lemma state_of_restrict: "state_of (ws |` A) a = (if a \<in> A then state_of ws a else None)"
  by (simp add: state_of_def restrict_map_def)

lemma owner_dom: "owner_ok ws W D R T I \<Longrightarrow> a \<in> W \<union> D \<union> R \<union> T \<union> I \<longleftrightarrow> ws a \<noteq> None"
  unfolding owner_ok_def by (metis domIff)

lemma owner_disjoint: "owner_ok ws W D R T I \<Longrightarrow> W \<inter> D = {} \<and> D \<inter> T = {}"
proof -
  assume ok: "owner_ok ws W D R T I"
  have "state_of ws a = Some WORK_DELAYED" if "a \<in> D" for a using ok that by (simp add: owner_ok_def)
  moreover have "state_of ws a \<noteq> Some WORK_DELAYED" if "a \<in> W" for a
    using ok that unfolding owner_ok_def by (metis insertE option.inject singletonD work_state.distinct(1,11))
  moreover have "state_of ws a \<noteq> Some WORK_DELAYED" if "a \<in> T" for a
    using ok that unfolding owner_ok_def by (metis option.inject work_state.distinct(11,13))
  ultimately show ?thesis by blast
qed

lemma owner_waited:
  assumes ok: "owner_ok ws W D R T I" and a: "a \<in> T" "state_of ws a \<noteq> Some WORK_WAITING_FOR_FINISH"
  shows "state_of ws a = Some WORK_DONE \<and> a \<notin> W \<union> R"
proof
  show fin: "state_of ws a = Some WORK_DONE" using assms unfolding owner_ok_def by blast
  have "\<forall>b \<in> W \<union> R. state_of ws b \<noteq> Some WORK_DONE" using ok by (auto simp: owner_ok_def)
  with fin show "a \<notin> W \<union> R" by blast
qed

lemma owner_new:
  assumes "owner_ok ws W D R T I" "ws a = None"
    "w_state w \<in> {WORK_ASYNC, WORK_DELAYED, WORK_WAITING_FOR_FINISH}"
  shows "owner_ok (ws(a \<mapsto> w)) W D R T (insert a I)"
proof -
  have "a \<notin> W \<union> D \<union> R \<union> T \<union> I" using owner_dom [OF assms(1), of a] assms(2) by simp
  with assms show ?thesis unfolding owner_ok_def by auto
qed

lemma owner_enqueue:
  assumes "owner_ok ws W D R T I" "a \<in> I"
  shows "state_of ws a = Some WORK_ASYNC \<Longrightarrow> owner_ok ws (insert a W) D R T (I - {a})"
    and "state_of ws a = Some WORK_DELAYED \<Longrightarrow> owner_ok ws W (insert a D) R T (I - {a})"
    and "state_of ws a = Some WORK_WAITING_FOR_FINISH \<Longrightarrow> owner_ok ws (insert a W) D R (insert a T) (I - {a})"
  using assms unfolding owner_ok_def by auto

lemma owner_drop:
  assumes "owner_ok ws W D R T I" "a \<in> I"
  shows "owner_ok (ws(a := None)) W D R T (I - {a})"
proof -
  have "a \<notin> W \<union> D \<union> R \<union> T" using assms by (auto simp: owner_ok_def)
  with assms show ?thesis by (auto simp: owner_ok_def)
qed

lemma owner_take:
  assumes "owner_ok ws W D {} T I"
  shows "a \<in> W \<Longrightarrow> owner_ok ws (W - {a}) D {a} T I" "a \<in> D \<Longrightarrow> owner_ok ws W (D - {a}) {a} T I"
  using assms unfolding owner_ok_def by auto

lemma owner_finish:
  assumes "owner_ok ws W D {a} T I" "ws a = Some w"
  shows "w_state w = WORK_WAITING_FOR_FINISH \<Longrightarrow> w_state w' = WORK_DONE \<Longrightarrow>
      owner_ok (ws(a \<mapsto> w')) W D {} T I"
    and "w_state w \<noteq> WORK_WAITING_FOR_FINISH \<Longrightarrow> owner_ok (ws(a := None)) W D {} T I"
proof -
  have a: "a \<notin> W \<union> D \<union> I" "state_of ws a = Some (w_state w)"
    using assms by (auto simp: owner_ok_def state_of_def)
  show "owner_ok (ws(a \<mapsto> w')) W D {} T I"
    if "w_state w = WORK_WAITING_FOR_FINISH" "w_state w' = WORK_DONE"
    using a that assms unfolding owner_ok_def by auto
  have "a \<notin> T" if "w_state w \<noteq> WORK_WAITING_FOR_FINISH"
    using a that assms unfolding owner_ok_def by auto
  then show "owner_ok (ws(a := None)) W D {} T I" if "w_state w \<noteq> WORK_WAITING_FOR_FINISH"
    using a that assms unfolding owner_ok_def by auto
qed

lemma owner_wait_over:
  assumes "owner_ok ws W D R T I" "a \<in> T" "ws a = Some w"
  shows "w_state w = WORK_WAITING_FOR_FINISH \<Longrightarrow> a \<in> W \<Longrightarrow> owner_ok (ws(a := None)) (W - {a}) D R (T - {a}) I"
    and "w_state w = WORK_WAITING_FOR_FINISH \<Longrightarrow> a \<notin> W \<Longrightarrow> w_state w' = WORK_ABANDONED \<Longrightarrow>
      owner_ok (ws(a \<mapsto> w')) W D R (T - {a}) I"
    and "w_state w \<noteq> WORK_WAITING_FOR_FINISH \<Longrightarrow> w_state w = WORK_DONE \<and> owner_ok (ws(a := None)) W D R (T - {a}) I"
proof -
  have a: "a \<notin> I" "state_of ws a = Some (w_state w)" "a \<notin> D"
    using assms owner_disjoint [OF assms(1)] by (auto simp: owner_ok_def state_of_def)
  show "owner_ok (ws(a := None)) (W - {a}) D R (T - {a}) I"
    if "w_state w = WORK_WAITING_FOR_FINISH" "a \<in> W"
    using a that assms unfolding owner_ok_def by auto
  show "owner_ok (ws(a \<mapsto> w')) W D R (T - {a}) I"
    if "w_state w = WORK_WAITING_FOR_FINISH" "a \<notin> W" "w_state w' = WORK_ABANDONED"
    using a that assms unfolding owner_ok_def by auto
  have "a \<notin> W \<union> R \<and> w_state w = WORK_DONE" if "w_state w \<noteq> WORK_WAITING_FOR_FINISH"
    using owner_waited [OF assms(1,2)] a that by simp
  then show "w_state w = WORK_DONE \<and> owner_ok (ws(a := None)) W D R (T - {a}) I"
    if "w_state w \<noteq> WORK_WAITING_FOR_FINISH"
    using a that assms unfolding owner_ok_def by auto
qed

lemma owner_release:
  assumes "owner_ok ws W D R T I"
  shows "X \<subseteq> D \<Longrightarrow> owner_ok (ws |` (- X)) W (D - X) R T I"
    and "X \<subseteq> W \<Longrightarrow> \<forall>a \<in> X. state_of ws a \<noteq> Some WORK_WAITING_FOR_FINISH \<Longrightarrow>
      owner_ok (ws |` (- X)) (W - X) D R T I"
proof -
  show "owner_ok (ws |` (- X)) W (D - X) R T I" if "X \<subseteq> D"
  proof -
    have "X \<inter> (W \<union> R \<union> T \<union> I) = {}" using assms that owner_disjoint [OF assms] unfolding owner_ok_def by auto
    moreover have "dom (ws |` (- X)) = dom ws - X" by auto
    ultimately show ?thesis
      using assms that unfolding owner_ok_def by (auto simp: state_of_restrict)
  qed
  show "owner_ok (ws |` (- X)) (W - X) D R T I"
    if "X \<subseteq> W" "\<forall>a \<in> X. state_of ws a \<noteq> Some WORK_WAITING_FOR_FINISH"
  proof -
    have "X \<inter> T = {}" using owner_waited [OF assms] that by blast
    then have "X \<inter> (D \<union> R \<union> T \<union> I) = {}"
      using assms that owner_disjoint [OF assms] unfolding owner_ok_def by auto
    moreover have "dom (ws |` (- X)) = dom ws - X" by auto
    ultimately show ?thesis
      using assms that unfolding owner_ok_def by (auto simp: state_of_restrict)
  qed
qed


section \<open>The order of the lists\<close>

definition stamp :: "(nat \<Rightarrow> work option) \<Rightarrow> nat \<Rightarrow> timespec" where
  "stamp ws a = w_ts (the (ws a))"

definition work_order :: "(nat \<Rightarrow> work option) \<Rightarrow> nat list \<Rightarrow> bool" where
  "work_order ws wl \<longleftrightarrow> distinct wl \<and>
     (\<exists>xs ys. wl = xs @ ys \<and> (\<forall>a \<in> set xs. state_of ws a = Some WORK_WAITING_FOR_FINISH) \<and>
        (\<forall>a \<in> set ys. state_of ws a = Some WORK_ASYNC) \<and> length ys \<le> ASYNC_WORK_LIST_MAX_SIZE)"

definition delayed_order :: "(nat \<Rightarrow> work option) \<Rightarrow> nat list \<Rightarrow> bool" where
  "delayed_order ws dl \<longleftrightarrow> distinct dl \<and>
     sorted_wrt (\<lambda>a b. \<not> ts_less (stamp ws b) (stamp ws a)) dl \<and>
     length dl \<le> DELAYED_WORK_LIST_MAX_SIZE"

lemma work_order_cong:
  "\<forall>a \<in> set wl. ws a = ws' a \<Longrightarrow> work_order ws wl = work_order ws' wl"
  unfolding work_order_def state_of_def by (metis (no_types, lifting) Un_iff set_append)

lemma delayed_order_cong:
  assumes "\<forall>a \<in> set dl. ws a = ws' a" shows "delayed_order ws dl = delayed_order ws' dl"
proof -
  have "\<forall>a \<in> set dl. stamp ws a = stamp ws' a" using assms by (simp add: stamp_def)
  then have "sorted_wrt (\<lambda>a b. \<not> ts_less (stamp ws b) (stamp ws a)) dl =
      sorted_wrt (\<lambda>a b. \<not> ts_less (stamp ws' b) (stamp ws' a)) dl"
    by (auto simp: sorted_wrt_iff_nth_less)
  then show ?thesis by (simp add: delayed_order_def)
qed

lemma order_restrict:
  assumes "set xs \<inter> X = {}"
  shows "work_order (ws |` (- X)) xs = work_order ws xs" "delayed_order (ws |` (- X)) xs = delayed_order ws xs"
proof -
  have same: "\<forall>a \<in> set xs. (ws |` (- X)) a = ws a" using assms by (auto simp: restrict_map_def)
  show "work_order (ws |` (- X)) xs = work_order ws xs" by (rule work_order_cong [OF same])
  show "delayed_order (ws |` (- X)) xs = delayed_order ws xs" by (rule delayed_order_cong [OF same])
qed

lemma work_order_async:
  assumes "work_order ws wl" "length wl < ASYNC_WORK_LIST_MAX_SIZE" "a \<notin> set wl"
    "state_of ws a = Some WORK_ASYNC"
  shows "work_order ws (wl @ [a])"
proof -
  obtain xs ys where wl: "wl = xs @ ys" "\<forall>a \<in> set xs. state_of ws a = Some WORK_WAITING_FOR_FINISH"
    "\<forall>a \<in> set ys. state_of ws a = Some WORK_ASYNC"
    using assms(1) by (auto simp: work_order_def)
  have "wl @ [a] = xs @ (ys @ [a])" "length (ys @ [a]) \<le> ASYNC_WORK_LIST_MAX_SIZE"
    using wl(1) assms(2) by simp_all
  with wl assms(1,3,4) show ?thesis unfolding work_order_def
    by (intro conjI exI [of _ xs] exI [of _ "ys @ [a]"]) auto
qed

lemma waiting_state: "state_of ws a = Some st \<Longrightarrow> w_state (the (ws a)) = st"
  by (auto simp: state_of_def)

lemma takeWhile_append_split:
  "\<forall>x \<in> set xs. P x \<Longrightarrow> \<forall>y \<in> set ys. \<not> P y \<Longrightarrow> takeWhile P (xs @ ys) = xs \<and> dropWhile P (xs @ ys) = ys"
proof (induction xs)
  case Nil
  then show ?case by (cases ys) auto
next
  case (Cons x xs)
  then show ?case by simp
qed

lemma work_order_split:
  assumes "work_order ws wl"
  shows "\<exists>xs ys. wl = xs @ ys \<and> (\<forall>a \<in> set xs. state_of ws a = Some WORK_WAITING_FOR_FINISH) \<and>
      (\<forall>a \<in> set ys. state_of ws a = Some WORK_ASYNC) \<and> length ys \<le> ASYNC_WORK_LIST_MAX_SIZE \<and>
      takeWhile (\<lambda>e. w_state (the (ws e)) = WORK_WAITING_FOR_FINISH) wl = xs \<and>
      dropWhile (\<lambda>e. w_state (the (ws e)) = WORK_WAITING_FOR_FINISH) wl = ys"
proof -
  obtain xs ys where wl: "wl = xs @ ys" "\<forall>a \<in> set xs. state_of ws a = Some WORK_WAITING_FOR_FINISH"
    "\<forall>a \<in> set ys. state_of ws a = Some WORK_ASYNC" "length ys \<le> ASYNC_WORK_LIST_MAX_SIZE"
    using assms by (auto simp: work_order_def)
  have "\<forall>x \<in> set xs. w_state (the (ws x)) = WORK_WAITING_FOR_FINISH"
    "\<forall>x \<in> set ys. w_state (the (ws x)) \<noteq> WORK_WAITING_FOR_FINISH"
    using wl by (auto dest!: bspec waiting_state)
  from takeWhile_append_split [OF this] wl show ?thesis by blast
qed

lemma work_order_sync:
  assumes "work_order ws wl" "a \<notin> set wl" "state_of ws a = Some WORK_WAITING_FOR_FINISH"
  shows "work_order ws (takeWhile (\<lambda>e. w_state (the (ws e)) = WORK_WAITING_FOR_FINISH) wl @ a #
      dropWhile (\<lambda>e. w_state (the (ws e)) = WORK_WAITING_FOR_FINISH) wl)"
proof -
  obtain xs ys where wl: "wl = xs @ ys" "\<forall>a \<in> set xs. state_of ws a = Some WORK_WAITING_FOR_FINISH"
    "\<forall>a \<in> set ys. state_of ws a = Some WORK_ASYNC" "length ys \<le> ASYNC_WORK_LIST_MAX_SIZE"
    "takeWhile (\<lambda>e. w_state (the (ws e)) = WORK_WAITING_FOR_FINISH) wl = xs"
    "dropWhile (\<lambda>e. w_state (the (ws e)) = WORK_WAITING_FOR_FINISH) wl = ys"
    using work_order_split [OF assms(1)] by blast
  have "distinct (xs @ a # ys)" using assms wl(1) by (auto simp: work_order_def)
  then show ?thesis unfolding wl(5,6) work_order_def
    using wl(2-4) assms(3) by (intro conjI exI [of _ "xs @ [a]"] exI [of _ ys]) auto
qed

lemma work_order_filter: "work_order ws wl \<Longrightarrow> work_order ws (filter P wl)"
proof -
  assume "work_order ws wl"
  then obtain xs ys where wl: "wl = xs @ ys" "distinct wl" "\<forall>a \<in> set xs. state_of ws a = Some WORK_WAITING_FOR_FINISH"
    "\<forall>a \<in> set ys. state_of ws a = Some WORK_ASYNC" "length ys \<le> ASYNC_WORK_LIST_MAX_SIZE"
    by (auto simp: work_order_def)
  have "length (filter P ys) \<le> ASYNC_WORK_LIST_MAX_SIZE" using wl(5) length_filter_le [of P ys] by linarith
  with wl show ?thesis unfolding work_order_def
    by (intro conjI exI [of _ "filter P xs"] exI [of _ "filter P ys"]) auto
qed

lemma work_order_remove: "work_order ws wl \<Longrightarrow> work_order ws (remove1 a wl)"
  by (metis work_order_filter work_order_def distinct_remove1_removeAll removeAll_filter_not_eq)

lemma work_order_tail: "work_order ws (a # wl) \<Longrightarrow> work_order ws wl"
  using work_order_remove [of ws "a # wl" a] by simp

lemma delayed_order_filter: "delayed_order ws dl \<Longrightarrow> delayed_order ws (filter P dl)"
proof -
  assume ok: "delayed_order ws dl"
  have "length (filter P dl) \<le> DELAYED_WORK_LIST_MAX_SIZE"
    using ok le_trans [OF length_filter_le [of P dl]] by (simp add: delayed_order_def)
  with ok show ?thesis by (simp add: delayed_order_def sorted_wrt_filter)
qed

lemma delayed_order_tail: "delayed_order ws (a # dl) \<Longrightarrow> delayed_order ws dl"
  by (simp add: delayed_order_def)

lemma delayed_split:
  assumes ok: "delayed_order ws dl"
  shows "(\<forall>e \<in> set (takeWhile (\<lambda>e. \<not> is_delayed_work_before w (w_ts (the (ws e)))) dl). \<not> ts_less (w_ts w) (stamp ws e)) \<and>
    (\<forall>e \<in> set (dropWhile (\<lambda>e. \<not> is_delayed_work_before w (w_ts (the (ws e)))) dl). ts_less (w_ts w) (stamp ws e)) \<and>
    dl = takeWhile (\<lambda>e. \<not> is_delayed_work_before w (w_ts (the (ws e)))) dl @
         dropWhile (\<lambda>e. \<not> is_delayed_work_before w (w_ts (the (ws e)))) dl"
    (is "(\<forall>e \<in> set (takeWhile ?P dl). _) \<and> _")
proof (intro conjI ballI)
  have P: "?P e \<longleftrightarrow> \<not> ts_less (w_ts w) (stamp ws e)" for e by (simp add: before_ts_less stamp_def)
  show "\<not> ts_less (w_ts w) (stamp ws e)" if "e \<in> set (takeWhile ?P dl)" for e
    using that P by (auto dest: set_takeWhileD)
  show "ts_less (w_ts w) (stamp ws e)" if "e \<in> set (dropWhile ?P dl)" for e
  proof -
    have sorted: "sorted_wrt (\<lambda>a b. \<not> ts_less (stamp ws b) (stamp ws a)) (takeWhile ?P dl @ dropWhile ?P dl)"
      using ok by (simp add: delayed_order_def)
    from that obtain d ds where d: "dropWhile ?P dl = d # ds" by (cases "dropWhile ?P dl") auto
    then have "ts_less (w_ts w) (stamp ws d)" using P dropWhile_eq_Cons_conv [of ?P dl d ds] by auto
    moreover have "e = d \<or> \<not> ts_less (stamp ws e) (stamp ws d)"
      using that d sorted by (auto simp: sorted_wrt_append)
    ultimately show ?thesis by (metis ts_less_neg_trans)
  qed
qed simp

lemma delayed_split_ex:
  assumes "delayed_order ws dl"
  shows "\<exists>xs ys. dl = xs @ ys \<and> (\<forall>e \<in> set xs. \<not> ts_less (w_ts w) (stamp ws e)) \<and>
    (\<forall>e \<in> set ys. ts_less (w_ts w) (stamp ws e)) \<and>
    takeWhile (\<lambda>e. \<not> is_delayed_work_before w (w_ts (the (ws e)))) dl = xs \<and>
    dropWhile (\<lambda>e. \<not> is_delayed_work_before w (w_ts (the (ws e)))) dl = ys"
  by (intro exI conjI refl) (use delayed_split [OF assms, of w] in auto)

lemma delayed_order_insert:
  assumes ok: "delayed_order ws dl" and "length dl < DELAYED_WORK_LIST_MAX_SIZE" "a \<notin> set dl" "ws a = Some w"
  shows "delayed_order ws (takeWhile (\<lambda>e. \<not> is_delayed_work_before w (w_ts (the (ws e)))) dl @ a #
      dropWhile (\<lambda>e. \<not> is_delayed_work_before w (w_ts (the (ws e)))) dl)"
    (is "delayed_order ws (takeWhile ?P dl @ a # dropWhile ?P dl)")
proof -
  have sorted: "sorted_wrt (\<lambda>a b. \<not> ts_less (stamp ws b) (stamp ws a)) (takeWhile ?P dl @ dropWhile ?P dl)"
    using ok by (simp add: delayed_order_def)
  have a: "stamp ws a = w_ts w" by (simp add: stamp_def assms(4))
  have first: "\<forall>e \<in> set (takeWhile ?P dl). \<not> ts_less (stamp ws a) (stamp ws e)"
    and rest: "\<forall>e \<in> set (dropWhile ?P dl). \<not> ts_less (stamp ws e) (stamp ws a)"
    using delayed_split [OF ok, of w] ts_less_trans ts_less_irrefl unfolding a by blast+
  have "length (takeWhile ?P dl @ a # dropWhile ?P dl) = Suc (length (takeWhile ?P dl @ dropWhile ?P dl))"
    by (simp only: length_append list.size)
  then have "length (takeWhile ?P dl @ a # dropWhile ?P dl) \<le> DELAYED_WORK_LIST_MAX_SIZE"
    using assms(2) by simp
  moreover have "distinct (takeWhile ?P dl @ a # dropWhile ?P dl)"
    by (rule distinct_insert_mid) (use ok assms(3) in \<open>simp_all add: delayed_order_def\<close>)
  moreover have "sorted_wrt (\<lambda>a b. \<not> ts_less (stamp ws b) (stamp ws a)) (takeWhile ?P dl @ a # dropWhile ?P dl)"
    using sorted [unfolded sorted_wrt_append] first rest unfolding sorted_wrt_append by auto
  ultimately show ?thesis unfolding delayed_order_def by blast
qed

section \<open>The invariant\<close>

fun taken :: "worker_pc \<Rightarrow> nat set" where
  "taken (Took a cw) = {a}"
| "taken (DoWork a cw) = {a}"
| "taken _ = {}"

definition sys_inv :: "work_serializer \<Rightarrow> worker_pc \<Rightarrow> nat set \<Rightarrow> nat set \<Rightarrow> bool" where
  "sys_inv s p T I \<longleftrightarrow>
     valid_ids s \<and>
     owner_ok (works s) (set (work_list s)) (set (delayed_work_list s)) (taken p) T I \<and>
     work_order (works s) (work_list s) \<and> delayed_order (works s) (delayed_work_list s) \<and>
     (ser_state s = SERIALIZER_PAUSED \<longrightarrow> p = NotStarted) \<and>
     (\<forall>a cw. p = Took a cw \<longrightarrow> state_of (works s) a \<in> {Some WORK_ASYNC, Some WORK_DELAYED}) \<and>
     (p \<noteq> NotStarted \<longrightarrow> thread_id s \<noteq> None)"

definition ser_inv :: "system \<Rightarrow> bool" where
  "ser_inv \<sigma> \<longleftrightarrow> sys_inv (ser \<sigma>) (pc \<sigma>) (waiting \<sigma>) (inserting \<sigma>)"

fun safe :: "outcome \<Rightarrow> bool" where
  "safe Disabled = True"
| "safe Fault = False"
| "safe (Next \<sigma>) = ser_inv \<sigma>"

lemma ser_invE:
  assumes "ser_inv \<sigma>"
  shows "valid_ids (ser \<sigma>)"
    and "owner_ok (works (ser \<sigma>)) (set (work_list (ser \<sigma>))) (set (delayed_work_list (ser \<sigma>)))
      (taken (pc \<sigma>)) (waiting \<sigma>) (inserting \<sigma>)"
    and "work_order (works (ser \<sigma>)) (work_list (ser \<sigma>))"
    and "delayed_order (works (ser \<sigma>)) (delayed_work_list (ser \<sigma>))"
    and "ser_state (ser \<sigma>) = SERIALIZER_PAUSED \<Longrightarrow> pc \<sigma> = NotStarted"
    and "pc \<sigma> = Took a cw \<Longrightarrow> state_of (works (ser \<sigma>)) a \<in> {Some WORK_ASYNC, Some WORK_DELAYED}"
    and "pc \<sigma> \<noteq> NotStarted \<Longrightarrow> thread_id (ser \<sigma>) \<noteq> None"
  using assms by (simp_all add: ser_inv_def sys_inv_def)

lemma ser_inv_allocated:
  assumes "ser_inv \<sigma>"
    "a \<in> set (work_list (ser \<sigma>)) \<union> set (delayed_work_list (ser \<sigma>)) \<union> taken (pc \<sigma>) \<union> waiting \<sigma> \<union> inserting \<sigma>"
  shows "\<exists>w. works (ser \<sigma>) a = Some w"
  using owner_dom [OF ser_invE(2) [OF assms(1)], of a] assms(2) by auto

lemma ser_inv_distinct:
  assumes "ser_inv \<sigma>" shows "distinct (work_list (ser \<sigma>))" "distinct (delayed_work_list (ser \<sigma>))"
  using ser_invE(3,4) [OF assms] by (simp_all add: work_order_def delayed_order_def)

lemma ser_inv_trace: "ser_inv (\<sigma>\<lparr>ser := (ser \<sigma>)\<lparr>ser_trace := t\<rparr>\<rparr>) = ser_inv \<sigma>"
  by (simp add: ser_inv_def sys_inv_def valid_ids_def)

text \<open>A new work.\<close>

lemma inv_new_work:
  assumes inv: "ser_inv \<sigma>" and a: "works (ser \<sigma>) a = None"
    and w: "w_state w \<in> {WORK_ASYNC, WORK_DELAYED, WORK_WAITING_FOR_FINISH}" "w_id w < num_ops (ser \<sigma>)"
  shows "ser_inv (\<sigma>\<lparr>ser := put_work a w (ser \<sigma>), inserting := insert a (inserting \<sigma>)\<rparr>)"
proof -
  note E = ser_invE [OF inv]
  have fresh: "a \<notin> set (work_list (ser \<sigma>))" "a \<notin> set (delayed_work_list (ser \<sigma>))" "a \<notin> taken (pc \<sigma>)"
    using owner_dom [OF E(2), of a] a by auto
  have "owner_ok ((works (ser \<sigma>))(a \<mapsto> w)) (set (work_list (ser \<sigma>))) (set (delayed_work_list (ser \<sigma>)))
      (taken (pc \<sigma>)) (waiting \<sigma>) (insert a (inserting \<sigma>))"
    by (rule owner_new [OF E(2) a w(1)])
  moreover have "work_order ((works (ser \<sigma>))(a \<mapsto> w)) (work_list (ser \<sigma>))"
    "delayed_order ((works (ser \<sigma>))(a \<mapsto> w)) (delayed_work_list (ser \<sigma>))"
    using E(3,4) fresh work_order_cong [of "work_list (ser \<sigma>)" "works (ser \<sigma>)" "(works (ser \<sigma>))(a \<mapsto> w)"]
      delayed_order_cong [of "delayed_work_list (ser \<sigma>)" "works (ser \<sigma>)" "(works (ser \<sigma>))(a \<mapsto> w)"]
    by auto
  moreover have "valid_ids (put_work a w (ser \<sigma>))" using E(1) w(2) by (auto simp: valid_ids_def put_work_def)
  ultimately show ?thesis using E(5-) fresh(3) by (auto simp: ser_inv_def sys_inv_def put_work_def)
qed

lemma put_work_put_work: "put_work a v (put_work a w s) = put_work a v s"
  by (simp add: put_work_def)

lemma safe_submit:
  assumes "ser_inv \<sigma>"
  shows "safe (act (SubmitSync a now self wid obj ctx) \<sigma>)"
    and "safe (act (SubmitAsync a now wid obj ctx) \<sigma>)"
    and "safe (act (SubmitDelayed a now wid obj ctx secs msecs) \<sigma>)"
  using inv_new_work [OF assms]
  by (auto simp: serializer_exec_work_def serializer_exec_work_async_def serializer_add_delayed_work_def
      create_new_work_def fill_basic_work_data_def put_work_put_work)


text \<open>One pass of the submitter.\<close>

lemma sys_inv_started:
  "sys_inv s p T I \<Longrightarrow> ser_state s = SERIALIZER_PAUSED \<Longrightarrow> sys_inv (start_thread tid s) (LoopTop 0) T I"
  by (auto simp: sys_inv_def start_thread_def emit_def valid_ids_def)

lemma sys_inv_emit: "sys_inv (emit e s) p T I = sys_inv s p T I"
  by (simp add: sys_inv_def emit_def valid_ids_def)

lemma inv_lists:
  assumes "ser_inv \<sigma>"
    and "owner_ok (works (ser \<sigma>)) (set wl) (set dl) (taken (pc \<sigma>)) T I"
    and "work_order (works (ser \<sigma>)) wl" "delayed_order (works (ser \<sigma>)) dl"
  shows "ser_inv (\<sigma>\<lparr>ser := (ser \<sigma>)\<lparr>work_list := wl, delayed_work_list := dl\<rparr>, waiting := T, inserting := I\<rparr>)"
  using assms(2-) ser_invE [OF assms(1)] by (auto simp: ser_inv_def sys_inv_def valid_ids_def)

text \<open>The three ways of an insertion, as one formula.\<close>

definition exec_lists :: "nat \<Rightarrow> work \<Rightarrow> work_serializer \<Rightarrow> nat list \<times> nat list" where
  "exec_lists a w s =
     (if w_state w = WORK_ASYNC then (work_list s @ [a], delayed_work_list s)
      else if w_state w = WORK_DELAYED
      then (work_list s,
            takeWhile (\<lambda>e. \<not> is_delayed_work_before w (w_ts (the (works s e)))) (delayed_work_list s) @ a #
            dropWhile (\<lambda>e. \<not> is_delayed_work_before w (w_ts (the (works s e)))) (delayed_work_list s))
      else (takeWhile (\<lambda>e. w_state (the (works s e)) = WORK_WAITING_FOR_FINISH) (work_list s) @ a #
            dropWhile (\<lambda>e. w_state (the (works s e)) = WORK_WAITING_FOR_FINISH) (work_list s),
            delayed_work_list s))"

definition exec_full :: "work \<Rightarrow> work_serializer \<Rightarrow> bool" where
  "exec_full w s \<longleftrightarrow>
     w_state w = WORK_ASYNC \<and> length (work_list s) \<ge> ASYNC_WORK_LIST_MAX_SIZE \<or>
     w_state w = WORK_DELAYED \<and> length (delayed_work_list s) \<ge> DELAYED_WORK_LIST_MAX_SIZE"

lemma exec_insert_eq:
  assumes "works s a = Some w" "\<forall>e \<in> set (work_list s) \<union> set (delayed_work_list s). works s e \<noteq> None"
  shows "exec_insert ok tid a s =
    (if exec_full w s then Some (Again, s)
     else if \<not> ok then Some (Return 1, s\<lparr>works := (works s)(a := None)\<rparr>)
     else (let s1 = s\<lparr>work_list := fst (exec_lists a w s), delayed_work_list := snd (exec_lists a w s)\<rparr>;
               s2 = (if ser_state s = SERIALIZER_PAUSED then start_thread tid s1 else emit CondSignal s1)
           in Some (if w_state w = WORK_ASYNC \<or> w_state w = WORK_DELAYED then Return 0 else WaitForFinish, s2)))"
  using assms
  by (simp add: exec_insert_def place_work_split exec_lists_def exec_full_def free_work_def Let_def)

lemma exec_lists_inv:
  assumes inv: "ser_inv \<sigma>" and a: "a \<in> inserting \<sigma>" and w: "works (ser \<sigma>) a = Some w"
    and room: "\<not> exec_full w (ser \<sigma>)"
  shows "ser_inv (\<sigma>\<lparr>ser := (ser \<sigma>)\<lparr>work_list := fst (exec_lists a w (ser \<sigma>)),
                                delayed_work_list := snd (exec_lists a w (ser \<sigma>))\<rparr>,
                  waiting := (if w_state w = WORK_WAITING_FOR_FINISH then insert a (waiting \<sigma>) else waiting \<sigma>),
                  inserting := inserting \<sigma> - {a}\<rparr>)"
proof (rule inv_lists [OF inv])
  note E = ser_invE [OF inv]
  let ?ws = "works (ser \<sigma>)" and ?wl = "work_list (ser \<sigma>)" and ?dl = "delayed_work_list (ser \<sigma>)"
  have st: "state_of ?ws a = Some (w_state w)" by (simp add: state_of_def w)
  have cases: "w_state w = WORK_ASYNC \<or> w_state w = WORK_DELAYED \<or> w_state w = WORK_WAITING_FOR_FINISH"
    using E(2) a st by (auto simp: owner_ok_def)
  have out: "a \<notin> set ?wl" "a \<notin> set ?dl" using E(2) a by (auto simp: owner_ok_def)
  have split: "set (takeWhile P xs @ a # dropWhile P xs) = insert a (set xs)" for P xs
    using takeWhile_dropWhile_id [of P xs] by (metis Un_insert_right list.simps(15) set_append)
  have snoc: "set (xs @ [a]) = insert a (set xs)" for xs by simp
  show "owner_ok ?ws (set (fst (exec_lists a w (ser \<sigma>)))) (set (snd (exec_lists a w (ser \<sigma>)))) (taken (pc \<sigma>))
      (if w_state w = WORK_WAITING_FOR_FINISH then insert a (waiting \<sigma>) else waiting \<sigma>) (inserting \<sigma> - {a})"
    using cases owner_enqueue [OF E(2) a] st by (auto simp: exec_lists_def split snoc simp del: set_append)
  show "work_order ?ws (fst (exec_lists a w (ser \<sigma>)))"
    using cases E(3) work_order_async [OF E(3) _ out(1)] work_order_sync [OF E(3) out(1)] room st
    by (auto simp: exec_lists_def exec_full_def)
  show "delayed_order ?ws (snd (exec_lists a w (ser \<sigma>)))"
    using cases E(4) delayed_order_insert [OF E(4) _ out(2) w] room by (auto simp: exec_lists_def exec_full_def)
qed

lemma inv_drop_new:
  assumes inv: "ser_inv \<sigma>" and a: "a \<in> inserting \<sigma>"
  shows "ser_inv (\<sigma>\<lparr>ser := (ser \<sigma>)\<lparr>works := (works (ser \<sigma>))(a := None)\<rparr>, inserting := inserting \<sigma> - {a}\<rparr>)"
proof -
  note E = ser_invE [OF inv]
  let ?ws = "works (ser \<sigma>)"
  have out: "a \<notin> set (work_list (ser \<sigma>))" "a \<notin> set (delayed_work_list (ser \<sigma>))" "a \<notin> taken (pc \<sigma>)"
    using E(2) a by (auto simp: owner_ok_def)
  then have "work_order (?ws(a := None)) (work_list (ser \<sigma>))"
    "delayed_order (?ws(a := None)) (delayed_work_list (ser \<sigma>))"
    using E(3,4) work_order_cong [of "work_list (ser \<sigma>)" ?ws "?ws(a := None)"]
      delayed_order_cong [of "delayed_work_list (ser \<sigma>)" ?ws "?ws(a := None)"] by auto
  with owner_drop [OF E(2) a] E(1,5-) out show ?thesis
    by (auto simp: ser_inv_def sys_inv_def valid_ids_def)
qed

lemma safe_insert:
  assumes inv: "ser_inv \<sigma>" shows "safe (act (TryInsert ok tid a) \<sigma>)"
proof (cases "a \<in> inserting \<sigma>")
  case False
  then show ?thesis by simp
next
  case True
  then obtain w where w: "works (ser \<sigma>) a = Some w" using ser_inv_allocated [OF inv] by blast
  have alloc: "\<forall>e \<in> set (work_list (ser \<sigma>)) \<union> set (delayed_work_list (ser \<sigma>)). works (ser \<sigma>) e \<noteq> None"
    using ser_inv_allocated [OF inv] by fastforce
  note eq = exec_insert_eq [OF w alloc]
  have st: "w_state w = WORK_ASYNC \<or> w_state w = WORK_DELAYED \<or> w_state w = WORK_WAITING_FOR_FINISH"
    using ser_invE(2) [OF inv] True w by (auto simp: owner_ok_def state_of_def)
  consider "exec_full w (ser \<sigma>)" | "\<not> exec_full w (ser \<sigma>)" "\<not> ok" | "\<not> exec_full w (ser \<sigma>)" "ok" by blast
  then show ?thesis
  proof cases
    case 1
    with True inv show ?thesis by (simp add: eq)
  next
    case 2
    with True inv_drop_new [OF inv True] show ?thesis by (simp add: eq)
  next
    case 3
    let ?s1 = "(ser \<sigma>)\<lparr>work_list := fst (exec_lists a w (ser \<sigma>)),
                       delayed_work_list := snd (exec_lists a w (ser \<sigma>))\<rparr>"
    let ?T = "if w_state w = WORK_WAITING_FOR_FINISH then insert a (waiting \<sigma>) else waiting \<sigma>"
    have inv1: "sys_inv ?s1 (pc \<sigma>) ?T (inserting \<sigma> - {a})"
      using exec_lists_inv [OF inv True w 3(1)] by (simp add: ser_inv_def)
    have "sys_inv (if ser_state (ser \<sigma>) = SERIALIZER_PAUSED then start_thread tid ?s1 else emit CondSignal ?s1)
        (started (ser \<sigma>) (pc \<sigma>)) ?T (inserting \<sigma> - {a})"
      using inv1 sys_inv_started [OF inv1]
      by (cases "ser_state (ser \<sigma>) = SERIALIZER_PAUSED") (simp_all add: started_def sys_inv_emit split del: if_split)
    with True 3 st show ?thesis by (auto simp: eq Let_def ser_inv_def)
  qed
qed

text \<open>The submitter returns from the wait.\<close>

lemma safe_wait_over:
  assumes inv: "ser_inv \<sigma>" shows "safe (act (WaitOver timed_out a) \<sigma>)"
proof (cases "a \<in> waiting \<sigma>")
  case False
  then show ?thesis by simp
next
  case True
  then obtain w where w: "works (ser \<sigma>) a = Some w" using ser_inv_allocated [OF inv] by blast
  note E = ser_invE [OF inv]
  let ?ws = "works (ser \<sigma>)" and ?wl = "work_list (ser \<sigma>)" and ?dl = "delayed_work_list (ser \<sigma>)"
  note after = owner_wait_over [OF E(2) True w]
  have other: "a \<notin> set ?dl" using owner_disjoint [OF E(2)] True by blast
  have order: "delayed_order (?ws(a := v)) ?dl" for v
    using E(4) other delayed_order_cong [of ?dl ?ws "?ws(a := v)"] by auto
  have worder: "work_order (?ws(a := v)) wl" if "work_order ?ws wl" "a \<notin> set wl" for v wl
    using that work_order_cong [of wl ?ws "?ws(a := v)"] by auto
  have took: "pc \<sigma> \<noteq> Took a cw" if "w_state w \<noteq> WORK_ASYNC" "w_state w \<noteq> WORK_DELAYED" for cw
    using E(6) [of a cw] that by (auto simp: state_of_def w)
  consider (listed) "w_state w = WORK_WAITING_FOR_FINISH" "a \<in> set ?wl"
    | (running) "w_state w = WORK_WAITING_FOR_FINISH" "a \<notin> set ?wl"
    | (over) "w_state w \<noteq> WORK_WAITING_FOR_FINISH" by blast
  then show ?thesis
  proof cases
    case listed
    have "set (remove1 a ?wl) = set ?wl - {a}" "a \<notin> set (remove1 a ?wl)"
      using ser_inv_distinct [OF inv] by (auto simp: set_remove1_eq)
    with listed after(1) worder [OF work_order_remove [OF E(3)]] order E(1,5-) took
    have "ser_inv (\<sigma>\<lparr>ser := (ser \<sigma>)\<lparr>work_list := remove1 a ?wl, works := ?ws(a := None)\<rparr>, waiting := waiting \<sigma> - {a}\<rparr>)"
      by (auto simp: ser_inv_def sys_inv_def valid_ids_def)
    with True listed w show ?thesis by (auto simp: exec_wait_over_def free_work_def Let_def)
  next
    case running
    from running after(2) [of "w\<lparr>w_state := WORK_ABANDONED\<rparr>"] worder [OF E(3)] order E(1,5-) took w
    have "ser_inv (\<sigma>\<lparr>ser := put_work a (w\<lparr>w_state := WORK_ABANDONED\<rparr>) (ser \<sigma>), waiting := waiting \<sigma> - {a}\<rparr>)"
      by (auto simp: ser_inv_def sys_inv_def valid_ids_def put_work_def)
    with True running w show ?thesis by (auto simp: exec_wait_over_def Let_def)
  next
    case over
    have free: "a \<notin> set ?wl" using owner_waited [OF E(2) True] over w by (auto simp: state_of_def)
    have "ser_inv (\<sigma>\<lparr>ser := (ser \<sigma>)\<lparr>works := ?ws(a := None)\<rparr>, waiting := waiting \<sigma> - {a}\<rparr>)"
      using after(3) [OF over] worder [OF E(3) free] order E(1,5-) took
      by (auto simp: ser_inv_def sys_inv_def valid_ids_def)
    with True over w show ?thesis by (auto simp: exec_wait_over_def free_work_def Let_def)
  qed
qed


text \<open>The steps of the thread.\<close>

lemma inv_pc:
  assumes "ser_inv \<sigma>" "taken p = taken (pc \<sigma>)" "pc \<sigma> \<noteq> NotStarted" "\<And>a cw. p = Took a cw \<Longrightarrow> pc \<sigma> = p"
  shows "ser_inv (\<sigma>\<lparr>pc := p\<rparr>)"
  using assms by (auto simp: ser_inv_def sys_inv_def)

lemma safe_request_stop: "ser_inv \<sigma> \<Longrightarrow> safe (act RequestStop \<sigma>)"
  by (simp add: ser_inv_def serializer_request_stop_def sys_inv_emit) (simp add: sys_inv_def valid_ids_def)

lemma safe_loop_top: "ser_inv \<sigma> \<Longrightarrow> safe (act ThreadLoopTop \<sigma>)"
  by (auto simp: thread_loop_top_def intro!: inv_pc split: worker_pc.split)

lemma safe_woken: "ser_inv \<sigma> \<Longrightarrow> safe (act (ThreadWoken cw) \<sigma>)"
  by (auto simp: thread_woken_def thread_after_loop_def Let_def intro!: inv_pc split: worker_pc.split)

lemma safe_poll:
  assumes inv: "ser_inv \<sigma>" shows "safe (act (ThreadPoll now) \<sigma>)"
proof (cases "pc \<sigma>")
  case (Polling cw)
  note E = ser_invE [OF inv]
  let ?s = "ser \<sigma>"
  have own: "owner_ok (works ?s) (set (work_list ?s)) (set (delayed_work_list ?s)) {} (waiting \<sigma>) (inserting \<sigma>)"
    using E(2) Polling by simp
  show ?thesis
  proof (cases "work_list ?s")
    case (Cons a rest)
    obtain w where w: "works ?s a = Some w" using ser_inv_allocated [OF inv, of a] Cons by auto
    have st: "state_of (works ?s) a \<in> {Some WORK_ASYNC, Some WORK_WAITING_FOR_FINISH}"
      using own Cons by (simp add: owner_ok_def)
    have rest: "set rest = set (work_list ?s) - {a}" using ser_inv_distinct(1) [OF inv] Cons by auto
    have own': "owner_ok (works ?s) (set rest) (set (delayed_work_list ?s)) {a} (waiting \<sigma>) (inserting \<sigma>)"
      unfolding rest by (rule owner_take(1) [OF own]) (simp add: Cons)
    have "work_order (works ?s) rest" using E(3) Cons work_order_tail by simp
    with own' E(1,4,7) st Polling have "sys_inv (?s\<lparr>work_list := rest\<rparr>)
        (if w_state w = WORK_WAITING_FOR_FINISH then DoWork a cw else Took a cw) (waiting \<sigma>) (inserting \<sigma>)"
      using E(5) by (auto simp: sys_inv_def valid_ids_def state_of_def w)
    with Polling Cons w show ?thesis by (auto simp: thread_poll_def ser_inv_def Let_def)
  next
    case Nil
    show ?thesis
    proof (cases "delayed_work_list ?s")
      case Nil
      with \<open>work_list ?s = []\<close> Polling inv show ?thesis by (auto simp: thread_poll_def intro!: inv_pc)
    next
      case (Cons a rest)
      obtain w where w: "works ?s a = Some w" using ser_inv_allocated [OF inv, of a] Cons by auto
      have st: "state_of (works ?s) a = Some WORK_DELAYED" using own Cons by (simp add: owner_ok_def)
      have rest: "set rest = set (delayed_work_list ?s) - {a}" using ser_inv_distinct(2) [OF inv] Cons by auto
      have "owner_ok (works ?s) (set (work_list ?s)) (set rest) {a} (waiting \<sigma>) (inserting \<sigma>)"
        unfolding rest by (rule owner_take(2) [OF own]) (simp add: Cons)
      moreover have "delayed_order (works ?s) rest" using E(4) Cons delayed_order_tail by simp
      ultimately have "sys_inv (?s\<lparr>delayed_work_list := rest\<rparr>) (Took a cw) (waiting \<sigma>) (inserting \<sigma>)"
        using E(1,3,5,7) Polling st by (auto simp: sys_inv_def valid_ids_def)
      moreover have "ser_inv (\<sigma>\<lparr>pc := Sleeping t\<rparr>)" for t by (rule inv_pc [OF inv]) (simp_all add: Polling)
      ultimately show ?thesis using Polling Nil Cons w by (simp add: thread_poll_def ser_inv_def)
    qed
  qed
qed auto

lemma sys_inv_released:
  assumes "sys_inv s p T I" "taken p = {a}" "state_of (works s) a \<noteq> Some WORK_WAITING_FOR_FINISH" "taken q = {}"
    "p \<noteq> NotStarted"
  shows "sys_inv (released [a] s) q T I"
proof -
  have own: "owner_ok (works s) (set (work_list s)) (set (delayed_work_list s)) {a} T I"
    using assms(1,2) by (simp add: sys_inv_def)
  then obtain w where w: "works s a = Some w" using owner_dom [OF own, of a] by auto
  have upd: "works s |` (- {a}) = (works s)(a := None)" by (auto simp: restrict_map_def)
  have "w_state w \<noteq> WORK_WAITING_FOR_FINISH" using assms(3) w by (simp add: state_of_def)
  from owner_finish(2) [OF own w this]
  have "owner_ok (works (released [a] s)) (set (work_list s)) (set (delayed_work_list s)) {} T I" by (simp add: upd)
  moreover have "a \<notin> set (work_list s)" "a \<notin> set (delayed_work_list s)" using own by (auto simp: owner_ok_def)
  then have "work_order (works (released [a] s)) (work_list s)" "delayed_order (works (released [a] s)) (delayed_work_list s)"
    using assms(1) work_order_cong [of "work_list s" "works s" "works (released [a] s)"]
      delayed_order_cong [of "delayed_work_list s" "works s" "works (released [a] s)"]
    by (auto simp: sys_inv_def restrict_map_def)
  moreover have "q \<noteq> Took b cw" for b cw using assms(4) by auto
  ultimately show ?thesis using assms valid_ids_released by (auto simp: sys_inv_def)
qed

lemma safe_after_loop:
  assumes inv: "ser_inv \<sigma>" shows "safe (act ThreadAfterLoop \<sigma>)"
proof (cases "pc \<sigma>")
  case (Took a cw)
  note E = ser_invE [OF inv]
  have rel: "thread_release a (ser \<sigma>) = Some (released [a] (ser \<sigma>))"
    using thread_release_ok [OF E(1)] ser_inv_allocated [OF inv, of a] Took by auto
  have st: "state_of (works (ser \<sigma>)) a \<noteq> Some WORK_WAITING_FOR_FINISH" using E(6) [OF Took] by auto
  have "sys_inv (released [a] (ser \<sigma>)) (Exited r) (waiting \<sigma>) (inserting \<sigma>)" for r
    using sys_inv_released [OF inv [unfolded ser_inv_def] _ st] Took by simp
  moreover have "ser_inv (\<sigma>\<lparr>pc := DoWork a cw\<rparr>)" by (rule inv_pc [OF inv]) (simp_all add: Took)
  ultimately show ?thesis using Took rel inv
    by (auto simp: thread_after_loop_def Let_def ser_inv_def)
qed auto

lemma thread_finish_work_eq:
  assumes "valid_ids s" "works s a = Some w"
  shows "thread_finish_work a res cw s =
    Some (LoopTop cw,
      if w_state w = WORK_WAITING_FOR_FINISH
      then s\<lparr>works := (works s)(a \<mapsto> w\<lparr>w_result := res, w_state := WORK_DONE\<rparr>),
             ser_trace := ser_trace s @ free_event s a @ [CondBroadcast]\<rparr>
      else released [a] s)"
proof -
  have "w_id w < num_ops s" using assms by (auto simp: valid_ids_def)
  with assms(2) show ?thesis
    by (auto simp: thread_finish_work_def call_free_func_def free_work_def emit_def put_work_def
        released_def free_event_def restrict_map_def fun_eq_iff)
qed

lemma safe_finish:
  assumes inv: "ser_inv \<sigma>" shows "safe (act (ThreadFinish res) \<sigma>)"
proof (cases "pc \<sigma>")
  case (DoWork a cw)
  note E = ser_invE [OF inv]
  let ?s = "ser \<sigma>"
  obtain w where w: "works ?s a = Some w" using ser_inv_allocated [OF inv, of a] DoWork by auto
  have own: "owner_ok (works ?s) (set (work_list ?s)) (set (delayed_work_list ?s)) {a} (waiting \<sigma>) (inserting \<sigma>)"
    using E(2) DoWork by simp
  have out: "a \<notin> set (work_list ?s)" "a \<notin> set (delayed_work_list ?s)" using own by (auto simp: owner_ok_def)
  show ?thesis
  proof (cases "w_state w = WORK_WAITING_FOR_FINISH")
    case True
    let ?w = "w\<lparr>w_result := res, w_state := WORK_DONE\<rparr>"
    let ?ws = "(works ?s)(a \<mapsto> ?w)"
    have "work_order ?ws (work_list ?s)" "delayed_order ?ws (delayed_work_list ?s)"
      using E(3,4) out work_order_cong [of "work_list ?s" "works ?s" ?ws]
        delayed_order_cong [of "delayed_work_list ?s" "works ?s" ?ws] by auto
    with owner_finish(1) [OF own w True, of ?w] E(1,5,7) DoWork w
    have "sys_inv (?s\<lparr>works := ?ws, ser_trace := t\<rparr>) (LoopTop cw) (waiting \<sigma>) (inserting \<sigma>)" for t
      by (auto simp: sys_inv_def valid_ids_def)
    with DoWork True show ?thesis by (simp add: thread_finish_work_eq [OF E(1) w] ser_inv_def)
  next
    case False
    then have "sys_inv (released [a] ?s) (LoopTop cw) (waiting \<sigma>) (inserting \<sigma>)"
      using sys_inv_released [OF inv [unfolded ser_inv_def], of a "LoopTop cw"] DoWork w by (simp add: state_of_def)
    with DoWork False show ?thesis by (simp add: thread_finish_work_eq [OF E(1) w] ser_inv_def)
  qed
qed auto


text \<open>The functions of the serializer's context.\<close>

lemma cancel_eq:
  assumes "valid_ids s" "distinct (delayed_work_list s)" "\<forall>e \<in> set (delayed_work_list s). works s e \<noteq> None"
    "wid < num_ops s" "thread_id s = Some self"
  shows "serializer_cancel_delayed_work self wid key ctx (Some s) =
    Some (0, Some ((released (filter (cancelled wid key ctx s) (delayed_work_list s)) s)
      \<lparr>delayed_work_list := filter (\<lambda>a. \<not> cancelled wid key ctx s a) (delayed_work_list s)\<rparr>))"
  using assms(4,5) by (simp add: serializer_cancel_delayed_work_def cancel_loop [OF assms(1-3)])

lemma stop_pass_again:
  assumes "valid_ids s" "distinct (work_list s)" "\<forall>e \<in> set (work_list s). works s e \<noteq> None"
    "\<forall>e \<in> set (work_list s). \<not> of_ctx ctx s e"
  shows "stop_pass ctx (n, s) = Some (n, s)"
proof -
  have "filter (of_ctx ctx s) (work_list s) = []" "filter (\<lambda>a. \<not> of_ctx ctx s a) (work_list s) = work_list s"
    using assms(4) by (auto simp: filter_empty_conv filter_id_conv)
  moreover have "\<not> (\<exists>a \<in> set (work_list s). of_ctx ctx s a \<and> is_sync s a)" using assms(4) by blast
  ultimately show ?thesis unfolding stop_pass_ok [OF assms(1-3)] by (simp only: simp_thms released_Nil) simp
qed

text \<open>The second pass finds nothing: it walks the work list again.\<close>

lemma stop_all_eq:
  assumes "valid_ids s" "distinct (work_list s)" "\<forall>e \<in> set (work_list s). works s e \<noteq> None"
    "thread_id s = Some self"
  shows "serializer_stop_all_by_ctx self ctx (Some s) =
    (let s1 = (released (filter (of_ctx ctx s) (work_list s)) s)
                \<lparr>work_list := filter (\<lambda>a. \<not> of_ctx ctx s a) (work_list s)\<rparr>
     in Some (0, Some (if \<exists>a \<in> set (work_list s). of_ctx ctx s a \<and> is_sync s a
                       then emit CondBroadcast s1 else s1)))"
proof -
  let ?X = "filter (of_ctx ctx s) (work_list s)"
  let ?s1 = "(released ?X s)\<lparr>work_list := filter (\<lambda>a. \<not> of_ctx ctx s a) (work_list s)\<rparr>"
  have keep: "works ?s1 e = works s e" if "e \<in> set (work_list ?s1)" for e
    using that by (auto simp: restrict_map_def)
  have "valid_ids ?s1" using valid_ids_released [OF assms(1), of ?X] by (auto simp: valid_ids_def simp del: set_filter)
  moreover have "distinct (work_list ?s1)" using assms(2) by simp
  moreover have "\<forall>e \<in> set (work_list ?s1). works ?s1 e \<noteq> None" using assms(3) keep by auto
  moreover have "\<forall>e \<in> set (work_list ?s1). \<not> of_ctx ctx ?s1 e"
    using keep by (auto simp: of_ctx_def split: option.splits)
  ultimately have "stop_pass ctx (n, ?s1) = Some (n, ?s1)" for n by (rule stop_pass_again)
  with assms(4) show ?thesis
    by (simp add: serializer_stop_all_by_ctx_def stop_pass_ok [OF assms(1-3)] Let_def)
qed

lemma safe_cancel:
  assumes inv: "ser_inv \<sigma>" shows "safe (act (CancelDelayed wid key ctx) \<sigma>)"
proof (cases "pc \<sigma>")
  case (DoWork a cw)
  note E = ser_invE [OF inv]
  let ?s = "ser \<sigma>" and ?self = "the (thread_id (ser \<sigma>))"
  let ?X = "filter (cancelled wid key ctx (ser \<sigma>)) (delayed_work_list (ser \<sigma>))"
  let ?Y = "filter (\<lambda>a. \<not> cancelled wid key ctx (ser \<sigma>) a) (delayed_work_list (ser \<sigma>))"
  have tid: "thread_id ?s = Some ?self" using E(7) DoWork by auto
  show ?thesis
  proof (cases "wid < num_ops ?s")
    case False
    with DoWork inv show ?thesis by (simp add: serializer_cancel_delayed_work_def)
  next
    case True
    have alloc: "\<forall>e \<in> set (delayed_work_list ?s). works ?s e \<noteq> None" using ser_inv_allocated [OF inv] by fastforce
    have sets: "set ?Y = set (delayed_work_list ?s) - set ?X" by auto
    have own: "owner_ok (works ?s |` (- set ?X)) (set (work_list ?s)) (set ?Y) {a} (waiting \<sigma>) (inserting \<sigma>)"
      unfolding sets using owner_release(1) [OF E(2), of "set ?X"] DoWork by auto
    have disj: "set (work_list ?s) \<inter> set ?X = {}" using owner_disjoint [OF E(2)] by auto
    have "work_order (works ?s |` (- set ?X)) (work_list ?s)"
      using E(3) order_restrict(1) [OF disj] by simp
    moreover have "delayed_order (works ?s |` (- set ?X)) ?Y"
      using delayed_order_filter [OF E(4), of "\<lambda>a. \<not> cancelled wid key ctx ?s a"]
        order_restrict(2) [of ?Y "set ?X" "works ?s"] by auto
    ultimately have "sys_inv ((released ?X ?s)\<lparr>delayed_work_list := ?Y\<rparr>) (DoWork a cw) (waiting \<sigma>) (inserting \<sigma>)"
      using own E(5,7) DoWork valid_ids_released [OF E(1), of ?X]
      by (auto simp: sys_inv_def valid_ids_def simp del: set_filter)
    with DoWork show ?thesis
      by (simp add: cancel_eq [OF E(1) ser_inv_distinct(2) [OF inv] alloc True tid] ser_inv_def)
  qed
qed auto

lemma safe_stop_all:
  assumes inv: "ser_inv \<sigma>" and ok: "respected (StopAllByCtx ctx) \<sigma>"
  shows "safe (act (StopAllByCtx ctx) \<sigma>)"
proof (cases "pc \<sigma>")
  case (DoWork a cw)
  note E = ser_invE [OF inv]
  let ?s = "ser \<sigma>" and ?self = "the (thread_id (ser \<sigma>))"
  let ?X = "filter (of_ctx ctx (ser \<sigma>)) (work_list (ser \<sigma>))"
  let ?Y = "filter (\<lambda>a. \<not> of_ctx ctx (ser \<sigma>) a) (work_list (ser \<sigma>))"
  have tid: "thread_id ?s = Some ?self" using E(7) DoWork by auto
  have alloc: "\<forall>e \<in> set (work_list ?s). works ?s e \<noteq> None" using ser_inv_allocated [OF inv] by fastforce
  have sets: "set ?Y = set (work_list ?s) - set ?X" by auto
  have "\<forall>a \<in> set ?X. state_of (works ?s) a \<noteq> Some WORK_WAITING_FOR_FINISH"
    using ok by (auto simp: state_of_def of_ctx_def split: option.splits)
  then have own: "owner_ok (works ?s |` (- set ?X)) (set ?Y) (set (delayed_work_list ?s)) {a} (waiting \<sigma>) (inserting \<sigma>)"
    unfolding sets using owner_release(2) [OF E(2), of "set ?X"] DoWork by auto
  have disj: "set (delayed_work_list ?s) \<inter> set ?X = {}" using owner_disjoint [OF E(2)] by auto
  have "delayed_order (works ?s |` (- set ?X)) (delayed_work_list ?s)"
    using E(4) order_restrict(2) [OF disj] by simp
  moreover have "work_order (works ?s |` (- set ?X)) ?Y"
    using work_order_filter [OF E(3), of "\<lambda>a. \<not> of_ctx ctx ?s a"]
      order_restrict(1) [of ?Y "set ?X" "works ?s"] by auto
  ultimately have "sys_inv ((released ?X ?s)\<lparr>work_list := ?Y\<rparr>) (DoWork a cw) (waiting \<sigma>) (inserting \<sigma>)"
    using own E(5,7) DoWork valid_ids_released [OF E(1), of ?X]
    by (auto simp: sys_inv_def valid_ids_def simp del: set_filter)
  with DoWork show ?thesis
    by (simp add: stop_all_eq [OF E(1) ser_inv_distinct(1) [OF inv] alloc tid] ser_inv_def Let_def sys_inv_emit)
qed auto

lemmas safe_steps = safe_submit safe_insert safe_wait_over safe_request_stop safe_loop_top safe_poll
  safe_woken safe_after_loop safe_finish safe_cancel

lemma safe_act: "ser_inv \<sigma> \<Longrightarrow> respected ac \<sigma> \<Longrightarrow> safe (act ac \<sigma>)"
  by (cases ac) (auto intro: safe_steps safe_stop_all simp del: act.simps respected.simps)

lemma ser_inv_created:
  "serializer_create (True, True) tid (Some ops) n start_now = Some s \<Longrightarrow>
   ser_inv \<lparr>ser = s, pc = (if start_now then LoopTop 0 else NotStarted), waiting = {}, inserting = {}\<rparr>"
  by (auto simp: serializer_create_def ser_inv_def sys_inv_def start_thread_def emit_def valid_ids_def
      owner_ok_def work_order_def delayed_order_def Let_def split: if_splits)

lemma ser_reach_inv: "ser_reach \<sigma> \<Longrightarrow> ser_inv \<sigma>"
proof (induction rule: ser_reach.induct)
  case (ser_created tid ops n start_now s)
  then show ?case by (rule ser_inv_created)
next
  case (ser_acts \<sigma> ac \<sigma>')
  then show ?case using safe_act [of \<sigma> ac] by simp
qed


section \<open>A thread that waits for itself\<close>

definition async_works :: "work_serializer \<Rightarrow> nat list" where
  "async_works s = filter (\<lambda>e. state_of (works s) e = Some WORK_ASYNC) (work_list s)"

text \<open>The actions that the thread does not take part in.\<close>

fun client_action :: "ser_action \<Rightarrow> bool" where
  "client_action (SubmitSync a now self wid obj ctx) = True"
| "client_action (SubmitAsync a now wid obj ctx) = True"
| "client_action (SubmitDelayed a now wid obj ctx secs msecs) = True"
| "client_action (TryInsert ok tid a) = True"
| "client_action (WaitOver timed_out a) = True"
| "client_action RequestStop = True"
| "client_action _ = False"

fun run_acts :: "ser_action list \<Rightarrow> system \<Rightarrow> system option" where
  "run_acts [] \<sigma> = Some \<sigma>"
| "run_acts (ac # acs) \<sigma> = (case act ac \<sigma> of Next \<sigma>' \<Rightarrow> run_acts acs \<sigma>' | _ \<Rightarrow> None)"

text \<open>An asynchronous work that waits for room in a work list full of asynchronous works.\<close>

definition stuck :: "nat \<Rightarrow> system \<Rightarrow> bool" where
  "stuck a \<sigma> \<longleftrightarrow> a \<in> inserting \<sigma> \<and> state_of (works (ser \<sigma>)) a = Some WORK_ASYNC \<and>
     length (async_works (ser \<sigma>)) \<ge> ASYNC_WORK_LIST_MAX_SIZE"

lemma async_works_upd:
  "a \<notin> set (work_list s) \<Longrightarrow> async_works (s\<lparr>works := (works s)(a := v)\<rparr>) = async_works s"
  unfolding async_works_def by (auto simp: state_of_def intro!: filter_cong)

lemma async_works_frame [simp]:
  "async_works (s\<lparr>ser_trace := t\<rparr>) = async_works s" "async_works (s\<lparr>thread_id := i\<rparr>) = async_works s"
  "async_works (s\<lparr>ser_state := st\<rparr>) = async_works s"
  "async_works (emit e s) = async_works s" "async_works (start_thread tid s) = async_works s"
  "async_works (s\<lparr>delayed_work_list := d\<rparr>) = async_works s"
  by (simp_all add: async_works_def emit_def start_thread_def)

lemma ser_inv_fresh:
  assumes "ser_inv \<sigma>" "works (ser \<sigma>) a = None"
  shows "a \<notin> set (work_list (ser \<sigma>)) \<union> set (delayed_work_list (ser \<sigma>)) \<union> taken (pc \<sigma>) \<union> waiting \<sigma> \<union> inserting \<sigma>"
  using ser_inv_allocated [OF assms(1), of a] assms(2) by fastforce

lemma stuck_full: "stuck a \<sigma> \<Longrightarrow> works (ser \<sigma>) a = Some w \<Longrightarrow> exec_full w (ser \<sigma>)"
  unfolding stuck_def exec_full_def async_works_def state_of_def
  using le_trans [OF _ length_filter_le] by auto

lemma stuck_submit:
  assumes "ser_inv \<sigma>" "stuck a \<sigma>" "works (ser \<sigma>) b = None"
  shows "stuck a (\<sigma>\<lparr>ser := put_work b w (ser \<sigma>), inserting := insert b (inserting \<sigma>)\<rparr>)"
proof -
  have "b \<notin> set (work_list (ser \<sigma>))" "b \<noteq> a"
    using ser_inv_fresh [OF assms(1,3)] assms(2) by (auto simp: stuck_def)
  then show ?thesis
    using assms async_works_upd [of b "ser \<sigma>" "Some w"] by (auto simp: stuck_def put_work_def)
qed

lemma length_filter_insert:
  "length (filter P xs) \<le> length (filter P (takeWhile Q xs @ b # dropWhile Q xs))"
proof -
  have "filter P xs = filter P (takeWhile Q xs) @ filter P (dropWhile Q xs)"
    by (simp only: filter_append [symmetric] takeWhile_dropWhile_id)
  then show ?thesis by simp
qed

lemma async_works_more:
  "length (async_works s) \<le> length (async_works (s\<lparr>work_list := fst (exec_lists b w s)\<rparr>))"
proof -
  have "length (filter P (work_list s)) \<le> length (filter P (work_list s @ [b]))" for P :: "nat \<Rightarrow> bool" by simp
  then show ?thesis
    unfolding async_works_def exec_lists_def
    using length_filter_insert [of _ "work_list s"] by (simp del: filter_append)
qed

lemma async_works_other:
  assumes "state_of (works s) b \<noteq> Some WORK_ASYNC" "\<forall>w. v = Some w \<longrightarrow> w_state w \<noteq> WORK_ASYNC"
  shows "async_works (s\<lparr>works := (works s)(b := v)\<rparr>) = async_works s"
    and "async_works (s\<lparr>work_list := remove1 b (work_list s), works := (works s)(b := v)\<rparr>) = async_works s"
proof -
  have st: "state_of ((works s)(b := v)) e = Some WORK_ASYNC \<longleftrightarrow> state_of (works s) e = Some WORK_ASYNC" for e
    using assms by (auto simp: state_of_def)
  show "async_works (s\<lparr>works := (works s)(b := v)\<rparr>) = async_works s" by (simp add: async_works_def st)
  have "b \<notin> set (async_works s)" using assms(1) by (simp add: async_works_def)
  then show "async_works (s\<lparr>work_list := remove1 b (work_list s), works := (works s)(b := v)\<rparr>) = async_works s"
    by (simp add: async_works_def st filter_remove1 remove1_idem)
qed

lemma stuck_client_step:
  assumes inv: "ser_inv \<sigma>" and stuck: "stuck a \<sigma>" and step: "act ac \<sigma> = Next \<sigma>'" and client: "client_action ac"
  shows "stuck a \<sigma>'"
proof (cases ac)
  case (SubmitSync b now self wid obj ctx)
  with step stuck_submit [OF inv stuck] show ?thesis
    by (auto simp: serializer_exec_work_def create_new_work_def split: if_splits)
next
  case (SubmitAsync b now wid obj ctx)
  with step stuck_submit [OF inv stuck] show ?thesis
    by (auto simp: serializer_exec_work_async_def create_new_work_def split: if_splits)
next
  case (SubmitDelayed b now wid obj ctx secs msecs)
  with step stuck_submit [OF inv stuck] show ?thesis
    by (auto simp: serializer_add_delayed_work_def create_new_work_def put_work_put_work split: if_splits)
next
  case (TryInsert ok tid b)
  then have b: "b \<in> inserting \<sigma>" using step by (auto split: if_splits)
  then obtain w where w: "works (ser \<sigma>) b = Some w" using ser_inv_allocated [OF inv] by blast
  have alloc: "\<forall>e \<in> set (work_list (ser \<sigma>)) \<union> set (delayed_work_list (ser \<sigma>)). works (ser \<sigma>) e \<noteq> None"
    using ser_inv_allocated [OF inv] by fastforce
  note eq = exec_insert_eq [OF w alloc]
  have out: "b \<notin> set (work_list (ser \<sigma>))" using ser_invE(2) [OF inv] b by (auto simp: owner_ok_def)
  show ?thesis
  proof (cases "exec_full w (ser \<sigma>)")
    case True
    with step TryInsert b stuck show ?thesis by (auto simp: eq stuck_def)
  next
    case False
    then have "b \<noteq> a" using stuck_full [OF stuck] w by auto
    then show ?thesis
      using step TryInsert b stuck False async_works_upd [OF out, of None]
        le_trans [OF _ async_works_more [of "ser \<sigma>" b w]]
      by (auto simp: eq stuck_def Let_def start_thread_def emit_def split: if_splits)
  qed
next
  case (WaitOver timed_out b)
  then have b: "b \<in> waiting \<sigma>" using step by (auto split: if_splits)
  then obtain w where w: "works (ser \<sigma>) b = Some w" using ser_inv_allocated [OF inv] by blast
  have "b \<noteq> a" using ser_invE(2) [OF inv] b stuck by (auto simp: owner_ok_def stuck_def)
  moreover have st: "state_of (works (ser \<sigma>)) b \<noteq> Some WORK_ASYNC"
    using ser_invE(2) [OF inv] b by (auto simp: owner_ok_def)
  ultimately show ?thesis
    using step WaitOver b w stuck async_works_other [OF st, of None]
      async_works_other(1) [OF st, of "Some (w\<lparr>w_state := WORK_ABANDONED\<rparr>)"]
    by (auto simp: exec_wait_over_def free_work_def put_work_def stuck_def Let_def split: if_splits)
next
  case RequestStop
  with step stuck show ?thesis by (auto simp: serializer_request_stop_def emit_def stuck_def async_works_def)
qed (use client in auto)


lemma stuck_client_run:
  "ser_inv \<sigma> \<Longrightarrow> stuck a \<sigma> \<Longrightarrow> run_acts acs \<sigma> = Some \<sigma>' \<Longrightarrow> \<forall>ac \<in> set acs. client_action ac \<Longrightarrow>
   ser_inv \<sigma>' \<and> stuck a \<sigma>'"
proof (induction acs arbitrary: \<sigma>)
  case Nil
  then show ?case by simp
next
  case (Cons ac acs)
  then obtain \<sigma>1 where step: "act ac \<sigma> = Next \<sigma>1" and run: "run_acts acs \<sigma>1 = Some \<sigma>'"
    by (auto split: outcome.splits)
  have client: "client_action ac" using Cons.prems(4) by simp
  have "respected ac \<sigma>" using client by (cases ac) simp_all
  then have inv1: "ser_inv \<sigma>1" using safe_act [OF Cons.prems(1)] step by fastforce
  have "stuck a \<sigma>1" by (rule stuck_client_step [OF Cons.prems(1,2) step client])
  with Cons.IH [OF inv1 _ run] Cons.prems(4) show ?case by simp
qed

lemma add_time_value:
  assumes "uint secs + uint msecs div 1000 < 2 ^ 32" "0 \<le> tv_nsec ts" "tv_nsec ts < 1000000000"
  shows "0 \<le> tv_nsec (add_time_to_timespec ts secs msecs)"
    and "tv_nsec (add_time_to_timespec ts secs msecs) < 1000000000"
    and "tv_sec (add_time_to_timespec ts secs msecs) * 1000000000 + tv_nsec (add_time_to_timespec ts secs msecs) =
      tv_sec ts * 1000000000 + tv_nsec ts + uint secs * 1000000000 + uint msecs * 1000000"
proof -
  have m: "0 \<le> uint msecs mod 1000" "uint msecs mod 1000 < 1000" by simp_all
  have pos: "0 \<le> uint secs + uint msecs div 1000" by (simp add: pos_imp_zdiv_nonneg_iff)
  have w: "uint (secs + msecs div 1000) = uint secs + uint msecs div 1000"
    using mod_pos_pos_trivial [OF pos, of "2 ^ 32"] assms(1)
    by (simp add: uint_word_ariths uint_div take_bit_eq_mod)
  have n: "uint ((msecs mod 1000) * 1000000) = (uint msecs mod 1000) * 1000000"
    using m by (simp add: uint_word_ariths uint_mod take_bit_eq_mod)
  have d: "uint msecs * 1000000 = uint msecs div 1000 * 1000000000 + uint msecs mod 1000 * 1000000"
    using mult_div_mod_eq [of 1000 "uint msecs"] by linarith
  let ?n = "tv_nsec ts + (uint msecs mod 1000) * 1000000"
  have r: "?n mod 1000000000 = ?n - 1000000000" if "?n \<ge> 1000000000"
    using that m assms(2,3) mod_pos_pos_trivial [of "?n - 1000000000" 1000000000]
    by (simp only: minus_mod_self2)
  show "0 \<le> tv_nsec (add_time_to_timespec ts secs msecs)" "tv_nsec (add_time_to_timespec ts secs msecs) < 1000000000"
    using m assms(2) by (auto simp: add_time_to_timespec_def Let_def n)
  show "tv_sec (add_time_to_timespec ts secs msecs) * 1000000000 + tv_nsec (add_time_to_timespec ts secs msecs) =
      tv_sec ts * 1000000000 + tv_nsec ts + uint secs * 1000000000 + uint msecs * 1000000"
    using d r by (auto simp: add_time_to_timespec_def Let_def n w distrib_right)
qed

section \<open>A concrete run\<close>

definition ex_ops :: "work_op list" where
  "ex_ops = [\<lparr>has_free_func = True, cmp_func = None\<rparr>]"

definition ex_created :: system where
  "ex_created =
     \<lparr>ser = start_thread 7 \<lparr>thread_id = None, ser_state = SERIALIZER_PAUSED, ser_stop = False, ser_ops = ex_ops,
              work_list = [], delayed_work_list = [], works = Map.empty, ser_trace = []\<rparr>,
      pc = LoopTop 0, waiting = {}, inserting = {}\<rparr>"

abbreviation t0 :: timespec where "t0 \<equiv> \<lparr>tv_sec = 0, tv_nsec = 0\<rparr>"
abbreviation t5 :: timespec where "t5 \<equiv> \<lparr>tv_sec = 5, tv_nsec = 0\<rparr>"

lemma ex_created_reach: "ser_reach ex_created"
proof -
  have "serializer_create (True, True) 7 (Some ex_ops) 1 True = Some (ser ex_created)"
    by (simp add: serializer_create_def ex_created_def ex_ops_def Let_def)
  from ser_created [OF this] show ?thesis by (simp add: ex_created_def)
qed

lemma run_acts_reach:
  "ser_reach \<sigma> \<Longrightarrow> run_acts acs \<sigma> = Some \<sigma>' \<Longrightarrow> \<forall>ac \<in> set acs. \<forall>ctx. ac \<noteq> StopAllByCtx ctx \<Longrightarrow> ser_reach \<sigma>'"
proof (induction acs arbitrary: \<sigma>)
  case Nil
  then show ?case by simp
next
  case (Cons ac acs)
  then obtain \<sigma>1 where step: "act ac \<sigma> = Next \<sigma>1" "run_acts acs \<sigma>1 = Some \<sigma>'"
    by (auto split: outcome.splits)
  have "respected ac \<sigma>" using Cons.prems(3) by (cases ac) auto
  with step Cons show ?case by (auto intro: ser_acts)
qed

text \<open>
  A delayed work (3) and an asynchronous one (1) are handed over; the thread takes the
  asynchronous one; while it runs, a synchronous work (2) of the same context arrives.
\<close>

definition ex_acts :: "ser_action list" where
  "ex_acts = [SubmitDelayed 3 t0 0 30 9 1 500, TryInsert True 7 3, SubmitAsync 1 t0 0 10 9, TryInsert True 7 1,
     ThreadLoopTop, ThreadPoll t0, ThreadAfterLoop, SubmitSync 2 t0 8 0 20 9, TryInsert True 7 2]"

definition ex_work :: "nat \<Rightarrow> timespec \<Rightarrow> work_state \<Rightarrow> work" where
  "ex_work obj ts st = \<lparr>w_ctx = 9, w_obj = obj, w_id = 0, w_ts = ts, w_state = st, w_result = 0\<rparr>"

definition ex_busy :: system where
  "ex_busy =
     \<lparr>ser = \<lparr>thread_id = Some 7, ser_state = SERIALIZER_RUNNING, ser_stop = False, ser_ops = ex_ops,
              work_list = [2], delayed_work_list = [3],
              works = [3 \<mapsto> ex_work 30 \<lparr>tv_sec = 1, tv_nsec = 500000000\<rparr> WORK_DELAYED,
                       1 \<mapsto> ex_work 10 t0 WORK_ASYNC, 2 \<mapsto> ex_work 20 t0 WORK_WAITING_FOR_FINISH],
              ser_trace = [ThreadCreate, CondSignal, CondSignal, CondSignal]\<rparr>,
      pc = DoWork 1 0, waiting = {2}, inserting = {}\<rparr>"

lemmas exec_defs = serializer_exec_work_def serializer_exec_work_async_def serializer_add_delayed_work_def
  create_new_work_def fill_basic_work_data_def put_work_def exec_insert_def emit_def start_thread_def
  ASYNC_WORK_LIST_MAX_SIZE_def DELAYED_WORK_LIST_MAX_SIZE_def place_work_def place_before_def
  thread_loop_top_def thread_poll_def thread_after_loop_def started_def Let_def

lemma ex_time: "add_time_to_timespec t0 1 500 = \<lparr>tv_sec = 1, tv_nsec = 500000000\<rparr>"
  by code_simp

lemma ex_busy_run: "run_acts ex_acts ex_created = Some ex_busy"
  by (simp add: ex_acts_def ex_created_def ex_busy_def ex_work_def ex_ops_def exec_defs ex_time is_delayed_work_before_def)

lemma ex_busy_reach: "ser_reach ex_busy"
  by (rule run_acts_reach [OF ex_created_reach ex_busy_run]) (simp add: ex_acts_def)


section \<open>Properties\<close>

text \<open>
  C4. Whatever submitters, timeouts and the thread do, no critical section of the serializer
  touches a work that has been freed, and none is freed twice, as long as nobody waits for a
  synchronous work of a context that is stopped.
\<close>

theorem serializer_no_use_after_free:
  assumes "ser_reach \<sigma>" "respected ac \<sigma>"
  shows "act ac \<sigma> \<noteq> Fault"
  using safe_act [OF ser_reach_inv [OF assms(1)] assms(2)] by auto

theorem serializer_no_use_after_free_witness:
  "act (ThreadFinish 0) ex_busy \<noteq> Fault \<and> act (WaitOver True 2) ex_busy \<noteq> Fault"
  using serializer_no_use_after_free [OF ex_busy_reach, of "ThreadFinish 0"]
    serializer_no_use_after_free [OF ex_busy_reach, of "WaitOver True 2"] by simp



text \<open>
  The synchronous works stand before the asynchronous ones, of which there are at most
  \<open>ASYNC_WORK_LIST_MAX_SIZE\<close>; the delayed works, at most
  \<open>DELAYED_WORK_LIST_MAX_SIZE\<close>, stand in the order of their times.
\<close>

theorem serializer_lists_ordered:
  assumes "ser_reach \<sigma>"
  shows "(\<exists>xs ys. work_list (ser \<sigma>) = xs @ ys \<and>
      (\<forall>a \<in> set xs. state_of (works (ser \<sigma>)) a = Some WORK_WAITING_FOR_FINISH) \<and>
      (\<forall>a \<in> set ys. state_of (works (ser \<sigma>)) a = Some WORK_ASYNC) \<and> length ys \<le> 500) \<and>
    sorted_wrt (\<lambda>a b. \<not> ts_less (stamp (works (ser \<sigma>)) b) (stamp (works (ser \<sigma>)) a)) (delayed_work_list (ser \<sigma>)) \<and>
    length (delayed_work_list (ser \<sigma>)) \<le> 200"
  using ser_invE(3,4) [OF ser_reach_inv [OF assms]]
  by (simp add: work_order_def delayed_order_def ASYNC_WORK_LIST_MAX_SIZE_def DELAYED_WORK_LIST_MAX_SIZE_def)

theorem serializer_lists_ordered_witness:
  "length (delayed_work_list (ser ex_busy)) \<le> 200"
  using serializer_lists_ordered [OF ex_busy_reach] by simp

text \<open>
  Where a pass of \<open>_serializer_exec_work\<close> puts a work: an asynchronous one at the end, a
  synchronous one after the synchronous works that wait already and before every
  asynchronous one, a delayed one after the works that are not later and before the ones
  that are later than it; the other works keep their order.
\<close>

theorem exec_insert_position:
  assumes "ser_reach \<sigma>" "a \<in> inserting \<sigma>" "works (ser \<sigma>) a = Some w"
    and ins: "exec_insert True tid a (ser \<sigma>) = Some (r, s')" "r \<noteq> Again"
  shows "w_state w = WORK_ASYNC \<and> r = Return 0 \<and>
       work_list s' = work_list (ser \<sigma>) @ [a] \<and> delayed_work_list s' = delayed_work_list (ser \<sigma>) \<or>
     w_state w = WORK_WAITING_FOR_FINISH \<and> r = WaitForFinish \<and>
       (\<exists>xs ys. work_list (ser \<sigma>) = xs @ ys \<and> work_list s' = xs @ a # ys \<and>
          (\<forall>e \<in> set xs. state_of (works (ser \<sigma>)) e = Some WORK_WAITING_FOR_FINISH) \<and>
          (\<forall>e \<in> set ys. state_of (works (ser \<sigma>)) e = Some WORK_ASYNC)) \<and>
       delayed_work_list s' = delayed_work_list (ser \<sigma>) \<or>
     w_state w = WORK_DELAYED \<and> r = Return 0 \<and> work_list s' = work_list (ser \<sigma>) \<and>
       (\<exists>xs ys. delayed_work_list (ser \<sigma>) = xs @ ys \<and> delayed_work_list s' = xs @ a # ys \<and>
          (\<forall>e \<in> set xs. \<not> ts_less (w_ts w) (stamp (works (ser \<sigma>)) e)) \<and>
          (\<forall>e \<in> set ys. ts_less (w_ts w) (stamp (works (ser \<sigma>)) e)))"
proof -
  note inv = ser_reach_inv [OF assms(1)]
  note E = ser_invE [OF inv]
  let ?ws = "works (ser \<sigma>)" and ?dl = "delayed_work_list (ser \<sigma>)"
  have alloc: "\<forall>e \<in> set (work_list (ser \<sigma>)) \<union> set ?dl. ?ws e \<noteq> None"
    using ser_inv_allocated [OF inv] by fastforce
  have lists: "work_list s' = fst (exec_lists a w (ser \<sigma>))" "delayed_work_list s' = snd (exec_lists a w (ser \<sigma>))"
    and r: "r = (if w_state w = WORK_ASYNC \<or> w_state w = WORK_DELAYED then Return 0 else WaitForFinish)"
    using ins exec_insert_eq [OF assms(3) alloc, of True tid]
    by (auto simp: Let_def start_thread_def emit_def split: if_splits)
  consider (async) "w_state w = WORK_ASYNC" | (delayed) "w_state w = WORK_DELAYED"
    | (sync) "w_state w = WORK_WAITING_FOR_FINISH"
    using E(2) assms(2,3) by (auto simp: owner_ok_def state_of_def)
  then show ?thesis
  proof cases
    case async
    then show ?thesis by (simp add: lists r exec_lists_def)
  next
    case delayed
    obtain xs ys where split: "?dl = xs @ ys"
      "\<forall>e \<in> set xs. \<not> ts_less (w_ts w) (stamp ?ws e)" "\<forall>e \<in> set ys. ts_less (w_ts w) (stamp ?ws e)"
      "takeWhile (\<lambda>e. \<not> is_delayed_work_before w (w_ts (the (?ws e)))) ?dl = xs"
      "dropWhile (\<lambda>e. \<not> is_delayed_work_before w (w_ts (the (?ws e)))) ?dl = ys"
      using delayed_split_ex [OF E(4), of w] by blast
    have "snd (exec_lists a w (ser \<sigma>)) = xs @ a # ys" "fst (exec_lists a w (ser \<sigma>)) = work_list (ser \<sigma>)"
      using delayed by (simp_all add: exec_lists_def split(4,5))
    with delayed split(1-3) show ?thesis by (simp add: lists r) blast
  next
    case sync
    obtain xs ys where split: "work_list (ser \<sigma>) = xs @ ys"
      "\<forall>e \<in> set xs. state_of ?ws e = Some WORK_WAITING_FOR_FINISH" "\<forall>e \<in> set ys. state_of ?ws e = Some WORK_ASYNC"
      "takeWhile (\<lambda>e. w_state (the (?ws e)) = WORK_WAITING_FOR_FINISH) (work_list (ser \<sigma>)) = xs"
      "dropWhile (\<lambda>e. w_state (the (?ws e)) = WORK_WAITING_FOR_FINISH) (work_list (ser \<sigma>)) = ys"
      using work_order_split [OF E(3)] by blast
    have "fst (exec_lists a w (ser \<sigma>)) = xs @ a # ys" "snd (exec_lists a w (ser \<sigma>)) = ?dl"
      using sync by (simp_all add: exec_lists_def split(4,5))
    with sync split(1-3) show ?thesis by (simp add: lists r) blast
  qed
qed

theorem exec_insert_position_witness:
  "\<exists>s'. exec_insert True 7 4 (put_work 4 (ex_work 40 t5 WORK_ASYNC) (ser ex_busy)) = Some (Return 0, s') \<and>
     work_list s' = [2, 4]"
proof -
  let ?w = "ex_work 40 t5 WORK_ASYNC"
  let ?s = "put_work 4 ?w (ser ex_busy)"
  let ?\<sigma> = "ex_busy\<lparr>ser := ?s, inserting := {4}\<rparr>"
  have "act (SubmitAsync 4 t5 0 40 9) ex_busy = Next ?\<sigma>"
    by (simp add: ex_busy_def serializer_exec_work_async_def create_new_work_def fill_basic_work_data_def
        ex_work_def ex_ops_def)
  then have reach: "ser_reach ?\<sigma>" by (intro ser_acts [OF ex_busy_reach, of "SubmitAsync 4 t5 0 40 9"]) simp_all
  obtain s' where ins: "exec_insert True 7 4 ?s = Some (Return 0, s')"
    by (simp add: ex_busy_def put_work_def ex_work_def exec_insert_def ASYNC_WORK_LIST_MAX_SIZE_def Let_def)
  from exec_insert_position [OF reach, of 4 ?w 7 "Return 0" s'] ins
  have "work_list s' = [2, 4]" by (simp add: put_work_def ex_work_def) (simp add: ex_busy_def)
  with ins show ?thesis by blast
qed


text \<open>
  What the thread does when it looks for a work: it takes the first work of the work list
  if there is one; otherwise a delayed work whose time has passed and that no other delayed
  work precedes; otherwise no delayed work is due and it sleeps for less than eleven seconds,
  and past the time of no delayed work by a second or more.
\<close>

theorem thread_poll_picks_next:
  assumes "ser_reach \<sigma>" "pc \<sigma> = Polling cw"
  shows "\<exists>p s'. thread_poll now cw (ser \<sigma>) = Some (p, s') \<and>
    (case work_list (ser \<sigma>) of
       a # rest \<Rightarrow> p = (if state_of (works (ser \<sigma>)) a = Some WORK_WAITING_FOR_FINISH then DoWork a cw else Took a cw) \<and>
         work_list s' = rest \<and> delayed_work_list s' = delayed_work_list (ser \<sigma>)
     | [] \<Rightarrow>
         (\<exists>a. p = Took a cw \<and> delayed_work_list (ser \<sigma>) = a # delayed_work_list s' \<and>
            ts_less (stamp (works (ser \<sigma>)) a) now \<and>
            (\<forall>b \<in> set (delayed_work_list s'). \<not> ts_less (stamp (works (ser \<sigma>)) b) (stamp (works (ser \<sigma>)) a))) \<or>
         (\<exists>t. p = Sleeping t \<and> s' = ser \<sigma> \<and> tv_sec t \<le> tv_sec now + 10 \<and>
            (\<forall>b \<in> set (delayed_work_list (ser \<sigma>)).
               \<not> ts_less (stamp (works (ser \<sigma>)) b) now \<and> tv_sec t \<le> tv_sec (stamp (works (ser \<sigma>)) b))))"
proof -
  note inv = ser_reach_inv [OF assms(1)]
  let ?s = "ser \<sigma>"
  let ?ws = "works ?s"
  show ?thesis
  proof (cases "work_list ?s")
    case (Cons a rest)
    then obtain w where "?ws a = Some w" using ser_inv_allocated [OF inv, of a] by auto
    with Cons show ?thesis by (simp add: thread_poll_def state_of_def)
  next
    case Nil
    show ?thesis
    proof (cases "delayed_work_list ?s")
      case Nil
      with \<open>work_list ?s = []\<close> show ?thesis by (simp add: thread_poll_def)
    next
      case (Cons a rest)
      then obtain w where w: "?ws a = Some w" using ser_inv_allocated [OF inv, of a] by auto
      then have a: "w_ts w = stamp ?ws a" by (simp add: stamp_def)
      have later: "\<forall>b \<in> set rest. \<not> ts_less (stamp ?ws b) (stamp ?ws a)"
        using ser_invE(4) [OF inv] Cons by (simp add: delayed_order_def)
      show ?thesis
      proof (cases "ts_less (stamp ?ws a) now")
        case True
        with Nil Cons w later show ?thesis by (simp add: thread_poll_def before_ts_less a)
      next
        case False
        then have "\<forall>b \<in> set rest. \<not> ts_less (stamp ?ws b) now" using later ts_less_neg_trans by blast
        moreover have "\<forall>b \<in> set rest. tv_sec (stamp ?ws a) \<le> tv_sec (stamp ?ws b)"
          using later by (auto simp: ts_less_def not_less)
        ultimately show ?thesis using Nil Cons w False by (auto simp: thread_poll_def before_ts_less a)
      qed
    qed
  qed
qed

theorem thread_poll_picks_next_witness:
  "\<exists>p s'. thread_poll t5 0 (ser (ex_created\<lparr>pc := Polling 0\<rparr>)) = Some (p, s') \<and> p = Sleeping (t5\<lparr>tv_sec := 15\<rparr>)"
proof -
  have "act ThreadLoopTop ex_created = Next (ex_created\<lparr>pc := Polling 0\<rparr>)"
    by (simp add: ex_created_def thread_loop_top_def start_thread_def emit_def)
  then have "ser_reach (ex_created\<lparr>pc := Polling 0\<rparr>)"
    by (intro ser_acts [OF ex_created_reach, of ThreadLoopTop]) simp_all
  from thread_poll_picks_next [OF this, of 0 t5] show ?thesis
    by (auto simp: ex_created_def start_thread_def emit_def thread_poll_def)
qed

text \<open>
  The result of a synchronous work reaches the thread that waits for it: after the
  serializer's thread has executed the work, the submitter returns 0 with the value that
  \<open>work_func\<close> returned, and the work is freed.
\<close>

theorem sync_work_result_returned:
  assumes "ser_reach \<sigma>" "pc \<sigma> = DoWork a cw" "a \<in> waiting \<sigma>"
  shows "\<exists>p s1 s2. thread_finish_work a res cw (ser \<sigma>) = Some (p, s1) \<and>
    exec_wait_over a s1 = Some ((0, Some res), s2) \<and> works s2 a = None"
proof -
  note inv = ser_reach_inv [OF assms(1)]
  note E = ser_invE [OF inv]
  obtain w where w: "works (ser \<sigma>) a = Some w" using ser_inv_allocated [OF inv] assms(3) by blast
  have "w_state w = WORK_WAITING_FOR_FINISH"
    using owner_waited [OF E(2) assms(3)] assms(2) by (auto simp: state_of_def w)
  then show ?thesis
    by (simp add: thread_finish_work_eq [OF E(1) w] exec_wait_over_def free_work_def Let_def)
qed

theorem sync_work_result_returned_witness:
  "\<exists>\<sigma> p s1 s2. ser_reach \<sigma> \<and> thread_finish_work 2 42 0 (ser \<sigma>) = Some (p, s1) \<and> exec_wait_over 2 s1 = Some ((0, Some 42), s2)"
proof -
  let ?acts = "[ThreadFinish 0, ThreadLoopTop, ThreadPoll t0]"
  have "\<exists>\<sigma> :: system. run_acts ?acts ex_busy = Some \<sigma> \<and> pc \<sigma> = DoWork 2 0 \<and> 2 \<in> waiting \<sigma>"
    by (simp add: ex_busy_def ex_work_def ex_ops_def thread_finish_work_def call_free_func_def free_work_def
        exec_defs)
  then obtain \<sigma> where run: "run_acts ?acts ex_busy = Some \<sigma>" "pc \<sigma> = DoWork 2 0" "2 \<in> waiting \<sigma>" by blast
  have reach: "ser_reach \<sigma>" by (rule run_acts_reach [OF ex_busy_reach run(1)]) simp
  from sync_work_result_returned [OF this run(2,3), of 42] reach show ?thesis by blast
qed

text \<open>
  Adding a delay to a time stamp: if the sum of the seconds fits 32 bits, the result is
  exactly \<open>secs\<close> seconds and \<open>msecs\<close> milliseconds later and its nanoseconds are below
  one second.
\<close>

theorem add_time_to_timespec_exact:
  assumes "uint secs + uint msecs div 1000 < 2 ^ 32" "0 \<le> tv_nsec ts" "tv_nsec ts < 1000000000"
  shows "let t = add_time_to_timespec ts secs msecs in
    0 \<le> tv_nsec t \<and> tv_nsec t < 1000000000 \<and>
    tv_sec t * 1000000000 + tv_nsec t =
      tv_sec ts * 1000000000 + tv_nsec ts + uint secs * 1000000000 + uint msecs * 1000000"
  using add_time_value [OF assms] by (simp add: Let_def)

theorem add_time_to_timespec_exact_witness:
  "let t = add_time_to_timespec \<lparr>tv_sec = 7, tv_nsec = 600000000\<rparr> 2 1500 in
     tv_sec t * 1000000000 + tv_nsec t = 11100000000"
  using add_time_to_timespec_exact [of 2 1500 "\<lparr>tv_sec = 7, tv_nsec = 600000000\<rparr>"] by (simp add: Let_def)

text \<open>
  \<open>serializer_cancel_delayed_work\<close> removes exactly the delayed works with the given
  operation and context that the operation's \<open>cmp_func\<close> accepts, calls \<open>free_func\<close> once
  for each of them in order and frees them; every other work stays as it is.
\<close>

theorem serializer_cancel_removes_matching:
  assumes "ser_reach \<sigma>" "pc \<sigma> = DoWork a cw" "thread_id (ser \<sigma>) = Some self" "wid < num_ops (ser \<sigma>)"
  shows "\<exists>s'. serializer_cancel_delayed_work self wid key ctx (Some (ser \<sigma>)) = Some (0, Some s') \<and>
    (let gone = filter (cancelled wid key ctx (ser \<sigma>)) (delayed_work_list (ser \<sigma>)) in
     delayed_work_list s' = filter (\<lambda>b. b \<notin> set gone) (delayed_work_list (ser \<sigma>)) \<and>
     work_list s' = work_list (ser \<sigma>) \<and>
     (\<forall>b. works s' b = (if b \<in> set gone then None else works (ser \<sigma>) b)) \<and>
     ser_trace s' = ser_trace (ser \<sigma>) @ concat (map (free_event (ser \<sigma>)) gone))"
proof -
  note inv = ser_reach_inv [OF assms(1)]
  have alloc: "\<forall>e \<in> set (delayed_work_list (ser \<sigma>)). works (ser \<sigma>) e \<noteq> None"
    using ser_inv_allocated [OF inv] by fastforce
  show ?thesis
    by (simp add: cancel_eq [OF ser_invE(1) [OF inv] ser_inv_distinct(2) [OF inv] alloc assms(4,3)]
        Let_def restrict_map_def released_trace cong: filter_cong)
qed

theorem serializer_cancel_removes_matching_witness:
  "\<exists>s'. serializer_cancel_delayed_work 7 0 0 9 (Some (ser ex_busy)) = Some (0, Some s') \<and>
     delayed_work_list s' = [] \<and> ser_trace s' = ser_trace (ser ex_busy) @ [FreeFunc 0 30 9]"
  using serializer_cancel_removes_matching [OF ex_busy_reach, of 1 0 7 0 0 9]
  by (simp add: ex_busy_def ex_ops_def ex_work_def cancelled_def free_event_def Let_def) blast


text \<open>
  Destruction: once the thread has gone and nobody waits or submits,
  \<open>serializer_destroy\<close> calls \<open>free_func\<close> once for every work that is left, in the order of
  the work list and then of the delayed list, and leaves no work allocated.
\<close>

theorem serializer_destroy_releases_all:
  assumes "ser_reach \<sigma>" "pc \<sigma> = Exited r" "waiting \<sigma> = {}" "inserting \<sigma> = {}"
  shows "\<exists>s'. serializer_destroy (Some (ser \<sigma>)) = Some (0, Some s') \<and> works s' = Map.empty \<and>
    ser_trace s' = ser_trace (ser \<sigma>) @
      concat (map (free_event (ser \<sigma>)) (work_list (ser \<sigma>) @ delayed_work_list (ser \<sigma>)))"
proof -
  let ?s = "ser \<sigma>"
  let ?s1 = "released (work_list ?s) ?s"
  note inv = ser_reach_inv [OF assms(1)]
  note E = ser_invE [OF inv]
  have dom: "dom (works ?s) = set (work_list ?s) \<union> set (delayed_work_list ?s)"
    using E(2) assms(2-4) by (simp add: owner_ok_def)
  have disj: "set (work_list ?s) \<inter> set (delayed_work_list ?s) = {}" using owner_disjoint [OF E(2)] by blast
  have first: "release_all (work_list ?s) ?s = Some ?s1"
    using release_all_ok [OF E(1) ser_inv_distinct(1) [OF inv]] dom by blast
  have alloc: "\<forall>b \<in> set (delayed_work_list ?s). works ?s1 b = works ?s b" using disj by (auto simp: restrict_map_def)
  then have second: "release_all (delayed_work_list ?s) ?s1 = Some (released (delayed_work_list ?s) ?s1)"
    using release_all_ok [OF valid_ids_released [OF E(1)] ser_inv_distinct(2) [OF inv]] dom by (metis UnCI domIff)
  have "map (free_event ?s1) (delayed_work_list ?s) = map (free_event ?s) (delayed_work_list ?s)"
    using alloc by (auto simp: free_event_def split: option.splits)
  then have "concat (map (free_event ?s1) (delayed_work_list ?s)) = concat (map (free_event ?s) (delayed_work_list ?s))"
    by (rule arg_cong)
  moreover have "works (released (delayed_work_list ?s) ?s1) = Map.empty"
    using dom by (auto simp: restrict_map_def fun_eq_iff)
  ultimately show ?thesis by (simp add: serializer_destroy_def first second released_trace)
qed

theorem serializer_destroy_releases_all_witness:
  "\<exists>\<sigma> s'. ser_reach \<sigma> \<and> delayed_work_list (ser \<sigma>) = [3] \<and>
     serializer_destroy (Some (ser \<sigma>)) = Some (0, Some s') \<and> works s' = Map.empty"
proof -
  let ?acts = "[ThreadFinish 0, WaitOver True 2, RequestStop, ThreadLoopTop]"
  have "\<exists>\<sigma> :: system. run_acts ?acts ex_busy = Some \<sigma> \<and> pc \<sigma> = Exited 0 \<and> waiting \<sigma> = {} \<and> inserting \<sigma> = {} \<and>
      delayed_work_list (ser \<sigma>) = [3]"
    by (simp add: ex_busy_def ex_work_def ex_ops_def thread_finish_work_def call_free_func_def free_work_def
        exec_wait_over_def serializer_request_stop_def exec_defs)
  then obtain \<sigma> where run: "run_acts ?acts ex_busy = Some \<sigma>" "pc \<sigma> = Exited 0" "waiting \<sigma> = {}" "inserting \<sigma> = {}"
    "delayed_work_list (ser \<sigma>) = [3]" by blast
  have reach: "ser_reach \<sigma>" by (rule run_acts_reach [OF ex_busy_reach run(1)]) simp
  from serializer_destroy_releases_all [OF this run(2-4)] reach run(5) show ?thesis by blast
qed

text \<open>
  \<open>serializer_stop_all_by_ctx\<close> never stops a delayed work: its second pass walks the work
  list again, so the delayed works of the context stay on their list and will be executed.
\<close>

theorem stop_all_keeps_delayed_works:
  assumes "ser_reach \<sigma>" "pc \<sigma> = DoWork a cw" "thread_id (ser \<sigma>) = Some self"
    and "b \<in> set (delayed_work_list (ser \<sigma>))"
  shows "\<exists>s'. serializer_stop_all_by_ctx self ctx (Some (ser \<sigma>)) = Some (0, Some s') \<and>
    delayed_work_list s' = delayed_work_list (ser \<sigma>) \<and> works s' b = works (ser \<sigma>) b \<and> works s' b \<noteq> None \<and>
    (\<forall>e \<in> set (work_list s'). \<not> of_ctx ctx s' e)"
proof -
  note inv = ser_reach_inv [OF assms(1)]
  note E = ser_invE [OF inv]
  have alloc: "\<forall>e \<in> set (work_list (ser \<sigma>)). works (ser \<sigma>) e \<noteq> None" using ser_inv_allocated [OF inv] by fastforce
  have "b \<notin> set (work_list (ser \<sigma>))" using owner_disjoint [OF E(2)] assms(4) by blast
  moreover have "works (ser \<sigma>) b \<noteq> None" using ser_inv_allocated [OF inv] assms(4) by fastforce
  ultimately show ?thesis
    by (auto simp: stop_all_eq [OF E(1) ser_inv_distinct(1) [OF inv] alloc assms(3)] Let_def restrict_map_def
        emit_def of_ctx_def)
qed

theorem stop_all_keeps_delayed_works_witness:
  "of_ctx 9 (ser ex_busy) 3 \<and>
   (\<exists>s'. serializer_stop_all_by_ctx 7 9 (Some (ser ex_busy)) = Some (0, Some s') \<and> delayed_work_list s' = [3] \<and>
      works s' 3 = works (ser ex_busy) 3)"
  using stop_all_keeps_delayed_works [OF ex_busy_reach, of 1 0 7 3 9]
  by (simp add: ex_busy_def of_ctx_def ex_work_def) blast

text \<open>
  \<open>serializer_stop_all_by_ctx\<close> frees the synchronous works of the context although their
  submitters still wait: the submitter that then leaves its wait reads a freed work.
\<close>

theorem stop_all_frees_awaited_work:
  assumes "ser_reach \<sigma>" "pc \<sigma> = DoWork a cw" "b \<in> set (work_list (ser \<sigma>))"
    and "works (ser \<sigma>) b = Some w" "w_state w = WORK_WAITING_FOR_FINISH" "w_ctx w = ctx"
  shows "\<exists>\<sigma>'. act (StopAllByCtx ctx) \<sigma> = Next \<sigma>' \<and> b \<in> waiting \<sigma>' \<and> act (WaitOver timed_out b) \<sigma>' = Fault"
proof -
  note inv = ser_reach_inv [OF assms(1)]
  note E = ser_invE [OF inv]
  have alloc: "\<forall>e \<in> set (work_list (ser \<sigma>)). works (ser \<sigma>) e \<noteq> None" using ser_inv_allocated [OF inv] by fastforce
  obtain self where tid: "thread_id (ser \<sigma>) = Some self" using E(7) assms(2) by auto
  have "b \<in> waiting \<sigma>" using E(2) assms(3-5) by (auto simp: owner_ok_def state_of_def)
  with assms(2-6) tid show ?thesis
    by (auto simp: stop_all_eq [OF E(1) ser_inv_distinct(1) [OF inv] alloc tid] Let_def restrict_map_def
        emit_def of_ctx_def is_sync_def)
qed

theorem stop_all_frees_awaited_work_witness:
  "\<exists>\<sigma>'. act (StopAllByCtx 9) ex_busy = Next \<sigma>' \<and> act (WaitOver False 2) \<sigma>' = Fault"
proof -
  have "pc ex_busy = DoWork 1 0" "2 \<in> set (work_list (ser ex_busy))"
    "works (ser ex_busy) 2 = Some (ex_work 20 t0 WORK_WAITING_FOR_FINISH)"
    by (simp_all add: ex_busy_def)
  from stop_all_frees_awaited_work [OF ex_busy_reach this, of 9 False] show ?thesis
    by (simp add: ex_work_def del: act.simps) blast
qed

text \<open>
  C35. A work function that hands an asynchronous work to its own serializer while the work
  list holds \<open>ASYNC_WORK_LIST_MAX_SIZE\<close> asynchronous works never gets through: whatever the
  other threads do, each further pass finds the list full, since only the thread that is
  waiting could take a work from it.
\<close>

theorem full_list_blocks_own_thread:
  assumes "ser_inv \<sigma>" "a \<in> inserting \<sigma>" "state_of (works (ser \<sigma>)) a = Some WORK_ASYNC"
    and "length (async_works (ser \<sigma>)) = 500"
    and "run_acts acs \<sigma> = Some \<sigma>'" "\<forall>ac \<in> set acs. client_action ac"
  shows "exec_insert ok tid a (ser \<sigma>') = Some (Again, ser \<sigma>')"
proof -
  have "stuck a \<sigma>" using assms(2-4) by (simp add: stuck_def ASYNC_WORK_LIST_MAX_SIZE_def)
  from stuck_client_run [OF assms(1) this assms(5,6)] have inv: "ser_inv \<sigma>'" and stuck: "stuck a \<sigma>'" by blast+
  then obtain w where w: "works (ser \<sigma>') a = Some w" by (auto simp: stuck_def state_of_def)
  have "\<forall>e \<in> set (work_list (ser \<sigma>')) \<union> set (delayed_work_list (ser \<sigma>')). works (ser \<sigma>') e \<noteq> None"
    using ser_inv_allocated [OF inv] by fastforce
  from exec_insert_eq [OF w this] stuck_full [OF stuck w] show ?thesis by simp
qed

definition ex_full :: system where
  "ex_full =
     \<lparr>ser = \<lparr>thread_id = Some 7, ser_state = SERIALIZER_RUNNING, ser_stop = False, ser_ops = ex_ops,
              work_list = [1..<501], delayed_work_list = [],
              works = (\<lambda>a. if 1 \<le> a \<and> a < 503 then Some (ex_work a t0 WORK_ASYNC) else None), ser_trace = []\<rparr>,
      pc = DoWork 501 0, waiting = {}, inserting = {502}\<rparr>"

lemma ex_full_inv: "ser_inv ex_full"
proof -
  have "work_order (works (ser ex_full)) [1..<501]"
    unfolding work_order_def
    by (intro conjI exI [of _ "[]"] exI [of _ "[1..<501]"])
       (auto simp: ex_full_def state_of_def ex_work_def ASYNC_WORK_LIST_MAX_SIZE_def)
  moreover have "owner_ok (works (ser ex_full)) {1..<501} {} {501} {} {502}"
    by (auto simp: owner_ok_def ex_full_def state_of_def ex_work_def split: if_splits)
  moreover have "delayed_order (works (ser ex_full)) []" by (simp add: delayed_order_def)
  ultimately show ?thesis
    by (simp add: ser_inv_def sys_inv_def ex_full_def valid_ids_def ex_work_def ex_ops_def)
qed

theorem full_list_blocks_own_thread_witness:
  "exec_insert True 7 502 (serializer_request_stop (ser ex_full)) = Some (Again, serializer_request_stop (ser ex_full))"
proof -
  have "filter (\<lambda>e. state_of (works (ser ex_full)) e = Some WORK_ASYNC) [1..<501] = [1..<501]"
    by (rule filter_True) (auto simp: ex_full_def state_of_def ex_work_def)
  then have "length (async_works (ser ex_full)) = 500" by (simp add: async_works_def ex_full_def)
  from full_list_blocks_own_thread [OF ex_full_inv _ _ this, of 502 "[RequestStop]" _ True 7]
  show ?thesis by (simp add: ex_full_def state_of_def ex_work_def)
qed

end
