(* ===== verification/Ipc_Msg.thy ===== *)
theory Ipc_Msg
  imports Dwpal_Prelude
begin

text \<open>
  The message of wv_ipc/wave_ipc_core.c: its data area, the stack of headers that the layers
  push in front of each other into the fixed header area, the header types of
  wave_ipc_core.h and daemon/dwpal_daemon.h, and the transfer of a message over a socket.
  A pointer argument that may be NULL is an option; a buffer is the list of its bytes, or a
  function from the index for the data area, of which only \<open>data_len\<close> bytes mean anything.
\<close>

section \<open>Data\<close>

datatype wv_ipc_ret = WAVE_IPC_SUCCESS | WAVE_IPC_DISCONNECTED | WAVE_IPC_ERROR
  | WAVE_IPC_CMD_FAILED | WAVE_IPC_CMD_WOULD_BLOCK

datatype msg_type = WAVE_IPC_MSG_NULL | WAVE_IPC_MSG_CMD | WAVE_IPC_MSG_RESP | WAVE_IPC_MSG_REQ_FAIL
  | WAVE_IPC_MSG_EVENT

fun type_code :: "msg_type \<Rightarrow> u8" where
  "type_code WAVE_IPC_MSG_NULL = 0"
| "type_code WAVE_IPC_MSG_CMD = 1"
| "type_code WAVE_IPC_MSG_RESP = 2"
| "type_code WAVE_IPC_MSG_REQ_FAIL = 4"
| "type_code WAVE_IPC_MSG_EVENT = 5"

text \<open>How far a command is that waits for its response, at the server and at a client.\<close>

datatype cmd_response_status = RESP_NONE | RESP_SUCCESS | RESP_FAILURE

definition WAVE_IPC_BUFF_SIZE :: nat where "WAVE_IPC_BUFF_SIZE = 20 * 1024"
definition IPC_MSG_HDR_SIZE :: nat where "IPC_MSG_HDR_SIZE = 32"

record wv_ipc_msg =
  m_prev :: ptr
  m_next :: ptr
  m_is_head :: u8
  m_data_len :: u16
  m_hdr :: "u8 list"
  m_data :: "nat \<Rightarrow> u8"

text \<open>\<open>memcpy\<close> into a buffer at an offset: the data area, and the header area.\<close>

definition write_at :: "(nat \<Rightarrow> u8) \<Rightarrow> nat \<Rightarrow> u8 list \<Rightarrow> nat \<Rightarrow> u8" where
  "write_at f i bs = (\<lambda>k. if i \<le> k \<and> k < i + length bs then bs ! (k - i) else f k)"

definition splice :: "'a list \<Rightarrow> nat \<Rightarrow> 'a list \<Rightarrow> 'a list" where
  "splice xs i ys = take i xs @ ys @ drop (i + length ys) xs"

text \<open>The \<open>n\<close> bytes that the code reads through a pointer.\<close>

definition msg_bytes :: "wv_ipc_msg \<Rightarrow> u8 list" where
  "msg_bytes m = map (m_data m) [0..<unat (m_data_len m)]"

section \<open>The data of a message\<close>

definition wave_ipc_msg_fill_data ::
  "wv_ipc_msg option \<Rightarrow> u8 list option \<Rightarrow> nat \<Rightarrow> wv_ipc_ret \<times> wv_ipc_msg option" where
  "wave_ipc_msg_fill_data mp dat len =
     (case mp of
        None \<Rightarrow> (WAVE_IPC_ERROR, None)
      | Some m \<Rightarrow>
          if dat = None \<and> len \<noteq> 0 then (WAVE_IPC_ERROR, mp)
          else if len > WAVE_IPC_BUFF_SIZE then (WAVE_IPC_ERROR, mp)
          else (case dat of
                  None \<Rightarrow> (WAVE_IPC_SUCCESS, Some (m\<lparr>m_data_len := 0\<rparr>))
                | Some d \<Rightarrow>
                    if m_data_len m \<noteq> 0 then (WAVE_IPC_ERROR, mp)
                    else (WAVE_IPC_SUCCESS,
                          Some (m\<lparr>m_data := write_at (m_data m) 0 (take len d), m_data_len := of_nat len\<rparr>))))"

text \<open>\<open>len + data_len\<close> is a sum of the 64-bit type \<open>size_t\<close>.\<close>

definition size_add :: "nat \<Rightarrow> nat \<Rightarrow> nat" where
  "size_add a b = (a + b) mod 2 ^ 64"

text \<open>\<open>memcpy_s\<close> copies nothing when the source is longer than the room it is given.\<close>

definition wave_ipc_msg_append_data ::
  "wv_ipc_msg option \<Rightarrow> u8 list option \<Rightarrow> nat \<Rightarrow> wv_ipc_ret \<times> wv_ipc_msg option" where
  "wave_ipc_msg_append_data mp dat len =
     (case (mp, dat) of
        (Some m, Some d) \<Rightarrow>
          if len = 0 then (WAVE_IPC_ERROR, mp)
          else if size_add len (unat (m_data_len m)) > WAVE_IPC_BUFF_SIZE then (WAVE_IPC_ERROR, mp)
          else (let room = WAVE_IPC_BUFF_SIZE - unat (m_data_len m);
                    new = (if len \<le> room then take len d else [])
                in (WAVE_IPC_SUCCESS,
                    Some (m\<lparr>m_data := write_at (m_data m) (unat (m_data_len m)) new,
                            m_data_len := m_data_len m + of_nat len\<rparr>)))
      | _ \<Rightarrow> (WAVE_IPC_ERROR, mp))"

definition wave_ipc_msg_reserve_data ::
  "wv_ipc_msg option \<Rightarrow> nat \<Rightarrow> wv_ipc_ret \<times> wv_ipc_msg option" where
  "wave_ipc_msg_reserve_data mp len =
     (case mp of
        None \<Rightarrow> (WAVE_IPC_ERROR, None)
      | Some m \<Rightarrow>
          if len = 0 then (WAVE_IPC_ERROR, mp)
          else if len > WAVE_IPC_BUFF_SIZE then (WAVE_IPC_ERROR, mp)
          else if m_data_len m \<noteq> 0 then (WAVE_IPC_ERROR, mp)
          else (WAVE_IPC_SUCCESS, Some (m\<lparr>m_data_len := of_nat len\<rparr>)))"

definition wave_ipc_msg_shrink_data ::
  "wv_ipc_msg option \<Rightarrow> nat \<Rightarrow> wv_ipc_ret \<times> wv_ipc_msg option" where
  "wave_ipc_msg_shrink_data mp len =
     (case mp of
        None \<Rightarrow> (WAVE_IPC_ERROR, None)
      | Some m \<Rightarrow>
          if unat (m_data_len m) < len then (WAVE_IPC_ERROR, mp)
          else (WAVE_IPC_SUCCESS, Some (m\<lparr>m_data_len := of_nat len\<rparr>)))"

text \<open>The pointer that is returned stands for the bytes that may be read through it.\<close>

definition wave_ipc_msg_get_data :: "wv_ipc_msg option \<Rightarrow> u8 list option" where
  "wave_ipc_msg_get_data mp =
     (case mp of
        None \<Rightarrow> None
      | Some m \<Rightarrow>
          if m_data_len m = 0 \<or> unat (m_data_len m) > WAVE_IPC_BUFF_SIZE then None else Some (msg_bytes m))"

definition wave_ipc_msg_get_size :: "wv_ipc_msg option \<Rightarrow> nat" where
  "wave_ipc_msg_get_size mp =
     (case mp of
        None \<Rightarrow> 0
      | Some m \<Rightarrow> if unat (m_data_len m) > WAVE_IPC_BUFF_SIZE then 0 else unat (m_data_len m))"

section \<open>The header area\<close>

text \<open>
  The loop of \<open>wave_ipc_msg_push_hdr\<close> has a \<open>size_t\<close> index; the one of
  \<open>wave_ipc_msg_pop_hdr\<close> keeps its indices in \<open>uint8_t\<close>, where the addition wraps, so that
  it may not end.
\<close>

function hdr_end :: "u8 list \<Rightarrow> nat \<Rightarrow> nat" where
  "hdr_end h i =
     (if i < IPC_MSG_HDR_SIZE \<and> h ! i \<noteq> 0 then hdr_end h (i + unat (h ! i) + 1) else i)"
  by pat_completeness auto
termination by (relation "measure (\<lambda>(h, i). IPC_MSG_HDR_SIZE - i)") auto

declare hdr_end.simps [simp del]

definition wave_ipc_msg_push_hdr ::
  "wv_ipc_msg option \<Rightarrow> u8 list option \<Rightarrow> u8 \<Rightarrow> wv_ipc_ret \<times> wv_ipc_msg option" where
  "wave_ipc_msg_push_hdr mp hp len =
     (case (mp, hp) of
        (Some m, Some h) \<Rightarrow>
          if len = 0 then (WAVE_IPC_ERROR, mp)
          else (let i = hdr_end (m_hdr m) 0
                in if i \<ge> IPC_MSG_HDR_SIZE then (WAVE_IPC_ERROR, mp)
                   else if i + unat len + 1 > IPC_MSG_HDR_SIZE then (WAVE_IPC_ERROR, mp)
                   else (WAVE_IPC_SUCCESS,
                         Some (m\<lparr>m_hdr := splice (m_hdr m) i (len # take (unat len) h)\<rparr>)))
      | _ \<Rightarrow> (WAVE_IPC_ERROR, mp))"

partial_function (option) pop_scan :: "u8 list \<Rightarrow> u8 \<Rightarrow> u8 \<Rightarrow> (u8 \<times> u8) option" where
  "pop_scan h i j =
     (if unat i < IPC_MSG_HDR_SIZE
      then if h ! unat i \<noteq> 0 then pop_scan h (i + (h ! unat i + 1)) i else Some (i, j)
      else Some (i, j))"

text \<open>
  The result is the return code, the bytes written to \<open>hdr\<close> if there are any, the new
  value of \<open>*len\<close> and the message.
\<close>

definition wave_ipc_msg_pop_hdr ::
  "wv_ipc_msg option \<Rightarrow> bool \<Rightarrow> u8 option \<Rightarrow>
     (wv_ipc_ret \<times> u8 list option \<times> u8 option \<times> wv_ipc_msg option) option" where
  "wave_ipc_msg_pop_hdr mp hdr_given lenp =
     (case (mp, lenp) of
        (Some m, Some len) \<Rightarrow>
          if \<not> hdr_given \<or> len = 0 then Some (WAVE_IPC_ERROR, None, lenp, mp)
          else do {
            (i, j) \<leftarrow> pop_scan (m_hdr m) 0 (of_nat IPC_MSG_HDR_SIZE);
            if i = 0 then Some (WAVE_IPC_ERROR, None, lenp, mp)
            else if unat j \<ge> IPC_MSG_HDR_SIZE \<or> unat j + unat (m_hdr m ! unat j) \<ge> IPC_MSG_HDR_SIZE
            then Some (WAVE_IPC_ERROR, None, lenp, mp)
            else if m_hdr m ! unat j > len then Some (WAVE_IPC_ERROR, None, lenp, mp)
            else (let n = m_hdr m ! unat j
                  in Some (WAVE_IPC_SUCCESS, Some (take (unat n) (drop (unat j + 1) (m_hdr m))), Some n,
                           Some (m\<lparr>m_hdr := splice (m_hdr m) (unat j) (replicate (unat n + 1) 0)\<rparr>))) }
      | _ \<Rightarrow> Some (WAVE_IPC_ERROR, None, lenp, mp))"

section \<open>The headers of the layers\<close>

definition IPC_HDR_MAGIC :: u8 where "IPC_HDR_MAGIC = 0xA1"
definition DWPALD_HDR_MAGIC :: u8 where "DWPALD_HDR_MAGIC = 0x55"

text \<open>
  Both header types are the magic byte and then the layer's own bytes, four for
  \<open>ipc_header\<close> and six for \<open>dwpald_header\<close>.
\<close>

record layer_header =
  h_magic :: u8
  h_bytes :: "u8 list"

definition header_image :: "layer_header \<Rightarrow> u8 list" where
  "header_image h = h_magic h # h_bytes h"

definition header_of :: "u8 list \<Rightarrow> layer_header" where
  "header_of bs = \<lparr>h_magic = hd bs, h_bytes = tl bs\<rparr>"

text \<open>The bytes popped are written over the start of the caller's structure.\<close>

definition header_written :: "layer_header \<Rightarrow> u8 list option \<Rightarrow> layer_header" where
  "header_written h out = (case out of None \<Rightarrow> h | Some bs \<Rightarrow> header_of (splice (header_image h) 0 bs))"

definition ipc_header_push :: "wv_ipc_msg option \<Rightarrow> layer_header \<Rightarrow> rc \<times> layer_header \<times> wv_ipc_msg option" where
  "ipc_header_push mp h =
     (let h' = h\<lparr>h_magic := IPC_HDR_MAGIC\<rparr>
      in case wave_ipc_msg_push_hdr mp (Some (header_image h')) 5 of
           (WAVE_IPC_SUCCESS, mp') \<Rightarrow> (0, h', mp')
         | (_, mp') \<Rightarrow> (1, h', mp'))"

definition ipc_header_pop ::
  "wv_ipc_msg option \<Rightarrow> layer_header \<Rightarrow> (rc \<times> layer_header \<times> wv_ipc_msg option) option" where
  "ipc_header_pop mp h =
     do { (ret, out, len, mp') \<leftarrow> wave_ipc_msg_pop_hdr mp True (Some 5);
          let h' = header_written h out;
          Some (if ret \<noteq> WAVE_IPC_SUCCESS then (1, h', mp')
                else if len \<noteq> Some 5 \<or> h_magic h' \<noteq> IPC_HDR_MAGIC then (1, h', mp')
                else (0, h', mp')) }"

definition dwpald_header_push :: "wv_ipc_msg option \<Rightarrow> layer_header \<Rightarrow> rc \<times> layer_header \<times> wv_ipc_msg option" where
  "dwpald_header_push mp h =
     (let h' = h\<lparr>h_magic := DWPALD_HDR_MAGIC\<rparr>
      in case wave_ipc_msg_push_hdr mp (Some (header_image h')) 7 of
           (WAVE_IPC_SUCCESS, mp') \<Rightarrow> (0, h', mp')
         | (_, mp') \<Rightarrow> (1, h', mp'))"

definition dwpald_header_pop ::
  "wv_ipc_msg option \<Rightarrow> layer_header \<Rightarrow> (rc \<times> layer_header \<times> wv_ipc_msg option) option" where
  "dwpald_header_pop mp h =
     do { (ret, out, len, mp') \<leftarrow> wave_ipc_msg_pop_hdr mp True (Some 7);
          let h' = header_written h out;
          Some (if ret \<noteq> WAVE_IPC_SUCCESS then (1, h', mp')
                else if len \<noteq> Some 7 \<or> h_magic h' \<noteq> DWPALD_HDR_MAGIC then (1, h', mp')
                else (0, h', mp')) }"

definition dwpald_header_peek ::
  "wv_ipc_msg option \<Rightarrow> layer_header \<Rightarrow> (rc \<times> layer_header \<times> wv_ipc_msg option) option" where
  "dwpald_header_peek mp h =
     do { (r, h1, mp1) \<leftarrow> dwpald_header_pop mp h;
          if r \<noteq> 0 then Some (1, h1, mp1)
          else (let (r2, h2, mp2) = dwpald_header_push mp1 h1
                in Some (if r2 \<noteq> 0 then (1, h2, mp2) else (0, h2, mp2))) }"

text \<open>The message with a header of the daemon's layer, or of the IPC layer, in front.\<close>

definition with_dwpald_header :: "u8 list \<Rightarrow> wv_ipc_msg \<Rightarrow> wv_ipc_msg" where
  "with_dwpald_header h m = the (snd (snd (dwpald_header_push (Some m) \<lparr>h_magic = 0, h_bytes = h\<rparr>)))"

definition with_ipc_header :: "u8 list \<Rightarrow> wv_ipc_msg \<Rightarrow> wv_ipc_msg" where
  "with_ipc_header h m = the (snd (snd (ipc_header_push (Some m) \<lparr>h_magic = 0, h_bytes = h\<rparr>)))"

section \<open>Sixteen-bit numbers in a header\<close>

definition wv_aligned_16_bit_assign :: "u8 list \<Rightarrow> nat \<Rightarrow> u16 \<Rightarrow> u8 list" where
  "wv_aligned_16_bit_assign buf i num =
     (buf[i := ucast (num AND 0xFF)])[i + 1 := ucast (drop_bit 8 num AND 0xFF)]"

definition wv_aligned_16_bit_fetch :: "u8 list \<Rightarrow> nat \<Rightarrow> u16" where
  "wv_aligned_16_bit_fetch buf i = ucast (buf ! i) OR push_bit 8 (ucast (buf ! (i + 1)))"

section \<open>Transfer over a socket\<close>

text \<open>
  What \<open>send\<close> does is the environment's choice, as is what each \<open>recv\<close> delivers.  The
  packet is the structure as it lies in memory: the length, its low byte first, the header
  area and the data.
\<close>

datatype send_result = SendOk | SendWouldBlock | SendError

definition packet_info :: "wv_ipc_msg \<Rightarrow> u8 list" where
  "packet_info m = [ucast (m_data_len m), ucast (drop_bit 8 (m_data_len m))] @ m_hdr m"

definition wave_ipc_send_msg ::
  "send_result \<Rightarrow> bool \<Rightarrow> wv_ipc_msg option \<Rightarrow> wv_ipc_ret \<times> u8 list" where
  "wave_ipc_send_msg res socket_open mp =
     (case mp of
        None \<Rightarrow> (WAVE_IPC_ERROR, [])
      | Some m \<Rightarrow>
          if \<not> socket_open then (WAVE_IPC_ERROR, [])
          else if unat (m_data_len m) > WAVE_IPC_BUFF_SIZE then (WAVE_IPC_ERROR, [])
          else (case res of
                  SendOk \<Rightarrow> (WAVE_IPC_SUCCESS, packet_info m @ msg_bytes m)
                | SendWouldBlock \<Rightarrow> (WAVE_IPC_CMD_WOULD_BLOCK, [])
                | SendError \<Rightarrow> (WAVE_IPC_ERROR, [])))"

datatype recv_result = RecvError | Received "u8 list"

definition info_size :: nat where "info_size = 2 + IPC_MSG_HDR_SIZE"

definition msg_cleared :: "wv_ipc_msg \<Rightarrow> wv_ipc_msg" where
  "msg_cleared m = m\<lparr>m_prev := None, m_next := None, m_is_head := 0, m_data_len := 0,
                     m_hdr := replicate IPC_MSG_HDR_SIZE 0\<rparr>"

text \<open>The structure as it is read from the wire.\<close>

definition info_read :: "u8 list \<Rightarrow> wv_ipc_msg \<Rightarrow> wv_ipc_msg" where
  "info_read bs m = m\<lparr>m_data_len := ucast (bs ! 0) OR push_bit 8 (ucast (bs ! 1)), m_hdr := drop 2 bs\<rparr>"

text \<open>
  \<open>fresh\<close> is the message that \<open>wave_ipc_msg_alloc\<close> returns; on an error it goes back to the
  pool, so that the caller gets nothing.
\<close>

definition wave_ipc_recv_msg ::
  "bool \<Rightarrow> wv_ipc_msg option \<Rightarrow> recv_result \<Rightarrow> recv_result \<Rightarrow> wv_ipc_ret \<times> wv_ipc_msg option" where
  "wave_ipc_recv_msg socket_open fresh r1 r2 =
     (if \<not> socket_open then (WAVE_IPC_DISCONNECTED, None)
      else case fresh of
        None \<Rightarrow> (WAVE_IPC_ERROR, None)
      | Some m \<Rightarrow>
          (case r1 of
             RecvError \<Rightarrow> (WAVE_IPC_ERROR, None)
           | Received bs \<Rightarrow>
               if bs = [] then (WAVE_IPC_DISCONNECTED, None)
               else if length bs < info_size then (WAVE_IPC_ERROR, None)
               else (let m1 = info_read (take info_size bs) m
                     in if unat (m_data_len m1) > WAVE_IPC_BUFF_SIZE then (WAVE_IPC_ERROR, None)
                        else if m_data_len m1 = 0 then (WAVE_IPC_SUCCESS, Some m1)
                        else (case r2 of
                                RecvError \<Rightarrow> (WAVE_IPC_ERROR, None)
                              | Received ds \<Rightarrow>
                                  if length ds \<noteq> unat (m_data_len m1) then (WAVE_IPC_ERROR, None)
                                  else (WAVE_IPC_SUCCESS, Some (m1\<lparr>m_data := write_at (m_data m1) 0 ds\<rparr>))))))"

section \<open>The header area as a stack\<close>

text \<open>The stack of headers \<open>hs\<close>, the oldest first, as it is laid out in the header area.\<close>

definition hdr_enc :: "u8 list list \<Rightarrow> u8 list" where
  "hdr_enc hs = concat (map (\<lambda>h. of_nat (length h) # h) hs)"

definition hdr_fits :: "u8 list list \<Rightarrow> bool" where
  "hdr_fits hs \<longleftrightarrow> (\<forall>h \<in> set hs. h \<noteq> []) \<and> length (hdr_enc hs) \<le> IPC_MSG_HDR_SIZE"

definition hdr_area :: "u8 list list \<Rightarrow> u8 list" where
  "hdr_area hs = hdr_enc hs @ replicate (IPC_MSG_HDR_SIZE - length (hdr_enc hs)) 0"

lemma hdr_enc_simps [simp]:
  "hdr_enc [] = []" "hdr_enc (h # hs) = of_nat (length h) # h @ hdr_enc hs"
  "hdr_enc (hs @ ks) = hdr_enc hs @ hdr_enc ks"
  by (simp_all add: hdr_enc_def)

lemma hdr_area_length [simp]: "hdr_fits hs \<Longrightarrow> length (hdr_area hs) = IPC_MSG_HDR_SIZE"
  by (simp add: hdr_area_def hdr_fits_def)

lemma hdr_fits_append: "hdr_fits (hs @ ks) \<Longrightarrow> hdr_fits hs"
  by (simp add: hdr_fits_def)

lemma hdr_fits_Nil [simp]: "hdr_fits []"
  by (simp add: hdr_fits_def)

lemma hdr_fits_length: "hdr_fits hs \<Longrightarrow> h \<in> set hs \<Longrightarrow> length h < 32"
proof -
  assume fits: "hdr_fits hs" and h: "h \<in> set hs"
  then obtain as bs where "hs = as @ h # bs" by (meson split_list)
  with fits show ?thesis by (simp add: hdr_fits_def IPC_MSG_HDR_SIZE_def)
qed

lemma unat_of_nat_u8: "n < 256 \<Longrightarrow> unat (of_nat n :: u8) = n"
  by (simp add: unat_of_nat take_bit_eq_mod)

lemma of_nat_u8_nonzero: "0 < n \<Longrightarrow> n < 256 \<Longrightarrow> (of_nat n :: u8) \<noteq> 0"
  using unat_of_nat_u8 [of n] by (metis unat_0 less_numeral_extra(3))

text \<open>Both scans walk from one header to the next.\<close>

lemma nth_at_length: "i = length pre \<Longrightarrow> (pre @ x # xs) ! i = x"
  by simp

lemma hdr_end_area:
  assumes "hdr_fits hs" "area = pre @ hdr_enc hs @ replicate n 0" "length area = IPC_MSG_HDR_SIZE"
  shows "hdr_end area (length pre) = length pre + length (hdr_enc hs)"
  using assms
proof (induction hs arbitrary: pre)
  case Nil
  then show ?case by (subst hdr_end.simps, cases n) (simp_all add: nth_append)
next
  case (Cons h hs)
  have len: "0 < length h" "length h < 256"
    using Cons.prems(1) hdr_fits_length [OF Cons.prems(1), of h] by (auto simp: hdr_fits_def)
  have at: "area ! length pre = of_nat (length h)" using Cons.prems(2) by (simp add: nth_append)
  have "hdr_end area (length (pre @ of_nat (length h) # h)) =
      length (pre @ of_nat (length h) # h) + length (hdr_enc hs)"
    using Cons.prems by (intro Cons.IH) (auto simp: hdr_fits_def)
  moreover have "length pre < IPC_MSG_HDR_SIZE" using Cons.prems by (simp add: hdr_fits_def)
  ultimately show ?case
    using len at of_nat_u8_nonzero [OF len] unat_of_nat_u8 [OF len(2)]
    by (simp add: hdr_end.simps [of area "length pre"] add.commute add.left_commute)
qed

lemma pop_scan_area:
  assumes "hdr_fits hs" "area = pre @ hdr_enc hs @ replicate n 0" "length area = IPC_MSG_HDR_SIZE"
  shows "pop_scan area (of_nat (length pre)) j =
    Some (of_nat (length pre + length (hdr_enc hs)),
          if hs = [] then j else of_nat (length pre + length (hdr_enc (butlast hs))))"
  using assms
proof (induction hs arbitrary: pre j)
  case Nil
  have "length pre \<le> IPC_MSG_HDR_SIZE" using Nil.prems by simp
  then have pre: "unat (of_nat (length pre) :: u8) = length pre"
    by (intro unat_of_nat_u8) (simp add: IPC_MSG_HDR_SIZE_def)
  with Nil show ?case by (subst pop_scan.simps, cases n) (simp_all add: nth_append)
next
  case (Cons h hs)
  have len: "0 < length h" "length h < 256"
    using Cons.prems(1) hdr_fits_length [OF Cons.prems(1), of h] by (auto simp: hdr_fits_def)
  have at: "area ! length pre = of_nat (length h)" using Cons.prems(2) by (simp add: nth_append)
  have lt: "length pre < IPC_MSG_HDR_SIZE" using Cons.prems by simp
  then have pre: "unat (of_nat (length pre) :: u8) = length pre"
    by (intro unat_of_nat_u8) (simp add: IPC_MSG_HDR_SIZE_def)
  have IH: "pop_scan area (of_nat (length (pre @ of_nat (length h) # h))) (of_nat (length pre)) =
    Some (of_nat (length (pre @ of_nat (length h) # h) + length (hdr_enc hs)),
          if hs = [] then of_nat (length pre)
          else of_nat (length (pre @ of_nat (length h) # h) + length (hdr_enc (butlast hs))))"
    using Cons.prems by (intro Cons.IH) (auto simp: hdr_fits_def)
  have "of_nat (length pre) + (of_nat (length h) + 1) = (of_nat (length (pre @ of_nat (length h) # h)) :: u8)"
    by simp
  then show ?case
    using lt at of_nat_u8_nonzero [OF len] pre IH
    by (simp add: pop_scan.simps [of area "of_nat (length pre)" j] add.commute add.left_commute)
qed

text \<open>What pushing and popping do to a message whose header area holds the stack \<open>hs\<close>.\<close>

definition hdr_stack :: "wv_ipc_msg \<Rightarrow> u8 list list \<Rightarrow> bool" where
  "hdr_stack m hs \<longleftrightarrow> hdr_fits hs \<and> m_hdr m = hdr_area hs"

lemma hdr_end_stack: "hdr_stack m hs \<Longrightarrow> hdr_end (m_hdr m) 0 = length (hdr_enc hs)"
proof -
  assume m: "hdr_stack m hs"
  then have "length (m_hdr m) = IPC_MSG_HDR_SIZE" by (simp add: hdr_stack_def)
  moreover have "m_hdr m = [] @ hdr_enc hs @ replicate (IPC_MSG_HDR_SIZE - length (hdr_enc hs)) 0"
    using m by (simp add: hdr_stack_def hdr_area_def)
  ultimately have "hdr_end (m_hdr m) (length ([] :: u8 list)) = length ([] :: u8 list) + length (hdr_enc hs)"
    using m by (intro hdr_end_area [where n = "IPC_MSG_HDR_SIZE - length (hdr_enc hs)"]) (simp_all add: hdr_stack_def)
  then show ?thesis by simp
qed

lemma hdr_area_push:
  assumes "hdr_fits (hs @ [h])"
  shows "splice (hdr_area hs) (length (hdr_enc hs)) (of_nat (length h) # h) = hdr_area (hs @ [h])"
  using assms by (simp add: splice_def hdr_area_def hdr_fits_def)

lemma hdr_area_pop:
  assumes "hdr_fits (hs @ [h])"
  shows "splice (hdr_area (hs @ [h])) (length (hdr_enc hs)) (replicate (length h + 1) 0) = hdr_area hs"
proof -
  have "Suc (length h) + (IPC_MSG_HDR_SIZE - Suc (length (hdr_enc hs) + length h)) =
      IPC_MSG_HDR_SIZE - length (hdr_enc hs)"
    using assms by (auto simp: hdr_fits_def Suc_diff_Suc Suc_le_eq)
  then have "replicate (Suc (length h)) 0 @ replicate (IPC_MSG_HDR_SIZE - Suc (length (hdr_enc hs) + length h)) (0 :: u8) =
      replicate (IPC_MSG_HDR_SIZE - length (hdr_enc hs)) 0"
    by (simp only: replicate_add [symmetric])
  then show ?thesis by (simp add: splice_def hdr_area_def)
qed

lemma push_hdr_ok:
  assumes "hdr_stack m hs" "hdr_fits (hs @ [h])"
  shows "wave_ipc_msg_push_hdr (Some m) (Some h) (of_nat (length h)) =
    (WAVE_IPC_SUCCESS, Some (m\<lparr>m_hdr := hdr_area (hs @ [h])\<rparr>))"
proof -
  have "h \<in> set (hs @ [h])" by simp
  from hdr_fits_length [OF assms(2) this] have len: "length h < 256" by simp
  have pos: "0 < length h" using assms(2) by (simp add: hdr_fits_def)
  have room: "length (hdr_enc hs) + length h + 1 \<le> IPC_MSG_HDR_SIZE" using assms(2) by (simp add: hdr_fits_def)
  have "splice (m_hdr m) (length (hdr_enc hs)) (of_nat (length h) # h) = hdr_area (hs @ [h])"
    using assms(1) hdr_area_push [OF assms(2)] by (simp add: hdr_stack_def)
  then show ?thesis
    using room of_nat_u8_nonzero [OF pos len]
    by (simp add: wave_ipc_msg_push_hdr_def hdr_end_stack [OF assms(1)] unat_of_nat_u8 [OF len] Let_def)
qed

lemma push_hdr_full:
  assumes "hdr_stack m hs" "h \<noteq> []" "length h < 256" "\<not> hdr_fits (hs @ [h])"
  shows "wave_ipc_msg_push_hdr (Some m) (Some h) (of_nat (length h)) = (WAVE_IPC_ERROR, Some m)"
proof -
  have "length (hdr_enc hs) + length h + 1 > IPC_MSG_HDR_SIZE"
    using assms by (auto simp: hdr_fits_def hdr_stack_def)
  then show ?thesis
    by (simp add: wave_ipc_msg_push_hdr_def hdr_end_stack [OF assms(1)] unat_of_nat_u8 [OF assms(3)] Let_def)
qed

lemma pop_hdr_ok:
  assumes "hdr_stack m (hs @ [h])" "length h \<le> unat n"
  shows "wave_ipc_msg_pop_hdr (Some m) True (Some n) =
    Some (WAVE_IPC_SUCCESS, Some h, Some (of_nat (length h)), Some (m\<lparr>m_hdr := hdr_area hs\<rparr>))"
proof -
  have fits: "hdr_fits (hs @ [h])" and area: "m_hdr m = hdr_area (hs @ [h])"
    using assms(1) by (simp_all add: hdr_stack_def)
  have "h \<in> set (hs @ [h])" by simp
  from hdr_fits_length [OF fits this] have len: "length h < 256" by simp
  have pos: "0 < length h" using fits by (simp add: hdr_fits_def)
  then have n: "n \<noteq> 0" using assms(2) by auto
  let ?j = "length (hdr_enc hs)"
  have room: "?j + length h + 1 \<le> 32" using fits by (simp add: hdr_fits_def IPC_MSG_HDR_SIZE_def)
  then have room': "?j < IPC_MSG_HDR_SIZE" "?j + length h < IPC_MSG_HDR_SIZE" by (simp_all add: IPC_MSG_HDR_SIZE_def)
  have scan: "pop_scan (m_hdr m) 0 (of_nat IPC_MSG_HDR_SIZE) = Some (of_nat (?j + length h + 1), of_nat ?j)"
    using pop_scan_area [OF fits, of "m_hdr m" "[]"] hdr_area_length [OF fits]
    by (simp add: area) (simp add: hdr_area_def butlast_append)
  have i: "of_nat (?j + length h + 1) \<noteq> (0 :: u8)" using room by (intro of_nat_u8_nonzero) simp_all
  have j: "unat (of_nat ?j :: u8) = ?j" using room by (intro unat_of_nat_u8) simp
  have at: "m_hdr m ! ?j = of_nat (length h)" by (simp add: area hdr_area_def nth_append)
  have le: "\<not> (of_nat (length h) :: u8) > n"
    using assms(2) unat_of_nat_u8 [OF len] by (simp add: word_le_nat_alt not_less)
  have bytes: "take (length h) (drop (?j + 1) (m_hdr m)) = h" by (simp add: area hdr_area_def)
  show ?thesis
    using n room' i le bytes hdr_area_pop [OF fits]
    by (simp add: wave_ipc_msg_pop_hdr_def scan j at unat_of_nat_u8 [OF len] Let_def not_le
        flip: area del: of_nat_add of_nat_Suc)
qed

section \<open>A stack of headers, as the layers use it\<close>

text \<open>
  The contract of the header area: pushing a header that fits puts it on top of the stack,
  popping with a buffer that is large enough takes it off; nothing else of the message
  changes, and the stack and the rest determine the message.
\<close>

fun push_all :: "('m \<Rightarrow> 'h list \<Rightarrow> 'm option) \<Rightarrow> 'm \<Rightarrow> 'h list list \<Rightarrow> 'm option" where
  "push_all push m [] = Some m"
| "push_all push m (h # hs) = (case push m h of None \<Rightarrow> None | Some m' \<Rightarrow> push_all push m' hs)"

fun pop_all :: "('m \<Rightarrow> nat \<Rightarrow> ('h list \<times> 'm) option) \<Rightarrow> 'm \<Rightarrow> nat list \<Rightarrow> ('h list list \<times> 'm) option" where
  "pop_all pop m [] = Some ([], m)"
| "pop_all pop m (n # ns) =
     (case pop m n of
        None \<Rightarrow> None
      | Some (h, m') \<Rightarrow> (case pop_all pop m' ns of None \<Rightarrow> None | Some (hs, m'') \<Rightarrow> Some (h # hs, m'')))"

locale header_stack =
  fixes push :: "'m \<Rightarrow> 'h list \<Rightarrow> 'm option"
    and pop :: "'m \<Rightarrow> nat \<Rightarrow> ('h list \<times> 'm) option"
    and holds :: "'m \<Rightarrow> 'h list list \<Rightarrow> bool"
    and fits :: "'h list list \<Rightarrow> bool"
    and rest :: "'m \<Rightarrow> 'r"
  assumes push_law: "holds m hs \<Longrightarrow> fits (hs @ [h]) \<Longrightarrow> \<exists>m'. push m h = Some m' \<and> holds m' (hs @ [h]) \<and> rest m' = rest m"
    and pop_law: "holds m (hs @ [h]) \<Longrightarrow> length h \<le> n \<Longrightarrow> \<exists>m'. pop m n = Some (h, m') \<and> holds m' hs \<and> rest m' = rest m"
    and holds_inj: "holds m hs \<Longrightarrow> holds m' hs \<Longrightarrow> rest m = rest m' \<Longrightarrow> m = m'"
    and fits_prefix: "fits (hs @ ks) \<Longrightarrow> fits hs"
begin

lemma push_all_ok:
  "holds m hs \<Longrightarrow> fits (hs @ ks) \<Longrightarrow> \<exists>m'. push_all push m ks = Some m' \<and> holds m' (hs @ ks) \<and> rest m' = rest m"
proof (induction ks arbitrary: m hs)
  case Nil
  then show ?case by simp
next
  case (Cons k ks)
  have split: "hs @ k # ks = (hs @ [k]) @ ks" by simp
  have "fits (hs @ [k])" using Cons.prems(2) fits_prefix unfolding split by blast
  with push_law [OF Cons.prems(1)] obtain m1 where m1: "push m k = Some m1" "holds m1 (hs @ [k])" "rest m1 = rest m"
    by blast
  from Cons.IH [OF m1(2)] Cons.prems(2) m1 show ?case by auto
qed

lemma pop_all_ok:
  "holds m (hs @ rev ks) \<Longrightarrow> \<exists>m'. pop_all pop m (map length ks) = Some (ks, m') \<and> holds m' hs \<and> rest m' = rest m"
proof (induction ks arbitrary: m)
  case Nil
  then show ?case by simp
next
  case (Cons k ks)
  then have "holds m ((hs @ rev ks) @ [k])" by simp
  from pop_law [OF this, of "length k"] obtain m1 where
    m1: "pop m (length k) = Some (k, m1)" "holds m1 (hs @ rev ks)" "rest m1 = rest m" by auto
  from Cons.IH [OF m1(2)] m1 show ?case by auto
qed

lemma layers_roundtrip:
  assumes "holds m hs" "fits (hs @ ks)"
  shows "\<exists>m'. push_all push m ks = Some m' \<and> pop_all pop m' (map length (rev ks)) = Some (rev ks, m)"
proof -
  obtain m1 where m1: "push_all push m ks = Some m1" "holds m1 (hs @ ks)" "rest m1 = rest m"
    using push_all_ok [OF assms] by blast
  obtain m2 where m2: "pop_all pop m1 (map length (rev ks)) = Some (rev ks, m2)" "holds m2 hs" "rest m2 = rest m1"
    using pop_all_ok [of m1 hs "rev ks"] m1(2) by auto
  have "m2 = m" using holds_inj [OF m2(2) assms(1)] m1(3) m2(3) by simp
  with m1 m2 show ?thesis by blast
qed

end

text \<open>The two operations on a message that is there, without the return codes.\<close>

definition msg_push :: "wv_ipc_msg \<Rightarrow> u8 list \<Rightarrow> wv_ipc_msg option" where
  "msg_push m h =
     (case wave_ipc_msg_push_hdr (Some m) (Some h) (of_nat (length h)) of
        (WAVE_IPC_SUCCESS, mp) \<Rightarrow> mp | _ \<Rightarrow> None)"

definition msg_pop :: "wv_ipc_msg \<Rightarrow> nat \<Rightarrow> (u8 list \<times> wv_ipc_msg) option" where
  "msg_pop m n =
     (case wave_ipc_msg_pop_hdr (Some m) True (Some (of_nat n)) of
        Some (WAVE_IPC_SUCCESS, Some h, _, Some m') \<Rightarrow> Some (h, m') | _ \<Rightarrow> None)"

definition msg_rest :: "wv_ipc_msg \<Rightarrow> wv_ipc_msg" where
  "msg_rest m = m\<lparr>m_hdr := []\<rparr>"

lemma hdr_stack_upd: "hdr_fits hs \<Longrightarrow> hdr_stack (m\<lparr>m_hdr := hdr_area hs\<rparr>) hs"
  by (simp add: hdr_stack_def)

lemma msg_pop_small:
  assumes "hdr_stack m (hs @ [h])" "length h \<le> n" "n < 256"
  shows "msg_pop m n = Some (h, m\<lparr>m_hdr := hdr_area hs\<rparr>)"
  using pop_hdr_ok [OF assms(1), of "of_nat n"] assms(2) unat_of_nat_u8 [OF assms(3)] by (simp add: msg_pop_def)

interpretation hs: header_stack msg_push "\<lambda>m n. msg_pop m (min n 255)" hdr_stack hdr_fits msg_rest
proof
  fix m hs h
  assume "hdr_stack m hs" "hdr_fits (hs @ [h])"
  then show "\<exists>m'. msg_push m h = Some m' \<and> hdr_stack m' (hs @ [h]) \<and> msg_rest m' = msg_rest m"
    by (simp add: msg_push_def push_hdr_ok) (simp add: hdr_stack_def msg_rest_def)
next
  fix m hs h and n :: nat
  assume m: "hdr_stack m (hs @ [h])" and n: "length h \<le> n"
  have "length h < 32" using hdr_fits_length [of "hs @ [h]" h] m by (simp add: hdr_stack_def)
  with n have "length h \<le> min n 255" by simp
  from msg_pop_small [OF m this] m
  show "\<exists>m'. msg_pop m (min n 255) = Some (h, m') \<and> hdr_stack m' hs \<and> msg_rest m' = msg_rest m"
    by (auto simp: hdr_stack_def msg_rest_def dest: hdr_fits_append)
next
  fix m m' hs
  assume "hdr_stack m hs" "hdr_stack m' hs" "msg_rest m = msg_rest m'"
  then have "m_hdr m = m_hdr m'" "msg_rest m = msg_rest m'" by (simp_all add: hdr_stack_def)
  then show "m = m'" by (cases m; cases m') (simp add: msg_rest_def)
next
  fix hs ks
  show "hdr_fits (hs @ ks) \<Longrightarrow> hdr_fits hs" by (rule hdr_fits_append)
qed

text \<open>The functions of the two layers on a message with the stack \<open>hs\<close>.\<close>

lemma dwpald_push_ok:
  assumes "hdr_stack m hs" "length (h_bytes h) = 6" "hdr_fits (hs @ [DWPALD_HDR_MAGIC # h_bytes h])"
  shows "dwpald_header_push (Some m) h = (0, h\<lparr>h_magic := DWPALD_HDR_MAGIC\<rparr>,
    Some (m\<lparr>m_hdr := hdr_area (hs @ [DWPALD_HDR_MAGIC # h_bytes h])\<rparr>))"
  using push_hdr_ok [OF assms(1,3)] assms(2) by (simp add: dwpald_header_push_def header_image_def Let_def)

lemma dwpald_pop_ok:
  assumes "hdr_stack m (hs @ [DWPALD_HDR_MAGIC # bs])" "length bs = 6" "length (h_bytes h) = 6"
  shows "dwpald_header_pop (Some m) h =
    Some (0, \<lparr>h_magic = DWPALD_HDR_MAGIC, h_bytes = bs\<rparr>, Some (m\<lparr>m_hdr := hdr_area hs\<rparr>))"
  using pop_hdr_ok [OF assms(1), of 7] assms(2,3)
  by (simp add: dwpald_header_pop_def header_written_def header_of_def header_image_def splice_def Let_def)

lemma ipc_push_ok:
  assumes "hdr_stack m hs" "length (h_bytes h) = 4" "hdr_fits (hs @ [IPC_HDR_MAGIC # h_bytes h])"
  shows "ipc_header_push (Some m) h = (0, h\<lparr>h_magic := IPC_HDR_MAGIC\<rparr>,
    Some (m\<lparr>m_hdr := hdr_area (hs @ [IPC_HDR_MAGIC # h_bytes h])\<rparr>))"
  using push_hdr_ok [OF assms(1,3)] assms(2) by (simp add: ipc_header_push_def header_image_def Let_def)

lemma ipc_pop_ok:
  assumes "hdr_stack m (hs @ [IPC_HDR_MAGIC # bs])" "length bs = 4" "length (h_bytes h) = 4"
  shows "ipc_header_pop (Some m) h =
    Some (0, \<lparr>h_magic = IPC_HDR_MAGIC, h_bytes = bs\<rparr>, Some (m\<lparr>m_hdr := hdr_area hs\<rparr>))"
  using pop_hdr_ok [OF assms(1), of 5] assms(2,3)
  by (simp add: ipc_header_pop_def header_written_def header_of_def header_image_def splice_def Let_def)

lemma hdr_area_same: "hdr_stack m hs \<Longrightarrow> m\<lparr>m_hdr := hdr_area hs\<rparr> = m"
  by (simp add: hdr_stack_def)

text \<open>The two headers around a message, popped as they were pushed.\<close>

lemma one_header_fits: "length h = 6 \<Longrightarrow> hdr_fits [DWPALD_HDR_MAGIC # h]"
  by (simp add: hdr_fits_def IPC_MSG_HDR_SIZE_def)

lemma with_dwpald_header_stack:
  assumes "hdr_stack m []" "length h = 6"
  shows "with_dwpald_header h m = m\<lparr>m_hdr := hdr_area [DWPALD_HDR_MAGIC # h]\<rparr>"
    "hdr_stack (with_dwpald_header h m) [DWPALD_HDR_MAGIC # h]"
  using dwpald_push_ok [OF assms(1), of "\<lparr>h_magic = 0, h_bytes = h\<rparr>"] assms(2) one_header_fits
  by (simp_all add: with_dwpald_header_def hdr_stack_upd)

lemma dwpald_header_roundtrip:
  assumes "hdr_stack m []" "length h = 6" "length (h_bytes j) = 6"
  shows "dwpald_header_pop (Some (with_dwpald_header h m)) j = Some (0, \<lparr>h_magic = DWPALD_HDR_MAGIC, h_bytes = h\<rparr>, Some m)"
    "dwpald_header_peek (Some (with_dwpald_header h m)) j =
      Some (0, \<lparr>h_magic = DWPALD_HDR_MAGIC, h_bytes = h\<rparr>, Some (with_dwpald_header h m))"
proof -
  show pop: "dwpald_header_pop (Some (with_dwpald_header h m)) j = Some (0, \<lparr>h_magic = DWPALD_HDR_MAGIC, h_bytes = h\<rparr>, Some m)"
    using dwpald_pop_ok [of "with_dwpald_header h m" "[]" h j] with_dwpald_header_stack [OF assms(1,2)] assms
    by (simp add: hdr_area_same)
  have "dwpald_header_push (Some m) \<lparr>h_magic = DWPALD_HDR_MAGIC, h_bytes = h\<rparr> =
      (0, \<lparr>h_magic = DWPALD_HDR_MAGIC, h_bytes = h\<rparr>, Some (with_dwpald_header h m))"
    using dwpald_push_ok [OF assms(1), of "\<lparr>h_magic = DWPALD_HDR_MAGIC, h_bytes = h\<rparr>"] assms(2) one_header_fits
      with_dwpald_header_stack(1) [OF assms(1,2)] by simp
  then show "dwpald_header_peek (Some (with_dwpald_header h m)) j =
      Some (0, \<lparr>h_magic = DWPALD_HDR_MAGIC, h_bytes = h\<rparr>, Some (with_dwpald_header h m))"
    using pop by (simp add: dwpald_header_peek_def)
qed

definition ipc_room :: "wv_ipc_msg \<Rightarrow> bool" where
  "ipc_room m \<longleftrightarrow> (\<exists>hs. hdr_stack m hs \<and> length (hdr_enc hs) + 6 \<le> IPC_MSG_HDR_SIZE)"

lemma ipc_header_roundtrip:
  assumes "ipc_room m" "length bs = 4" "length junk = 4"
  shows "ipc_header_pop (Some (with_ipc_header bs m)) \<lparr>h_magic = 0, h_bytes = junk\<rparr> =
    Some (0, \<lparr>h_magic = IPC_HDR_MAGIC, h_bytes = bs\<rparr>, Some m)"
    "ipc_header_push (Some m) \<lparr>h_magic = g, h_bytes = bs\<rparr> =
       (0, \<lparr>h_magic = IPC_HDR_MAGIC, h_bytes = bs\<rparr>, Some (with_ipc_header bs m))"
proof -
  obtain hs where hs: "hdr_stack m hs" "length (hdr_enc hs) + 6 \<le> IPC_MSG_HDR_SIZE" using assms(1) by (auto simp: ipc_room_def)
  then have fits: "hdr_fits (hs @ [IPC_HDR_MAGIC # bs])" using assms(2) by (auto simp: hdr_fits_def hdr_stack_def)
  have push: "ipc_header_push (Some m) \<lparr>h_magic = g, h_bytes = bs\<rparr> = (0, \<lparr>h_magic = IPC_HDR_MAGIC, h_bytes = bs\<rparr>,
      Some (m\<lparr>m_hdr := hdr_area (hs @ [IPC_HDR_MAGIC # bs])\<rparr>))" for g
    using ipc_push_ok [OF hs(1), of "\<lparr>h_magic = g, h_bytes = bs\<rparr>"] assms(2) fits by simp
  then have w: "with_ipc_header bs m = m\<lparr>m_hdr := hdr_area (hs @ [IPC_HDR_MAGIC # bs])\<rparr>" by (simp add: with_ipc_header_def)
  show "ipc_header_push (Some m) \<lparr>h_magic = g, h_bytes = bs\<rparr> =
      (0, \<lparr>h_magic = IPC_HDR_MAGIC, h_bytes = bs\<rparr>, Some (with_ipc_header bs m))"
    unfolding w by (rule push)
  show "ipc_header_pop (Some (with_ipc_header bs m)) \<lparr>h_magic = 0, h_bytes = junk\<rparr> =
      Some (0, \<lparr>h_magic = IPC_HDR_MAGIC, h_bytes = bs\<rparr>, Some m)"
    using ipc_pop_ok [of "with_ipc_header bs m" hs bs "\<lparr>h_magic = 0, h_bytes = junk\<rparr>"] hdr_stack_upd [OF fits] assms(2,3)
      hdr_area_same [OF hs(1)]
    by (simp add: w)
qed

lemma dwpald_header_room: "hdr_stack m [] \<Longrightarrow> length h = 6 \<Longrightarrow> ipc_room (with_dwpald_header h m)"
  using with_dwpald_header_stack(2) [of m h] by (auto simp: ipc_room_def IPC_MSG_HDR_SIZE_def intro!: exI [of _ "[DWPALD_HDR_MAGIC # h]"])

lemma pop_scan_wraps: "h ! 0 = 255 \<Longrightarrow> pop_scan h 0 j = None"
proof (rule ccontr)
  assume h: "h ! 0 = 255" and "pop_scan h 0 j \<noteq> None"
  then obtain r where "pop_scan h 0 j = Some r" by blast
  then have "(0 :: u8) = 0 \<longrightarrow> h ! 0 \<noteq> 255"
    by (rule pop_scan.raw_induct [where P = "\<lambda>h i j r. i = 0 \<longrightarrow> h ! 0 \<noteq> 255", rotated])
       (auto simp: IPC_MSG_HDR_SIZE_def split: if_splits)
  with h show False by simp
qed

section \<open>Lemmas on the data area\<close>

lemma map_write_at:
  "map (write_at f i bs) [0..<i + length bs] = map f [0..<i] @ bs"
proof (rule nth_equalityI)
  show "length (map (write_at f i bs) [0..<i + length bs]) = length (map f [0..<i] @ bs)" by simp
  fix k assume "k < length (map (write_at f i bs) [0..<i + length bs])"
  then show "map (write_at f i bs) [0..<i + length bs] ! k = (map f [0..<i] @ bs) ! k"
    by (simp add: write_at_def nth_append)
qed

lemma unat_of_nat_u16: "n < 65536 \<Longrightarrow> unat (of_nat n :: u16) = n"
  by (simp add: unat_of_nat take_bit_eq_mod)

lemma unat_add_u16:
  assumes "unat (a :: u16) + n < 65536" shows "unat (a + of_nat n) = unat a + n"
proof -
  have "n < 65536" using assms by simp
  then have "unat (of_nat n :: u16) = n" by (rule unat_of_nat_u16)
  with assms show ?thesis by (simp add: unat_word_ariths)
qed

lemma u16_bytes: "ucast (ucast n :: u8) OR push_bit 8 (ucast (ucast (drop_bit 8 n) :: u8)) = (n :: u16)"
  by (rule bit_word_eqI) (auto simp: bit_simps)

section \<open>Properties\<close>

definition ex_msg :: wv_ipc_msg where
  "ex_msg = \<lparr>m_prev = None, m_next = None, m_is_head = 0, m_data_len = 0,
             m_hdr = replicate 32 0, m_data = (\<lambda>_. 0)\<rparr>"

lemma ex_msg_stack: "hdr_stack ex_msg []"
  by (simp add: hdr_stack_def ex_msg_def hdr_area_def IPC_MSG_HDR_SIZE_def)

text \<open>
  C18. The layers' headers are a stack: whatever headers are pushed, as long as they fit the
  32 bytes with one byte of length each, popping as many returns them in reverse order and
  restores the message exactly, the bytes of the header area behind the stack included.
\<close>

theorem header_layers_roundtrip:
  assumes "hdr_stack m hs" "hdr_fits (hs @ ks)"
  shows "\<exists>m'. push_all msg_push m ks = Some m' \<and>
    pop_all (\<lambda>m n. msg_pop m (min n 255)) m' (map length (rev ks)) = Some (rev ks, m)"
  using assms by (rule hs.layers_roundtrip)

theorem header_layers_roundtrip_witness:
  "\<exists>m'. push_all msg_push ex_msg [[1, 2], [3]] = Some m' \<and>
    pop_all (\<lambda>m n. msg_pop m (min n 255)) m' [1, 2] = Some ([[3], [1, 2]], ex_msg)"
proof -
  have "hdr_fits ([] @ [[1, 2], [3]])" by (simp add: hdr_fits_def IPC_MSG_HDR_SIZE_def)
  from header_layers_roundtrip [OF ex_msg_stack this] show ?thesis by (simp add: numeral_2_eq_2)
qed

text \<open>
  A header is accepted exactly when it fits the header area behind the headers that are
  there; otherwise the push fails and the message is unchanged.
\<close>

theorem push_hdr_accepts_iff_fits:
  assumes "hdr_stack m hs" "h \<noteq> []" "length h < 256"
  shows "wave_ipc_msg_push_hdr (Some m) (Some h) (of_nat (length h)) =
    (if length (hdr_enc hs) + length h + 1 \<le> 32
     then (WAVE_IPC_SUCCESS, Some (m\<lparr>m_hdr := hdr_area (hs @ [h])\<rparr>)) else (WAVE_IPC_ERROR, Some m))"
proof (cases "hdr_fits (hs @ [h])")
  case True
  then show ?thesis using push_hdr_ok [OF assms(1) True] by (simp add: hdr_fits_def IPC_MSG_HDR_SIZE_def)
next
  case False
  then have "\<not> length (hdr_enc hs) + length h + 1 \<le> 32"
    using assms by (auto simp: hdr_fits_def hdr_stack_def IPC_MSG_HDR_SIZE_def)
  with push_hdr_full [OF assms False] show ?thesis by simp
qed

theorem push_hdr_accepts_iff_fits_witness:
  "wave_ipc_msg_push_hdr (Some ex_msg) (Some (replicate 32 1)) 32 = (WAVE_IPC_ERROR, Some ex_msg)"
  using push_hdr_accepts_iff_fits [OF ex_msg_stack, of "replicate 32 1"] by simp

text \<open>
  The daemon's header travels under the transport's header: a \<open>dwpald_header\<close> and then
  an \<open>ipc_header\<close> pushed by the sender are popped by the receiver as they were, first the
  transport's, and peeking at the daemon's header leaves the message as it is.
\<close>

theorem nested_headers_delivered:
  assumes "hdr_stack m []" "length (h_bytes d) = 6" "length (h_bytes i) = 4"
    and "length (h_bytes d') = 6" "length (h_bytes i') = 4"
  shows "\<exists>m1 m2 m3. dwpald_header_push (Some m) d = (0, d\<lparr>h_magic := DWPALD_HDR_MAGIC\<rparr>, Some m1) \<and>
    ipc_header_push (Some m1) i = (0, i\<lparr>h_magic := IPC_HDR_MAGIC\<rparr>, Some m2) \<and>
    ipc_header_pop (Some m2) i' = Some (0, \<lparr>h_magic = IPC_HDR_MAGIC, h_bytes = h_bytes i\<rparr>, Some m1) \<and>
    dwpald_header_peek (Some m1) d' = Some (0, \<lparr>h_magic = DWPALD_HDR_MAGIC, h_bytes = h_bytes d\<rparr>, Some m1) \<and>
    dwpald_header_pop (Some m1) d' = Some (0, \<lparr>h_magic = DWPALD_HDR_MAGIC, h_bytes = h_bytes d\<rparr>, Some m)"
proof -
  let ?D = "DWPALD_HDR_MAGIC # h_bytes d" and ?I = "IPC_HDR_MAGIC # h_bytes i"
  let ?m1 = "m\<lparr>m_hdr := hdr_area ([] @ [?D])\<rparr>" and ?m2 = "m\<lparr>m_hdr := hdr_area ([?D] @ [?I])\<rparr>"
  have f1: "hdr_fits ([] @ [?D])" and f2: "hdr_fits ([?D] @ [?I])"
    using assms(2,3) by (simp_all add: hdr_fits_def IPC_MSG_HDR_SIZE_def)
  have s1: "hdr_stack ?m1 ([] @ [?D])" and s2: "hdr_stack ?m2 ([?D] @ [?I])"
    using hdr_stack_upd [OF f1] hdr_stack_upd [OF f2] by simp_all
  have pop: "dwpald_header_pop (Some ?m1) h = Some (0, \<lparr>h_magic = DWPALD_HDR_MAGIC, h_bytes = h_bytes d\<rparr>, Some m)"
    if "length (h_bytes h) = 6" for h
    using dwpald_pop_ok [OF s1 assms(2) that] assms(1) hdr_area_same [OF assms(1)] by simp
  have push: "dwpald_header_push (Some m) h = (0, h\<lparr>h_magic := DWPALD_HDR_MAGIC\<rparr>, Some ?m1)"
    if "h_bytes h = h_bytes d" for h
    using dwpald_push_ok [OF assms(1), of h] that f1 assms(2) by simp
  have "ipc_header_push (Some ?m1) i = (0, i\<lparr>h_magic := IPC_HDR_MAGIC\<rparr>, Some ?m2)"
    using ipc_push_ok [of ?m1 "[?D]" i] s1 f2 assms(3) by simp
  moreover have "ipc_header_pop (Some ?m2) i' = Some (0, \<lparr>h_magic = IPC_HDR_MAGIC, h_bytes = h_bytes i\<rparr>, Some ?m1)"
    using ipc_pop_ok [of ?m2 "[?D]" "h_bytes i" i'] s2 assms(3,5) by simp
  moreover have "dwpald_header_peek (Some ?m1) d' = Some (0, \<lparr>h_magic = DWPALD_HDR_MAGIC, h_bytes = h_bytes d\<rparr>, Some ?m1)"
    using pop [OF assms(4)] push [of "\<lparr>h_magic = DWPALD_HDR_MAGIC, h_bytes = h_bytes d\<rparr>"]
    by (simp add: dwpald_header_peek_def Let_def)
  ultimately show ?thesis using pop [OF assms(4)] push [OF refl] by blast
qed

theorem nested_headers_delivered_witness:
  "\<exists>m1. dwpald_header_push (Some ex_msg) \<lparr>h_magic = 0, h_bytes = [1, 2, 3, 4, 5, 6]\<rparr> =
      (0, \<lparr>h_magic = DWPALD_HDR_MAGIC, h_bytes = [1, 2, 3, 4, 5, 6]\<rparr>, Some m1) \<and>
    dwpald_header_peek (Some m1) \<lparr>h_magic = 0, h_bytes = replicate 6 0\<rparr> =
      Some (0, \<lparr>h_magic = DWPALD_HDR_MAGIC, h_bytes = [1, 2, 3, 4, 5, 6]\<rparr>, Some m1)"
  using nested_headers_delivered [OF ex_msg_stack, of "\<lparr>h_magic = 0, h_bytes = [1, 2, 3, 4, 5, 6]\<rparr>"
    "\<lparr>h_magic = 0, h_bytes = [7, 8, 9, 10]\<rparr>" "\<lparr>h_magic = 0, h_bytes = replicate 6 0\<rparr>"
    "\<lparr>h_magic = 0, h_bytes = replicate 4 0\<rparr>"] by auto

text \<open>
  C34. A message from the wire whose first header byte is 255 makes \<open>wave_ipc_msg_pop_hdr\<close>
  loop for ever: the 8-bit index wraps back to 0.
\<close>

theorem pop_hdr_diverges:
  assumes "m_hdr m ! 0 = 255" "n \<noteq> 0"
  shows "wave_ipc_msg_pop_hdr (Some m) True (Some n) = None"
proof -
  from assms(1) have "pop_scan (m_hdr m) 0 (of_nat IPC_MSG_HDR_SIZE) = None" by (rule pop_scan_wraps)
  with assms show ?thesis by (simp add: wave_ipc_msg_pop_hdr_def)
qed

theorem pop_hdr_diverges_witness:
  "wave_ipc_msg_pop_hdr (Some (ex_msg\<lparr>m_hdr := 255 # replicate 31 0\<rparr>)) True (Some 7) = None"
  using pop_hdr_diverges [of "ex_msg\<lparr>m_hdr := 255 # replicate 31 0\<rparr>" 7] by simp

text \<open>
  Appending to a message is concatenation of its bytes: it succeeds exactly when the data
  area has room, and then the data is the old data followed by the new; otherwise the
  message is unchanged.
\<close>

theorem append_data_concatenates:
  assumes "unat (m_data_len m) \<le> WAVE_IPC_BUFF_SIZE" "d \<noteq> []" "length d < 2 ^ 63"
  shows "if unat (m_data_len m) + length d \<le> WAVE_IPC_BUFF_SIZE
    then \<exists>m'. wave_ipc_msg_append_data (Some m) (Some d) (length d) = (WAVE_IPC_SUCCESS, Some m') \<and>
      wave_ipc_msg_get_data (Some m') = Some (msg_bytes m @ d) \<and>
      wave_ipc_msg_get_size (Some m') = wave_ipc_msg_get_size (Some m) + length d \<and> m_hdr m' = m_hdr m
    else wave_ipc_msg_append_data (Some m) (Some d) (length d) = (WAVE_IPC_ERROR, Some m)"
proof -
  have "length d + unat (m_data_len m) < 2 ^ 64" using assms(1,3) by (simp add: WAVE_IPC_BUFF_SIZE_def)
  then have add: "size_add (length d) (unat (m_data_len m)) = length d + unat (m_data_len m)"
    by (simp add: size_add_def)
  show ?thesis
  proof (cases "unat (m_data_len m) + length d \<le> WAVE_IPC_BUFF_SIZE")
    case False
    then show ?thesis using assms(2) by (simp add: wave_ipc_msg_append_data_def add add.commute)
  next
    case True
    let ?m = "m\<lparr>m_data := write_at (m_data m) (unat (m_data_len m)) d, m_data_len := m_data_len m + of_nat (length d)\<rparr>"
    have len: "unat (m_data_len ?m) = unat (m_data_len m) + length d"
      using True unat_add_u16 [of "m_data_len m" "length d"] by (simp add: WAVE_IPC_BUFF_SIZE_def)
    then have "m_data_len ?m \<noteq> 0" using assms(2) by (metis add_is_0 length_0_conv unat_0)
    moreover have "msg_bytes ?m = msg_bytes m @ d"
      unfolding msg_bytes_def len by (simp add: map_write_at)
    ultimately have "wave_ipc_msg_get_data (Some ?m) = Some (msg_bytes m @ d)"
      "wave_ipc_msg_get_size (Some ?m) = wave_ipc_msg_get_size (Some m) + length d"
      using len True assms(1) by (simp_all add: wave_ipc_msg_get_data_def wave_ipc_msg_get_size_def)
    moreover have "wave_ipc_msg_append_data (Some m) (Some d) (length d) = (WAVE_IPC_SUCCESS, Some ?m)"
      using True assms(2) by (simp add: wave_ipc_msg_append_data_def add Let_def add.commute)
    ultimately show ?thesis using True by auto
  qed
qed

theorem append_data_concatenates_witness:
  "\<exists>m'. wave_ipc_msg_append_data (Some ex_msg) (Some [5, 6]) (Suc (Suc 0)) = (WAVE_IPC_SUCCESS, Some m') \<and>
    wave_ipc_msg_get_data (Some m') = Some [5, 6]"
  using append_data_concatenates [of ex_msg "[5, 6]"]
  by (simp add: ex_msg_def msg_bytes_def WAVE_IPC_BUFF_SIZE_def) blast

lemma socket_transfer:
  assumes "length (m_hdr m) = IPC_MSG_HDR_SIZE" "unat (m_data_len m) \<le> WAVE_IPC_BUFF_SIZE"
  shows "\<exists>bs m'. wave_ipc_send_msg SendOk True (Some m) = (WAVE_IPC_SUCCESS, bs) \<and>
    wave_ipc_recv_msg True (Some fresh) (Received (take info_size bs)) (Received (drop info_size bs)) =
      (WAVE_IPC_SUCCESS, Some m') \<and>
    m_hdr m' = m_hdr m \<and> m_data_len m' = m_data_len m \<and> msg_bytes m' = msg_bytes m"
proof -
  let ?bs = "packet_info m @ msg_bytes m"
  have info: "length (packet_info m) = info_size" using assms(1) by (simp add: packet_info_def info_size_def)
  have data: "length (msg_bytes m) = unat (m_data_len m)" by (simp add: msg_bytes_def)
  let ?m1 = "fresh\<lparr>m_data_len := m_data_len m, m_hdr := m_hdr m\<rparr>"
  have read: "info_read (packet_info m) fresh = ?m1" by (simp add: info_read_def packet_info_def u16_bytes)
  have "packet_info m \<noteq> []" by (simp add: packet_info_def)
  then have recv: "wave_ipc_recv_msg True (Some fresh) (Received (take info_size ?bs)) (Received (drop info_size ?bs)) =
      (WAVE_IPC_SUCCESS, Some (if m_data_len m = 0 then ?m1 else ?m1\<lparr>m_data := write_at (m_data fresh) 0 (msg_bytes m)\<rparr>))"
    using assms(2) by (simp add: wave_ipc_recv_msg_def info data read Let_def)
  have "msg_bytes (?m1\<lparr>m_data := write_at (m_data fresh) 0 (msg_bytes m)\<rparr>) = msg_bytes m"
    using map_write_at [of "m_data fresh" 0 "msg_bytes m"] data by (simp add: msg_bytes_def)
  moreover have "msg_bytes ?m1 = msg_bytes m" if "m_data_len m = 0" using that by (simp add: msg_bytes_def)
  ultimately show ?thesis using assms(2) recv by (simp add: wave_ipc_send_msg_def)
qed

text \<open>
  A message survives the socket: what the receiver assembles from the bytes that the
  sender wrote, delivered as the fixed part and the data, has the sender's length, header
  area and data bytes.
\<close>

theorem send_recv_roundtrip:
  assumes "length (m_hdr m) = IPC_MSG_HDR_SIZE" "unat (m_data_len m) \<le> WAVE_IPC_BUFF_SIZE"
  shows "\<exists>bs m'. wave_ipc_send_msg SendOk True (Some m) = (WAVE_IPC_SUCCESS, bs) \<and>
    wave_ipc_recv_msg True (Some fresh) (Received (take info_size bs)) (Received (drop info_size bs)) =
      (WAVE_IPC_SUCCESS, Some m') \<and>
    m_hdr m' = m_hdr m \<and> m_data_len m' = m_data_len m \<and> msg_bytes m' = msg_bytes m"
  by (rule socket_transfer [OF assms])

theorem send_recv_roundtrip_witness:
  "\<exists>bs m'. wave_ipc_send_msg SendOk True (Some (ex_msg\<lparr>m_data_len := 3, m_data := of_nat\<rparr>)) = (WAVE_IPC_SUCCESS, bs) \<and>
    wave_ipc_recv_msg True (Some ex_msg) (Received (take info_size bs)) (Received (drop info_size bs)) =
      (WAVE_IPC_SUCCESS, Some m') \<and> msg_bytes m' = [0, 1, 2]"
proof -
  have "length (m_hdr (ex_msg\<lparr>m_data_len := 3, m_data := of_nat\<rparr>)) = IPC_MSG_HDR_SIZE"
    "unat (m_data_len (ex_msg\<lparr>m_data_len := 3, m_data := of_nat\<rparr>)) \<le> WAVE_IPC_BUFF_SIZE"
    "msg_bytes (ex_msg\<lparr>m_data_len := 3, m_data := of_nat\<rparr>) = [0, 1, 2]"
    by (simp_all add: ex_msg_def IPC_MSG_HDR_SIZE_def WAVE_IPC_BUFF_SIZE_def msg_bytes_def upt_rec)
  with send_recv_roundtrip [of "ex_msg\<lparr>m_data_len := 3, m_data := of_nat\<rparr>" ex_msg] show ?thesis by metis
qed

text \<open>
  Whatever the peer sends, a message that \<open>wave_ipc_recv_msg\<close> accepts has a data length
  within the buffer and exactly that many bytes were received into it.
\<close>

theorem recv_msg_within_buffer:
  assumes "wave_ipc_recv_msg socket_open fresh r1 r2 = (WAVE_IPC_SUCCESS, mp)"
  shows "\<exists>m bs. mp = Some m \<and> r1 = Received bs \<and> info_size \<le> length bs \<and>
    unat (m_data_len m) \<le> WAVE_IPC_BUFF_SIZE \<and> length (m_hdr m) = IPC_MSG_HDR_SIZE \<and>
    (m_data_len m \<noteq> 0 \<longrightarrow> r2 = Received (msg_bytes m))"
proof -
  obtain m bs where fresh: "fresh = Some m" and r1: "r1 = Received bs" and len: "info_size \<le> length bs"
    using assms by (auto simp: wave_ipc_recv_msg_def split: if_splits option.splits recv_result.splits)
  let ?m1 = "info_read (take info_size bs) m"
  have hdr: "length (m_hdr ?m1) = IPC_MSG_HDR_SIZE" using len by (simp add: info_read_def info_size_def)
  have ok: "unat (m_data_len ?m1) \<le> WAVE_IPC_BUFF_SIZE"
    using assms len by (auto simp: wave_ipc_recv_msg_def fresh r1 Let_def split: if_splits)
  show ?thesis
  proof (cases "m_data_len ?m1 = 0")
    case True
    then show ?thesis using assms fresh r1 len hdr ok
      by (auto simp: wave_ipc_recv_msg_def Let_def split: if_splits)
  next
    case False
    then obtain ds where r2: "r2 = Received ds" and ds: "length ds = unat (m_data_len ?m1)"
      and mp: "mp = Some (?m1\<lparr>m_data := write_at (m_data ?m1) 0 ds\<rparr>)"
      using assms len by (auto simp: wave_ipc_recv_msg_def fresh r1 Let_def split: if_splits recv_result.splits)
    have "msg_bytes (?m1\<lparr>m_data := write_at (m_data ?m1) 0 ds\<rparr>) = ds"
      using map_write_at [of "m_data ?m1" 0 ds] ds by (simp add: msg_bytes_def)
    with mp r1 r2 len hdr ok show ?thesis by auto
  qed
qed

theorem recv_msg_within_buffer_witness:
  "\<exists>m. wave_ipc_recv_msg True (Some ex_msg) (Received (1 # 0 # replicate 32 0)) (Received [9]) = (WAVE_IPC_SUCCESS, Some m) \<and>
     msg_bytes m = [9]"
proof -
  have res: "wave_ipc_recv_msg True (Some ex_msg) (Received (1 # 0 # replicate 32 0)) (Received [9]) =
      (WAVE_IPC_SUCCESS, Some (ex_msg\<lparr>m_data_len := 1, m_data := write_at (\<lambda>_. 0) 0 [9]\<rparr>))"
    by (simp add: wave_ipc_recv_msg_def info_size_def IPC_MSG_HDR_SIZE_def info_read_def WAVE_IPC_BUFF_SIZE_def
        ex_msg_def Let_def)
  from recv_msg_within_buffer [OF this] res show ?thesis by simp
qed

text \<open>A 16-bit number that is stored in a header at any offset is fetched back.\<close>

theorem aligned_16_bit_roundtrip:
  assumes "i + 1 < length buf"
  shows "wv_aligned_16_bit_fetch (wv_aligned_16_bit_assign buf i num) i = num"
proof -
  have mask: "(0xFF :: u16) = mask 8" by (simp add: mask_eq_exp_minus_1)
  have low: "(ucast (num AND 0xFF) :: u8) = ucast num"
    unfolding mask by (rule bit_word_eqI) (auto simp: bit_simps)
  have high: "(ucast (drop_bit 8 num AND 0xFF) :: u8) = ucast (drop_bit 8 num)"
    unfolding mask by (rule bit_word_eqI) (auto simp: bit_simps)
  show ?thesis
    using assms u16_bytes [of num]
    by (simp add: wv_aligned_16_bit_fetch_def wv_aligned_16_bit_assign_def low high)
qed

theorem aligned_16_bit_roundtrip_witness:
  "wv_aligned_16_bit_fetch (wv_aligned_16_bit_assign (replicate 4 0) 1 0x1234) 1 = 0x1234"
  by (rule aligned_16_bit_roundtrip) simp

end
