(* ===== verification/Ipc_Core.thy ===== *)
theory Ipc_Core
  imports Ipc_Msg Obj_Pool
begin

text \<open>
  The messages of wv_ipc/wave_ipc_core.c in memory: they come from one object pool that the
  first allocation creates, and the messages of a multi-message response are linked into a
  ring that starts at the head.  A message may be read and written only while it is
  allocated; any other access gives None.  The global pool is part of the state, its lock is
  the atomicity of an operation.
\<close>

section \<open>State\<close>

record ipc_mem =
  ipc_pool :: pool_state
  ipc_msgs :: "nat \<Rightarrow> wv_ipc_msg"

definition msg_live :: "ipc_mem \<Rightarrow> nat \<Rightarrow> bool" where
  "msg_live s a = (case objs (snd (ipc_pool s)) a of None \<Rightarrow> False | Some ob \<Rightarrow> po_allocated ob)"

definition load_msg :: "nat \<Rightarrow> ipc_mem \<Rightarrow> wv_ipc_msg option" where
  "load_msg a s = (if msg_live s a then Some (ipc_msgs s a) else None)"

definition store_msg :: "nat \<Rightarrow> (wv_ipc_msg \<Rightarrow> wv_ipc_msg) \<Rightarrow> ipc_mem \<Rightarrow> ipc_mem option" where
  "store_msg a f s = (if msg_live s a then Some (s\<lparr>ipc_msgs := (ipc_msgs s)(a := f (ipc_msgs s a))\<rparr>) else None)"

definition sizeof_wv_ipc_msg :: nat where "sizeof_wv_ipc_msg = 20536"

section \<open>Operations\<close>

definition wave_ipc_msg_alloc :: "ipc_mem \<Rightarrow> (ptr \<times> ipc_mem) option" where
  "wave_ipc_msg_alloc s =
     do { (ready, s1) \<leftarrow>
            (case fst (ipc_pool s) of
               Some _ \<Rightarrow> Some (True, s)
             | None \<Rightarrow>
                 do { (p, h) \<leftarrow> obj_pool_init (Some ''ipc msg'') sizeof_wv_ipc_msg 8 0 False (snd (ipc_pool s));
                      Some (p \<noteq> None, s\<lparr>ipc_pool := (p, h)\<rparr>) });
          if \<not> ready then Some (None, s1)
          else do {
            (a, q) \<leftarrow> pool_alloc (ipc_pool s1);
            let s2 = s1\<lparr>ipc_pool := q\<rparr>;
            (case a of
               None \<Rightarrow> Some (None, s2)
             | Some b \<Rightarrow> do { s3 \<leftarrow> store_msg b msg_cleared s2; Some (Some b, s3) }) } }"

definition wave_ipc_multi_msg_append :: "ptr \<Rightarrow> ptr \<Rightarrow> ipc_mem \<Rightarrow> (wv_ipc_ret \<times> ipc_mem) option" where
  "wave_ipc_multi_msg_append headp msgp s =
     (case (headp, msgp) of
        (Some h, Some m) \<Rightarrow>
          do { hd \<leftarrow> load_msg h s;
               if m_next hd \<noteq> None \<and> m_is_head hd = 0 then Some (WAVE_IPC_ERROR, s)
               else do {
                 mg \<leftarrow> load_msg m s;
                 if m_next mg \<noteq> None \<or> m_is_head mg \<noteq> 0 then Some (WAVE_IPC_ERROR, s)
                 else do {
                   s1 \<leftarrow>
                     (if m_next hd = None
                      then do { t \<leftarrow> store_msg h (\<lambda>x. x\<lparr>m_is_head := 1, m_next := Some m\<rparr>) s;
                                store_msg m (\<lambda>x. x\<lparr>m_prev := Some h\<rparr>) t }
                      else do { t \<leftarrow> store_msg m (\<lambda>x. x\<lparr>m_prev := m_prev hd\<rparr>) s;
                                p \<leftarrow> m_prev hd;
                                store_msg p (\<lambda>x. x\<lparr>m_next := Some m\<rparr>) t });
                   s2 \<leftarrow> store_msg h (\<lambda>x. x\<lparr>m_prev := Some m\<rparr>) s1;
                   s3 \<leftarrow> store_msg m (\<lambda>x. x\<lparr>m_next := Some h\<rparr>) s2;
                   Some (WAVE_IPC_SUCCESS, s3) } } }
      | _ \<Rightarrow> Some (WAVE_IPC_ERROR, s))"

definition wave_ipc_msg_is_multi_msg :: "ptr \<Rightarrow> ipc_mem \<Rightarrow> bool option" where
  "wave_ipc_msg_is_multi_msg mp s =
     (case mp of
        None \<Rightarrow> Some False
      | Some a \<Rightarrow> do { m \<leftarrow> load_msg a s; Some (m_is_head m \<noteq> 0 \<and> m_next m \<noteq> None) })"

definition wave_ipc_multi_msg_get_next :: "ptr \<Rightarrow> ipc_mem \<Rightarrow> ptr option" where
  "wave_ipc_multi_msg_get_next mp s =
     (case mp of
        None \<Rightarrow> Some None
      | Some a \<Rightarrow>
          do { m \<leftarrow> load_msg a s;
               (case m_next m of
                  None \<Rightarrow> Some None
                | Some n \<Rightarrow> do { nm \<leftarrow> load_msg n s; Some (if m_is_head nm \<noteq> 0 then None else Some n) }) })"

definition wave_ipc_msg_dup :: "ptr \<Rightarrow> ipc_mem \<Rightarrow> (ptr \<times> ipc_mem) option" where
  "wave_ipc_msg_dup origp s =
     (case origp of
        None \<Rightarrow> Some (None, s)
      | Some a \<Rightarrow>
          do { m \<leftarrow> load_msg a s;
               if m_prev m \<noteq> None \<or> m_next m \<noteq> None then Some (None, s)
               else do {
                 (c, s1) \<leftarrow> wave_ipc_msg_alloc s;
                 (case c of
                    None \<Rightarrow> Some (None, s1)
                  | Some b \<Rightarrow> do { o1 \<leftarrow> load_msg a s1; s2 \<leftarrow> store_msg b (\<lambda>_. o1) s1; Some (Some b, s2) }) } })"

definition put_one :: "nat \<Rightarrow> ipc_mem \<Rightarrow> ipc_mem option" where
  "put_one a s = do { q \<leftarrow> pool_put (Some a) (ipc_pool s); Some (s\<lparr>ipc_pool := q\<rparr>) }"

text \<open>The loop over the other messages of a ring.\<close>

partial_function (option) put_ring :: "nat \<Rightarrow> ptr \<Rightarrow> ipc_mem \<Rightarrow> ipc_mem option" where
  "put_ring head nxt s =
     (case nxt of
        None \<Rightarrow> Some s
      | Some n \<Rightarrow>
          if n = head then Some s
          else do { m \<leftarrow> load_msg n s; s1 \<leftarrow> put_one n s; put_ring head (m_next m) s1 })"

definition wave_ipc_msg_put :: "ptr \<Rightarrow> ipc_mem \<Rightarrow> ipc_mem option" where
  "wave_ipc_msg_put mp s =
     (case mp of
        None \<Rightarrow> Some s
      | Some a \<Rightarrow>
          do { m \<leftarrow> load_msg a s;
               if m_next m \<noteq> None \<and> m_is_head m = 0 then Some s
               else do {
                 multi \<leftarrow> wave_ipc_msg_is_multi_msg mp s;
                 s1 \<leftarrow> (if multi then put_ring a (m_next m) s else Some s);
                 put_one a s1 } })"

section \<open>Allocated messages\<close>

definition msgs_held :: "ipc_mem \<Rightarrow> nat set" where
  "msgs_held s = pool_held (ipc_pool s)"

definition ipc_mem_ok :: "ipc_mem \<Rightarrow> bool" where
  "ipc_mem_ok s \<longleftrightarrow>
     (case fst (ipc_pool s) of None \<Rightarrow> heap_ok (snd (ipc_pool s)) | Some _ \<Rightarrow> pool_ok (ipc_pool s))"

lemma held_live: "a \<in> msgs_held s \<Longrightarrow> msg_live s a"
  by (auto simp: msgs_held_def pool_held_def pool_owned_def msg_live_def split: option.splits)

lemma load_held: "a \<in> msgs_held s \<Longrightarrow> load_msg a s = Some (ipc_msgs s a)"
  by (simp add: load_msg_def held_live)

lemma store_held:
  "a \<in> msgs_held s \<Longrightarrow> store_msg a f s = Some (s\<lparr>ipc_msgs := (ipc_msgs s)(a := f (ipc_msgs s a))\<rparr>)"
  by (simp add: store_msg_def held_live)

lemma held_upd [simp]: "msgs_held (s\<lparr>ipc_msgs := ms\<rparr>) = msgs_held s"
  by (simp add: msgs_held_def)

lemma ok_upd [simp]: "ipc_mem_ok (s\<lparr>ipc_msgs := ms\<rparr>) = ipc_mem_ok s"
  by (simp add: ipc_mem_ok_def split: option.split)

lemma ok_pool: "pool_ok q \<Longrightarrow> ipc_mem_ok (s\<lparr>ipc_pool := q\<rparr>)"
proof -
  assume q: "pool_ok q"
  then obtain p where "fst q = Some p" by (auto simp: pool_ok_def)
  with q show ?thesis by (simp add: ipc_mem_ok_def)
qed

lemma held_ok: "ipc_mem_ok s \<Longrightarrow> a \<in> msgs_held s \<Longrightarrow> pool_ok (ipc_pool s)"
  by (auto simp: ipc_mem_ok_def msgs_held_def pool_held_def split: option.splits)

lemma msg_alloc_ok:
  assumes ok: "ipc_mem_ok s" and init: "fst (ipc_pool s) = None \<Longrightarrow> \<forall>k. malloc_ok (snd (ipc_pool s)) k"
  shows "\<exists>r s'. wave_ipc_msg_alloc s = Some (r, s') \<and> ipc_mem_ok s' \<and>
    (case r of None \<Rightarrow> msgs_held s' = msgs_held s \<and> ipc_msgs s' = ipc_msgs s
     | Some a \<Rightarrow> a \<notin> msgs_held s \<and> msgs_held s' = insert a (msgs_held s) \<and>
         ipc_msgs s' = (ipc_msgs s)(a := msg_cleared (ipc_msgs s a)))"
proof -
  have pool: "\<exists>p h. (case fst (ipc_pool s) of Some _ \<Rightarrow> Some (True, s)
      | None \<Rightarrow> do { (p, h) \<leftarrow> obj_pool_init (Some ''ipc msg'') sizeof_wv_ipc_msg 8 0 False (snd (ipc_pool s));
                    Some (p \<noteq> None, s\<lparr>ipc_pool := (p, h)\<rparr>) }) = Some (True, s\<lparr>ipc_pool := (p, h)\<rparr>) \<and>
      pool_ok (p, h) \<and> pool_held (p, h) = msgs_held s"
  proof (cases "fst (ipc_pool s)")
    case None
    have hok: "heap_ok (snd (ipc_pool s))" using ok None by (simp add: ipc_mem_ok_def)
    obtain p h where p: "obj_pool_init (Some ''ipc msg'') sizeof_wv_ipc_msg 8 0 False (snd (ipc_pool s)) = Some (Some p, h)"
      using obj_pool_init_ok [OF hok init [OF None], of 8] by fastforce
    from obj_pool_init_wf [OF hok p] obtain fs where wf: "pool_wf p h fs fs" by blast
    have "pool_held (Some p, h) = {}" by (simp add: pool_held_def pool_wf_owned [OF wf])
    moreover have "msgs_held s = {}" using None by (simp add: msgs_held_def pool_held_def)
    moreover have "pool_ok (Some p, h)" using wf by (auto simp: pool_ok_def)
    ultimately show ?thesis using p None by (intro exI [of _ "Some p"] exI [of _ h]) simp
  next
    case (Some p)
    then have st: "ipc_pool s = (Some p, snd (ipc_pool s))" by (cases "ipc_pool s") simp
    then have "s\<lparr>ipc_pool := (Some p, snd (ipc_pool s))\<rparr> = s" by (cases s) simp
    moreover have "pool_ok (Some p, snd (ipc_pool s))" using ok Some st by (simp add: ipc_mem_ok_def)
    ultimately show ?thesis using Some st
      by (intro exI [of _ "Some p"] exI [of _ "snd (ipc_pool s)"]) (simp add: msgs_held_def)
  qed
  then obtain p h where ready: "(case fst (ipc_pool s) of Some _ \<Rightarrow> Some (True, s)
      | None \<Rightarrow> do { (p, h) \<leftarrow> obj_pool_init (Some ''ipc msg'') sizeof_wv_ipc_msg 8 0 False (snd (ipc_pool s));
                    Some (p \<noteq> None, s\<lparr>ipc_pool := (p, h)\<rparr>) }) = Some (True, s\<lparr>ipc_pool := (p, h)\<rparr>)"
    and pok: "pool_ok (p, h)" and held: "pool_held (p, h) = msgs_held s" by blast
  obtain r q where q: "pool_alloc (p, h) = Some (r, q)" "pool_ok q"
    and own: "case r of None \<Rightarrow> pool_held q = pool_held (p, h)
       | Some a \<Rightarrow> a \<notin> pool_held (p, h) \<and> pool_held q = insert a (pool_held (p, h))"
    using pool_alloc_law [OF pok] by blast
  let ?s2 = "s\<lparr>ipc_pool := q\<rparr>"
  have ok2: "ipc_mem_ok ?s2" by (rule ok_pool [OF q(2)])
  have held2: "msgs_held ?s2 = pool_held q" by (simp add: msgs_held_def)
  show ?thesis
  proof (cases r)
    case None
    with ready q own held ok2 held2 show ?thesis by (simp add: wave_ipc_msg_alloc_def)
  next
    case (Some a)
    then have "a \<in> msgs_held ?s2" using own held2 by simp
    from store_held [OF this, of msg_cleared] Some ready q own held ok2 held2 show ?thesis
      by (simp add: wave_ipc_msg_alloc_def)
  qed
qed

lemma put_one_ok:
  assumes "ipc_mem_ok s" "a \<in> msgs_held s"
  shows "\<exists>s'. put_one a s = Some s' \<and> ipc_mem_ok s' \<and> msgs_held s' = msgs_held s - {a} \<and> ipc_msgs s' = ipc_msgs s"
proof -
  have "a \<in> pool_held (ipc_pool s)" using assms(2) by (simp add: msgs_held_def)
  from pool_put_law [OF held_ok [OF assms] this] obtain q where
    q: "pool_put (Some a) (ipc_pool s) = Some q" "pool_ok q" "pool_held q = pool_held (ipc_pool s) - {a}" by blast
  with ok_pool [OF q(2)] show ?thesis by (simp add: put_one_def msgs_held_def)
qed

section \<open>The ring of a multi-message response\<close>

text \<open>Following \<open>next\<close> from \<open>p\<close> visits \<open>cs\<close> and arrives at \<open>q\<close>.\<close>

fun seg :: "(nat \<Rightarrow> ptr) \<Rightarrow> ptr \<Rightarrow> nat list \<Rightarrow> ptr \<Rightarrow> bool" where
  "seg nx p [] q \<longleftrightarrow> p = q"
| "seg nx p (c # cs) q \<longleftrightarrow> p = Some c \<and> seg nx (nx c) cs q"

lemma seg_append: "seg nx p (as @ bs) q \<longleftrightarrow> (\<exists>r. seg nx p as r \<and> seg nx r bs q)"
  by (induction as arbitrary: p) auto

lemma seg_cong: "(\<And>c. c \<in> set cs \<Longrightarrow> nx c = ny c) \<Longrightarrow> seg nx p cs q = seg ny p cs q"
  by (induction cs arbitrary: p) auto

definition msg_next :: "ipc_mem \<Rightarrow> nat \<Rightarrow> ptr" where
  "msg_next s a = m_next (ipc_msgs s a)"

text \<open>\<open>ring s h ms\<close>: the response with the head \<open>h\<close> and the further messages \<open>ms\<close>.\<close>

definition ring :: "ipc_mem \<Rightarrow> nat \<Rightarrow> nat list \<Rightarrow> bool" where
  "ring s h ms \<longleftrightarrow> distinct (h # ms) \<and> set (h # ms) \<subseteq> msgs_held s \<and>
     (\<forall>m \<in> set ms. m_is_head (ipc_msgs s m) = 0) \<and>
     (if ms = [] then msg_next s h = None \<and> m_is_head (ipc_msgs s h) = 0
      else seg (msg_next s) (msg_next s h) ms (Some h) \<and> m_prev (ipc_msgs s h) = Some (last ms) \<and>
           m_is_head (ipc_msgs s h) \<noteq> 0)"


lemma ring_single: "ring s h [] \<longleftrightarrow> h \<in> msgs_held s \<and> m_next (ipc_msgs s h) = None \<and> m_is_head (ipc_msgs s h) = 0"
  by (auto simp: ring_def msg_next_def)

lemma ring_held: "ring s h ms \<Longrightarrow> set (h # ms) \<subseteq> msgs_held s"
  by (simp add: ring_def)

lemma seg_last: "seg nx p (as @ [b]) q \<longleftrightarrow> seg nx p as (Some b) \<and> nx b = q"
  by (auto simp: seg_append)

lemma append_ring:
  assumes r: "ring s h ms" and m: "ring s m []" and new: "m \<notin> set (h # ms)"
  shows "\<exists>s'. wave_ipc_multi_msg_append (Some h) (Some m) s = Some (WAVE_IPC_SUCCESS, s') \<and> ring s' h (ms @ [m]) \<and>
    ipc_pool s' = ipc_pool s \<and>
    (\<forall>a. m_hdr (ipc_msgs s' a) = m_hdr (ipc_msgs s a) \<and> m_data_len (ipc_msgs s' a) = m_data_len (ipc_msgs s a) \<and>
         m_data (ipc_msgs s' a) = m_data (ipc_msgs s a))"
proof -
  have h: "h \<in> msgs_held s" and mh: "m \<in> msgs_held s" "m_next (ipc_msgs s m) = None" "m_is_head (ipc_msgs s m) = 0"
    using r m [unfolded ring_single] by (simp_all add: ring_def)
  have hm: "h \<noteq> m" using new by auto
  show ?thesis
  proof (cases ms rule: rev_cases)
    case Nil
    then have "m_next (ipc_msgs s h) = None" using r by (simp add: ring_single)
    with h mh hm Nil show ?thesis
      by (simp add: wave_ipc_multi_msg_append_def load_held store_held ring_def msg_next_def)
  next
    case (snoc xs b)
    then have link: "seg (msg_next s) (msg_next s h) xs (Some b)" "msg_next s b = Some h"
      and prev: "m_prev (ipc_msgs s h) = Some b" and head: "m_is_head (ipc_msgs s h) \<noteq> 0"
      and d: "distinct (h # xs @ [b])" and b: "b \<in> msgs_held s"
      using r by (auto simp: ring_def seg_last)
    have flags: "\<forall>c \<in> set xs \<union> {b}. m_is_head (ipc_msgs s c) = 0" and held: "set xs \<subseteq> msgs_held s"
      using r snoc by (auto simp: ring_def)
    have ne: "b \<noteq> m" "b \<noteq> h" "h \<notin> set xs" "b \<notin> set xs" "m \<notin> set xs" using new d snoc by auto
    have "m_next (ipc_msgs s h) \<noteq> None"
      using link(1) by (cases xs) (auto simp: msg_next_def)
    let ?ms = "(ipc_msgs s)(m := (ipc_msgs s m)\<lparr>m_prev := Some b\<rparr>)"
    let ?ms1 = "?ms(b := (?ms b)\<lparr>m_next := Some m\<rparr>)"
    let ?ms2 = "?ms1(h := (?ms1 h)\<lparr>m_prev := Some m\<rparr>)"
    let ?ms3 = "?ms2(m := (?ms2 m)\<lparr>m_next := Some h\<rparr>)"
    have run: "wave_ipc_multi_msg_append (Some h) (Some m) s = Some (WAVE_IPC_SUCCESS, s\<lparr>ipc_msgs := ?ms3\<rparr>)"
      using h mh b prev head \<open>m_next (ipc_msgs s h) \<noteq> None\<close>
      by (auto simp: wave_ipc_multi_msg_append_def load_held store_held)
    have same: "seg (msg_next (s\<lparr>ipc_msgs := ?ms3\<rparr>)) p xs q = seg (msg_next s) p xs q" for p q
      using ne by (intro seg_cong) (auto simp: msg_next_def)
    have "msg_next (s\<lparr>ipc_msgs := ?ms3\<rparr>) h = msg_next s h" using ne hm by (simp add: msg_next_def)
    then have "ring (s\<lparr>ipc_msgs := ?ms3\<rparr>) h (ms @ [m])"
      using link d head flags held h b mh ne hm same new
      by (auto simp: ring_def snoc seg_last seg_append msg_next_def)
    with run show ?thesis by auto
  qed
qed

text \<open>Walking the response with \<open>wave_ipc_multi_msg_get_next\<close>.\<close>

lemma get_next_ring:
  assumes r: "ring s h ms" and i: "i < length (h # ms)"
  shows "wave_ipc_multi_msg_get_next (Some ((h # ms) ! i)) s =
    Some (if Suc i < length (h # ms) then Some ((h # ms) ! Suc i) else None)"
proof -
  have held: "(h # ms) ! i \<in> msgs_held s" using ring_held [OF r] i nth_mem by blast
  show ?thesis
  proof (cases "ms = []")
    case True
    with r i show ?thesis by (simp add: wave_ipc_multi_msg_get_next_def ring_single load_held)
  next
    case False
    then have "seg (msg_next s) (Some h) (h # ms) (Some h)" using r by (simp add: ring_def)
    moreover have "h # ms = take i (h # ms) @ (h # ms) ! i # drop (Suc i) (h # ms)" using i by (rule id_take_nth_drop)
    ultimately have "seg (msg_next s) (msg_next s ((h # ms) ! i)) (drop (Suc i) (h # ms)) (Some h)"
      by (metis seg_append seg.simps(2))
    then have nxt: "msg_next s ((h # ms) ! i) =
        (if Suc i < length (h # ms) then Some ((h # ms) ! Suc i) else Some h)"
      using i by (cases "Suc i < length (h # ms)") (auto simp flip: Cons_nth_drop_Suc)
    have head: "m_is_head (ipc_msgs s h) \<noteq> 0" "h \<in> msgs_held s" using r False by (auto simp: ring_def)
    show ?thesis
    proof (cases "Suc i < length (h # ms)")
      case True
      then have "(h # ms) ! Suc i \<in> set ms" by simp
      then have "m_is_head (ipc_msgs s ((h # ms) ! Suc i)) = 0" "(h # ms) ! Suc i \<in> msgs_held s"
        using r by (auto simp: ring_def)
      with True nxt held show ?thesis by (simp add: wave_ipc_multi_msg_get_next_def load_held msg_next_def)
    next
      case False
      with nxt held head show ?thesis by (simp add: wave_ipc_multi_msg_get_next_def load_held msg_next_def)
    qed
  qed
qed

text \<open>Returning a response puts every one of its messages back.\<close>

lemma put_ring_ok:
  "ipc_mem_ok s \<Longrightarrow> seg (msg_next s) p cs (Some h) \<Longrightarrow> distinct (h # cs) \<Longrightarrow> set cs \<subseteq> msgs_held s \<Longrightarrow>
   \<exists>s'. put_ring h p s = Some s' \<and> ipc_mem_ok s' \<and> msgs_held s' = msgs_held s - set cs \<and> ipc_msgs s' = ipc_msgs s"
proof (induction cs arbitrary: p s)
  case Nil
  then show ?case by (simp add: put_ring.simps)
next
  case (Cons c cs)
  then have c: "c \<in> msgs_held s" "c \<noteq> h" "p = Some c" by auto
  from put_one_ok [OF Cons.prems(1) c(1)] obtain s1 where
    s1: "put_one c s = Some s1" "ipc_mem_ok s1" "msgs_held s1 = msgs_held s - {c}" "ipc_msgs s1 = ipc_msgs s" by blast
  have "msg_next s1 = msg_next s" using s1(4) by (intro ext) (simp add: msg_next_def)
  then have "seg (msg_next s1) (msg_next s c) cs (Some h)" using Cons.prems(2) by simp
  moreover have "distinct (h # cs)" "set cs \<subseteq> msgs_held s1" using Cons.prems(3,4) s1(3) by auto
  ultimately obtain s2 where "put_ring h (msg_next s c) s1 = Some s2" "ipc_mem_ok s2"
    "msgs_held s2 = msgs_held s1 - set cs" "ipc_msgs s2 = ipc_msgs s1" using Cons.IH [OF s1(2)] by blast
  with c s1 show ?case
    by (subst put_ring.simps) (auto simp: load_held msg_next_def)
qed

lemma put_ring_response:
  assumes ok: "ipc_mem_ok s" and r: "ring s h ms"
  shows "\<exists>s'. wave_ipc_msg_put (Some h) s = Some s' \<and> ipc_mem_ok s' \<and> msgs_held s' = msgs_held s - set (h # ms) \<and>
    ipc_msgs s' = ipc_msgs s"
proof -
  have h: "h \<in> msgs_held s" using ring_held [OF r] by simp
  show ?thesis
  proof (cases "ms = []")
    case True
    with r h put_one_ok [OF ok h] show ?thesis
      by (simp add: ring_single wave_ipc_msg_put_def wave_ipc_msg_is_multi_msg_def load_held)
  next
    case False
    then have seg: "seg (msg_next s) (m_next (ipc_msgs s h)) ms (Some h)" and head: "m_is_head (ipc_msgs s h) \<noteq> 0"
      and d: "distinct (h # ms)" and held: "set ms \<subseteq> msgs_held s"
      using r by (auto simp: ring_def msg_next_def)
    have "m_next (ipc_msgs s h) \<noteq> None" using seg False by (cases ms) auto
    from put_ring_ok [OF ok seg d held] obtain s1 where
      s1: "put_ring h (m_next (ipc_msgs s h)) s = Some s1" "ipc_mem_ok s1" "msgs_held s1 = msgs_held s - set ms"
      "ipc_msgs s1 = ipc_msgs s" by blast
    have "h \<in> msgs_held s1" using h d s1(3) by auto
    from put_one_ok [OF s1(2) this] s1 head \<open>m_next (ipc_msgs s h) \<noteq> None\<close> h show ?thesis
      by (auto simp: wave_ipc_msg_put_def wave_ipc_msg_is_multi_msg_def load_held)
  qed
qed


section \<open>The messages as a store\<close>

text \<open>
  What the server and the client rely on: copying a message gives a new one with the same
  content, putting back a message that belongs to no response releases it and nothing else.
\<close>

fun put_msgs :: "(nat \<Rightarrow> 's \<Rightarrow> 's option) \<Rightarrow> nat list \<Rightarrow> 's \<Rightarrow> 's option" where
  "put_msgs put [] s = Some s"
| "put_msgs put (a # as) s = (case put a s of None \<Rightarrow> None | Some s' \<Rightarrow> put_msgs put as s')"

locale message_store =
  fixes dup :: "nat \<Rightarrow> 's \<Rightarrow> (ptr \<times> 's) option"
    and put :: "nat \<Rightarrow> 's \<Rightarrow> 's option"
    and ok :: "'s \<Rightarrow> bool"
    and single :: "'s \<Rightarrow> nat \<Rightarrow> bool"
    and held :: "'s \<Rightarrow> nat set"
    and content :: "'s \<Rightarrow> nat \<Rightarrow> 'm"
  assumes dup_law: "ok s \<Longrightarrow> single s a \<Longrightarrow> \<exists>r s'. dup a s = Some (r, s') \<and> ok s' \<and>
      (case r of None \<Rightarrow> held s' = held s \<and> (\<forall>c. content s' c = content s c) \<and> (\<forall>c. single s' c = single s c)
       | Some b \<Rightarrow> b \<notin> held s \<and> held s' = insert b (held s) \<and> content s' b = content s a \<and> single s' b \<and>
           (\<forall>c. c \<noteq> b \<longrightarrow> content s' c = content s c \<and> single s' c = single s c))"
    and put_law: "ok s \<Longrightarrow> single s a \<Longrightarrow> \<exists>s'. put a s = Some s' \<and> ok s' \<and> held s' = held s - {a} \<and>
      (\<forall>c. content s' c = content s c) \<and> (\<forall>c. c \<noteq> a \<longrightarrow> single s' c = single s c)"
    and single_held: "single s a \<Longrightarrow> a \<in> held s"
begin

lemma put_all:
  "ok s \<Longrightarrow> \<forall>a \<in> set as. single s a \<Longrightarrow> distinct as \<Longrightarrow>
   \<exists>s'. put_msgs put as s = Some s' \<and> ok s' \<and> held s' = held s - set as \<and>
     (\<forall>c. content s' c = content s c) \<and> (\<forall>c. c \<notin> set as \<longrightarrow> single s' c = single s c)"
proof (induction as arbitrary: s)
  case Nil
  then show ?case by simp
next
  case (Cons a as)
  then obtain s1 where s1: "put a s = Some s1" "ok s1" "held s1 = held s - {a}"
    "\<forall>c. content s1 c = content s c" "\<forall>c. c \<noteq> a \<longrightarrow> single s1 c = single s c"
    using put_law [of s a] by auto
  have "\<forall>c \<in> set as. single s1 c" using s1(5) Cons.prems by auto
  from Cons.IH [OF s1(2) this] Cons.prems obtain s2 where "put_msgs put as s1 = Some s2" "ok s2"
    "held s2 = held s1 - set as" "\<forall>c. content s2 c = content s1 c"
    "\<forall>c. c \<notin> set as \<longrightarrow> single s2 c = single s1 c" by auto
  with s1 show ?case by auto
qed

lemma dup_then_put:
  assumes "ok s" "single s a" "dup a s = Some (Some b, s')"
  shows "\<exists>s''. put b s' = Some s'' \<and> held s'' = held s"
  using dup_law [OF assms(1,2)] put_law [of s' b] assms(3) by auto

end

definition msg_single :: "ipc_mem \<Rightarrow> nat \<Rightarrow> bool" where
  "msg_single s a \<longleftrightarrow> ring s a []"

lemma dup_single:
  assumes ok: "ipc_mem_ok s" and a: "msg_single s a"
  shows "\<exists>r s'. wave_ipc_msg_dup (Some a) s = Some (r, s') \<and> ipc_mem_ok s' \<and>
    (case r of None \<Rightarrow> msgs_held s' = msgs_held s \<and> ipc_msgs s' = ipc_msgs s
     | Some b \<Rightarrow> b \<notin> msgs_held s \<and> msgs_held s' = insert b (msgs_held s) \<and>
         ipc_msgs s' = (ipc_msgs s)(b := ipc_msgs s a))"
proof -
  have held: "a \<in> msgs_held s" using a by (simp add: msg_single_def ring_single)
  then have pool: "fst (ipc_pool s) \<noteq> None" by (auto simp: msgs_held_def pool_held_def split: option.splits)
  obtain r s' where alloc: "wave_ipc_msg_alloc s = Some (r, s')" "ipc_mem_ok s'"
    and res: "case r of None \<Rightarrow> msgs_held s' = msgs_held s \<and> ipc_msgs s' = ipc_msgs s
     | Some b \<Rightarrow> b \<notin> msgs_held s \<and> msgs_held s' = insert b (msgs_held s) \<and>
         ipc_msgs s' = (ipc_msgs s)(b := msg_cleared (ipc_msgs s b))"
    using msg_alloc_ok [OF ok] pool by blast
  show ?thesis
  proof (cases "m_prev (ipc_msgs s a) = None")
    case False
    with held ok show ?thesis by (simp add: wave_ipc_msg_dup_def load_held)
  next
    case True
    then have nolink: "m_prev (ipc_msgs s a) = None" "m_next (ipc_msgs s a) = None"
      using a by (simp_all add: msg_single_def ring_single)
    show ?thesis
    proof (cases r)
      case None
      with nolink held alloc res show ?thesis by (simp add: wave_ipc_msg_dup_def load_held)
    next
      case (Some b)
      then have "b \<in> msgs_held s'" "a \<in> msgs_held s'" "a \<noteq> b" using res held by auto
      with Some nolink held alloc res show ?thesis
        by (simp add: wave_ipc_msg_dup_def load_held store_held)
    qed
  qed
qed

interpretation ms: message_store "\<lambda>a. wave_ipc_msg_dup (Some a)" "\<lambda>a. wave_ipc_msg_put (Some a)"
  ipc_mem_ok msg_single msgs_held ipc_msgs
proof
  fix s a
  assume ok: "ipc_mem_ok s" and a: "msg_single s a"
  from dup_single [OF ok a] obtain r s' where d: "wave_ipc_msg_dup (Some a) s = Some (r, s')" "ipc_mem_ok s'"
    "case r of None \<Rightarrow> msgs_held s' = msgs_held s \<and> ipc_msgs s' = ipc_msgs s
     | Some b \<Rightarrow> b \<notin> msgs_held s \<and> msgs_held s' = insert b (msgs_held s) \<and>
         ipc_msgs s' = (ipc_msgs s)(b := ipc_msgs s a)" by blast
  then show "\<exists>r s'. wave_ipc_msg_dup (Some a) s = Some (r, s') \<and> ipc_mem_ok s' \<and>
      (case r of None \<Rightarrow> msgs_held s' = msgs_held s \<and> (\<forall>c. ipc_msgs s' c = ipc_msgs s c) \<and>
          (\<forall>c. msg_single s' c = msg_single s c)
       | Some b \<Rightarrow> b \<notin> msgs_held s \<and> msgs_held s' = insert b (msgs_held s) \<and> ipc_msgs s' b = ipc_msgs s a \<and>
           msg_single s' b \<and>
           (\<forall>c. c \<noteq> b \<longrightarrow> ipc_msgs s' c = ipc_msgs s c \<and> msg_single s' c = msg_single s c))"
    using a by (cases r) (auto simp: msg_single_def ring_single)
  from put_ring_response [OF ok a [unfolded msg_single_def]]
  show "\<exists>s'. wave_ipc_msg_put (Some a) s = Some s' \<and> ipc_mem_ok s' \<and> msgs_held s' = msgs_held s - {a} \<and>
      (\<forall>c. ipc_msgs s' c = ipc_msgs s c) \<and> (\<forall>c. c \<noteq> a \<longrightarrow> msg_single s' c = msg_single s c)"
    by (auto simp: msg_single_def ring_single)
next
  fix s a
  show "msg_single s a \<Longrightarrow> a \<in> msgs_held s" by (simp add: msg_single_def ring_single)
qed


section \<open>Properties\<close>

definition ex_mem :: ipc_mem where
  "ex_mem = \<lparr>ipc_pool = (None, empty_heap),
     ipc_msgs = (\<lambda>_. \<lparr>m_prev = None, m_next = None, m_is_head = 0, m_data_len = 0, m_hdr = [], m_data = (\<lambda>_. 0)\<rparr>)\<rparr>"

lemma ex_mem_ok: "ipc_mem_ok ex_mem" "fst (ipc_pool ex_mem) = None \<Longrightarrow> \<forall>k. malloc_ok (snd (ipc_pool ex_mem)) k"
  using empty_heap_ok by (simp_all add: ex_mem_def ipc_mem_ok_def)

text \<open>
  Allocating a message creates the pool the first time, never faults, and hands out a
  message that nobody holds, cleared: no links, no data, an empty header area.
\<close>

theorem msg_alloc_fresh:
  assumes "ipc_mem_ok s" "fst (ipc_pool s) = None \<Longrightarrow> \<forall>k. malloc_ok (snd (ipc_pool s)) k"
  shows "\<exists>r s'. wave_ipc_msg_alloc s = Some (r, s') \<and> ipc_mem_ok s' \<and>
    (case r of None \<Rightarrow> msgs_held s' = msgs_held s
     | Some a \<Rightarrow> a \<notin> msgs_held s \<and> msgs_held s' = insert a (msgs_held s) \<and> ring s' a [] \<and>
         hdr_stack (ipc_msgs s' a) [] \<and> m_data_len (ipc_msgs s' a) = 0 \<and>
         (\<forall>b. b \<noteq> a \<longrightarrow> ipc_msgs s' b = ipc_msgs s b))"
proof -
  obtain r s' where run: "wave_ipc_msg_alloc s = Some (r, s')" and ok': "ipc_mem_ok s'"
    and res: "case r of None \<Rightarrow> msgs_held s' = msgs_held s \<and> ipc_msgs s' = ipc_msgs s
     | Some a \<Rightarrow> a \<notin> msgs_held s \<and> msgs_held s' = insert a (msgs_held s) \<and>
         ipc_msgs s' = (ipc_msgs s)(a := msg_cleared (ipc_msgs s a))"
    using msg_alloc_ok [OF assms] by blast
  show ?thesis
  proof (cases r)
    case None
    with run ok' res show ?thesis by simp
  next
    case (Some a)
    let ?m = "msg_cleared (ipc_msgs s a)"
    have m: "m_next ?m = None" "m_is_head ?m = 0" "hdr_stack ?m []" "m_data_len ?m = 0"
      by (simp_all add: hdr_stack_def msg_cleared_def hdr_area_def)
    have msgs: "ipc_msgs s' = (ipc_msgs s)(a := ?m)" using res Some by simp
    have "a \<in> msgs_held s'" using res Some by simp
    with m have "ring s' a []" by (simp add: ring_single msgs)
    with run ok' res Some m show ?thesis by (simp add: msgs)
  qed
qed

theorem msg_alloc_fresh_witness:
  "\<exists>r s'. wave_ipc_msg_alloc ex_mem = Some (r, s') \<and> ipc_mem_ok s'"
  using msg_alloc_fresh [OF ex_mem_ok] by blast

text \<open>
  A multi-message response is the list of the messages that were appended to its head, in
  that order: appending a single message extends the ring at its end and changes no
  message's content, and following \<open>wave_ipc_multi_msg_get_next\<close> from the head visits them
  all and ends.
\<close>

theorem multi_msg_append_get_next:
  assumes "ring s h ms" "ring s m []" "m \<notin> set (h # ms)"
  shows "\<exists>s'. wave_ipc_multi_msg_append (Some h) (Some m) s = Some (WAVE_IPC_SUCCESS, s') \<and> ring s' h (ms @ [m]) \<and>
    (\<forall>a. m_hdr (ipc_msgs s' a) = m_hdr (ipc_msgs s a) \<and> m_data (ipc_msgs s' a) = m_data (ipc_msgs s a)) \<and>
    (\<forall>i < length (h # ms @ [m]). wave_ipc_multi_msg_get_next (Some ((h # ms @ [m]) ! i)) s' =
       Some (if Suc i < length (h # ms @ [m]) then Some ((h # ms @ [m]) ! Suc i) else None))"
proof -
  obtain s' where s': "wave_ipc_multi_msg_append (Some h) (Some m) s = Some (WAVE_IPC_SUCCESS, s')"
    "ring s' h (ms @ [m])"
    "\<forall>a. m_hdr (ipc_msgs s' a) = m_hdr (ipc_msgs s a) \<and> m_data_len (ipc_msgs s' a) = m_data_len (ipc_msgs s a) \<and>
         m_data (ipc_msgs s' a) = m_data (ipc_msgs s a)"
    using append_ring [OF assms] by blast
  from get_next_ring [OF s'(2)] s' show ?thesis by blast
qed

text \<open>
  C19. Putting back the head of a response puts back all of its messages, each exactly once,
  and no other message.
\<close>

theorem msg_put_releases_response:
  assumes "ipc_mem_ok s" "ring s h ms"
  shows "\<exists>s'. wave_ipc_msg_put (Some h) s = Some s' \<and> ipc_mem_ok s' \<and> msgs_held s' = msgs_held s - set (h # ms)"
  using put_ring_response [OF assms] by blast

text \<open>Two messages of a memory in which the pool has been created, and the response they form.\<close>

definition ex_two :: ipc_mem where
  "ex_two = \<lparr>ipc_pool = (Some (ex_pool\<lparr>available_objects := None, num_traveling_objects := 2\<rparr>),
      ex_heap\<lparr>objs := \<lambda>a. map_option (\<lambda>ob. ob\<lparr>po_allocated := True, po_next := None\<rparr>) (objs ex_heap a)\<rparr>),
     ipc_msgs = (\<lambda>_. \<lparr>m_prev = None, m_next = None, m_is_head = 0, m_data_len = 0, m_hdr = [], m_data = (\<lambda>_. 0)\<rparr>)\<rparr>"

lemma ex_two_ok: "ipc_mem_ok ex_two" "ring ex_two 1 []" "ring ex_two 2 []"
proof -
  have "pool_wf (ex_pool\<lparr>available_objects := None, num_traveling_objects := 2\<rparr>) (snd (ipc_pool ex_two)) [] [2, 1]"
    by (simp add: pool_wf_def pool_cells_def ex_pool_def ex_heap_def ex_two_def all_next_of_def)
  then show "ipc_mem_ok ex_two" by (auto simp: ipc_mem_ok_def ex_two_def pool_ok_def)
  show "ring ex_two 1 []" "ring ex_two 2 []"
    by (auto simp: ring_single msgs_held_def pool_held_def pool_owned_def ex_two_def ex_pool_def ex_heap_def)
qed

theorem multi_msg_append_get_next_witness:
  "\<exists>s'. wave_ipc_multi_msg_append (Some 1) (Some 2) ex_two = Some (WAVE_IPC_SUCCESS, s') \<and> ring s' 1 [2] \<and>
     wave_ipc_multi_msg_get_next (Some 1) s' = Some (Some 2) \<and> wave_ipc_multi_msg_get_next (Some 2) s' = Some None"
proof -
  from multi_msg_append_get_next [OF ex_two_ok(2,3)] obtain s' where
    "wave_ipc_multi_msg_append (Some 1) (Some 2) ex_two = Some (WAVE_IPC_SUCCESS, s')" "ring s' 1 ([] @ [2])"
    "\<forall>i < length (1 # [] @ [2 :: nat]). wave_ipc_multi_msg_get_next (Some ((1 # [] @ [2]) ! i)) s' =
       Some (if Suc i < length (1 # [] @ [2 :: nat]) then Some ((1 # [] @ [2]) ! Suc i) else None)" by auto
  then show ?thesis by (auto simp: All_less_Suc)
qed

theorem msg_put_releases_response_witness:
  "\<exists>s'. wave_ipc_msg_put (Some 1) ex_two = Some s' \<and> msgs_held s' = {2}"
proof -
  have "msgs_held ex_two = {1, 2}"
    by (auto simp: msgs_held_def pool_held_def pool_owned_def ex_two_def ex_pool_def ex_heap_def split: if_splits)
  with msg_put_releases_response [OF ex_two_ok(1,2)] show ?thesis by auto
qed

end
