(* ===== verification/Ipc_Server.thy ===== *)
theory Ipc_Server
  imports Ipc_Core
begin

text \<open>
  The server of wv_ipc/wave_ipc_server.c: its table of stations, the messages that wait
  because a station does not read, the reference counts of the stations, the dispatch of
  what the stations send and the commands the server sends to them.  Stations live in a heap
  by address, messages in the memory of \<open>Ipc_Core\<close>.  What the operating system answers (the
  result of a \<open>send\<close>, what a \<open>recv\<close> delivers, whether a list node can be allocated) is an
  argument.  A function holds \<open>pending_lock\<close> from its first to its last access to the
  pending lists, so that each function here is one atomic step.
\<close>

section \<open>Data\<close>

definition IPC_CLIENT_ARR_SIZE :: nat where "IPC_CLIENT_ARR_SIZE = 36"
definition IPC_CLIENT_NAME_SIZE :: nat where "IPC_CLIENT_NAME_SIZE = 48"
definition MAX_NUM_PENDING_IPC_MSGS :: nat where "MAX_NUM_PENDING_IPC_MSGS = 1000"
definition STA_MAX_NUM_PENDING_ON_SERV_LIMIT :: nat where "STA_MAX_NUM_PENDING_ON_SERV_LIMIT = 200"

record cmd_response =
  cr_ipsta :: nat
  cr_seq_num :: u8
  cr_status :: cmd_response_status
  cr_response :: ptr

record ipstation =
  sta_data :: ptr
  sta_refcnt :: int
  sta_socket :: "nat option"
  sta_connected :: bool
  sta_name :: string
  sta_has_pending :: bool
  sta_resend_attempts :: nat
  sta_pending_msgs :: "nat list"
  sta_pending_replies :: "nat list"

text \<open>
  \<open>srv_wire\<close> records what was written to which station's socket, \<open>srv_closed\<close> the sockets
  that were closed.
\<close>

record ipserver =
  srv_stations :: "ptr list"
  srv_num_stas :: nat
  srv_has_pending :: int
  srv_thread :: "nat option"
  srv_cmd_seq :: u8
  srv_resp_list :: "nat list"
  srv_resps :: "nat \<Rightarrow> cmd_response option"
  srv_heap :: "nat \<Rightarrow> ipstation option"
  srv_mem :: ipc_mem
  srv_wire :: "(nat \<times> u8 list) list"
  srv_closed :: "nat list"

text \<open>The callbacks; each may change the server, None is undefined behaviour in it.\<close>

record callbacks =
  cb_cmd_async :: "(nat \<Rightarrow> u8 \<Rightarrow> nat \<Rightarrow> ipserver \<Rightarrow> (rc \<times> ipserver) option) option"
  cb_adding_client :: "(nat \<Rightarrow> ipserver \<Rightarrow> ipserver option) option"
  cb_removing_client :: "(nat \<Rightarrow> ipserver \<Rightarrow> ipserver option) option"

section \<open>Access to the state\<close>

definition get_sta :: "nat \<Rightarrow> ipserver \<Rightarrow> ipstation option" where
  "get_sta a srv = srv_heap srv a"

definition set_sta :: "nat \<Rightarrow> ipstation \<Rightarrow> ipserver \<Rightarrow> ipserver" where
  "set_sta a st srv = srv\<lparr>srv_heap := (srv_heap srv)(a \<mapsto> st)\<rparr>"

definition set_slot :: "nat \<Rightarrow> ptr \<Rightarrow> ipserver \<Rightarrow> ipserver" where
  "set_slot i p srv = srv\<lparr>srv_stations := (srv_stations srv)[i := p]\<rparr>"

definition srv_put :: "ptr \<Rightarrow> ipserver \<Rightarrow> ipserver option" where
  "srv_put mp srv = do { m \<leftarrow> wave_ipc_msg_put mp (srv_mem srv); Some (srv\<lparr>srv_mem := m\<rparr>) }"

definition num_pending :: "ipstation \<Rightarrow> nat" where
  "num_pending st = length (sta_pending_msgs st) + length (sta_pending_replies st)"

text \<open>\<open>wave_ipc_send_msg\<close> on a message in memory and a station's socket.\<close>

definition srv_send :: "send_result \<Rightarrow> nat \<Rightarrow> nat \<Rightarrow> ipserver \<Rightarrow> (wv_ipc_ret \<times> ipserver) option" where
  "srv_send res a msg srv =
     do { st \<leftarrow> get_sta a srv;
          m \<leftarrow> load_msg msg (srv_mem srv);
          let (ret, bs) = wave_ipc_send_msg res (sta_socket st \<noteq> None) (Some m);
          Some (ret, if ret = WAVE_IPC_SUCCESS then srv\<lparr>srv_wire := srv_wire srv @ [(a, bs)]\<rparr> else srv) }"

text \<open>A header function applied to a message in memory.\<close>

definition srv_push_header :: "nat \<Rightarrow> u8 list \<Rightarrow> ipserver \<Rightarrow> (rc \<times> ipserver) option" where
  "srv_push_header msg h srv =
     do { m \<leftarrow> load_msg msg (srv_mem srv);
          let (r, _, mp) = ipc_header_push (Some m) \<lparr>h_magic = 0, h_bytes = h\<rparr>;
          m' \<leftarrow> mp;
          mem \<leftarrow> store_msg msg (\<lambda>_. m') (srv_mem srv);
          Some (r, srv\<lparr>srv_mem := mem\<rparr>) }"

definition srv_pop_header :: "nat \<Rightarrow> ipserver \<Rightarrow> (rc \<times> u8 list \<times> ipserver) option" where
  "srv_pop_header msg srv =
     do { m \<leftarrow> load_msg msg (srv_mem srv);
          (r, h, mp) \<leftarrow> ipc_header_pop (Some m) \<lparr>h_magic = 0, h_bytes = replicate 4 0\<rparr>;
          m' \<leftarrow> mp;
          mem \<leftarrow> store_msg msg (\<lambda>_. m') (srv_mem srv);
          Some (r, h_bytes h, srv\<lparr>srv_mem := mem\<rparr>) }"

section \<open>Callbacks\<close>

definition wave_ipcs_cmd_async :: "callbacks \<Rightarrow> nat \<Rightarrow> u8 \<Rightarrow> nat \<Rightarrow> ipserver \<Rightarrow> (rc \<times> ipserver) option" where
  "wave_ipcs_cmd_async cb a sq cmd srv =
     (case cb_cmd_async cb of
        Some f \<Rightarrow> f a sq cmd srv
      | None \<Rightarrow> do { srv' \<leftarrow> srv_put (Some cmd) srv; Some (1, srv') })"

definition wave_ipcs_adding_client :: "callbacks \<Rightarrow> nat \<Rightarrow> ipserver \<Rightarrow> ipserver option" where
  "wave_ipcs_adding_client cb a srv = (case cb_adding_client cb of Some f \<Rightarrow> f a srv | None \<Rightarrow> Some srv)"

definition wave_ipcs_removing_client :: "callbacks \<Rightarrow> nat \<Rightarrow> ipserver \<Rightarrow> ipserver option" where
  "wave_ipcs_removing_client cb a srv = (case cb_removing_client cb of Some f \<Rightarrow> f a srv | None \<Rightarrow> Some srv)"

section \<open>References to a station\<close>

definition wave_ipcs_sta_incref :: "ptr \<Rightarrow> ipserver \<Rightarrow> (wv_ipc_ret \<times> ipserver) option" where
  "wave_ipcs_sta_incref ap srv =
     (case ap of
        None \<Rightarrow> Some (WAVE_IPC_ERROR, srv)
      | Some a \<Rightarrow>
          do { st \<leftarrow> get_sta a srv;
               Some (WAVE_IPC_SUCCESS, set_sta a (st\<lparr>sta_refcnt := sta_refcnt st + 1\<rparr>) srv) })"

definition wave_ipcs_sta_decref :: "ptr \<Rightarrow> ipserver \<Rightarrow> (wv_ipc_ret \<times> ipserver) option" where
  "wave_ipcs_sta_decref ap srv =
     (case ap of
        None \<Rightarrow> Some (WAVE_IPC_ERROR, srv)
      | Some a \<Rightarrow>
          do { st \<leftarrow> get_sta a srv;
               let n = sta_refcnt st - 1;
               if n \<noteq> 0 then Some (WAVE_IPC_SUCCESS, set_sta a (st\<lparr>sta_refcnt := n\<rparr>) srv)
               else do {
                 mem1 \<leftarrow> put_msgs (\<lambda>m. wave_ipc_msg_put (Some m)) (sta_pending_replies st) (srv_mem srv);
                 mem2 \<leftarrow> put_msgs (\<lambda>m. wave_ipc_msg_put (Some m)) (sta_pending_msgs st) mem1;
                 Some (WAVE_IPC_SUCCESS,
                       srv\<lparr>srv_mem := mem2, srv_heap := (srv_heap srv)(a := None),
                           srv_closed := srv_closed srv @ [a]\<rparr>) } })"

definition wave_ipcs_sta_name :: "ptr \<Rightarrow> ipserver \<Rightarrow> string" where
  "wave_ipcs_sta_name ap srv =
     (case ap of None \<Rightarrow> ''<err>'' | Some a \<Rightarrow> (case srv_heap srv a of None \<Rightarrow> ''<err>'' | Some st \<Rightarrow> sta_name st))"

section \<open>Sending to a station\<close>

datatype pending_list = PendingMsgs | PendingReplies

text \<open>\<open>node_ok\<close> tells whether \<open>list_push_back\<close> gets its node; its result is not looked at.\<close>

definition wave_ipcs_send_would_block ::
  "bool \<Rightarrow> nat \<Rightarrow> nat \<Rightarrow> pending_list \<Rightarrow> ipserver \<Rightarrow> (wv_ipc_ret \<times> ipserver) option" where
  "wave_ipcs_send_would_block node_ok a msg which srv =
     do { (d, mem) \<leftarrow> wave_ipc_msg_dup (Some msg) (srv_mem srv);
          let srv1 = srv\<lparr>srv_mem := mem\<rparr>;
          (case d of
             None \<Rightarrow> Some (WAVE_IPC_ERROR, srv1)
           | Some dup \<Rightarrow>
               do { st \<leftarrow> get_sta a srv1;
                    if \<not> sta_connected st then Some (WAVE_IPC_DISCONNECTED, srv1)
                    else if srv_has_pending srv1 \<ge> int MAX_NUM_PENDING_IPC_MSGS \<and>
                            num_pending st \<ge> STA_MAX_NUM_PENDING_ON_SERV_LIMIT
                    then do { srv2 \<leftarrow> srv_put (Some dup) srv1; Some (WAVE_IPC_ERROR, srv2) }
                    else (let add = (\<lambda>xs. if node_ok then xs @ [dup] else xs);
                              st1 = (case which of
                                       PendingMsgs \<Rightarrow> st\<lparr>sta_pending_msgs := add (sta_pending_msgs st)\<rparr>
                                     | PendingReplies \<Rightarrow> st\<lparr>sta_pending_replies := add (sta_pending_replies st)\<rparr>)
                          in Some (WAVE_IPC_SUCCESS,
                                   (set_sta a (st1\<lparr>sta_has_pending := True\<rparr>) srv1)
                                     \<lparr>srv_has_pending := srv_has_pending srv1 + 1\<rparr>)) }) }"

text \<open>The common part of \<open>wave_ipcs_send_reply\<close> and \<open>wave_ipcs_send_to\<close>.\<close>

definition send_or_queue ::
  "send_result \<Rightarrow> bool \<Rightarrow> pending_list \<Rightarrow> nat \<Rightarrow> nat \<Rightarrow> ipserver \<Rightarrow> (wv_ipc_ret \<times> ipserver) option" where
  "send_or_queue res node_ok which a msg srv =
     do { st \<leftarrow> get_sta a srv;
          if sta_socket st = None then Some (WAVE_IPC_ERROR, srv)
          else do {
            (ret, srv1) \<leftarrow> (if \<not> sta_has_pending st then srv_send res a msg srv
                            else Some (WAVE_IPC_CMD_WOULD_BLOCK, srv));
            if ret = WAVE_IPC_CMD_WOULD_BLOCK then wave_ipcs_send_would_block node_ok a msg which srv1
            else Some (ret, srv1) } }"

definition wave_ipcs_send_reply ::
  "send_result \<Rightarrow> bool \<Rightarrow> nat \<Rightarrow> nat \<Rightarrow> ipserver \<Rightarrow> (wv_ipc_ret \<times> ipserver) option" where
  "wave_ipcs_send_reply res node_ok a reply srv = send_or_queue res node_ok PendingReplies a reply srv"

definition wave_ipcs_send_response_to ::
  "send_result \<Rightarrow> bool \<Rightarrow> ptr \<Rightarrow> u8 \<Rightarrow> ptr \<Rightarrow> u8 \<Rightarrow> ipserver \<Rightarrow> (wv_ipc_ret \<times> ipserver) option" where
  "wave_ipcs_send_response_to res node_ok ap sq rp has_more srv =
     (case (ap, rp) of
        (Some a, Some reply) \<Rightarrow>
          do { st \<leftarrow> get_sta a srv;
               if sta_socket st = None then Some (WAVE_IPC_ERROR, srv)
               else do {
                 (r, srv1) \<leftarrow> srv_push_header reply [type_code WAVE_IPC_MSG_RESP, sq, has_more, 0] srv;
                 if r \<noteq> 0 then Some (WAVE_IPC_ERROR, srv1)
                 else wave_ipcs_send_reply res node_ok a reply srv1 } }
      | _ \<Rightarrow> Some (WAVE_IPC_ERROR, srv))"

definition wave_ipcs_send_req_failed_to ::
  "send_result \<Rightarrow> bool \<Rightarrow> ptr \<Rightarrow> u8 \<Rightarrow> ipserver \<Rightarrow> (wv_ipc_ret \<times> ipserver) option" where
  "wave_ipcs_send_req_failed_to res node_ok ap sq srv =
     (case ap of
        None \<Rightarrow> Some (WAVE_IPC_ERROR, srv)
      | Some a \<Rightarrow>
          do { st \<leftarrow> get_sta a srv;
               if sta_socket st = None then Some (WAVE_IPC_ERROR, srv)
               else do {
                 (rp, mem) \<leftarrow> wave_ipc_msg_alloc (srv_mem srv);
                 let srv1 = srv\<lparr>srv_mem := mem\<rparr>;
                 (case rp of
                    None \<Rightarrow> Some (WAVE_IPC_ERROR, srv1)
                  | Some reply \<Rightarrow>
                      do { (r, srv2) \<leftarrow> srv_push_header reply [type_code WAVE_IPC_MSG_REQ_FAIL, sq, 0, 0] srv1;
                           (ret, srv3) \<leftarrow> (if r \<noteq> 0 then Some (WAVE_IPC_ERROR, srv2)
                                           else wave_ipcs_send_reply res node_ok a reply srv2);
                           srv4 \<leftarrow> srv_put (Some reply) srv3;
                           Some (ret, srv4) }) } })"

text \<open>The return code is that of \<open>ipc_header_push\<close>, as an enumeration value.\<close>

definition wave_ipcs_push_event_header :: "nat \<Rightarrow> ipserver \<Rightarrow> (wv_ipc_ret \<times> ipserver) option" where
  "wave_ipcs_push_event_header event srv =
     do { (r, srv1) \<leftarrow> srv_push_header event [type_code WAVE_IPC_MSG_EVENT, 0, 0, 0] srv;
          Some (if r = 0 then WAVE_IPC_SUCCESS else WAVE_IPC_DISCONNECTED, srv1) }"

definition wave_ipcs_send_to ::
  "send_result \<Rightarrow> bool \<Rightarrow> ptr \<Rightarrow> ptr \<Rightarrow> ipserver \<Rightarrow> (wv_ipc_ret \<times> ipserver) option" where
  "wave_ipcs_send_to res node_ok ep ap srv =
     (case (ep, ap) of
        (Some event, Some a) \<Rightarrow> send_or_queue res node_ok PendingMsgs a event srv
      | _ \<Rightarrow> Some (WAVE_IPC_ERROR, srv))"

definition wave_ipcs_send_event_to ::
  "send_result \<Rightarrow> bool \<Rightarrow> ptr \<Rightarrow> ptr \<Rightarrow> ipserver \<Rightarrow> (wv_ipc_ret \<times> ipserver) option" where
  "wave_ipcs_send_event_to res node_ok ep ap srv =
     (case (ep, ap) of
        (Some event, Some a) \<Rightarrow>
          do { (ret, srv1) \<leftarrow> wave_ipcs_push_event_header event srv;
               if ret \<noteq> WAVE_IPC_SUCCESS then Some (WAVE_IPC_ERROR, srv1)
               else wave_ipcs_send_to res node_ok ep ap srv1 }
      | _ \<Rightarrow> Some (WAVE_IPC_ERROR, srv))"

text \<open>\<open>res\<close> gives the answer of the socket of each station.\<close>

fun send_to_each ::
  "(nat \<Rightarrow> send_result) \<Rightarrow> bool \<Rightarrow> nat \<Rightarrow> ptr list \<Rightarrow> wv_ipc_ret \<Rightarrow> ipserver \<Rightarrow> (wv_ipc_ret \<times> ipserver) option" where
  "send_to_each res node_ok event [] ret srv = Some (ret, srv)"
| "send_to_each res node_ok event (None # ps) ret srv = send_to_each res node_ok event ps ret srv"
| "send_to_each res node_ok event (Some a # ps) ret srv =
     do { (r, srv1) \<leftarrow> wave_ipcs_send_to (res a) node_ok (Some event) (Some a) srv;
          send_to_each res node_ok event ps (if r = WAVE_IPC_ERROR then WAVE_IPC_ERROR else ret) srv1 }"

definition wave_ipcs_send_event_all ::
  "(nat \<Rightarrow> send_result) \<Rightarrow> bool \<Rightarrow> ptr \<Rightarrow> ipserver \<Rightarrow> (wv_ipc_ret \<times> ipserver) option" where
  "wave_ipcs_send_event_all res node_ok ep srv =
     (case ep of
        None \<Rightarrow> Some (WAVE_IPC_ERROR, srv)
      | Some event \<Rightarrow>
          do { (_, srv1) \<leftarrow> wave_ipcs_push_event_header event srv;
               send_to_each res node_ok event (srv_stations srv1) WAVE_IPC_SUCCESS srv1 })"

section \<open>Receiving from a station\<close>

fun find_response :: "(nat \<Rightarrow> cmd_response option) \<Rightarrow> nat \<Rightarrow> u8 \<Rightarrow> nat list \<Rightarrow> ptr option" where
  "find_response resps a sq [] = Some None"
| "find_response resps a sq (c # cs) =
     (case resps c of
        None \<Rightarrow> None
      | Some r \<Rightarrow> if cr_seq_num r = sq \<and> cr_ipsta r = a then Some (Some c) else find_response resps a sq cs)"

definition set_resp :: "nat \<Rightarrow> cmd_response \<Rightarrow> ipserver \<Rightarrow> ipserver" where
  "set_resp c r srv = srv\<lparr>srv_resps := (srv_resps srv)(c \<mapsto> r)\<rparr>"

definition append_response :: "cmd_response \<Rightarrow> nat \<Rightarrow> ipserver \<Rightarrow> (cmd_response \<times> ipserver) option" where
  "append_response r resp srv =
     (case cr_response r of
        None \<Rightarrow> Some (r\<lparr>cr_response := Some resp\<rparr>, srv)
      | Some head \<Rightarrow>
          do { (_, mem) \<leftarrow> wave_ipc_multi_msg_append (Some head) (Some resp) (srv_mem srv);
               Some (r, srv\<lparr>srv_mem := mem\<rparr>) })"

definition wave_ipcs_handle_response_from_client ::
  "nat \<Rightarrow> nat \<Rightarrow> u8 list \<Rightarrow> ipserver \<Rightarrow> ipserver option" where
  "wave_ipcs_handle_response_from_client a resp h srv =
     do { c \<leftarrow> find_response (srv_resps srv) a (h ! 1) (srv_resp_list srv);
          (case c of
             None \<Rightarrow> srv_put (Some resp) srv
           | Some cs \<Rightarrow>
               do { r \<leftarrow> srv_resps srv cs;
                    if h ! 0 = type_code WAVE_IPC_MSG_RESP
                    then (let r1 = (if h ! 2 = 0 then r\<lparr>cr_status := RESP_SUCCESS\<rparr> else r)
                          in do { (r2, srv1) \<leftarrow> append_response r1 resp srv; Some (set_resp cs r2 srv1) })
                    else do {
                      srv1 \<leftarrow> (case cr_response r of None \<Rightarrow> Some srv | Some old \<Rightarrow> srv_put (Some old) srv);
                      Some (set_resp cs (r\<lparr>cr_status := RESP_FAILURE, cr_response := Some resp\<rparr>) srv1) } }) }"

text \<open>The label \<open>disconnect\<close> of \<open>wave_ipcs_handle_station_msg\<close>.\<close>

definition disconnect_station :: "callbacks \<Rightarrow> nat \<Rightarrow> nat \<Rightarrow> ipserver \<Rightarrow> ipserver option" where
  "disconnect_station cb i a srv =
     do { st \<leftarrow> get_sta a srv;
          let srv1 = (set_sta a (st\<lparr>sta_connected := False\<rparr>) srv)
                       \<lparr>srv_has_pending := srv_has_pending srv - int (num_pending st)\<rparr>;
          srv2 \<leftarrow> wave_ipcs_removing_client cb a srv1;
          (_, srv3) \<leftarrow> wave_ipcs_sta_decref (Some a) srv2;
          Some (set_slot i None srv3) }"

text \<open>
  \<open>r1\<close> and \<open>r2\<close> are what the two \<open>recv\<close> calls deliver, \<open>res\<close> the answer to the send of a
  failure response.  Of \<open>wave_ipc_recv_msg\<close> the message's memory is taken and given back here.
\<close>

definition srv_recv :: "recv_result \<Rightarrow> recv_result \<Rightarrow> nat \<Rightarrow> ipserver \<Rightarrow> (wv_ipc_ret \<times> ptr \<times> ipserver) option" where
  "srv_recv r1 r2 a srv =
     do { st \<leftarrow> get_sta a srv;
          if sta_socket st = None then Some (WAVE_IPC_DISCONNECTED, None, srv)
          else do {
            (mp, mem) \<leftarrow> wave_ipc_msg_alloc (srv_mem srv);
            let srv1 = srv\<lparr>srv_mem := mem\<rparr>;
            (case mp of
               None \<Rightarrow> Some (WAVE_IPC_ERROR, None, srv1)
             | Some m \<Rightarrow>
                 do { fresh \<leftarrow> load_msg m mem;
                      (case wave_ipc_recv_msg True (Some fresh) r1 r2 of
                         (WAVE_IPC_SUCCESS, Some got) \<Rightarrow>
                           do { mem2 \<leftarrow> store_msg m (\<lambda>_. got) mem;
                                Some (WAVE_IPC_SUCCESS, Some m, srv1\<lparr>srv_mem := mem2\<rparr>) }
                       | (ret, _) \<Rightarrow> do { srv2 \<leftarrow> srv_put (Some m) srv1; Some (ret, None, srv2) }) }) } }"

definition wave_ipcs_handle_station_msg ::
  "callbacks \<Rightarrow> recv_result \<Rightarrow> recv_result \<Rightarrow> send_result \<Rightarrow> bool \<Rightarrow> nat \<Rightarrow> ipserver \<Rightarrow>
     (wv_ipc_ret \<times> ipserver) option" where
  "wave_ipcs_handle_station_msg cb r1 r2 res node_ok i srv =
     do { a \<leftarrow> srv_stations srv ! i;
          let disconnect = (\<lambda>s. do { s' \<leftarrow> disconnect_station cb i a s; Some (WAVE_IPC_DISCONNECTED, s') });
          (ret, mp, srv1) \<leftarrow> srv_recv r1 r2 a srv;
          (case mp of
             None \<Rightarrow> disconnect srv1
           | Some m \<Rightarrow>
               do { (r, h, srv2) \<leftarrow> srv_pop_header m srv1;
                    if r \<noteq> 0 then do { srv3 \<leftarrow> srv_put (Some m) srv2; disconnect srv3 }
                    else if h ! 0 = type_code WAVE_IPC_MSG_CMD
                    then do { (e, srv3) \<leftarrow> wave_ipcs_cmd_async cb a (h ! 1) m srv2;
                              if e = 0 then Some (WAVE_IPC_SUCCESS, srv3)
                              else do { (f, srv4) \<leftarrow> wave_ipcs_send_req_failed_to res node_ok (Some a) (h ! 1) srv3;
                                        if f \<noteq> WAVE_IPC_SUCCESS then disconnect srv4
                                        else Some (WAVE_IPC_SUCCESS, srv4) } }
                    else if h ! 0 = type_code WAVE_IPC_MSG_RESP
                    then do { srv3 \<leftarrow> wave_ipcs_handle_response_from_client a m h srv2;
                              Some (WAVE_IPC_SUCCESS, srv3) }
                    else do { srv3 \<leftarrow> srv_put (Some m) srv2; disconnect srv3 } }) }"

section \<open>Messages that wait\<close>

text \<open>
  The loop over one pending list.  \<open>rs\<close> holds the answers of the successive sends, a missing
  one stands for a socket that still blocks.  The result is the last return code, the flag
  \<open>failed_on_first\<close>, the rest of the list and the answers that were not used.
\<close>

fun next_answer :: "send_result list \<Rightarrow> send_result \<times> send_result list" where
  "next_answer [] = (SendWouldBlock, [])"
| "next_answer (r # rs) = (r, rs)"

fun resend_list ::
  "nat \<Rightarrow> send_result list \<Rightarrow> nat list \<Rightarrow> wv_ipc_ret \<Rightarrow> bool \<Rightarrow> ipserver \<Rightarrow>
     ((wv_ipc_ret \<times> bool \<times> nat list \<times> send_result list) \<times> ipserver) option" where
  "resend_list a rs [] ret first srv = Some ((ret, first, [], rs), srv)"
| "resend_list a rs (m # ms) ret first srv =
     (let (res, rs') = next_answer rs
      in do { (ret', srv1) \<leftarrow> srv_send res a m srv;
              st \<leftarrow> get_sta a srv1;
              if ret' \<noteq> WAVE_IPC_SUCCESS
              then Some ((ret', first, m # ms, rs'),
                         if first then set_sta a (st\<lparr>sta_resend_attempts := sta_resend_attempts st + 1\<rparr>) srv1
                         else srv1)
              else do {
                srv2 \<leftarrow> srv_put (Some m)
                  ((set_sta a (st\<lparr>sta_resend_attempts := 0\<rparr>) srv1)\<lparr>srv_has_pending := srv_has_pending srv1 - 1\<rparr>);
                resend_list a rs' ms ret' False srv2 } })"

definition wave_ipcs_sta_resend_pending :: "send_result list \<Rightarrow> nat \<Rightarrow> ipserver \<Rightarrow> ipserver option" where
  "wave_ipcs_sta_resend_pending rs a srv =
     do { st \<leftarrow> get_sta a srv;
          ((ret, first, rest, rs'), srv1) \<leftarrow> resend_list a rs (sta_pending_replies st) WAVE_IPC_SUCCESS True srv;
          st1 \<leftarrow> get_sta a srv1;
          let srv2 = set_sta a (st1\<lparr>sta_pending_replies := rest\<rparr>) srv1;
          srv3 \<leftarrow>
            (if ret = WAVE_IPC_SUCCESS
             then do { ((_, _, rest', _), srv') \<leftarrow> resend_list a rs' (sta_pending_msgs st) ret first srv2;
                       st' \<leftarrow> get_sta a srv';
                       Some (set_sta a (st'\<lparr>sta_pending_msgs := rest'\<rparr>) srv') }
             else Some srv2);
          st3 \<leftarrow> get_sta a srv3;
          Some (set_sta a (st3\<lparr>sta_has_pending := (sta_pending_replies st3 \<noteq> [] \<or> sta_pending_msgs st3 \<noteq> [])\<rparr>) srv3) }"

text \<open>One station in the loop of \<open>wave_ipcs_run\<close> over the stations with waiting messages.\<close>

definition resend_or_drop :: "callbacks \<Rightarrow> send_result list \<Rightarrow> nat \<Rightarrow> ipserver \<Rightarrow> ipserver option" where
  "resend_or_drop cb rs i srv =
     (case srv_stations srv ! i of
        None \<Rightarrow> Some srv
      | Some a \<Rightarrow>
          do { st \<leftarrow> get_sta a srv;
               if \<not> sta_has_pending st then Some srv
               else do {
                 srv1 \<leftarrow> wave_ipcs_sta_resend_pending rs a srv;
                 st1 \<leftarrow> get_sta a srv1;
                 if sta_resend_attempts st1 \<ge> 10 then disconnect_station cb i a srv1 else Some srv1 } })"

fun for_slots :: "(nat \<Rightarrow> 's \<Rightarrow> 's option) \<Rightarrow> nat list \<Rightarrow> 's \<Rightarrow> 's option" where
  "for_slots f [] s = Some s"
| "for_slots f (i # is) s = (case f i s of None \<Rightarrow> None | Some s' \<Rightarrow> for_slots f is s')"

text \<open>
  The part of an iteration of \<open>wave_ipcs_run\<close> after \<open>select\<close>: the time of the next resend
  (seconds and nanoseconds), if it is set, belongs to the loop.
\<close>

type_synonym resend_time = "(int \<times> int) option"

definition before_time :: "int \<times> int \<Rightarrow> int \<times> int \<Rightarrow> bool" where
  "before_time now nxt \<longleftrightarrow> fst now < fst nxt \<or> (fst now = fst nxt \<and> snd now < snd nxt)"

definition run_pending ::
  "callbacks \<Rightarrow> (nat \<Rightarrow> send_result list) \<Rightarrow> int \<times> int \<Rightarrow> resend_time \<Rightarrow> ipserver \<Rightarrow> (resend_time \<times> ipserver) option" where
  "run_pending cb answers now nxt srv =
     (if srv_has_pending srv = 0 then Some (nxt, srv)
      else if (case nxt of None \<Rightarrow> False | Some t \<Rightarrow> before_time now t) then Some (nxt, srv)
      else do { srv1 \<leftarrow> for_slots (\<lambda>i. resend_or_drop cb (answers i) i) [0..<IPC_CLIENT_ARR_SIZE] srv;
                Some (if srv_has_pending srv1 = 0 then None else Some (fst now + 1, snd now), srv1) })"

section \<open>Stations come and go\<close>

text \<open>
  \<open>a\<close> is the address \<open>malloc\<close> gives the station, \<open>fd\<close> the result of \<open>accept\<close>, \<open>lists_ok\<close>
  whether both lists can be made, \<open>peer\<close> the name the client has bound.
\<close>

definition new_station :: "nat \<Rightarrow> string \<Rightarrow> ipstation" where
  "new_station fd peer =
     \<lparr>sta_data = None, sta_refcnt = 0, sta_socket = Some fd, sta_connected = False,
      sta_name = take (IPC_CLIENT_NAME_SIZE - 1) peer, sta_has_pending = False, sta_resend_attempts = 0,
      sta_pending_msgs = [], sta_pending_replies = []\<rparr>"

fun free_slot :: "ptr list \<Rightarrow> nat option" where
  "free_slot [] = None"
| "free_slot (p # ps) = (if p = None then Some 0 else map_option Suc (free_slot ps))"

definition wave_ipcs_accept_new_client ::
  "callbacks \<Rightarrow> ptr \<Rightarrow> nat option \<Rightarrow> bool \<Rightarrow> string \<Rightarrow> ipserver \<Rightarrow> (wv_ipc_ret \<times> ipserver) option" where
  "wave_ipcs_accept_new_client cb mem fd lists_ok peer srv =
     (case (mem, fd) of
        (Some a, Some sock) \<Rightarrow>
          if \<not> lists_ok then Some (WAVE_IPC_ERROR, srv)
          else if srv_num_stas srv = IPC_CLIENT_ARR_SIZE then Some (WAVE_IPC_ERROR, srv)
          else (case free_slot (take IPC_CLIENT_ARR_SIZE (srv_stations srv)) of
                  None \<Rightarrow> Some (WAVE_IPC_ERROR, srv)
                | Some i \<Rightarrow>
                    do { let srv1 = set_slot i (Some a) (set_sta a ((new_station sock peer)\<lparr>sta_connected := True\<rparr>) srv);
                         (_, srv2) \<leftarrow> wave_ipcs_sta_incref (Some a) srv1;
                         srv3 \<leftarrow> wave_ipcs_adding_client cb a srv2;
                         Some (WAVE_IPC_SUCCESS, srv3) })
      | _ \<Rightarrow> Some (WAVE_IPC_ERROR, srv))"

text \<open>\<open>wave_ipcs_create\<close> with the answers of \<open>malloc\<close>, the socket calls and \<open>list_init\<close>.\<close>

record create_answers =
  ca_malloc :: bool
  ca_socket :: bool
  ca_unlink :: bool
  ca_bind :: bool
  ca_listen :: bool
  ca_list :: bool

definition wave_ipcs_create ::
  "create_answers \<Rightarrow> bool \<Rightarrow> ipserver option \<Rightarrow> string option \<Rightarrow> ipc_mem \<Rightarrow> wv_ipc_ret \<times> ipserver option" where
  "wave_ipcs_create ans handle_given handle name mem =
     (if \<not> handle_given \<or> handle \<noteq> None then (WAVE_IPC_ERROR, handle)
      else if name = None then (WAVE_IPC_ERROR, handle)
      else if ca_malloc ans \<and> ca_socket ans \<and> ca_unlink ans \<and> ca_bind ans \<and> ca_listen ans \<and> ca_list ans
      then (WAVE_IPC_SUCCESS,
            Some \<lparr>srv_stations = replicate IPC_CLIENT_ARR_SIZE None, srv_num_stas = 0, srv_has_pending = 0,
                  srv_thread = None, srv_cmd_seq = 0, srv_resp_list = [], srv_resps = Map.empty,
                  srv_heap = Map.empty, srv_mem = mem, srv_wire = [], srv_closed = []\<rparr>)
      else (WAVE_IPC_ERROR, handle))"

definition delete_slot :: "callbacks \<Rightarrow> nat \<Rightarrow> ipserver \<Rightarrow> ipserver option" where
  "delete_slot cb i srv =
     (case srv_stations srv ! i of
        None \<Rightarrow> Some srv
      | Some a \<Rightarrow>
          do { srv1 \<leftarrow> wave_ipcs_removing_client cb a srv;
               (_, srv2) \<leftarrow> wave_ipcs_sta_decref (Some a) srv1;
               Some (set_slot i None srv2) })"

text \<open>The second component is the handle afterwards; the state that is left shows what remains allocated.\<close>

definition wave_ipcs_delete :: "callbacks \<Rightarrow> ipserver option \<Rightarrow> (wv_ipc_ret \<times> ipserver option) option" where
  "wave_ipcs_delete cb handle =
     (case handle of
        None \<Rightarrow> Some (WAVE_IPC_ERROR, None)
      | Some srv \<Rightarrow>
          do { srv1 \<leftarrow> for_slots (delete_slot cb) [0..<IPC_CLIENT_ARR_SIZE] srv;
               Some (WAVE_IPC_SUCCESS, Some srv1) })"

section \<open>Commands to a station\<close>

text \<open>
  \<open>_wave_ipcs_send_cmd_to\<close> up to its wait: the result is the return code, or the handle that
  waits.  \<open>mem\<close> is the answer of \<open>malloc\<close>, the address of the handle; the return value of
  \<open>list_push_front\<close> is not looked at.
\<close>

definition send_cmd_to_wait ::
  "ptr \<Rightarrow> bool \<Rightarrow> send_result \<Rightarrow> nat \<Rightarrow> u8 \<Rightarrow> nat \<Rightarrow> ipserver \<Rightarrow> ((wv_ipc_ret + nat) \<times> ipserver) option" where
  "send_cmd_to_wait mem node_ok res a sq cmd srv =
     (case mem of
        None \<Rightarrow> Some (Inl WAVE_IPC_ERROR, srv)
      | Some c \<Rightarrow>
          do { let srv1 = set_resp c \<lparr>cr_ipsta = a, cr_seq_num = sq, cr_status = RESP_NONE, cr_response = None\<rparr>
                            (if node_ok then srv\<lparr>srv_resp_list := c # srv_resp_list srv\<rparr> else srv);
               (ret, srv2) \<leftarrow> srv_send res a cmd srv1;
               if ret \<noteq> WAVE_IPC_SUCCESS
               then Some (Inl ret, srv2\<lparr>srv_resp_list := remove1 c (srv_resp_list srv2),
                                        srv_resps := (srv_resps srv2)(c := None)\<rparr>)
               else Some (Inr c, srv2) })"

definition wave_ipcs_send_cmd_to ::
  "ptr \<Rightarrow> bool \<Rightarrow> send_result \<Rightarrow> nat \<Rightarrow> ptr \<Rightarrow> ptr \<Rightarrow> bool \<Rightarrow> ipserver \<Rightarrow> ((wv_ipc_ret + nat) \<times> ipserver) option" where
  "wave_ipcs_send_cmd_to mem node_ok res self ap cp reply_given srv =
     (case (ap, cp) of
        (Some a, Some cmd) \<Rightarrow>
          if \<not> reply_given then Some (Inl WAVE_IPC_ERROR, srv)
          else do {
            st \<leftarrow> get_sta a srv;
            if \<not> sta_connected st \<or> sta_socket st = None then Some (Inl WAVE_IPC_DISCONNECTED, srv)
            else if srv_thread srv = None then Some (Inl WAVE_IPC_ERROR, srv)
            else if srv_thread srv = Some self then Some (Inl WAVE_IPC_ERROR, srv)
            else do {
              let sq = srv_cmd_seq srv + 1;
              (r, srv1) \<leftarrow> srv_push_header cmd [type_code WAVE_IPC_MSG_CMD, sq, 0, 0] (srv\<lparr>srv_cmd_seq := sq\<rparr>);
              if r \<noteq> 0 then Some (Inl WAVE_IPC_ERROR, srv1)
              else send_cmd_to_wait mem node_ok res a sq cmd srv1 } }
      | _ \<Rightarrow> Some (Inl WAVE_IPC_ERROR, srv))"

text \<open>After the wait, which ends with a response or after ten seconds.\<close>

definition send_cmd_wait_over :: "nat \<Rightarrow> ipserver \<Rightarrow> ((wv_ipc_ret \<times> ptr option) \<times> ipserver) option" where
  "send_cmd_wait_over c srv =
     do { r \<leftarrow> srv_resps srv c;
          let srv1 = srv\<lparr>srv_resp_list := remove1 c (srv_resp_list srv), srv_resps := (srv_resps srv)(c := None)\<rparr>;
          Some (case cr_status r of
                  RESP_NONE \<Rightarrow> (WAVE_IPC_ERROR, None)
                | RESP_FAILURE \<Rightarrow> (WAVE_IPC_CMD_FAILED, Some (cr_response r))
                | RESP_SUCCESS \<Rightarrow> (WAVE_IPC_SUCCESS, Some (cr_response r)), srv1) }"

section \<open>The invariant of the stations\<close>

text \<open>
  Every station of the table is connected and no other is; the counter of the server is the
  number of messages that wait for the stations of the table; a waiting message belongs to
  one list of one station.  Beyond 200 messages for a station, at most 1000 wait in all.
\<close>

definition pend_list :: "ipstation \<Rightarrow> nat list" where
  "pend_list st = sta_pending_replies st @ sta_pending_msgs st"

definition in_table :: "ipserver \<Rightarrow> nat set" where
  "in_table srv = {a. Some a \<in> set (srv_stations srv)}"

definition waiting_for :: "ipserver \<Rightarrow> nat \<Rightarrow> nat" where
  "waiting_for srv a = (case srv_heap srv a of None \<Rightarrow> 0 | Some st \<Rightarrow> num_pending st)"

definition station_ok :: "ipc_mem \<Rightarrow> ipstation \<Rightarrow> bool" where
  "station_ok mem st \<longleftrightarrow> 1 \<le> sta_refcnt st \<and>
     (sta_connected st \<longrightarrow> (sta_has_pending st \<longleftrightarrow> pend_list st \<noteq> [])) \<and> distinct (pend_list st) \<and>
     (\<forall>m \<in> set (pend_list st). msg_single mem m)"

definition table_ok :: "ptr list \<Rightarrow> bool" where
  "table_ok ps \<longleftrightarrow> length ps = IPC_CLIENT_ARR_SIZE \<and> distinct (filter (\<lambda>p. p \<noteq> None) ps)"

definition srv_inv :: "ipserver \<Rightarrow> bool" where
  "srv_inv srv \<longleftrightarrow> table_ok (srv_stations srv) \<and> ipc_mem_ok (srv_mem srv) \<and>
     (\<forall>a. a \<in> in_table srv \<longleftrightarrow> (\<exists>st. srv_heap srv a = Some st \<and> sta_connected st)) \<and>
     (\<forall>a st. srv_heap srv a = Some st \<longrightarrow> station_ok (srv_mem srv) st) \<and>
     (\<forall>a b st st'. a \<noteq> b \<longrightarrow> srv_heap srv a = Some st \<longrightarrow> srv_heap srv b = Some st' \<longrightarrow>
        set (pend_list st) \<inter> set (pend_list st') = {}) \<and>
     srv_has_pending srv = int (\<Sum>a \<in> in_table srv. waiting_for srv a) \<and>
     (\<Sum>a \<in> in_table srv. waiting_for srv a - STA_MAX_NUM_PENDING_ON_SERV_LIMIT) \<le> MAX_NUM_PENDING_IPC_MSGS"

lemma num_pending_length: "num_pending st = length (pend_list st)"
  by (simp add: num_pending_def pend_list_def)

lemma finite_in_table [simp]: "finite (in_table srv)"
proof -
  have "in_table srv = the ` {p \<in> set (srv_stations srv). p \<noteq> None}"
    by (force simp: in_table_def image_iff)
  then show ?thesis by simp
qed

lemma sum_upd:
  fixes f g :: "nat \<Rightarrow> nat"
  assumes "finite A" "\<forall>b \<in> A. b \<noteq> a \<longrightarrow> g b = f b"
  shows "(\<Sum>b \<in> A. g b) + (if a \<in> A then f a else 0) = (\<Sum>b \<in> A. f b) + (if a \<in> A then g a else 0)"
proof (cases "a \<in> A")
  case True
  have "(\<Sum>b \<in> A - {a}. g b) = (\<Sum>b \<in> A - {a}. f b)" using assms(2) by (intro sum.cong) auto
  with True assms(1) show ?thesis by (simp add: sum.remove [of A a f] sum.remove [of A a g])
next
  case False
  then have "(\<Sum>b \<in> A. g b) = (\<Sum>b \<in> A. f b)" using assms(2) by (intro sum.cong) auto
  with False show ?thesis by simp
qed

lemma in_table_connected:
  "srv_inv srv \<Longrightarrow> srv_heap srv a = Some st \<Longrightarrow> a \<in> in_table srv \<longleftrightarrow> sta_connected st"
  by (auto simp: srv_inv_def)

text \<open>
  One station, the memory and the counter change; the table stays.
\<close>

lemma srv_inv_update:
  assumes inv: "srv_inv srv" and a: "srv_heap srv a = Some st"
    and same: "srv_stations srv' = srv_stations srv" "srv_heap srv' = (srv_heap srv)(a \<mapsto> st')"
    and conn: "sta_connected st' = sta_connected st" and st': "station_ok (srv_mem srv') st'"
    and disj: "\<forall>b stb. b \<noteq> a \<longrightarrow> srv_heap srv b = Some stb \<longrightarrow> set (pend_list stb) \<inter> set (pend_list st') = {}"
    and keep: "\<forall>b stb m. b \<noteq> a \<longrightarrow> srv_heap srv b = Some stb \<longrightarrow> m \<in> set (pend_list stb) \<longrightarrow> msg_single (srv_mem srv') m"
    and mem: "ipc_mem_ok (srv_mem srv')"
    and count: "srv_has_pending srv' = srv_has_pending srv +
      (if sta_connected st then int (num_pending st') - int (num_pending st) else 0)"
    and limit: "sta_connected st \<longrightarrow> num_pending st' \<le> num_pending st \<or>
      num_pending st' \<le> STA_MAX_NUM_PENDING_ON_SERV_LIMIT \<or> srv_has_pending srv' \<le> int MAX_NUM_PENDING_IPC_MSGS"
  shows "srv_inv srv'"
proof -
  have table: "in_table srv' = in_table srv" by (simp add: in_table_def same)
  have w: "waiting_for srv' b = (if b = a then num_pending st' else waiting_for srv b)" for b
    by (simp add: waiting_for_def same)
  have wa: "waiting_for srv a = num_pending st" by (simp add: waiting_for_def a)
  have ain: "a \<in> in_table srv \<longleftrightarrow> sta_connected st" by (rule in_table_connected [OF inv a])
  have total: "(\<Sum>b \<in> in_table srv. waiting_for srv' b) + (if sta_connected st then num_pending st else 0) =
      (\<Sum>b \<in> in_table srv. waiting_for srv b) + (if sta_connected st then num_pending st' else 0)"
    using sum_upd [of "in_table srv" a "waiting_for srv'" "waiting_for srv"] w wa ain
    by (cases "sta_connected st") simp_all
  have old: "srv_has_pending srv = int (\<Sum>b \<in> in_table srv. waiting_for srv b)" using inv by (simp add: srv_inv_def)
  have new: "srv_has_pending srv' = int (\<Sum>b \<in> in_table srv'. waiting_for srv' b)"
    using total old count unfolding table by (cases "sta_connected st") (simp_all del: of_nat_sum)
  let ?L = STA_MAX_NUM_PENDING_ON_SERV_LIMIT
  have exc: "(\<Sum>b \<in> in_table srv. waiting_for srv' b - ?L) + (if sta_connected st then num_pending st - ?L else 0) =
      (\<Sum>b \<in> in_table srv. waiting_for srv b - ?L) + (if sta_connected st then num_pending st' - ?L else 0)"
    using sum_upd [of "in_table srv" a "\<lambda>b. waiting_for srv' b - ?L" "\<lambda>b. waiting_for srv b - ?L"] w wa ain
    by (cases "sta_connected st") simp_all
  have bound: "(\<Sum>b \<in> in_table srv. waiting_for srv b - ?L) \<le> MAX_NUM_PENDING_IPC_MSGS" using inv by (simp add: srv_inv_def)
  have all: "(\<Sum>b \<in> in_table srv. waiting_for srv' b - ?L) \<le> (\<Sum>b \<in> in_table srv. waiting_for srv' b)"
    by (rule sum_mono) simp
  have bound': "(\<Sum>b \<in> in_table srv'. waiting_for srv' b - ?L) \<le> MAX_NUM_PENDING_IPC_MSGS"
  proof (cases "sta_connected st")
    case False
    with exc bound show ?thesis by (simp add: table)
  next
    case True
    with limit consider "num_pending st' - ?L \<le> num_pending st - ?L"
      | "srv_has_pending srv' \<le> int MAX_NUM_PENDING_IPC_MSGS" by fastforce
    then show ?thesis
    proof cases
      case 1
      with exc bound True show ?thesis by (simp add: table)
    next
      case 2
      with new all show ?thesis by (simp add: table del: of_nat_sum)
    qed
  qed
  have sta: "station_ok (srv_mem srv') stb" if "srv_heap srv' b = Some stb" for b stb
  proof (cases "b = a")
    case True
    with that st' same(2) show ?thesis by simp
  next
    case False
    with that same(2) have h: "srv_heap srv b = Some stb" by simp
    then have "station_ok (srv_mem srv) stb" using inv by (auto simp: srv_inv_def)
    with keep False h show ?thesis by (auto simp: station_ok_def)
  qed
  have disj': "set (pend_list st1) \<inter> set (pend_list st2) = {}"
    if "b \<noteq> c" "srv_heap srv' b = Some st1" "srv_heap srv' c = Some st2" for b c st1 st2
  proof -
    consider "b = a" | "c = a" | "b \<noteq> a" "c \<noteq> a" by blast
    then show ?thesis
    proof cases
      case 1
      then have "st1 = st'" "srv_heap srv c = Some st2" "c \<noteq> a" using that same(2) by auto
      with disj show ?thesis by blast
    next
      case 2
      then have "st2 = st'" "srv_heap srv b = Some st1" "b \<noteq> a" using that same(2) by auto
      with disj show ?thesis by blast
    next
      case 3
      then have "srv_heap srv b = Some st1" "srv_heap srv c = Some st2" using that same(2) by auto
      with inv that(1) show ?thesis unfolding srv_inv_def by blast
    qed
  qed
  have conn': "b \<in> in_table srv' \<longleftrightarrow> (\<exists>st. srv_heap srv' b = Some st \<and> sta_connected st)" for b
    using inv a conn by (auto simp: table same srv_inv_def)
  show ?thesis using inv mem new bound' sta disj' conn' same(1) unfolding srv_inv_def by metis
qed


section \<open>Every operation keeps the invariant\<close>

lemma srv_invE:
  assumes "srv_inv srv"
  shows "ipc_mem_ok (srv_mem srv)" "table_ok (srv_stations srv)"
    and "srv_heap srv a = Some st \<Longrightarrow> station_ok (srv_mem srv) st"
    and "srv_heap srv a = Some st \<Longrightarrow> srv_heap srv b = Some st' \<Longrightarrow> a \<noteq> b \<Longrightarrow>
      set (pend_list st) \<inter> set (pend_list st') = {}"
    and "a \<in> in_table srv \<Longrightarrow> \<exists>st. srv_heap srv a = Some st \<and> sta_connected st"
  using assms unfolding srv_inv_def by blast+

text \<open>A message that is pending for no station.\<close>

definition not_pending :: "ipserver \<Rightarrow> nat \<Rightarrow> bool" where
  "not_pending srv m \<longleftrightarrow> (\<forall>a st. srv_heap srv a = Some st \<longrightarrow> m \<notin> set (pend_list st))"

lemma srv_send_eq:
  assumes "srv_heap srv a = Some st" "msg_single (srv_mem srv) m"
  shows "\<exists>ret w. srv_send res a m srv = Some (ret, srv\<lparr>srv_wire := srv_wire srv @ w\<rparr>)"
proof -
  have "load_msg m (srv_mem srv) = Some (ipc_msgs (srv_mem srv) m)"
    using assms(2) by (simp add: load_held ms.single_held)
  then show ?thesis using assms(1)
    by (cases "wave_ipc_send_msg res (sta_socket st \<noteq> None) (Some (ipc_msgs (srv_mem srv) m))")
       (auto simp: srv_send_def get_sta_def intro: exI [of _ "[]"])
qed

lemma srv_inv_wire [simp]: "srv_inv (srv\<lparr>srv_wire := w\<rparr>) = srv_inv srv"
  by (simp add: srv_inv_def in_table_def waiting_for_def)

lemma would_block_inv:
  assumes inv: "srv_inv srv" and a: "srv_heap srv a = Some st" and m: "msg_single (srv_mem srv) m"
  shows "\<exists>ret srv'. wave_ipcs_send_would_block True a m which srv = Some (ret, srv') \<and> srv_inv srv' \<and>
    srv_stations srv' = srv_stations srv \<and> dom (srv_heap srv') = dom (srv_heap srv) \<and> msg_single (srv_mem srv') m \<and>
    (not_pending srv m \<longrightarrow> not_pending srv' m)"
proof -
  obtain d mem where dup: "wave_ipc_msg_dup (Some m) (srv_mem srv) = Some (d, mem)" and mok: "ipc_mem_ok mem"
    and res: "case d of None \<Rightarrow> msgs_held mem = msgs_held (srv_mem srv) \<and>
          (\<forall>c. ipc_msgs mem c = ipc_msgs (srv_mem srv) c) \<and> (\<forall>c. msg_single mem c = msg_single (srv_mem srv) c)
       | Some b \<Rightarrow> b \<notin> msgs_held (srv_mem srv) \<and> msgs_held mem = insert b (msgs_held (srv_mem srv)) \<and>
          ipc_msgs mem b = ipc_msgs (srv_mem srv) m \<and> msg_single mem b \<and>
          (\<forall>c. c \<noteq> b \<longrightarrow> ipc_msgs mem c = ipc_msgs (srv_mem srv) c \<and> msg_single mem c = msg_single (srv_mem srv) c)"
    using ms.dup_law [OF srv_invE(1) [OF inv] m] by blast
  have keep: "msg_single mem c" if "msg_single (srv_mem srv) c" for c
    using res that ms.single_held [OF that] by (cases d) (simp_all, metis)
  have pend: "\<forall>b stb c. srv_heap srv b = Some stb \<longrightarrow> c \<in> set (pend_list stb) \<longrightarrow> msg_single mem c"
    using srv_invE(3) [OF inv] keep by (auto simp: station_ok_def)
  have sta: "station_ok mem st" using srv_invE(3) [OF inv a] keep by (auto simp: station_ok_def)
  have inv1: "srv_inv (srv\<lparr>srv_mem := mem\<rparr>)"
    by (rule srv_inv_update [OF inv a, where st' = st])
       (use a sta pend mok srv_invE(4) [OF inv _ a] in \<open>auto simp: fun_upd_idem\<close>)
  show ?thesis
  proof (cases d)
    case None
    with dup inv1 keep [OF m] show ?thesis by (auto simp: wave_ipcs_send_would_block_def not_pending_def)
  next
    case (Some b)
    then have b: "b \<notin> msgs_held (srv_mem srv)" "msg_single mem b" using res by auto
    have bnew: "b \<notin> set (pend_list stb)" if "srv_heap srv c = Some stb" for c stb
      using srv_invE(3) [OF inv that] b(1) ms.single_held by (auto simp: station_ok_def)
    have bm: "b \<noteq> m" using b(1) ms.single_held [OF m] by auto
    let ?full = "srv_has_pending srv \<ge> int MAX_NUM_PENDING_IPC_MSGS \<and> num_pending st \<ge> STA_MAX_NUM_PENDING_ON_SERV_LIMIT"
    consider "\<not> sta_connected st" | "sta_connected st" "?full" | "sta_connected st" "\<not> ?full" by blast
    then show ?thesis
    proof cases
      case 1
      with Some dup inv1 keep [OF m] a show ?thesis
        by (auto simp: wave_ipcs_send_would_block_def get_sta_def not_pending_def)
    next
      case 2
      obtain mem2 where put: "wave_ipc_msg_put (Some b) mem = Some mem2" "ipc_mem_ok mem2"
        "\<forall>c. c \<noteq> b \<longrightarrow> msg_single mem2 c = msg_single mem c"
        using ms.put_law [OF mok b(2)] by blast
      have sta2: "station_ok mem2 st" using sta put(3) bnew [OF a] by (auto simp: station_ok_def)
      have pend2: "\<forall>c stb e. srv_heap srv c = Some stb \<longrightarrow> e \<in> set (pend_list stb) \<longrightarrow> msg_single mem2 e"
        using pend put(3) bnew by metis
      have inv2: "srv_inv (srv\<lparr>srv_mem := mem2\<rparr>)"
        by (rule srv_inv_update [OF inv a, where st' = st])
           (use a sta2 pend2 put(2) srv_invE(4) [OF inv _ a] in \<open>auto simp: fun_upd_idem\<close>)
      have "msg_single mem2 m" using put(3) bm keep [OF m] by auto
      with 2 Some dup inv2 put a show ?thesis
        by (auto simp: wave_ipcs_send_would_block_def get_sta_def srv_put_def not_pending_def)
    next
      case 3
      let ?st = "(case which of PendingMsgs \<Rightarrow> st\<lparr>sta_pending_msgs := sta_pending_msgs st @ [b]\<rparr>
            | PendingReplies \<Rightarrow> st\<lparr>sta_pending_replies := sta_pending_replies st @ [b]\<rparr>)\<lparr>sta_has_pending := True\<rparr>"
      have f: "set (pend_list ?st) = insert b (set (pend_list st))" "num_pending ?st = Suc (num_pending st)"
        "sta_connected ?st = sta_connected st" "sta_refcnt ?st = sta_refcnt st" "sta_has_pending ?st"
        "distinct (pend_list ?st) \<longleftrightarrow> distinct (pend_list st) \<and> b \<notin> set (pend_list st)"
        by (cases which; auto simp: pend_list_def num_pending_def)+
      have "station_ok mem ?st"
        using sta b(2) f bnew [OF a] unfolding station_ok_def by (metis empty_iff insertE insertI1 list.set(1))
      moreover have "num_pending ?st \<le> STA_MAX_NUM_PENDING_ON_SERV_LIMIT \<or>
          srv_has_pending srv + 1 \<le> int MAX_NUM_PENDING_IPC_MSGS"
        using 3(2) f(2) by auto
      ultimately have "srv_inv (srv\<lparr>srv_mem := mem, srv_heap := (srv_heap srv)(a \<mapsto> ?st),
          srv_has_pending := srv_has_pending srv + 1\<rparr>)"
        using srv_invE(4) [OF inv _ a] bnew pend mok 3(1)
        by (intro srv_inv_update [OF inv a, where st' = ?st]) (auto simp: f)
      moreover have "wave_ipcs_send_would_block True a m which srv =
          Some (WAVE_IPC_SUCCESS, srv\<lparr>srv_mem := mem, srv_heap := (srv_heap srv)(a \<mapsto> ?st),
            srv_has_pending := srv_has_pending srv + 1\<rparr>)"
        using 3 Some dup a by (auto simp: wave_ipcs_send_would_block_def get_sta_def set_sta_def Let_def)
      moreover have "not_pending srv m \<longrightarrow> not_pending (srv\<lparr>srv_mem := mem, srv_heap := (srv_heap srv)(a \<mapsto> ?st),
            srv_has_pending := srv_has_pending srv + 1\<rparr>) m"
        using a bm f(1) by (auto simp: not_pending_def)
      ultimately show ?thesis using a keep [OF m] by auto
    qed
  qed
qed

lemma send_or_queue_inv:
  assumes inv: "srv_inv srv" and a: "srv_heap srv a = Some st" and m: "msg_single (srv_mem srv) m"
  shows "\<exists>ret srv'. send_or_queue res True which a m srv = Some (ret, srv') \<and> srv_inv srv' \<and>
    srv_stations srv' = srv_stations srv \<and> dom (srv_heap srv') = dom (srv_heap srv) \<and> msg_single (srv_mem srv') m \<and>
    (not_pending srv m \<longrightarrow> not_pending srv' m)"
proof -
  obtain ret w where send: "srv_send res a m srv = Some (ret, srv\<lparr>srv_wire := srv_wire srv @ w\<rparr>)"
    using srv_send_eq [OF a m] by blast
  have wb: "\<exists>ret srv'. wave_ipcs_send_would_block True a m which (srv\<lparr>srv_wire := w'\<rparr>) = Some (ret, srv') \<and> srv_inv srv' \<and>
    srv_stations srv' = srv_stations srv \<and> dom (srv_heap srv') = dom (srv_heap srv) \<and> msg_single (srv_mem srv') m \<and>
    (not_pending srv m \<longrightarrow> not_pending srv' m)" for w'
    using would_block_inv [of "srv\<lparr>srv_wire := w'\<rparr>" a st m which] inv a m by (simp add: not_pending_def)
  have "srv\<lparr>srv_wire := srv_wire srv\<rparr> = srv" by simp
  with wb [of "srv_wire srv"] wb [of "srv_wire srv @ w"] send inv a m show ?thesis
    by (auto simp: send_or_queue_def get_sta_def not_pending_def)
qed

text \<open>The table.\<close>

lemma table_clear:
  assumes "table_ok ps" "i < length ps" "ps ! i = Some a"
  shows "table_ok (ps[i := None])" "{b. Some b \<in> set (ps[i := None])} = {b. Some b \<in> set ps} - {a}"
proof -
  have split: "ps = take i ps @ Some a # drop (Suc i) ps" using id_take_nth_drop [OF assms(2)] assms(3) by simp
  have upd: "ps[i := None] = take i ps @ None # drop (Suc i) ps" using assms(2) by (rule upd_conv_take_nth_drop)
  have "distinct (filter (\<lambda>p. p \<noteq> None) (take i ps @ Some a # drop (Suc i) ps))"
    using assms(1) unfolding table_ok_def split [symmetric] by blast
  then have d: "Some a \<notin> set (take i ps)" "Some a \<notin> set (drop (Suc i) ps)"
    "distinct (filter (\<lambda>p. p \<noteq> None) (take i ps @ drop (Suc i) ps))" by auto
  have "distinct (filter (\<lambda>p. p \<noteq> None) (ps[i := None]))" using d(3) unfolding upd by simp
  then show "table_ok (ps[i := None])" using assms(1) by (simp add: table_ok_def)
  have "set ps = set (take i ps) \<union> {Some a} \<union> set (drop (Suc i) ps)" using arg_cong [OF split, of set] by auto
  then show "{b. Some b \<in> set (ps[i := None])} = {b. Some b \<in> set ps} - {a}" using d(1,2) unfolding upd by auto
qed

lemma free_slot_Some: "free_slot ps = Some i \<Longrightarrow> i < length ps \<and> ps ! i = None"
  by (induction ps arbitrary: i) (auto split: if_splits)

lemma table_fill:
  assumes "table_ok ps" "i < length ps" "ps ! i = None" "Some a \<notin> set ps"
  shows "table_ok (ps[i := Some a])" "{b. Some b \<in> set (ps[i := Some a])} = insert a {b. Some b \<in> set ps}"
proof -
  have split: "ps = take i ps @ None # drop (Suc i) ps" using id_take_nth_drop [OF assms(2)] assms(3) by simp
  have upd: "ps[i := Some a] = take i ps @ Some a # drop (Suc i) ps" using assms(2) by (rule upd_conv_take_nth_drop)
  have s: "set ps = set (take i ps) \<union> {None} \<union> set (drop (Suc i) ps)" using arg_cong [OF split, of set] by auto
  have "distinct (filter (\<lambda>p. p \<noteq> None) (take i ps @ None # drop (Suc i) ps))"
    using assms(1) unfolding table_ok_def split [symmetric] by blast
  then have "distinct (filter (\<lambda>p. p \<noteq> None) (take i ps @ Some a # drop (Suc i) ps))"
    using assms(4) s by auto
  then have "distinct (filter (\<lambda>p. p \<noteq> None) (ps[i := Some a]))" unfolding upd by simp
  then show "table_ok (ps[i := Some a])" using assms(1) by (simp add: table_ok_def)
  show "{b. Some b \<in> set (ps[i := Some a])} = insert a {b. Some b \<in> set ps}" using s unfolding upd by auto
qed

text \<open>A station leaves the table: it is forgotten, or kept for those who hold references.\<close>

lemma srv_inv_leave:
  assumes inv: "srv_inv srv" and i: "i < length (srv_stations srv)" "srv_stations srv ! i = Some a"
    and a: "srv_heap srv a = Some st"
    and st': "srv_stations srv' = (srv_stations srv)[i := None]" "srv_heap srv' = (srv_heap srv)(a := sto)"
    and left: "case sto of None \<Rightarrow> True
       | Some st' \<Rightarrow> \<not> sta_connected st' \<and> station_ok (srv_mem srv') st' \<and> pend_list st' = pend_list st"
    and keep: "\<forall>b stb m. b \<noteq> a \<longrightarrow> srv_heap srv b = Some stb \<longrightarrow> m \<in> set (pend_list stb) \<longrightarrow> msg_single (srv_mem srv') m"
    and mem: "ipc_mem_ok (srv_mem srv')"
    and count: "srv_has_pending srv' = srv_has_pending srv - int (num_pending st)"
  shows "srv_inv srv'"
proof -
  have tok: "table_ok (srv_stations srv')" and table: "in_table srv' = in_table srv - {a}"
    using table_clear [OF srv_invE(2) [OF inv] i] by (simp_all add: st'(1) in_table_def)
  have ain: "a \<in> in_table srv" using i by (auto simp: in_table_def in_set_conv_nth intro: exI [of _ i])
  have w: "waiting_for srv' b = waiting_for srv b" if "b \<noteq> a" for b using that by (simp add: waiting_for_def st'(2))
  have wa: "waiting_for srv a = num_pending st" by (simp add: waiting_for_def a)
  have sums: "(\<Sum>b \<in> in_table srv. f (waiting_for srv b)) =
      f (num_pending st) + (\<Sum>b \<in> in_table srv'. f (waiting_for srv' b))" for f :: "nat \<Rightarrow> nat"
  proof -
    have "(\<Sum>b \<in> in_table srv'. f (waiting_for srv' b)) = (\<Sum>b \<in> in_table srv - {a}. f (waiting_for srv b))"
      unfolding table by (intro sum.cong) (auto simp: w)
    then show ?thesis using sum.remove [OF finite_in_table ain, of "\<lambda>b. f (waiting_for srv b)"] wa by simp
  qed
  have new: "srv_has_pending srv' = int (\<Sum>b \<in> in_table srv'. waiting_for srv' b)"
    using inv sums [of "\<lambda>n. n"] count by (simp add: srv_inv_def del: of_nat_sum)
  have bound: "(\<Sum>b \<in> in_table srv'. waiting_for srv' b - STA_MAX_NUM_PENDING_ON_SERV_LIMIT) \<le> MAX_NUM_PENDING_IPC_MSGS"
    using inv sums [of "\<lambda>n. n - STA_MAX_NUM_PENDING_ON_SERV_LIMIT"] by (simp add: srv_inv_def)
  have old: "srv_heap srv b = Some stb" if "srv_heap srv' b = Some stb" "b \<noteq> a" for b stb
    using that st'(2) by simp
  have sta: "station_ok (srv_mem srv') stb" if h: "srv_heap srv' b = Some stb" for b stb
  proof (cases "b = a")
    case True
    with h left st'(2) show ?thesis by (cases sto) auto
  next
    case False
    then have "station_ok (srv_mem srv) stb" using srv_invE(3) [OF inv] old [OF h] by blast
    with keep False old [OF h] show ?thesis by (auto simp: station_ok_def)
  qed
  have pl: "\<exists>st0. srv_heap srv b = Some st0 \<and> pend_list st0 = pend_list stb" if "srv_heap srv' b = Some stb" for b stb
    using that left st'(2) a by (cases "b = a"; cases sto) auto
  have disj: "set (pend_list st1) \<inter> set (pend_list st2) = {}"
    if "b \<noteq> c" "srv_heap srv' b = Some st1" "srv_heap srv' c = Some st2" for b c st1 st2
    using srv_invE(4) [OF inv] pl that by metis
  have conn: "b \<in> in_table srv' \<longleftrightarrow> (\<exists>st. srv_heap srv' b = Some st \<and> sta_connected st)" for b
    using inv left by (cases "b = a"; cases sto) (auto simp: table st'(2) srv_inv_def)
  show ?thesis using tok mem new bound sta disj conn unfolding srv_inv_def by metis
qed

text \<open>What the callbacks may do: take further references to the station.\<close>

definition refs_only :: "callbacks \<Rightarrow> bool" where
  "refs_only cb \<longleftrightarrow>
     (\<forall>a srv st. srv_heap srv a = Some st \<longrightarrow>
        (\<exists>k \<ge> 0. wave_ipcs_removing_client cb a srv = Some (set_sta a (st\<lparr>sta_refcnt := sta_refcnt st + k\<rparr>) srv)) \<and>
        (\<exists>k \<ge> 0. wave_ipcs_adding_client cb a srv = Some (set_sta a (st\<lparr>sta_refcnt := sta_refcnt st + k\<rparr>) srv)))"

lemma decref_eq:
  assumes a: "srv_heap srv a = Some st" and mem: "ipc_mem_ok (srv_mem srv)"
    and ok: "distinct (pend_list st)" "\<forall>m \<in> set (pend_list st). msg_single (srv_mem srv) m"
  shows "if sta_refcnt st - 1 \<noteq> 0
    then wave_ipcs_sta_decref (Some a) srv =
      Some (WAVE_IPC_SUCCESS, srv\<lparr>srv_heap := (srv_heap srv)(a \<mapsto> st\<lparr>sta_refcnt := sta_refcnt st - 1\<rparr>)\<rparr>)
    else \<exists>mem'. wave_ipcs_sta_decref (Some a) srv =
        Some (WAVE_IPC_SUCCESS, srv\<lparr>srv_mem := mem', srv_heap := (srv_heap srv)(a := None),
                                    srv_closed := srv_closed srv @ [a]\<rparr>) \<and>
      ipc_mem_ok mem' \<and> msgs_held mem' = msgs_held (srv_mem srv) - set (pend_list st) \<and>
      (\<forall>c. c \<notin> set (pend_list st) \<longrightarrow> msg_single mem' c = msg_single (srv_mem srv) c)"
proof -
  obtain mem1 where mem1: "put_msgs (\<lambda>m. wave_ipc_msg_put (Some m)) (sta_pending_replies st) (srv_mem srv) = Some mem1"
    "ipc_mem_ok mem1" "msgs_held mem1 = msgs_held (srv_mem srv) - set (sta_pending_replies st)"
    "\<forall>c. c \<notin> set (sta_pending_replies st) \<longrightarrow> msg_single mem1 c = msg_single (srv_mem srv) c"
    using ms.put_all [OF mem, of "sta_pending_replies st"] ok by (auto simp: pend_list_def)
  have "\<forall>c \<in> set (sta_pending_msgs st). msg_single mem1 c" using mem1(4) ok by (auto simp: pend_list_def)
  then obtain mem2 where mem2: "put_msgs (\<lambda>m. wave_ipc_msg_put (Some m)) (sta_pending_msgs st) mem1 = Some mem2"
    "ipc_mem_ok mem2" "msgs_held mem2 = msgs_held mem1 - set (sta_pending_msgs st)"
    "\<forall>c. c \<notin> set (sta_pending_msgs st) \<longrightarrow> msg_single mem2 c = msg_single mem1 c"
    using ms.put_all [OF mem1(2), of "sta_pending_msgs st"] ok by (auto simp: pend_list_def)
  show ?thesis
    using a mem1 mem2 by (auto simp: wave_ipcs_sta_decref_def get_sta_def set_sta_def Let_def pend_list_def)
qed

lemma disconnect_inv:
  assumes inv: "srv_inv srv" and cb: "refs_only cb"
    and i: "i < length (srv_stations srv)" "srv_stations srv ! i = Some a"
  shows "\<exists>srv'. disconnect_station cb i a srv = Some srv' \<and> srv_inv srv' \<and>
    srv_stations srv' = (srv_stations srv)[i := None] \<and> (\<forall>b. b \<noteq> a \<longrightarrow> srv_heap srv' b = srv_heap srv b)"
proof -
  have "a \<in> in_table srv" using i by (auto simp: in_table_def in_set_conv_nth intro: exI [of _ i])
  then obtain st where a: "srv_heap srv a = Some st" using srv_invE(5) [OF inv] by blast
  have ok: "station_ok (srv_mem srv) st" by (rule srv_invE(3) [OF inv a])
  let ?st1 = "st\<lparr>sta_connected := False\<rparr>"
  let ?srv1 = "(set_sta a ?st1 srv)\<lparr>srv_has_pending := srv_has_pending srv - int (num_pending st)\<rparr>"
  have a1: "srv_heap ?srv1 a = Some ?st1" by (simp add: set_sta_def)
  obtain k where k: "k \<ge> 0" "wave_ipcs_removing_client cb a ?srv1 =
      Some (set_sta a (?st1\<lparr>sta_refcnt := sta_refcnt ?st1 + k\<rparr>) ?srv1)"
    using cb a1 unfolding refs_only_def by blast
  let ?st2 = "?st1\<lparr>sta_refcnt := sta_refcnt ?st1 + k\<rparr>"
  let ?srv2 = "set_sta a ?st2 ?srv1"
  have a2: "srv_heap ?srv2 a = Some ?st2" by (simp add: set_sta_def)
  have pl: "pend_list ?st2 = pend_list st" by (simp add: pend_list_def)
  have run: "disconnect_station cb i a srv =
      do { (_, srv3) \<leftarrow> wave_ipcs_sta_decref (Some a) ?srv2; Some (set_slot i None srv3) }"
    using a k(2) by (simp add: disconnect_station_def get_sta_def Let_def)
  have mem2: "srv_mem ?srv2 = srv_mem srv" by (simp add: set_sta_def)
  have "ipc_mem_ok (srv_mem ?srv2)" "distinct (pend_list ?st2)" "\<forall>m \<in> set (pend_list ?st2). msg_single (srv_mem ?srv2) m"
    using srv_invE(1) [OF inv] ok unfolding mem2 pl by (simp_all add: station_ok_def)
  note dec = decref_eq [OF a2 this]
  have others: "\<forall>b stb m. b \<noteq> a \<longrightarrow> srv_heap srv b = Some stb \<longrightarrow> m \<in> set (pend_list stb) \<longrightarrow>
      msg_single (srv_mem srv) m \<and> m \<notin> set (pend_list st)"
    using srv_invE(3,4) [OF inv] a unfolding station_ok_def by blast
  show ?thesis
  proof (cases "sta_refcnt ?st2 - 1 = 0")
    case False
    let ?st3 = "?st2\<lparr>sta_refcnt := sta_refcnt ?st2 - 1\<rparr>"
    let ?srv3 = "?srv2\<lparr>srv_heap := (srv_heap ?srv2)(a \<mapsto> ?st3)\<rparr>"
    have res: "disconnect_station cb i a srv = Some (set_slot i None ?srv3)"
      using dec False run by simp
    have "srv_inv (set_slot i None ?srv3)"
      using others srv_invE(1) [OF inv] ok k(1) False
      by (intro srv_inv_leave [OF inv i a, where sto = "Some ?st3"])
         (auto simp: set_slot_def set_sta_def station_ok_def pend_list_def)
    with res show ?thesis by (auto simp: set_slot_def set_sta_def)
  next
    case True
    then obtain mem' where m: "wave_ipcs_sta_decref (Some a) ?srv2 =
        Some (WAVE_IPC_SUCCESS, ?srv2\<lparr>srv_mem := mem', srv_heap := (srv_heap ?srv2)(a := None),
                                    srv_closed := srv_closed ?srv2 @ [a]\<rparr>)"
      "ipc_mem_ok mem'" "\<forall>c. c \<notin> set (pend_list st) \<longrightarrow> msg_single mem' c = msg_single (srv_mem srv) c"
      using dec unfolding pl mem2 by auto
    let ?srv3 = "?srv2\<lparr>srv_mem := mem', srv_heap := (srv_heap ?srv2)(a := None), srv_closed := srv_closed ?srv2 @ [a]\<rparr>"
    have "srv_inv (set_slot i None ?srv3)"
      using others m(2,3)
      by (intro srv_inv_leave [OF inv i a, where sto = None]) (auto simp: set_slot_def set_sta_def)
    with run m(1) show ?thesis by (auto simp: set_slot_def set_sta_def)
  qed
qed

text \<open>Resending: the bytes of a message on the wire, and what one list's loop does.\<close>

definition wire_image :: "ipc_mem \<Rightarrow> nat \<Rightarrow> u8 list" where
  "wire_image mem m = packet_info (ipc_msgs mem m) @ msg_bytes (ipc_msgs mem m)"

lemma srv_send_cases:
  assumes "srv_heap srv a = Some st" "msg_single (srv_mem srv) m"
  shows "(\<exists>ret. ret \<noteq> WAVE_IPC_SUCCESS \<and> srv_send res a m srv = Some (ret, srv)) \<or>
    srv_send res a m srv =
      Some (WAVE_IPC_SUCCESS, srv\<lparr>srv_wire := srv_wire srv @ [(a, wire_image (srv_mem srv) m)]\<rparr>)"
proof -
  have "load_msg m (srv_mem srv) = Some (ipc_msgs (srv_mem srv) m)"
    using assms(2) by (simp add: load_held ms.single_held)
  then show ?thesis using assms(1)
    by (cases res) (auto simp: srv_send_def get_sta_def wave_ipc_send_msg_def wire_image_def)
qed

lemma resend_list_spec:
  assumes "srv_heap srv a = Some st" "ipc_mem_ok (srv_mem srv)" "distinct ms" "\<forall>m \<in> set ms. msg_single (srv_mem srv) m"
    "ret = WAVE_IPC_SUCCESS"
  shows "\<exists>ret' first' rs' k att mem'. k \<le> length ms \<and>
    resend_list a rs ms ret first srv = Some ((ret', first', drop k ms, rs'),
      srv\<lparr>srv_heap := (srv_heap srv)(a \<mapsto> st\<lparr>sta_resend_attempts := att\<rparr>), srv_mem := mem',
          srv_has_pending := srv_has_pending srv - int k,
          srv_wire := srv_wire srv @ map (\<lambda>m. (a, wire_image (srv_mem srv) m)) (take k ms)\<rparr>) \<and>
    (ret' = WAVE_IPC_SUCCESS \<longleftrightarrow> k = length ms) \<and> ipc_mem_ok mem' \<and>
    (\<forall>c. c \<notin> set (take k ms) \<longrightarrow> msg_single mem' c = msg_single (srv_mem srv) c) \<and>
    (\<forall>c. ipc_msgs mem' c = ipc_msgs (srv_mem srv) c)"
  using assms
proof (induction ms arbitrary: rs ret first srv st)
  case Nil
  then show ?case
    by (intro exI [of _ ret] exI [of _ first] exI [of _ rs] exI [of _ 0] exI [of _ "sta_resend_attempts st"]
        exI [of _ "srv_mem srv"]) (simp add: fun_upd_idem)
next
  case (Cons m ms)
  obtain res rs' where ans: "next_answer rs = (res, rs')" by (cases "next_answer rs")
  have m: "msg_single (srv_mem srv) m" using Cons.prems(4) by simp
  from srv_send_cases [OF Cons.prems(1) m, of res] consider
    (blocked) r where "r \<noteq> WAVE_IPC_SUCCESS" "srv_send res a m srv = Some (r, srv)"
    | (sent) "srv_send res a m srv =
        Some (WAVE_IPC_SUCCESS, srv\<lparr>srv_wire := srv_wire srv @ [(a, wire_image (srv_mem srv) m)]\<rparr>)" by blast
  then show ?case
  proof cases
    case blocked
    let ?att = "if first then sta_resend_attempts st + 1 else sta_resend_attempts st"
    have run: "resend_list a rs (m # ms) ret first srv =
        Some ((r, first, m # ms, rs'), srv\<lparr>srv_heap := (srv_heap srv)(a \<mapsto> st\<lparr>sta_resend_attempts := ?att\<rparr>)\<rparr>)"
      using Cons.prems(1) blocked ans by (simp add: get_sta_def set_sta_def fun_upd_idem)
    show ?thesis
      by (rule exI [of _ r], rule exI [of _ first], rule exI [of _ rs'], rule exI [of _ 0],
          rule exI [of _ ?att], rule exI [of _ "srv_mem srv"])
         (use run blocked(1) Cons.prems(2) in \<open>simp add: fun_upd_def split del: if_split del: resend_list.simps\<close>)
  next
    case sent
    obtain mem1 where mem1: "wave_ipc_msg_put (Some m) (srv_mem srv) = Some mem1" "ipc_mem_ok mem1"
      "\<forall>c. ipc_msgs mem1 c = ipc_msgs (srv_mem srv) c" "\<forall>c. c \<noteq> m \<longrightarrow> msg_single mem1 c = msg_single (srv_mem srv) c"
      using ms.put_law [OF Cons.prems(2) m] by blast
    let ?st1 = "st\<lparr>sta_resend_attempts := 0\<rparr>"
    let ?srv1 = "srv\<lparr>srv_heap := (srv_heap srv)(a \<mapsto> ?st1), srv_mem := mem1, srv_has_pending := srv_has_pending srv - 1,
      srv_wire := srv_wire srv @ [(a, wire_image (srv_mem srv) m)]\<rparr>"
    have step: "resend_list a rs (m # ms) ret first srv = resend_list a rs' ms WAVE_IPC_SUCCESS False ?srv1"
      using sent ans mem1(1) Cons.prems(1)
      by (simp add: get_sta_def set_sta_def srv_put_def)
        (rule arg_cong [where f = "resend_list a rs' ms WAVE_IPC_SUCCESS False"], simp)
    have "\<forall>c \<in> set ms. msg_single mem1 c" using mem1(4) Cons.prems(3,4) by auto
    then have pre: "srv_heap ?srv1 a = Some ?st1" "ipc_mem_ok (srv_mem ?srv1)" "distinct ms"
      "\<forall>c \<in> set ms. msg_single (srv_mem ?srv1) c" using mem1(2) Cons.prems(3) by simp_all
    from Cons.IH [OF pre refl, of rs' False] obtain ret' first' rs'' k att mem' where
      IH: "k \<le> length ms" "resend_list a rs' ms WAVE_IPC_SUCCESS False ?srv1 = Some ((ret', first', drop k ms, rs''),
        ?srv1\<lparr>srv_heap := (srv_heap ?srv1)(a \<mapsto> ?st1\<lparr>sta_resend_attempts := att\<rparr>), srv_mem := mem',
          srv_has_pending := srv_has_pending ?srv1 - int k,
          srv_wire := srv_wire ?srv1 @ map (\<lambda>m. (a, wire_image (srv_mem ?srv1) m)) (take k ms)\<rparr>)"
      "ret' = WAVE_IPC_SUCCESS \<longleftrightarrow> k = length ms" "ipc_mem_ok mem'"
      "\<forall>c. c \<notin> set (take k ms) \<longrightarrow> msg_single mem' c = msg_single (srv_mem ?srv1) c"
      "\<forall>c. ipc_msgs mem' c = ipc_msgs (srv_mem ?srv1) c" by blast
    have img: "wire_image mem1 c = wire_image (srv_mem srv) c" for c using mem1(3) by (simp add: wire_image_def)
    have run: "resend_list a rs (m # ms) ret first srv = Some ((ret', first', drop (Suc k) (m # ms), rs''),
      srv\<lparr>srv_heap := (srv_heap srv)(a \<mapsto> st\<lparr>sta_resend_attempts := att\<rparr>), srv_mem := mem',
          srv_has_pending := srv_has_pending srv - int (Suc k),
          srv_wire := srv_wire srv @ map (\<lambda>m. (a, wire_image (srv_mem srv) m)) (take (Suc k) (m # ms))\<rparr>)"
      using step IH(2) by (simp add: img diff_diff_eq del: resend_list.simps)
    show ?thesis
      by (rule exI [of _ ret'], rule exI [of _ first'], rule exI [of _ rs''], rule exI [of _ "Suc k"],
          rule exI [of _ att], rule exI [of _ mem'], intro conjI)
        (rule run | use IH mem1(3,4) in \<open>simp\<close>)+
  qed
qed

text \<open>
  Resending to a station: a prefix of what waits, the replies before the other messages and
  each in its order, goes over the wire and is released, the rest stays.
\<close>

lemma resend_pending_spec:
  assumes inv: "srv_inv srv" and a: "srv_heap srv a = Some st"
  shows "\<exists>k st' mem'. k \<le> length (pend_list st) \<and>
    wave_ipcs_sta_resend_pending rs a srv = Some (srv\<lparr>srv_heap := (srv_heap srv)(a \<mapsto> st'), srv_mem := mem',
        srv_has_pending := srv_has_pending srv - int k,
        srv_wire := srv_wire srv @ map (\<lambda>m. (a, wire_image (srv_mem srv) m)) (take k (pend_list st))\<rparr>) \<and>
    pend_list st' = drop k (pend_list st) \<and> (sta_has_pending st' \<longleftrightarrow> pend_list st' \<noteq> []) \<and>
    sta_connected st' = sta_connected st \<and> sta_refcnt st' = sta_refcnt st \<and> ipc_mem_ok mem' \<and>
    (\<forall>c. c \<notin> set (take k (pend_list st)) \<longrightarrow> msg_single mem' c = msg_single (srv_mem srv) c) \<and>
    (\<forall>c. ipc_msgs mem' c = ipc_msgs (srv_mem srv) c)"
proof -
  have ok: "station_ok (srv_mem srv) st" by (rule srv_invE(3) [OF inv a])
  let ?R = "sta_pending_replies st" and ?M = "sta_pending_msgs st"
  have R: "distinct ?R" "\<forall>m \<in> set ?R. msg_single (srv_mem srv) m"
    and M: "distinct ?M" "\<forall>m \<in> set ?M. msg_single (srv_mem srv) m" and RM: "set ?R \<inter> set ?M = {}"
    using ok by (auto simp: station_ok_def pend_list_def)
  obtain ret1 first1 rs1 k1 att1 mem1 where one: "k1 \<le> length ?R"
    "resend_list a rs ?R WAVE_IPC_SUCCESS True srv = Some ((ret1, first1, drop k1 ?R, rs1),
      srv\<lparr>srv_heap := (srv_heap srv)(a \<mapsto> st\<lparr>sta_resend_attempts := att1\<rparr>), srv_mem := mem1,
          srv_has_pending := srv_has_pending srv - int k1,
          srv_wire := srv_wire srv @ map (\<lambda>m. (a, wire_image (srv_mem srv) m)) (take k1 ?R)\<rparr>)"
    "ret1 = WAVE_IPC_SUCCESS \<longleftrightarrow> k1 = length ?R" "ipc_mem_ok mem1"
    "\<forall>c. c \<notin> set (take k1 ?R) \<longrightarrow> msg_single mem1 c = msg_single (srv_mem srv) c"
    "\<forall>c. ipc_msgs mem1 c = ipc_msgs (srv_mem srv) c"
    using resend_list_spec [OF a srv_invE(1) [OF inv] R refl, of rs True] by blast
  show ?thesis
  proof (cases "k1 = length ?R")
    case False
    let ?st = "st\<lparr>sta_resend_attempts := att1, sta_pending_replies := drop k1 ?R, sta_has_pending := True\<rparr>"
    have run: "wave_ipcs_sta_resend_pending rs a srv = Some (srv\<lparr>srv_heap := (srv_heap srv)(a \<mapsto> ?st), srv_mem := mem1,
        srv_has_pending := srv_has_pending srv - int k1,
        srv_wire := srv_wire srv @ map (\<lambda>m. (a, wire_image (srv_mem srv) m)) (take k1 ?R)\<rparr>)"
      using False one(1,2,3) a by (simp add: wave_ipcs_sta_resend_pending_def get_sta_def set_sta_def Let_def)
    have "pend_list ?st = drop k1 (pend_list st)" "take k1 (pend_list st) = take k1 ?R"
      using one(1) by (simp_all add: pend_list_def)
    moreover have "pend_list ?st \<noteq> []" using False one(1) by (simp add: pend_list_def)
    ultimately show ?thesis using run one(1,4,5,6)
      by (intro exI [of _ k1] exI [of _ ?st] exI [of _ mem1]) (simp add: pend_list_def)
  next
    case True
    let ?st1 = "st\<lparr>sta_resend_attempts := att1, sta_pending_replies := []\<rparr>"
    let ?srv1 = "srv\<lparr>srv_heap := (srv_heap srv)(a \<mapsto> ?st1), srv_mem := mem1,
          srv_has_pending := srv_has_pending srv - int k1,
          srv_wire := srv_wire srv @ map (\<lambda>m. (a, wire_image (srv_mem srv) m)) ?R\<rparr>"
    have a1: "srv_heap ?srv1 a = Some ?st1" by simp
    have M1: "\<forall>m \<in> set ?M. msg_single (srv_mem ?srv1) m" using M(2) one(5) RM True by auto
    have "ipc_mem_ok (srv_mem ?srv1)" using one(4) by simp
    from resend_list_spec [OF a1 this M(1) M1 refl, of rs1 first1]
    obtain ret2 first2 rs2 k2 att2 mem2 where two: "k2 \<le> length ?M"
      "resend_list a rs1 ?M WAVE_IPC_SUCCESS first1 ?srv1 = Some ((ret2, first2, drop k2 ?M, rs2),
        ?srv1\<lparr>srv_heap := (srv_heap ?srv1)(a \<mapsto> ?st1\<lparr>sta_resend_attempts := att2\<rparr>), srv_mem := mem2,
          srv_has_pending := srv_has_pending ?srv1 - int k2,
          srv_wire := srv_wire ?srv1 @ map (\<lambda>m. (a, wire_image (srv_mem ?srv1) m)) (take k2 ?M)\<rparr>)"
      "ipc_mem_ok mem2" "\<forall>c. c \<notin> set (take k2 ?M) \<longrightarrow> msg_single mem2 c = msg_single (srv_mem ?srv1) c"
      "\<forall>c. ipc_msgs mem2 c = ipc_msgs (srv_mem ?srv1) c" by blast
    have img: "wire_image mem1 c = wire_image (srv_mem srv) c" for c using one(6) by (simp add: wire_image_def)
    let ?st = "?st1\<lparr>sta_resend_attempts := att2, sta_pending_msgs := drop k2 ?M, sta_has_pending := (drop k2 ?M \<noteq> [])\<rparr>"
    have ret1: "ret1 = WAVE_IPC_SUCCESS" using one(3) True by simp
    have run: "wave_ipcs_sta_resend_pending rs a srv = Some (srv\<lparr>srv_heap := (srv_heap srv)(a \<mapsto> ?st), srv_mem := mem2,
        srv_has_pending := srv_has_pending srv - int k1 - int k2,
        srv_wire := srv_wire srv @ map (\<lambda>m. (a, wire_image (srv_mem srv) m)) (?R @ take k2 ?M)\<rparr>)"
      using one(2) two(2) ret1 True a
      by (cases srv) (simp add: wave_ipcs_sta_resend_pending_def get_sta_def set_sta_def Let_def img)
    have "pend_list ?st = drop (k1 + k2) (pend_list st)" "take (k1 + k2) (pend_list st) = ?R @ take k2 ?M"
      "k1 + k2 \<le> length (pend_list st)"
      using True two(1) by (simp_all add: pend_list_def)
    with run two(3,4,5) one(5,6) True show ?thesis
      by (intro exI [of _ "k1 + k2"] exI [of _ ?st] exI [of _ mem2]) (simp add: pend_list_def)
  qed
qed


text \<open>Memory changes, and stations outside the table are forgotten.\<close>

lemma srv_inv_fewer:
  assumes inv: "srv_inv srv"
    and same: "srv_stations srv' = srv_stations srv" "srv_has_pending srv' = srv_has_pending srv"
    and heap: "\<forall>b. srv_heap srv' b = srv_heap srv b \<or> (srv_heap srv' b = None \<and> b \<notin> in_table srv)"
    and mem: "ipc_mem_ok (srv_mem srv')"
    and keep: "\<forall>b st m. srv_heap srv' b = Some st \<longrightarrow> m \<in> set (pend_list st) \<longrightarrow> msg_single (srv_mem srv') m"
  shows "srv_inv srv'"
proof -
  have table: "in_table srv' = in_table srv" by (simp add: in_table_def same)
  have old: "srv_heap srv b = Some st" if "srv_heap srv' b = Some st" for b st using heap that by (metis option.distinct(1))
  have w: "waiting_for srv' b = waiting_for srv b" if "b \<in> in_table srv" for b
    using heap that by (metis waiting_for_def)
  have sums: "(\<Sum>b \<in> in_table srv'. f (waiting_for srv' b)) = (\<Sum>b \<in> in_table srv. f (waiting_for srv b))" for f :: "nat \<Rightarrow> nat"
    unfolding table by (intro sum.cong) (auto simp: w)
  have sta: "station_ok (srv_mem srv') st" if "srv_heap srv' b = Some st" for b st
    using srv_invE(3) [OF inv old [OF that]] keep that by (auto simp: station_ok_def)
  have disj: "set (pend_list st) \<inter> set (pend_list st') = {}"
    if "b \<noteq> c" "srv_heap srv' b = Some st" "srv_heap srv' c = Some st'" for b c st st'
    using srv_invE(4) [OF inv old [OF that(2)] old [OF that(3)] that(1)] .
  have conn: "b \<in> in_table srv' \<longleftrightarrow> (\<exists>st. srv_heap srv' b = Some st \<and> sta_connected st)" for b
  proof
    assume "b \<in> in_table srv'"
    then show "\<exists>st. srv_heap srv' b = Some st \<and> sta_connected st"
      using heap srv_invE(5) [OF inv] table by (metis)
  next
    assume "\<exists>st. srv_heap srv' b = Some st \<and> sta_connected st"
    then show "b \<in> in_table srv'" using old in_table_connected [OF inv] table by blast
  qed
  have "srv_has_pending srv' = int (\<Sum>b \<in> in_table srv'. waiting_for srv' b)"
    using inv sums [of "\<lambda>n. n"] same(2) by (simp add: srv_inv_def del: of_nat_sum)
  moreover have "(\<Sum>b \<in> in_table srv'. waiting_for srv' b - STA_MAX_NUM_PENDING_ON_SERV_LIMIT) \<le> MAX_NUM_PENDING_IPC_MSGS"
    using inv sums [of "\<lambda>n. n - STA_MAX_NUM_PENDING_ON_SERV_LIMIT"] by (simp add: srv_inv_def)
  ultimately show ?thesis
    using inv mem sta disj conn same(1) unfolding srv_inv_def by metis
qed

lemma pend_single: "srv_inv srv \<Longrightarrow> srv_heap srv a = Some st \<Longrightarrow> m \<in> set (pend_list st) \<Longrightarrow> msg_single (srv_mem srv) m"
  using srv_invE(3) by (auto simp: station_ok_def)

lemma release_inv:
  assumes inv: "srv_inv srv" and m: "msg_single (srv_mem srv) m" "not_pending srv m"
  shows "\<exists>srv'. srv_put (Some m) srv = Some srv' \<and> srv_inv srv'"
proof -
  obtain mem where put: "wave_ipc_msg_put (Some m) (srv_mem srv) = Some mem" "ipc_mem_ok mem"
    "\<forall>c. c \<noteq> m \<longrightarrow> msg_single mem c = msg_single (srv_mem srv) c"
    using ms.put_law [OF srv_invE(1) [OF inv] m(1)] by blast
  have "msg_single mem c" if h: "srv_heap srv b = Some st" "c \<in> set (pend_list st)" for b st c
  proof -
    have "c \<noteq> m" using m(2) h unfolding not_pending_def by blast
    with put(3) pend_single [OF inv h] show ?thesis by simp
  qed
  then have "srv_inv (srv\<lparr>srv_mem := mem\<rparr>)" by (intro srv_inv_fewer [OF inv]) (use put in auto)
  with put show ?thesis by (simp add: srv_put_def)
qed

lemma incref_inv:
  assumes inv: "srv_inv srv" and a: "srv_heap srv a = Some st"
  shows "\<exists>srv'. wave_ipcs_sta_incref (Some a) srv = Some (WAVE_IPC_SUCCESS, srv') \<and> srv_inv srv'"
proof -
  let ?st = "st\<lparr>sta_refcnt := sta_refcnt st + 1\<rparr>"
  have ok: "station_ok (srv_mem srv) st" by (rule srv_invE(3) [OF inv a])
  have keep: "\<forall>b stb m. b \<noteq> a \<longrightarrow> srv_heap srv b = Some stb \<longrightarrow> m \<in> set (pend_list stb) \<longrightarrow> msg_single (srv_mem srv) m"
    using srv_invE(3) [OF inv] by (auto simp: station_ok_def)
  have "srv_inv (set_sta a ?st srv)"
    by (rule srv_inv_update [OF inv a, where st' = ?st])
       (use ok keep srv_invE(1,4) [OF inv] a in
         \<open>auto simp: set_sta_def station_ok_def pend_list_def num_pending_def\<close>)
  with a show ?thesis by (simp add: wave_ipcs_sta_incref_def get_sta_def)
qed

lemma decref_inv:
  assumes inv: "srv_inv srv" and a: "srv_heap srv a = Some st" and extra: "2 \<le> sta_refcnt st \<or> a \<notin> in_table srv"
  shows "\<exists>srv'. wave_ipcs_sta_decref (Some a) srv = Some (WAVE_IPC_SUCCESS, srv') \<and> srv_inv srv'"
proof -
  have ok: "station_ok (srv_mem srv) st" by (rule srv_invE(3) [OF inv a])
  then have pl: "distinct (pend_list st)" "\<forall>m \<in> set (pend_list st). msg_single (srv_mem srv) m"
    by (simp_all add: station_ok_def)
  have keep: "\<forall>b stb m. b \<noteq> a \<longrightarrow> srv_heap srv b = Some stb \<longrightarrow> m \<in> set (pend_list stb) \<longrightarrow>
      msg_single (srv_mem srv) m \<and> m \<notin> set (pend_list st)"
    using srv_invE(3,4) [OF inv] a unfolding station_ok_def by blast
  note dec = decref_eq [OF a srv_invE(1) [OF inv] pl]
  show ?thesis
  proof (cases "sta_refcnt st - 1 = 0")
    case False
    let ?st = "st\<lparr>sta_refcnt := sta_refcnt st - 1\<rparr>"
    have "srv_inv (srv\<lparr>srv_heap := (srv_heap srv)(a \<mapsto> ?st)\<rparr>)"
      by (rule srv_inv_update [OF inv a, where st' = ?st])
         (use ok keep False srv_invE(1,4) [OF inv] a in
           \<open>auto simp: station_ok_def pend_list_def num_pending_def\<close>)
    with dec False show ?thesis by simp
  next
    case True
    then obtain mem' where m: "wave_ipcs_sta_decref (Some a) srv = Some (WAVE_IPC_SUCCESS,
        srv\<lparr>srv_mem := mem', srv_heap := (srv_heap srv)(a := None), srv_closed := srv_closed srv @ [a]\<rparr>)"
      "ipc_mem_ok mem'" "\<forall>c. c \<notin> set (pend_list st) \<longrightarrow> msg_single mem' c = msg_single (srv_mem srv) c"
      using dec by auto
    have "srv_inv (srv\<lparr>srv_mem := mem', srv_heap := (srv_heap srv)(a := None), srv_closed := srv_closed srv @ [a]\<rparr>)"
      by (rule srv_inv_fewer [OF inv]) (use keep m(2,3) extra True in auto)
    with m(1) show ?thesis by blast
  qed
qed


lemma resend_inv:
  assumes inv: "srv_inv srv" and a: "srv_heap srv a = Some st" and c: "sta_connected st"
  shows "\<exists>srv' st'. wave_ipcs_sta_resend_pending rs a srv = Some srv' \<and> srv_inv srv' \<and>
    srv_stations srv' = srv_stations srv \<and> srv_heap srv' a = Some st'"
proof -
  obtain k st' mem' where r: "k \<le> length (pend_list st)"
    "wave_ipcs_sta_resend_pending rs a srv = Some (srv\<lparr>srv_heap := (srv_heap srv)(a \<mapsto> st'), srv_mem := mem',
        srv_has_pending := srv_has_pending srv - int k,
        srv_wire := srv_wire srv @ map (\<lambda>m. (a, wire_image (srv_mem srv) m)) (take k (pend_list st))\<rparr>)"
    "pend_list st' = drop k (pend_list st)" "sta_has_pending st' \<longleftrightarrow> pend_list st' \<noteq> []"
    "sta_connected st' = sta_connected st" "sta_refcnt st' = sta_refcnt st" "ipc_mem_ok mem'"
    "\<forall>c. c \<notin> set (take k (pend_list st)) \<longrightarrow> msg_single mem' c = msg_single (srv_mem srv) c"
    using resend_pending_spec [OF inv a] by blast
  have ok: "1 \<le> sta_refcnt st" "distinct (pend_list st)" using srv_invE(3) [OF inv a] by (simp_all add: station_ok_def)
  have "set (take k (pend_list st)) \<inter> set (drop k (pend_list st)) = {}"
    using ok(2) by (simp add: set_take_disj_set_drop_if_distinct)
  then have "\<forall>m \<in> set (drop k (pend_list st)). msg_single mem' m"
    using r(8) pend_single [OF inv a] in_set_dropD by (metis IntI empty_iff)
  then have st': "station_ok mem' st'" using ok r(3-6) by (simp add: station_ok_def)
  have sub: "set (pend_list st') \<subseteq> set (pend_list st)" using r(3) by (simp add: set_drop_subset)
  have np: "int (num_pending st') - int (num_pending st) = - int k" using r(1,3) by (simp add: num_pending_length)
  have keep: "\<forall>b stb m. b \<noteq> a \<longrightarrow> srv_heap srv b = Some stb \<longrightarrow> m \<in> set (pend_list stb) \<longrightarrow> msg_single mem' m"
    using r(8) pend_single [OF inv] srv_invE(4) [OF inv a] set_take_subset by (metis IntI empty_iff subsetD)
  have disj: "\<forall>b stb. b \<noteq> a \<longrightarrow> srv_heap srv b = Some stb \<longrightarrow> set (pend_list stb) \<inter> set (pend_list st') = {}"
    using srv_invE(4) [OF inv _ a] sub by blast
  have "srv_inv (srv\<lparr>srv_heap := (srv_heap srv)(a \<mapsto> st'), srv_mem := mem',
        srv_has_pending := srv_has_pending srv - int k,
        srv_wire := srv_wire srv @ map (\<lambda>m. (a, wire_image (srv_mem srv) m)) (take k (pend_list st))\<rparr>)"
    by (rule srv_inv_update [OF inv a, where st' = st'])
       (use r(5,7) st' keep disj np c in \<open>simp_all add: r(3)\<close>)
  with r(2) show ?thesis by simp
qed

text \<open>A step of an operation that keeps the invariant.\<close>

definition steps_safely :: "ipserver option \<Rightarrow> bool" where
  "steps_safely r \<longleftrightarrow> (\<exists>srv'. r = Some srv' \<and> srv_inv srv')"

lemma resend_or_drop_inv:
  assumes inv: "srv_inv srv" and cb: "refs_only cb" and i: "i < IPC_CLIENT_ARR_SIZE"
  shows "steps_safely (resend_or_drop cb rs i srv)"
proof (cases "srv_stations srv ! i")
  case None
  with inv show ?thesis by (simp add: resend_or_drop_def steps_safely_def)
next
  case (Some a)
  have i': "i < length (srv_stations srv)" using i srv_invE(2) [OF inv] by (simp add: table_ok_def)
  have "a \<in> in_table srv" using i' Some by (auto simp: in_table_def in_set_conv_nth intro: exI [of _ i])
  then obtain st where st: "srv_heap srv a = Some st" "sta_connected st" using srv_invE(5) [OF inv] by blast
  obtain srv1 st1 where r: "wave_ipcs_sta_resend_pending rs a srv = Some srv1" "srv_inv srv1"
    "srv_stations srv1 = srv_stations srv" "srv_heap srv1 a = Some st1"
    using resend_inv [OF inv st] by blast
  have "i < length (srv_stations srv1)" "srv_stations srv1 ! i = Some a" using i' Some r(3) by simp_all
  from disconnect_inv [OF r(2) cb this] obtain srv2 where "disconnect_station cb i a srv1 = Some srv2" "srv_inv srv2" by blast
  with r inv Some st show ?thesis by (auto simp: resend_or_drop_def get_sta_def steps_safely_def)
qed

text \<open>A new station enters the table.\<close>

lemma srv_inv_enter:
  assumes inv: "srv_inv srv" and i: "i < length (srv_stations srv)" "srv_stations srv ! i = None"
    and none: "srv_heap srv a = None"
    and s3: "srv_stations srv' = (srv_stations srv)[i := Some a]" "srv_heap srv' = (srv_heap srv)(a \<mapsto> st')"
      "srv_mem srv' = srv_mem srv" "srv_has_pending srv' = srv_has_pending srv"
    and st': "pend_list st' = []" "sta_connected st'" "\<not> sta_has_pending st'" "1 \<le> sta_refcnt st'"
  shows "srv_inv srv'"
proof -
  have nin: "a \<notin> in_table srv" using srv_invE(5) [OF inv] none by force
  have tab: "table_ok (srv_stations srv')" "in_table srv' = insert a (in_table srv)"
    using table_fill [OF srv_invE(2) [OF inv] i, of a] nin unfolding s3(1) in_table_def by auto
  have w: "waiting_for srv' b = (if b = a then 0 else waiting_for srv b)" for b
    using st'(1) unfolding waiting_for_def s3(2) by (simp add: num_pending_length)
  have sums: "(\<Sum>b \<in> in_table srv'. f (waiting_for srv' b)) = f 0 + (\<Sum>b \<in> in_table srv. f (waiting_for srv b))"
    for f :: "nat \<Rightarrow> nat"
  proof -
    have "(\<Sum>b \<in> in_table srv. f (waiting_for srv' b)) = (\<Sum>b \<in> in_table srv. f (waiting_for srv b))"
      by (intro sum.cong) (use nin w in auto)
    then show ?thesis using nin w by (simp add: tab(2))
  qed
  have "srv_has_pending srv' = int (\<Sum>b \<in> in_table srv'. waiting_for srv' b)"
    using inv sums [of "\<lambda>n. n"] unfolding s3(4) by (simp add: srv_inv_def del: of_nat_sum)
  moreover have "(\<Sum>b \<in> in_table srv'. waiting_for srv' b - STA_MAX_NUM_PENDING_ON_SERV_LIMIT) \<le> MAX_NUM_PENDING_IPC_MSGS"
    using inv sums [of "\<lambda>n. n - STA_MAX_NUM_PENDING_ON_SERV_LIMIT"] by (simp add: srv_inv_def)
  moreover have "station_ok (srv_mem srv') st" if "srv_heap srv' b = Some st" for b st
    using that srv_invE(3) [OF inv] st' unfolding s3(2,3) by (cases "b = a") (auto simp: station_ok_def)
  moreover have "set (pend_list st1) \<inter> set (pend_list st2) = {}"
    if "b \<noteq> c" "srv_heap srv' b = Some st1" "srv_heap srv' c = Some st2" for b c st1 st2
    using that srv_invE(4) [OF inv] st'(1) unfolding s3(2) by (cases "b = a"; cases "c = a") auto
  moreover have "b \<in> in_table srv' \<longleftrightarrow> (\<exists>st. srv_heap srv' b = Some st \<and> sta_connected st)" for b
    using inv st'(2) unfolding tab(2) s3(2) by (cases "b = a") (simp_all add: srv_inv_def)
  ultimately show ?thesis using tab(1) srv_invE(1) [OF inv] s3(3) unfolding srv_inv_def by metis
qed

lemma accept_inv:
  assumes inv: "srv_inv srv" and cb: "refs_only cb" and fresh: "\<And>a. mem = Some a \<Longrightarrow> srv_heap srv a = None"
  shows "\<exists>ret srv'. wave_ipcs_accept_new_client cb mem fd lists_ok peer srv = Some (ret, srv') \<and> srv_inv srv'"
proof -
  let ?fail = "wave_ipcs_accept_new_client cb mem fd lists_ok peer srv = Some (WAVE_IPC_ERROR, srv)"
  consider ?fail
    | a sock i where "mem = Some a" "fd = Some sock" "lists_ok" "srv_num_stas srv \<noteq> IPC_CLIENT_ARR_SIZE"
        "free_slot (take IPC_CLIENT_ARR_SIZE (srv_stations srv)) = Some i"
    by (cases mem; cases fd; cases lists_ok; cases "srv_num_stas srv = IPC_CLIENT_ARR_SIZE";
        cases "free_slot (take IPC_CLIENT_ARR_SIZE (srv_stations srv))")
       (auto simp: wave_ipcs_accept_new_client_def)
  then show ?thesis
  proof cases
    case 1
    with inv show ?thesis by blast
  next
    case (2 a sock i)
    have len: "length (srv_stations srv) = IPC_CLIENT_ARR_SIZE" using srv_invE(2) [OF inv] by (simp add: table_ok_def)
    have i: "i < length (srv_stations srv)" "srv_stations srv ! i = None" using free_slot_Some [OF 2(5)] len by auto
    have none: "srv_heap srv a = None" using fresh 2(1) by blast
    have nin: "a \<notin> in_table srv" using srv_invE(5) [OF inv] none by force
    let ?st = "(new_station sock peer)\<lparr>sta_connected := True\<rparr>"
    let ?srv1 = "set_slot i (Some a) (set_sta a ?st srv)"
    let ?st2 = "?st\<lparr>sta_refcnt := sta_refcnt ?st + 1\<rparr>"
    let ?srv2 = "set_sta a ?st2 ?srv1"
    have a2: "srv_heap ?srv2 a = Some ?st2" by (simp add: set_sta_def)
    obtain k where k: "k \<ge> 0" "wave_ipcs_adding_client cb a ?srv2 =
        Some (set_sta a (?st2\<lparr>sta_refcnt := sta_refcnt ?st2 + k\<rparr>) ?srv2)"
      using cb a2 unfolding refs_only_def by blast
    let ?st3 = "?st2\<lparr>sta_refcnt := sta_refcnt ?st2 + k\<rparr>"
    let ?srv3 = "set_sta a ?st3 ?srv2"
    have run: "wave_ipcs_accept_new_client cb mem fd lists_ok peer srv = Some (WAVE_IPC_SUCCESS, ?srv3)"
      using 2 k(2) by (simp add: wave_ipcs_accept_new_client_def wave_ipcs_sta_incref_def get_sta_def set_slot_def
          set_sta_def Let_def)
    have "srv_inv ?srv3"
      by (rule srv_inv_enter [OF inv i none, where st' = ?st3])
         (use k(1) in \<open>simp_all add: set_sta_def set_slot_def pend_list_def new_station_def\<close>)
    with run show ?thesis by blast
  qed
qed


section \<open>What a station gets\<close>

text \<open>What was written to a station's socket, followed by what waits to be written.\<close>

definition station_stream :: "ipserver \<Rightarrow> nat \<Rightarrow> u8 list list" where
  "station_stream srv a = map snd (filter (\<lambda>w. fst w = a) (srv_wire srv)) @
     (case srv_heap srv a of None \<Rightarrow> [] | Some st \<Rightarrow> map (wire_image (srv_mem srv)) (pend_list st))"

lemma would_block_cases:
  assumes inv: "srv_inv srv" and a: "srv_heap srv a = Some st" and m: "msg_single (srv_mem srv) m"
  shows "(\<exists>ret mem. ret \<noteq> WAVE_IPC_SUCCESS \<and>
       wave_ipcs_send_would_block True a m PendingMsgs srv = Some (ret, srv\<lparr>srv_mem := mem\<rparr>) \<and>
       (\<forall>c \<in> msgs_held (srv_mem srv). ipc_msgs mem c = ipc_msgs (srv_mem srv) c)) \<or>
    (\<exists>b mem. wave_ipcs_send_would_block True a m PendingMsgs srv =
       Some (WAVE_IPC_SUCCESS, srv\<lparr>srv_mem := mem, srv_has_pending := srv_has_pending srv + 1,
         srv_heap := (srv_heap srv)(a \<mapsto> st\<lparr>sta_pending_msgs := sta_pending_msgs st @ [b], sta_has_pending := True\<rparr>)\<rparr>) \<and>
       ipc_msgs mem b = ipc_msgs (srv_mem srv) m \<and>
       (\<forall>c \<in> msgs_held (srv_mem srv). ipc_msgs mem c = ipc_msgs (srv_mem srv) c))"
proof -
  obtain d mem where dup: "wave_ipc_msg_dup (Some m) (srv_mem srv) = Some (d, mem)" and mok: "ipc_mem_ok mem"
    and res: "case d of None \<Rightarrow> msgs_held mem = msgs_held (srv_mem srv) \<and>
          (\<forall>c. ipc_msgs mem c = ipc_msgs (srv_mem srv) c) \<and> (\<forall>c. msg_single mem c = msg_single (srv_mem srv) c)
       | Some b \<Rightarrow> b \<notin> msgs_held (srv_mem srv) \<and> msgs_held mem = insert b (msgs_held (srv_mem srv)) \<and>
          ipc_msgs mem b = ipc_msgs (srv_mem srv) m \<and> msg_single mem b \<and>
          (\<forall>c. c \<noteq> b \<longrightarrow> ipc_msgs mem c = ipc_msgs (srv_mem srv) c \<and> msg_single mem c = msg_single (srv_mem srv) c)"
    using ms.dup_law [OF srv_invE(1) [OF inv] m] by blast
  have keep: "\<forall>c \<in> msgs_held (srv_mem srv). ipc_msgs mem c = ipc_msgs (srv_mem srv) c"
    using res by (cases d) (simp_all, metis)
  show ?thesis
  proof (cases d)
    case None
    with dup keep show ?thesis by (auto simp: wave_ipcs_send_would_block_def)
  next
    case (Some b)
    then have b: "msg_single mem b" "ipc_msgs mem b = ipc_msgs (srv_mem srv) m" using res by auto
    let ?full = "srv_has_pending srv \<ge> int MAX_NUM_PENDING_IPC_MSGS \<and> num_pending st \<ge> STA_MAX_NUM_PENDING_ON_SERV_LIMIT"
    consider "\<not> sta_connected st" | "sta_connected st" "?full" | "sta_connected st" "\<not> ?full" by blast
    then show ?thesis
    proof cases
      case 1
      with Some dup a keep show ?thesis by (auto simp: wave_ipcs_send_would_block_def get_sta_def)
    next
      case 2
      obtain mem2 where put: "wave_ipc_msg_put (Some b) mem = Some mem2" "\<forall>c. ipc_msgs mem2 c = ipc_msgs mem c"
        using ms.put_law [OF mok b(1)] by blast
      with 2 Some dup a keep have
        "wave_ipcs_send_would_block True a m PendingMsgs srv = Some (WAVE_IPC_ERROR, srv\<lparr>srv_mem := mem2\<rparr>)"
        by (simp add: wave_ipcs_send_would_block_def get_sta_def srv_put_def)
      with put(2) keep show ?thesis by auto
    next
      case 3
      then have "wave_ipcs_send_would_block True a m PendingMsgs srv =
          Some (WAVE_IPC_SUCCESS, srv\<lparr>srv_mem := mem, srv_has_pending := srv_has_pending srv + 1,
            srv_heap := (srv_heap srv)(a \<mapsto> st\<lparr>sta_pending_msgs := sta_pending_msgs st @ [b], sta_has_pending := True\<rparr>)\<rparr>)"
        using Some dup a by (auto simp: wave_ipcs_send_would_block_def get_sta_def set_sta_def Let_def)
      with b(2) keep show ?thesis by blast
    qed
  qed
qed

lemma images_keep:
  assumes "srv_inv srv" "srv_heap srv a = Some st" "\<forall>c \<in> msgs_held (srv_mem srv). ipc_msgs mem c = ipc_msgs (srv_mem srv) c"
  shows "map (wire_image mem) (pend_list st) = map (wire_image (srv_mem srv)) (pend_list st)"
  using assms pend_single [OF assms(1,2)] ms.single_held by (auto simp: wire_image_def)

lemma stream_same:
  assumes "srv_inv srv" "srv_heap srv' b = srv_heap srv b" "srv_wire srv' = srv_wire srv @ w" "\<forall>x \<in> set w. fst x \<noteq> b"
    "\<forall>c \<in> msgs_held (srv_mem srv). ipc_msgs (srv_mem srv') c = ipc_msgs (srv_mem srv) c"
  shows "station_stream srv' b = station_stream srv b"
proof (cases "srv_heap srv b")
  case None
  with assms show ?thesis by (simp add: station_stream_def filter_False)
next
  case (Some st)
  with assms(2-4) images_keep [OF assms(1) Some assms(5)] show ?thesis by (simp add: station_stream_def filter_False)
qed

lemma send_stream:
  assumes inv: "srv_inv srv" and a: "srv_heap srv a = Some st" "sta_connected st" and m: "msg_single (srv_mem srv) m"
  shows "\<exists>ret srv'. send_or_queue res True PendingMsgs a m srv = Some (ret, srv') \<and>
    station_stream srv' a = station_stream srv a @ (if ret = WAVE_IPC_SUCCESS then [wire_image (srv_mem srv) m] else []) \<and>
    (\<forall>b. b \<noteq> a \<longrightarrow> station_stream srv' b = station_stream srv b)"
proof -
  have blocked: "\<exists>ret srv'. wave_ipcs_send_would_block True a m PendingMsgs srv = Some (ret, srv') \<and>
    station_stream srv' a = station_stream srv a @ (if ret = WAVE_IPC_SUCCESS then [wire_image (srv_mem srv) m] else []) \<and>
    (\<forall>b. b \<noteq> a \<longrightarrow> station_stream srv' b = station_stream srv b)"
    using would_block_cases [OF inv a(1) m]
  proof (elim disjE exE conjE)
    fix ret mem
    assume h: "ret \<noteq> WAVE_IPC_SUCCESS" "wave_ipcs_send_would_block True a m PendingMsgs srv = Some (ret, srv\<lparr>srv_mem := mem\<rparr>)"
      "\<forall>c \<in> msgs_held (srv_mem srv). ipc_msgs mem c = ipc_msgs (srv_mem srv) c"
    have "station_stream (srv\<lparr>srv_mem := mem\<rparr>) b = station_stream srv b" for b
      by (rule stream_same [OF inv, where w = "[]"]) (use h(3) in simp_all)
    with h(1,2) show ?thesis by simp
  next
    fix b mem
    let ?st = "st\<lparr>sta_pending_msgs := sta_pending_msgs st @ [b], sta_has_pending := True\<rparr>"
    let ?srv = "srv\<lparr>srv_mem := mem, srv_has_pending := srv_has_pending srv + 1, srv_heap := (srv_heap srv)(a \<mapsto> ?st)\<rparr>"
    assume h: "wave_ipcs_send_would_block True a m PendingMsgs srv = Some (WAVE_IPC_SUCCESS, ?srv)"
      "ipc_msgs mem b = ipc_msgs (srv_mem srv) m" "\<forall>c \<in> msgs_held (srv_mem srv). ipc_msgs mem c = ipc_msgs (srv_mem srv) c"
    have "station_stream ?srv c = station_stream srv c" if "c \<noteq> a" for c
      by (rule stream_same [OF inv, where w = "[]"]) (use h(3) that in simp_all)
    moreover have "station_stream ?srv a = station_stream srv a @ [wire_image (srv_mem srv) m]"
      using images_keep [OF inv a(1) h(3)] a(1) h(2) by (simp add: station_stream_def pend_list_def wire_image_def)
    ultimately show ?thesis using h(1) by simp
  qed
  show ?thesis
  proof (cases "sta_socket st = None")
    case True
    with a show ?thesis by (simp add: send_or_queue_def get_sta_def)
  next
    case sock: False
    show ?thesis
    proof (cases "sta_has_pending st")
      case True
      with sock a blocked show ?thesis by (simp add: send_or_queue_def get_sta_def)
    next
      case False
      then have none: "pend_list st = []" using srv_invE(3) [OF inv a(1)] a(2) by (simp add: station_ok_def)
      let ?sent = "srv\<lparr>srv_wire := srv_wire srv @ [(a, wire_image (srv_mem srv) m)]\<rparr>"
      from srv_send_cases [OF a(1) m, of res] show ?thesis
      proof (elim disjE exE conjE)
        fix ret
        assume "ret \<noteq> WAVE_IPC_SUCCESS" "srv_send res a m srv = Some (ret, srv)"
        with sock a False blocked show ?thesis by (cases "ret = WAVE_IPC_CMD_WOULD_BLOCK") (simp_all add: send_or_queue_def get_sta_def)
      next
        assume s: "srv_send res a m srv = Some (WAVE_IPC_SUCCESS, ?sent)"
        have "station_stream ?sent b = station_stream srv b" if "b \<noteq> a" for b
          by (rule stream_same [OF inv, where w = "[(a, wire_image (srv_mem srv) m)]"]) (use that in simp_all)
        moreover have "station_stream ?sent a = station_stream srv a @ [wire_image (srv_mem srv) m]"
          using a(1) none by (simp add: station_stream_def)
        ultimately show ?thesis using s sock a(1) False by (simp add: send_or_queue_def get_sta_def)
      qed
    qed
  qed
qed


lemma resend_stream:
  assumes inv: "srv_inv srv" and a: "srv_heap srv a = Some st"
  shows "\<exists>srv'. wave_ipcs_sta_resend_pending rs a srv = Some srv' \<and>
    (\<forall>b. station_stream srv' b = station_stream srv b)"
proof -
  obtain k st' mem' where r: "k \<le> length (pend_list st)"
    "wave_ipcs_sta_resend_pending rs a srv = Some (srv\<lparr>srv_heap := (srv_heap srv)(a \<mapsto> st'), srv_mem := mem',
        srv_has_pending := srv_has_pending srv - int k,
        srv_wire := srv_wire srv @ map (\<lambda>m. (a, wire_image (srv_mem srv) m)) (take k (pend_list st))\<rparr>)"
    "pend_list st' = drop k (pend_list st)" "\<forall>c. ipc_msgs mem' c = ipc_msgs (srv_mem srv) c"
    using resend_pending_spec [OF inv a] by blast
  let ?srv = "srv\<lparr>srv_heap := (srv_heap srv)(a \<mapsto> st'), srv_mem := mem', srv_has_pending := srv_has_pending srv - int k,
        srv_wire := srv_wire srv @ map (\<lambda>m. (a, wire_image (srv_mem srv) m)) (take k (pend_list st))\<rparr>"
  have img: "wire_image mem' = wire_image (srv_mem srv)" using r(4) by (simp add: wire_image_def fun_eq_iff)
  have "station_stream ?srv b = station_stream srv b" if "b \<noteq> a" for b
    by (rule stream_same [OF inv, where w = "map (\<lambda>m. (a, wire_image (srv_mem srv) m)) (take k (pend_list st))"])
       (use r(4) that in auto)
  moreover have "map (wire_image (srv_mem srv)) (take k (pend_list st)) @ map (wire_image (srv_mem srv)) (drop k (pend_list st)) =
      map (wire_image (srv_mem srv)) (pend_list st)" by (metis append_take_drop_id map_append)
  then have "station_stream ?srv a = station_stream srv a"
    using a r(3) by (simp add: station_stream_def img comp_def)
  ultimately show ?thesis using r(2) by metis
qed

section \<open>The server as a transition system\<close>

text \<open>
  The operations that touch the stations.  Whoever calls one holds what it passes: a message
  that waits for nobody, a reference to the station, a fresh address for a new station.
\<close>

datatype srv_act =
    SendTo send_result pending_list nat nat
  | Release nat
  | Resend "send_result list" nat
  | Disconnect nat
  | Accept ptr "nat option" bool string
  | Incref nat
  | Decref nat

fun srv_exec :: "callbacks \<Rightarrow> srv_act \<Rightarrow> ipserver \<Rightarrow> ipserver option" where
  "srv_exec cb (SendTo res which a m) srv = map_option snd (send_or_queue res True which a m srv)"
| "srv_exec cb (Release m) srv = srv_put (Some m) srv"
| "srv_exec cb (Resend rs i) srv = resend_or_drop cb rs i srv"
| "srv_exec cb (Disconnect i) srv = do { a \<leftarrow> srv_stations srv ! i; disconnect_station cb i a srv }"
| "srv_exec cb (Accept mem fd lists_ok peer) srv =
     map_option snd (wave_ipcs_accept_new_client cb mem fd lists_ok peer srv)"
| "srv_exec cb (Incref a) srv = map_option snd (wave_ipcs_sta_incref (Some a) srv)"
| "srv_exec cb (Decref a) srv = map_option snd (wave_ipcs_sta_decref (Some a) srv)"

fun srv_allowed :: "srv_act \<Rightarrow> ipserver \<Rightarrow> bool" where
  "srv_allowed (SendTo res which a m) srv \<longleftrightarrow> srv_heap srv a \<noteq> None \<and> msg_single (srv_mem srv) m"
| "srv_allowed (Release m) srv \<longleftrightarrow> msg_single (srv_mem srv) m \<and> not_pending srv m"
| "srv_allowed (Resend rs i) srv \<longleftrightarrow> i < IPC_CLIENT_ARR_SIZE"
| "srv_allowed (Disconnect i) srv \<longleftrightarrow> i < IPC_CLIENT_ARR_SIZE \<and> srv_stations srv ! i \<noteq> None"
| "srv_allowed (Accept mem fd lists_ok peer) srv \<longleftrightarrow> (case mem of None \<Rightarrow> True | Some a \<Rightarrow> srv_heap srv a = None)"
| "srv_allowed (Incref a) srv \<longleftrightarrow> srv_heap srv a \<noteq> None"
| "srv_allowed (Decref a) srv \<longleftrightarrow>
     (case srv_heap srv a of None \<Rightarrow> False | Some st \<Rightarrow> 2 \<le> sta_refcnt st \<or> a \<notin> in_table srv)"

inductive srv_reach :: "callbacks \<Rightarrow> ipserver \<Rightarrow> bool" for cb where
  created: "wave_ipcs_create ans True None name mem = (WAVE_IPC_SUCCESS, Some srv) \<Longrightarrow> ipc_mem_ok mem \<Longrightarrow> srv_reach cb srv"
| acted: "srv_reach cb srv \<Longrightarrow> srv_allowed act srv \<Longrightarrow> srv_exec cb act srv = Some srv' \<Longrightarrow> srv_reach cb srv'"

lemma exec_safely:
  assumes inv: "srv_inv srv" and cb: "refs_only cb" and ok: "srv_allowed act srv"
  shows "steps_safely (srv_exec cb act srv)"
proof (cases act)
  case (SendTo res which a m)
  with ok obtain st where "srv_heap srv a = Some st" "msg_single (srv_mem srv) m" by auto
  from send_or_queue_inv [OF inv this, of res which] SendTo show ?thesis by (auto simp: steps_safely_def)
next
  case (Release m)
  with ok release_inv [OF inv] show ?thesis by (simp add: steps_safely_def)
next
  case (Resend rs i)
  with ok resend_or_drop_inv [OF inv cb] show ?thesis by simp
next
  case (Disconnect i)
  with ok obtain a where a: "srv_stations srv ! i = Some a" "i < length (srv_stations srv)"
    using srv_invE(2) [OF inv] by (auto simp: table_ok_def)
  from disconnect_inv [OF inv cb a(2,1)] a Disconnect show ?thesis by (auto simp: steps_safely_def)
next
  case (Accept mem fd lists_ok peer)
  have "srv_heap srv a = None" if "mem = Some a" for a using ok Accept that by simp
  from accept_inv [where mem = mem, OF inv cb this, where fd = fd and lists_ok = lists_ok and peer = peer] Accept show ?thesis by (auto simp: steps_safely_def)
next
  case (Incref a)
  with ok obtain st where "srv_heap srv a = Some st" by auto
  from incref_inv [OF inv this] Incref show ?thesis by (auto simp: steps_safely_def)
next
  case (Decref a)
  with ok obtain st where "srv_heap srv a = Some st" "2 \<le> sta_refcnt st \<or> a \<notin> in_table srv"
    by (auto split: option.splits)
  from decref_inv [OF inv this] Decref show ?thesis by (auto simp: steps_safely_def)
qed

lemma create_inv:
  assumes "wave_ipcs_create ans True None name mem = (WAVE_IPC_SUCCESS, Some srv)" "ipc_mem_ok mem"
  shows "srv_inv srv"
proof -
  have srv: "srv_stations srv = replicate IPC_CLIENT_ARR_SIZE None" "srv_heap srv = Map.empty" "srv_mem srv = mem"
    "srv_has_pending srv = 0"
    using assms(1) by (auto simp: wave_ipcs_create_def split: if_splits)
  have "in_table srv = {}" by (auto simp: in_table_def srv(1))
  then show ?thesis using srv assms(2) by (simp add: srv_inv_def table_ok_def filter_False)
qed

lemma reach_inv: "srv_reach cb srv \<Longrightarrow> refs_only cb \<Longrightarrow> srv_inv srv"
proof (induction rule: srv_reach.induct)
  case (created ans name mem srv)
  then show ?case by (blast intro: create_inv)
next
  case (acted srv act srv')
  with exec_safely [of srv cb act] show ?case by (simp add: steps_safely_def)
qed

lemma in_table_card: "srv_inv srv \<Longrightarrow> card (in_table srv) \<le> IPC_CLIENT_ARR_SIZE"
proof -
  assume inv: "srv_inv srv"
  have "Some ` in_table srv \<subseteq> set (srv_stations srv)" by (auto simp: in_table_def)
  then have "card (Some ` in_table srv) \<le> card (set (srv_stations srv))" by (intro card_mono) simp_all
  also have "\<dots> \<le> length (srv_stations srv)" by (rule card_length)
  finally show ?thesis using srv_invE(2) [OF inv] by (simp add: card_image table_ok_def)
qed

lemma pending_bound:
  assumes inv: "srv_inv srv"
  shows "srv_has_pending srv \<le> int (MAX_NUM_PENDING_IPC_MSGS + IPC_CLIENT_ARR_SIZE * STA_MAX_NUM_PENDING_ON_SERV_LIMIT)"
proof -
  let ?L = STA_MAX_NUM_PENDING_ON_SERV_LIMIT
  have "(\<Sum>b \<in> in_table srv. waiting_for srv b) \<le> (\<Sum>b \<in> in_table srv. (waiting_for srv b - ?L) + ?L)"
    by (rule sum_mono) simp
  also have "\<dots> = (\<Sum>b \<in> in_table srv. waiting_for srv b - ?L) + card (in_table srv) * ?L" by (simp add: sum.distrib)
  also have "\<dots> \<le> MAX_NUM_PENDING_IPC_MSGS + IPC_CLIENT_ARR_SIZE * ?L"
    using inv in_table_card [OF inv] by (intro add_mono mult_right_mono) (simp_all add: srv_inv_def)
  finally have "int (\<Sum>b \<in> in_table srv. waiting_for srv b) \<le> int (MAX_NUM_PENDING_IPC_MSGS + IPC_CLIENT_ARR_SIZE * ?L)"
    by (rule of_nat_mono)
  moreover have "srv_has_pending srv = int (\<Sum>b \<in> in_table srv. waiting_for srv b)" using inv by (simp add: srv_inv_def)
  ultimately show ?thesis by simp
qed


section \<open>Properties\<close>

definition no_callbacks :: callbacks where
  "no_callbacks = \<lparr>cb_cmd_async = None, cb_adding_client = None, cb_removing_client = None\<rparr>"

lemma no_callbacks_ok: "refs_only no_callbacks"
  by (auto simp: refs_only_def no_callbacks_def wave_ipcs_removing_client_def wave_ipcs_adding_client_def set_sta_def
      fun_upd_idem intro: exI [of _ 0])

definition all_ok :: create_answers where
  "all_ok = \<lparr>ca_malloc = True, ca_socket = True, ca_unlink = True, ca_bind = True, ca_listen = True, ca_list = True\<rparr>"

text \<open>A server with the one station 7, and the messages 1 and 2 in memory.\<close>

definition ex_created :: ipserver where
  "ex_created = \<lparr>srv_stations = replicate IPC_CLIENT_ARR_SIZE None, srv_num_stas = 0, srv_has_pending = 0,
     srv_thread = None, srv_cmd_seq = 0, srv_resp_list = [], srv_resps = Map.empty,
     srv_heap = Map.empty, srv_mem = ex_two, srv_wire = [], srv_closed = []\<rparr>"

definition ex_station :: ipstation where
  "ex_station = (new_station 3 ''cli'')\<lparr>sta_connected := True, sta_refcnt := 1\<rparr>"

definition ex_srv :: ipserver where
  "ex_srv = ex_created\<lparr>srv_stations := (replicate IPC_CLIENT_ARR_SIZE None)[0 := Some 7], srv_heap := [7 \<mapsto> ex_station]\<rparr>"

lemma free_slot_empty: "0 < n \<Longrightarrow> free_slot (replicate n None) = Some 0"
  by (cases n) simp_all

lemma ex_reach: "srv_reach no_callbacks ex_srv"
proof -
  have "wave_ipcs_create all_ok True None (Some ''s'') ex_two = (WAVE_IPC_SUCCESS, Some ex_created)"
    by (simp add: wave_ipcs_create_def all_ok_def ex_created_def)
  from srv_reach.created [OF this ex_two_ok(1)] have "srv_reach no_callbacks ex_created" .
  moreover have "srv_allowed (Accept (Some 7) (Some 3) True ''cli'') ex_created" by (simp add: ex_created_def)
  moreover have "srv_exec no_callbacks (Accept (Some 7) (Some 3) True ''cli'') ex_created = Some ex_srv"
    by (simp add: wave_ipcs_accept_new_client_def ex_created_def IPC_CLIENT_ARR_SIZE_def set_slot_def set_sta_def
        wave_ipcs_sta_incref_def get_sta_def wave_ipcs_adding_client_def no_callbacks_def ex_srv_def ex_station_def
        new_station_def Let_def free_slot_empty)
  ultimately show ?thesis by (rule srv_reach.acted)
qed





text \<open>
  A reply to a station that is known by reference but no longer connected is copied for
  the pending list, refused, and the copy is not given back: the memory holds a message that
  nobody refers to.
\<close>

theorem would_block_leaks_when_disconnected:
  assumes "srv_inv srv" "srv_heap srv a = Some st" "\<not> sta_connected st" "msg_single (srv_mem srv) m"
    "wave_ipcs_send_would_block node_ok a m which srv = Some (WAVE_IPC_DISCONNECTED, srv')"
  shows "\<exists>b. b \<notin> msgs_held (srv_mem srv) \<and> msgs_held (srv_mem srv') = insert b (msgs_held (srv_mem srv)) \<and>
    not_pending srv' b \<and> srv_heap srv' = srv_heap srv"
proof -
  obtain d mem where dup: "wave_ipc_msg_dup (Some m) (srv_mem srv) = Some (d, mem)"
    and res: "case d of None \<Rightarrow> msgs_held mem = msgs_held (srv_mem srv) \<and>
          (\<forall>c. ipc_msgs mem c = ipc_msgs (srv_mem srv) c) \<and> (\<forall>c. msg_single mem c = msg_single (srv_mem srv) c)
       | Some b \<Rightarrow> b \<notin> msgs_held (srv_mem srv) \<and> msgs_held mem = insert b (msgs_held (srv_mem srv)) \<and>
          ipc_msgs mem b = ipc_msgs (srv_mem srv) m \<and> msg_single mem b \<and>
          (\<forall>c. c \<noteq> b \<longrightarrow> ipc_msgs mem c = ipc_msgs (srv_mem srv) c \<and> msg_single mem c = msg_single (srv_mem srv) c)"
    using ms.dup_law [OF srv_invE(1) [OF assms(1)] assms(4)] by blast
  obtain b where b: "d = Some b" "srv' = srv\<lparr>srv_mem := mem\<rparr>"
    using assms(2,3,5) dup by (cases d) (auto simp: wave_ipcs_send_would_block_def get_sta_def)
  then have new: "b \<notin> msgs_held (srv_mem srv)" "msgs_held mem = insert b (msgs_held (srv_mem srv))" using res by auto
  then have "not_pending srv b" using pend_single [OF assms(1)] ms.single_held unfolding not_pending_def by blast
  with new b(2) show ?thesis by (auto simp: not_pending_def)
qed


text \<open>The station has left, somebody still holds a reference to it; the memory has room for one more message.\<close>

definition ex_one :: ipc_mem where
  "ex_one = ex_two\<lparr>ipc_pool := (Some ex_pool, ex_heap)\<rparr>"

definition ex_left :: ipserver where
  "ex_left = ex_created\<lparr>srv_heap := [7 \<mapsto> ex_station\<lparr>sta_connected := False\<rparr>], srv_mem := ex_one\<rparr>"

lemma ex_one_ok: "ipc_mem_ok ex_one" "msg_single ex_one 1" "msgs_held ex_one = {1}"
  using ex_pool_ok
  by (auto simp: ipc_mem_ok_def ex_one_def ex_two_def msg_single_def ring_single msgs_held_def pool_held_def
      pool_owned_def ex_pool_def ex_heap_def split: if_splits)

lemma ex_left_inv: "srv_inv ex_left"
proof -
  have "in_table ex_left = {}" by (auto simp: in_table_def ex_left_def ex_created_def)
  then show ?thesis using ex_one_ok(1)
    by (simp add: srv_inv_def ex_left_def ex_created_def table_ok_def station_ok_def pend_list_def filter_False
        ex_station_def new_station_def)
qed

theorem would_block_leaks_when_disconnected_witness:
  "\<exists>srv' b. wave_ipcs_send_would_block True 7 1 PendingReplies ex_left = Some (WAVE_IPC_DISCONNECTED, srv') \<and>
     msgs_held (srv_mem srv') = {b, 1} \<and> b \<noteq> 1 \<and> not_pending srv' b"
proof -
  have st: "srv_heap ex_left 7 = Some (ex_station\<lparr>sta_connected := False\<rparr>)" by (simp add: ex_left_def)
  have m: "msg_single (srv_mem ex_left) 1" and held: "msgs_held (srv_mem ex_left) = {1}"
    using ex_one_ok(2,3) by (simp_all add: ex_left_def)
  have "\<exists>d mem. wave_ipc_msg_dup (Some 1) ex_one = Some (Some d, mem)"
    by (simp add: wave_ipc_msg_dup_def wave_ipc_msg_alloc_def load_msg_def store_msg_def msg_live_def ex_one_def ex_two_def
        ex_pool_def ex_heap_def pool_alloc_def obj_pool_alloc_object_def put_cell_def)
  then obtain srv' where run: "wave_ipcs_send_would_block True 7 1 PendingReplies ex_left = Some (WAVE_IPC_DISCONNECTED, srv')"
    using st by (auto simp: wave_ipcs_send_would_block_def get_sta_def ex_left_def)
  from would_block_leaks_when_disconnected [OF ex_left_inv st _ m run] run held show ?thesis by auto
qed



text \<open>A command to station 7 waits, and the first part of its answer, message 1, has come.\<close>

definition ex_wait :: ipserver where
  "ex_wait = ex_srv\<lparr>srv_resp_list := [9],
     srv_resps := [9 \<mapsto> \<lparr>cr_ipsta = 7, cr_seq_num = 5, cr_status = RESP_NONE, cr_response = Some 1\<rparr>]\<rparr>"


text \<open>
  A command whose wait ends before its last part has come fails, and the parts that have
  come stay allocated although the record that points to them is released.
\<close>

theorem timed_out_response_leaks:
  assumes "srv_resps srv c = Some r" "cr_status r = RESP_NONE" "cr_response r = Some h" "ring (srv_mem srv) h ms"
    "\<forall>d r'. d \<noteq> c \<longrightarrow> srv_resps srv d = Some r' \<longrightarrow> cr_response r' \<noteq> Some h"
  shows "\<exists>srv'. send_cmd_wait_over c srv = Some ((WAVE_IPC_ERROR, None), srv') \<and>
    set (h # ms) \<subseteq> msgs_held (srv_mem srv') \<and> (\<forall>d r'. srv_resps srv' d = Some r' \<longrightarrow> cr_response r' \<noteq> Some h)"
  using assms ring_held [OF assms(4)] by (auto simp: send_cmd_wait_over_def)

theorem timed_out_response_leaks_witness:
  "\<exists>srv'. send_cmd_wait_over 9 ex_wait = Some ((WAVE_IPC_ERROR, None), srv') \<and> set [1] \<subseteq> msgs_held (srv_mem srv')"
proof -
  have "ring (srv_mem ex_wait) 1 []" using ex_two_ok(2) by (simp add: ex_wait_def ex_srv_def ex_created_def)
  with timed_out_response_leaks [of ex_wait 9 "\<lparr>cr_ipsta = 7, cr_seq_num = 5, cr_status = RESP_NONE, cr_response = Some 1\<rparr>" 1 "[]"]
  show ?thesis by (auto simp: ex_wait_def)
qed

end
