(* ===== verification/C_Strings.thy ===== *)
theory C_Strings
  imports Dwpal_Prelude
begin

text \<open>
  The standard library as the daemon and its clients use it: C strings, the bounds-checked
  string functions, the conversion of numbers, and how numbers lie in memory.  A C string is
  the list of its bytes before the terminating NUL.
\<close>

section \<open>C strings\<close>

type_synonym cstr = "u8 list"

definition cbytes :: "string \<Rightarrow> cstr" where
  "cbytes s = map of_char s"

text \<open>The string that starts at the first byte of a buffer.\<close>

definition cstr_of :: "u8 list \<Rightarrow> cstr" where
  "cstr_of bs = takeWhile (\<lambda>b. b \<noteq> 0) bs"

text \<open>\<open>strncmp (a, b, n) == 0\<close>, and the string that \<open>strncpy_s (dest, dmax, src, slen)\<close> leaves in \<open>dest\<close>.\<close>

definition strncmp_eq :: "cstr \<Rightarrow> cstr \<Rightarrow> nat \<Rightarrow> bool" where
  "strncmp_eq a b n \<longleftrightarrow> take n a = take n b"

definition strncpy_s :: "nat \<Rightarrow> cstr \<Rightarrow> nat \<Rightarrow> cstr" where
  "strncpy_s dmax src slen = (if length (take slen src) < dmax then take slen src else [])"

lemma cstr_of_no_nul [simp]: "0 \<notin> set bs \<Longrightarrow> cstr_of bs = bs"
  unfolding cstr_of_def by (subst takeWhile_eq_all_conv) auto

lemma cstr_of_append_nul [simp]: "0 \<notin> set bs \<Longrightarrow> cstr_of (bs @ 0 # cs) = bs"
  unfolding cstr_of_def by (induction bs) auto

lemma cstr_of_nul_free [simp]: "0 \<notin> set (cstr_of bs)"
  unfolding cstr_of_def using set_takeWhileD by fastforce

lemma cstr_of_length: "length (cstr_of bs) \<le> length bs"
  by (simp add: cstr_of_def length_takeWhile_le)

lemma strncmp_eq_short: "length a < n \<Longrightarrow> length b < n \<Longrightarrow> strncmp_eq a b n \<longleftrightarrow> a = b"
  by (simp add: strncmp_eq_def)

lemma strncpy_s_short [simp]: "length src \<le> slen \<Longrightarrow> length src < dmax \<Longrightarrow> strncpy_s dmax src slen = src"
  by (simp add: strncpy_s_def)

lemma strncpy_s_length: "0 < dmax \<Longrightarrow> length (strncpy_s dmax src slen) < dmax"
  by (simp add: strncpy_s_def)

definition starts_with :: "cstr \<Rightarrow> string \<Rightarrow> bool" where
  "starts_with op s = strncmp_eq op (cbytes s) (length s)"

section \<open>Tokens, searches and numbers\<close>

text \<open>
  \<open>strtok_s\<close> with one delimiter: the token, what follows it, and the characters that are left.
  The token and its delimiter must lie within the first \<open>dmax\<close> characters.
\<close>

definition strtok_s :: "u8 \<Rightarrow> cstr \<Rightarrow> nat \<Rightarrow> (cstr \<times> cstr \<times> nat) option" where
  "strtok_s d s dmax =
     (let k = length (takeWhile (\<lambda>c. c = d) s); s1 = dropWhile (\<lambda>c. c = d) s;
          tok = takeWhile (\<lambda>c. c \<noteq> d) s1; rest = dropWhile (\<lambda>c. c \<noteq> d) s1
      in if s1 = [] then None
         else if rest = []
         then (if k + length tok \<le> dmax then Some (tok, [], dmax - (k + length tok)) else None)
         else (if k + length tok + 1 \<le> dmax then Some (tok, tl rest, dmax - (k + length tok + 1)) else None))"

fun strstr :: "cstr \<Rightarrow> cstr \<Rightarrow> nat option" where
  "strstr [] n = (if n = [] then Some 0 else None)"
| "strstr (c # cs) n = (if take (length n) (c # cs) = n then Some 0 else map_option Suc (strstr cs n))"

definition strnlen_s :: "cstr \<Rightarrow> nat \<Rightarrow> nat" where
  "strnlen_s s n = min (length s) n"

text \<open>\<open>sprintf_s (dest, dmax, "%s")\<close>: what is left in the buffer when the text does not fit is empty.\<close>

definition sprintf_s :: "nat \<Rightarrow> cstr \<Rightarrow> cstr" where
  "sprintf_s dmax txt = (if length txt < dmax then txt else [])"

text \<open>The numbers: \<open>strtol\<close> and its relatives, with a long of 64 bits.\<close>

definition is_space :: "u8 \<Rightarrow> bool" where
  "is_space c \<longleftrightarrow> c = 32 \<or> 9 \<le> c \<and> c \<le> 13"

definition digit_value :: "u8 \<Rightarrow> nat" where
  "digit_value c =
     (if 48 \<le> c \<and> c \<le> 57 then unat c - 48
      else if 97 \<le> c \<and> c \<le> 122 then unat c - 87
      else if 65 \<le> c \<and> c \<le> 90 then unat c - 55 else 255)"

definition digits_value :: "nat \<Rightarrow> cstr \<Rightarrow> nat" where
  "digits_value base s = foldl (\<lambda>n c. n * base + digit_value c) 0 (takeWhile (\<lambda>c. digit_value c < base) s)"

definition hex_prefixed :: "cstr \<Rightarrow> bool" where
  "hex_prefixed s \<longleftrightarrow> 3 \<le> length s \<and> s ! 0 = 48 \<and> (s ! 1 = 120 \<or> s ! 1 = 88) \<and> digit_value (s ! 2) < 16"

definition number_value :: "nat \<Rightarrow> cstr \<Rightarrow> nat" where
  "number_value base s =
     (if (base = 0 \<or> base = 16) \<and> hex_prefixed s then digits_value 16 (drop 2 s)
      else digits_value (if base \<noteq> 0 then base else if s \<noteq> [] \<and> hd s = 48 then 8 else 10) s)"

definition strto :: "cstr \<Rightarrow> nat \<Rightarrow> bool \<times> nat" where
  "strto s base =
     (let s1 = dropWhile is_space s
      in if s1 \<noteq> [] \<and> hd s1 = 45 then (True, number_value base (tl s1))
         else if s1 \<noteq> [] \<and> hd s1 = 43 then (False, number_value base (tl s1))
         else (False, number_value base s1))"

definition strtol :: "cstr \<Rightarrow> nat \<Rightarrow> int" where
  "strtol s base =
     (case strto s base of (neg, n) \<Rightarrow> max (- (2 ^ 63)) (min (2 ^ 63 - 1) (if neg then - int n else int n)))"

definition strtoul :: "cstr \<Rightarrow> nat \<Rightarrow> int" where
  "strtoul s base =
     (case strto s base of (neg, n) \<Rightarrow>
        if n > 2 ^ 64 - 1 then 2 ^ 64 - 1 else (if neg then - int n else int n) mod 2 ^ 64)"

text \<open>Whether \<open>strtoul (s, &end, 16)\<close> leaves \<open>end\<close> at the end of the text.\<close>

definition strtoul_to_end :: "cstr \<Rightarrow> bool" where
  "strtoul_to_end s \<longleftrightarrow>
     (let s1 = dropWhile is_space s; s2 = (if s1 \<noteq> [] \<and> (hd s1 = 45 \<or> hd s1 = 43) then tl s1 else s1);
          s3 = (if hex_prefixed s2 then drop 2 s2 else s2)
      in s = [] \<or> s3 \<noteq> [] \<and> (\<forall>c \<in> set s3. digit_value c < 16))"

text \<open>An integer of \<open>n\<close> bytes as it lies in memory, its low byte first.\<close>

fun int_bytes :: "nat \<Rightarrow> int \<Rightarrow> u8 list" where
  "int_bytes 0 i = []"
| "int_bytes (Suc n) i = of_int i # int_bytes n (i div 256)"

section \<open>Numbers in memory\<close>

text \<open>
  \<open>memcpy_s (buf + at, dmax, src, n)\<close>: a copy that does not fit clears the room, and a room that
  is too large for the function leaves the buffer as it is.
\<close>

definition RSIZE_MAX_MEM :: nat where "RSIZE_MAX_MEM = 2 ^ 28"

definition memcpy_s :: "u8 list \<Rightarrow> nat \<Rightarrow> nat \<Rightarrow> u8 list \<Rightarrow> u8 list" where
  "memcpy_s buf at dmax src =
     (if dmax > RSIZE_MAX_MEM then buf
      else take at buf @ (if length src \<le> dmax then src else replicate dmax 0) @
             drop (at + (if length src \<le> dmax then length src else dmax)) buf)"

text \<open>The four bytes of a number, its low byte first, as the daemon's machine lays them out.\<close>

definition u32_bytes :: "u32 \<Rightarrow> u8 list" where
  "u32_bytes w = [ucast w, ucast (drop_bit 8 w), ucast (drop_bit 16 w), ucast (drop_bit 24 w)]"

definition u32_at :: "u8 list \<Rightarrow> nat \<Rightarrow> u32" where
  "u32_at bs i = ucast (bs ! i) OR push_bit 8 (ucast (bs ! (i + 1))) OR push_bit 16 (ucast (bs ! (i + 2))) OR
     push_bit 24 (ucast (bs ! (i + 3)))"

lemma u32_join:
  fixes w :: u32
  shows "ucast (ucast w :: u8) OR push_bit 8 (ucast (ucast (drop_bit 8 w) :: u8)) OR
    push_bit 16 (ucast (ucast (drop_bit 16 w) :: u8)) OR push_bit 24 (ucast (ucast (drop_bit 24 w) :: u8)) = w"
    (is "?l = w")
proof (rule bit_word_eqI)
  fix n
  assume "n < LENGTH(32)"
  then consider "n < 8" | "8 \<le> n" "n < 16" | "16 \<le> n" "n < 24" | "24 \<le> n" "n < 32" by fastforce
  then show "bit ?l n = bit w n" by cases (auto simp: bit_simps)
qed

lemma u32_at_bytes: "u32_at (pre @ u32_bytes w @ post) (length pre) = w"
  by (simp add: u32_at_def u32_bytes_def nth_append u32_join)

end
