(* ===== verification/Dwpald_Protocol.thy ===== *)
theory Dwpald_Protocol
  imports Ipc_Msg C_Strings
begin

text \<open>
  What the daemon and its clients share: the numbers of daemon/dwpal_daemon.h, the return codes
  of the dwpal library and what becomes of a message that a function allocates.
\<close>

section \<open>The numbers of the protocol\<close>

definition IFNAMSIZ :: nat where "IFNAMSIZ = 16"

definition DWPALD_CMD :: u8 where "DWPALD_CMD = 1"
definition DWPALD_CMD_RESP :: u8 where "DWPALD_CMD_RESP = 2"
definition DWPALD_EVENT :: u8 where "DWPALD_EVENT = 3"
definition DWPALD_DETACH_REQ :: u8 where "DWPALD_DETACH_REQ = 4"
definition DWPALD_DETACH_RESP :: u8 where "DWPALD_DETACH_RESP = 5"
definition DWPALD_ATTACH_REQ :: u8 where "DWPALD_ATTACH_REQ = 6"
definition DWPALD_ATTACH_RESP :: u8 where "DWPALD_ATTACH_RESP = 7"
definition DWPALD_UPDATE_EVENT_REQ :: u8 where "DWPALD_UPDATE_EVENT_REQ = 8"
definition DWPALD_UPDATE_EVENT_RESP :: u8 where "DWPALD_UPDATE_EVENT_RESP = 9"
definition DWPALD_IF_TYPE_HOSTAP :: u8 where "DWPALD_IF_TYPE_HOSTAP = 1"
definition DWPALD_IF_TYPE_DRIVER :: u8 where "DWPALD_IF_TYPE_DRIVER = 2"
definition DWPALD_IF_TYPE_KERNEL :: u8 where "DWPALD_IF_TYPE_KERNEL = 3"
definition INTERFACE_DWPAL_STATE_UNKNOWN :: u8 where "INTERFACE_DWPAL_STATE_UNKNOWN = 0"
definition INTERFACE_DWPAL_STATE_CONNECTED :: u8 where "INTERFACE_DWPAL_STATE_CONNECTED = 1"
definition INTERFACE_DWPAL_STATE_DISCONNECTED :: u8 where "INTERFACE_DWPAL_STATE_DISCONNECTED = 2"

section \<open>Return codes of the dwpal library\<close>

datatype DWPAL_Ret = DWPAL_SOCKET_FAILURE | DWPAL_FAILURE | DWPAL_SUCCESS | DWPAL_NO_PENDING_MESSAGES
  | DWPAL_MISSING_PARAM | DWPAL_INTERFACE_IS_DOWN | DWPAL_INTERFACE_ALREADY_UP

fun dwpal_ret_code :: "DWPAL_Ret \<Rightarrow> int" where
  "dwpal_ret_code DWPAL_SOCKET_FAILURE = -2"
| "dwpal_ret_code DWPAL_FAILURE = -1"
| "dwpal_ret_code DWPAL_SUCCESS = 0"
| "dwpal_ret_code DWPAL_NO_PENDING_MESSAGES = 1"
| "dwpal_ret_code DWPAL_MISSING_PARAM = 2"
| "dwpal_ret_code DWPAL_INTERFACE_IS_DOWN = 3"
| "dwpal_ret_code DWPAL_INTERFACE_ALREADY_UP = 4"

text \<open>
  What a function that allocates a message does with it: there was none, it is given back to
  the pool, it is passed to another function, or it is lost.
\<close>

datatype msg_fate = NoMessage | GivenBack | PassedOn wv_ipc_msg | Lost

text \<open>The data of a hostap event: the name, the operation code and the message with a NUL behind it.\<close>

definition event_payload :: "u8 \<Rightarrow> u8 \<Rightarrow> u16 \<Rightarrow> cstr \<Rightarrow> cstr \<Rightarrow> u8 list option \<Rightarrow> (nat \<Rightarrow> u8) \<Rightarrow> nat \<Rightarrow> u8" where
  "event_payload vlen oplen mlen vap op msg dat =
     (let d1 = write_at dat 0 (take (unat vlen) vap);
          d2 = write_at d1 (unat vlen) (take (unat oplen) op)
      in case msg of
           None \<Rightarrow> d2
         | Some bs \<Rightarrow>
             if mlen = 0 then d2
             else write_at d2 (unat vlen + unat oplen) (take (unat mlen - 1) bs @ [0]))"

lemma event_payload_bytes:
  assumes "vlen = of_nat (length n)" "length n < 256" "oplen = of_nat (length op)" "length op < 256"
    "unat (m_data_len m) = length n + length op + unat mlen" "m_data m = event_payload vlen oplen mlen n op msg dat"
    "msg = None \<longrightarrow> mlen = 0" "\<forall>bs. msg = Some bs \<and> mlen \<noteq> 0 \<longrightarrow> unat mlen - 1 \<le> length bs"
  shows "msg_bytes m = n @ op @ (case msg of None \<Rightarrow> [] | Some bs \<Rightarrow> if mlen = 0 then [] else take (unat mlen - 1) bs @ [0])"
proof -
  have len: "unat vlen = length n" "unat oplen = length op" using assms(1-4) by (simp_all add: unat_of_nat_u8)
  let ?d = "write_at (write_at dat 0 n) (length n) op"
  have d: "map ?d [0..<length n + length op] = n @ op"
    using map_write_at [of "write_at dat 0 n" "length n" op] map_write_at [of dat 0 n] by simp
  show ?thesis
  proof (cases "mlen = 0")
    case True
    then show ?thesis using assms(5,6) len d by (simp add: msg_bytes_def event_payload_def Let_def split: option.split)
  next
    case False
    then obtain bs where bs: "msg = Some bs" "unat mlen - 1 \<le> length bs" using assms(7,8) by auto
    have "0 < unat mlen" using False by (simp add: unat_gt_0)
    then have t: "length (take (unat mlen - 1) bs @ [0]) = unat mlen" using bs(2) by simp
    have "map (write_at ?d (length n + length op) (take (unat mlen - 1) bs @ [0])) [0..<length n + length op + unat mlen] =
        (n @ op) @ take (unat mlen - 1) bs @ [0]"
      using map_write_at [of ?d "length n + length op" "take (unat mlen - 1) bs @ [0]"] unfolding t d by simp
    then show ?thesis using False assms(5,6) len bs(1) by (simp add: msg_bytes_def event_payload_def Let_def)
  qed
qed

end
