(* ===== verification/Hostap_Parse.thy ===== *)
theory Hostap_Parse
  imports Dwpald_Protocol
begin

text \<open>
  The text layer of daemon/dwpald_hostap_parse.c: strings to and from hexadecimal, building a
  hostapd command from typed parameters, and parsing a hostapd response into the fields of a
  structure.  The caller's memory is a function from addresses to bytes; the library's number
  conversions and the bounds-checked string functions are written out; allocations succeed.
  Where the code would write outside a buffer of its own, the result is None.
\<close>

section \<open>Hexadecimal strings\<close>

definition HOSTAPD_TO_DWPAL_MSG_LENGTH :: nat where "HOSTAPD_TO_DWPAL_MSG_LENGTH = 4096 * 4"
definition DWPAL_TO_HOSTAPD_MSG_LENGTH :: nat where "DWPAL_TO_HOSTAPD_MSG_LENGTH = 512"
definition HOSTAPD_TO_DWPAL_VALUE_STRING_LENGTH :: nat where "HOSTAPD_TO_DWPAL_VALUE_STRING_LENGTH = 4096"
definition DWPAL_FIELD_NAME_LENGTH :: nat where "DWPAL_FIELD_NAME_LENGTH = 128"
definition DWPAL_MAX_NUM_OF_ELEMENTS :: nat where "DWPAL_MAX_NUM_OF_ELEMENTS = 512"

text \<open>
  A char is signed: its conversion to unsigned extends the sign, and an index from 16 on is
  outside the table.
\<close>

definition hex_char :: "u32 \<Rightarrow> u8 option" where
  "hex_char i =
     (if i < 10 then Some (48 + ucast i) else if i < 16 then Some (55 + ucast i) else None)"

definition char_to_hex :: "u8 \<Rightarrow> (u8 \<times> u8) option" where
  "char_to_hex c =
     (let u = (scast c :: u32) in do { a \<leftarrow> hex_char (drop_bit 4 u); b \<leftarrow> hex_char (u AND 0x0f); Some (a, b) })"

definition hex_to_num :: "u8 \<Rightarrow> int" where
  "hex_to_num c =
     (if 48 \<le> c \<and> c \<le> 57 then uint c - 48
      else if 97 \<le> c \<and> c \<le> 102 then uint c - 97 + 10
      else if 65 \<le> c \<and> c \<le> 70 then uint c - 65 + 10 else -1)"

definition hex_to_byte :: "u8 \<Rightarrow> u8 \<Rightarrow> int" where
  "hex_to_byte h l =
     (let hi = hex_to_num h; lo = hex_to_num l in if hi < 0 then -1 else if lo < 0 then -1 else push_bit 4 hi OR lo)"

text \<open>
  The result is the bytes that are written from \<open>out_hex_str\<close> on, as the string before their
  NUL.  At most \<open>HOSTAPD_TO_DWPAL_VALUE_STRING_LENGTH\<close> characters are measured, but all are
  written.
\<close>

fun hex_pairs :: "cstr \<Rightarrow> cstr option" where
  "hex_pairs [] = Some []"
| "hex_pairs (c # cs) = do { (a, b) \<leftarrow> char_to_hex c; r \<leftarrow> hex_pairs cs; Some (a # b # r) }"

definition dwpald_str_to_hex :: "nat \<Rightarrow> cstr \<Rightarrow> (bool \<times> cstr) option" where
  "dwpald_str_to_hex dmax str =
     (let len = strnlen_s str HOSTAPD_TO_DWPAL_VALUE_STRING_LENGTH
      in if len * 2 + 1 > dmax then (if dmax = 0 then None else Some (False, []))
         else if length str * 2 + 1 > dmax then None
         else do { r \<leftarrow> hex_pairs str; Some (True, r) })"

text \<open>The string that is left in \<open>out_str\<close>, which nothing is written to when the size is 0.\<close>

fun unhex :: "cstr \<Rightarrow> bool \<times> cstr" where
  "unhex (h # l # r) =
     (let c = hex_to_byte h l in if c < 0 then (False, []) else let (ok, out) = unhex r in (ok, of_int c # out))"
| "unhex s = (True, [])"

definition dwpald_hex_to_str :: "nat \<Rightarrow> cstr \<Rightarrow> bool \<times> cstr option" where
  "dwpald_hex_to_str dmax hex_str =
     (if dmax = 0 then (False, None)
      else let len = strnlen_s hex_str ((dmax + 1) * 2)
           in if len div 2 + 1 > dmax then (False, Some [])
              else if odd len then (False, Some [])
              else let (ok, out) = unhex hex_str in (ok, Some out))"

section \<open>Building a command\<close>

datatype dwpald_type = DWPALD_TYPE_END | DWPALD_TYPE_STR | DWPALD_TYPE_HEXSTR | DWPALD_TYPE_CHAR | DWPALD_TYPE_INT8
  | DWPALD_TYPE_UINT8 | DWPALD_TYPE_SHORT | DWPALD_TYPE_USHORT | DWPALD_TYPE_INT | DWPALD_TYPE_UINT
  | DWPALD_TYPE_INT64 | DWPALD_TYPE_UINT64 | DWPALD_TYPE_BOOL | DWPALD_TYPE_HEX | DWPALD_TYPE_STR_ARRAY
  | DWPALD_TYPE_INT_ARRAY | DWPALD_TYPE_HEX_ARRAY | DWPALD_TYPE_DUMMY | DWPALD_TYPE_MAXCOUNT

text \<open>The union of a parameter: its eight bytes as a number, and the string that it points to as a pointer.\<close>

record dwpald_fields_to_cmd =
  fc_num :: "64 word"
  fc_str :: cstr
  fc_type :: dwpald_type
  fc_prefix :: "cstr option"

fun base_digits :: "nat \<Rightarrow> nat \<Rightarrow> cstr" where
  "base_digits b n =
     (let d = (if n mod b < 10 then of_nat (48 + n mod b) else of_nat (55 + n mod b) :: u8)
      in if n < b \<or> b < 2 then [d] else base_digits b (n div b) @ [d])"

declare base_digits.simps [simp del]

definition print_int :: "int \<Rightarrow> cstr" where
  "print_int i = (if i < 0 then 45 # base_digits 10 (nat (- i)) else base_digits 10 (nat i))"

text \<open>What \<open>sprintf_s\<close> is to write for a parameter; None when the function gives up.\<close>

definition cmd_param_text :: "dwpald_fields_to_cmd \<Rightarrow> cstr option" where
  "cmd_param_text p =
     (let prefix = (case fc_prefix p of None \<Rightarrow> [] | Some s \<Rightarrow> s); u = fc_num p;
          txt = (\<lambda>s. Some (prefix @ s @ [32]))
      in case fc_type p of
           DWPALD_TYPE_STR \<Rightarrow> txt (fc_str p)
         | DWPALD_TYPE_HEXSTR \<Rightarrow>
             (let strlen = strnlen_s (fc_str p) (HOSTAPD_TO_DWPAL_VALUE_STRING_LENGTH - 1)
              in case dwpald_str_to_hex (strlen * 2 + 1) (fc_str p) of Some (True, hex) \<Rightarrow> txt hex | _ \<Rightarrow> None)
         | DWPALD_TYPE_CHAR \<Rightarrow> txt [ucast u]
         | DWPALD_TYPE_INT8 \<Rightarrow> txt (print_int (sint (ucast u :: 8 word)))
         | DWPALD_TYPE_UINT8 \<Rightarrow> txt (print_int (uint (ucast u :: 8 word)))
         | DWPALD_TYPE_SHORT \<Rightarrow> txt (print_int (sint (ucast u :: 16 word)))
         | DWPALD_TYPE_USHORT \<Rightarrow> txt (print_int (uint (ucast u :: 16 word)))
         | DWPALD_TYPE_INT \<Rightarrow> txt (print_int (sint (ucast u :: 32 word)))
         | DWPALD_TYPE_UINT \<Rightarrow> txt (print_int (uint (ucast u :: 32 word)))
         | DWPALD_TYPE_INT64 \<Rightarrow> txt (print_int (sint u))
         | DWPALD_TYPE_UINT64 \<Rightarrow> txt (print_int (uint u))
         | DWPALD_TYPE_BOOL \<Rightarrow> txt (print_int (if (ucast u :: 8 word) \<noteq> 0 then 1 else 0))
         | DWPALD_TYPE_HEX \<Rightarrow> txt (base_digits 16 (unat (ucast u :: 32 word)))
         | DWPALD_TYPE_DUMMY \<Rightarrow> Some []
         | _ \<Rightarrow> None)"

text \<open>
  The buffer is its text so far.  \<open>sprintf_s\<close> returns a negative value when its text does not
  fit in what is left of the buffer, except that a dummy writes nothing.
\<close>

fun cmd_params :: "dwpald_fields_to_cmd list \<Rightarrow> cstr \<Rightarrow> nat \<Rightarrow> int \<Rightarrow> (int \<times> cstr) option" where
  "cmd_params [] out dmax tot = Some (tot, out)"
| "cmd_params (p # ps) out dmax tot =
     (if fc_type p = DWPALD_TYPE_END \<or> fc_type p = DWPALD_TYPE_MAXCOUNT then Some (tot, out)
      else (case cmd_param_text p of
              None \<Rightarrow> None
            | Some t \<Rightarrow>
                if fc_type p \<noteq> DWPALD_TYPE_DUMMY \<and> \<not> length t < dmax then None
                else cmd_params ps (out @ t) (dmax - length t) (tot + int (length t))))"

definition dwpald_hostap_cmd_build ::
  "bool \<Rightarrow> nat \<Rightarrow> cstr option \<Rightarrow> dwpald_fields_to_cmd list option \<Rightarrow> int \<times> cstr option" where
  "dwpald_hostap_cmd_build out_given dmax cmd params =
     (case cmd of
        None \<Rightarrow> (-1, None)
      | Some c \<Rightarrow>
          if \<not> out_given \<or> dmax = 0 then (-1, None)
          else if \<not> length (c @ [32]) < dmax then (-1, None)
          else (case cmd_params (case params of None \<Rightarrow> [] | Some ps \<Rightarrow> ps) (c @ [32])
                       (dmax - length (c @ [32])) (int (length (c @ [32]))) of
                  None \<Rightarrow> (-1, None)
                | Some (tot, out) \<Rightarrow> (tot, Some (if last out = 32 then butlast out else out))))"

text \<open>\<open>rendered\<close> is the format with its arguments filled in.\<close>

definition dwpald_hostap_cmd_format :: "bool \<Rightarrow> nat \<Rightarrow> cstr option \<Rightarrow> cstr option \<Rightarrow> int \<times> cstr option" where
  "dwpald_hostap_cmd_format out_given dmax cmd rendered =
     (case (cmd, rendered) of
        (Some c, Some t) \<Rightarrow>
          if \<not> out_given \<or> dmax = 0 then (-1, None)
          else if \<not> length (c @ [32]) < dmax then (-1, None)
          else if \<not> length t < dmax - length (c @ [32]) then (-1, None)
          else (int (length (c @ [32])) + int (length t), Some (c @ [32] @ t))
      | _ \<Rightarrow> (-1, None))"

section \<open>The fields of a structure\<close>

text \<open>
  A field points into the caller's memory and to one of the caller's counters; addresses and
  counters are numbers.
\<close>

record dwpald_fields_to_parse =
  fp_field :: "nat option"
  fp_numOfValidArgs :: "nat option"
  fp_type :: dwpald_type
  fp_prefix :: "cstr option"
  fp_totalSizeOfArg :: nat

record caller =
  c_mem :: "nat \<Rightarrow> u8"
  c_count :: "nat \<Rightarrow> nat"

definition put_bytes :: "nat \<Rightarrow> u8 list \<Rightarrow> caller \<Rightarrow> caller" where
  "put_bytes a bs c = c\<lparr>c_mem := (\<lambda>k. if a \<le> k \<and> k < a + length bs then bs ! (k - a) else c_mem c k)\<rparr>"

definition count_arg :: "nat option \<Rightarrow> caller \<Rightarrow> caller" where
  "count_arg p c = (case p of None \<Rightarrow> c | Some i \<Rightarrow> c\<lparr>c_count := (c_count c)(i := c_count c i + 1)\<rparr>)"

definition is_array_field :: "dwpald_type \<Rightarrow> bool" where
  "is_array_field t \<longleftrightarrow> t = DWPALD_TYPE_STR_ARRAY \<or> t = DWPALD_TYPE_INT_ARRAY \<or> t = DWPALD_TYPE_HEX_ARRAY"

definition get_field_size :: "dwpald_fields_to_parse \<Rightarrow> nat" where
  "get_field_size f =
     (if fp_field f = None then 0
      else case fp_type f of
        DWPALD_TYPE_STR \<Rightarrow> fp_totalSizeOfArg f
      | DWPALD_TYPE_HEXSTR \<Rightarrow> fp_totalSizeOfArg f
      | DWPALD_TYPE_CHAR \<Rightarrow> 1
      | DWPALD_TYPE_INT8 \<Rightarrow> 1
      | DWPALD_TYPE_UINT8 \<Rightarrow> 1
      | DWPALD_TYPE_SHORT \<Rightarrow> 2
      | DWPALD_TYPE_USHORT \<Rightarrow> 2
      | DWPALD_TYPE_INT \<Rightarrow> 4
      | DWPALD_TYPE_UINT \<Rightarrow> 4
      | DWPALD_TYPE_HEX \<Rightarrow> 4
      | DWPALD_TYPE_INT64 \<Rightarrow> 8
      | DWPALD_TYPE_UINT64 \<Rightarrow> 8
      | DWPALD_TYPE_BOOL \<Rightarrow> 1
      | DWPALD_TYPE_STR_ARRAY \<Rightarrow> fp_totalSizeOfArg f
      | DWPALD_TYPE_INT_ARRAY \<Rightarrow> fp_totalSizeOfArg f
      | DWPALD_TYPE_HEX_ARRAY \<Rightarrow> fp_totalSizeOfArg f
      | _ \<Rightarrow> 0)"

definition set_field :: "nat \<Rightarrow> dwpald_fields_to_parse \<Rightarrow> cstr \<Rightarrow> caller \<Rightarrow> bool \<times> caller" where
  "set_field a f s c =
     (let stored = (\<lambda>bs. (True, count_arg (fp_numOfValidArgs f) (put_bytes a bs c))); sz = fp_totalSizeOfArg f
      in case fp_type f of
        DWPALD_TYPE_DUMMY \<Rightarrow> (True, c)
      | DWPALD_TYPE_STR \<Rightarrow>
          if length s < sz then stored (s @ [0]) else (False, if 0 < sz then put_bytes a [0] c else c)
      | DWPALD_TYPE_HEXSTR \<Rightarrow>
          (case dwpald_hex_to_str sz s of
             (True, Some out) \<Rightarrow> stored (out @ [0])
           | (_, Some out) \<Rightarrow> (False, put_bytes a (out @ [0]) c)
           | (_, None) \<Rightarrow> (False, c))
      | DWPALD_TYPE_CHAR \<Rightarrow> stored [if s = [] then 0 else hd s]
      | DWPALD_TYPE_INT8 \<Rightarrow> stored (int_bytes 1 (strtol s 0))
      | DWPALD_TYPE_UINT8 \<Rightarrow> stored (int_bytes 1 (strtol s 0))
      | DWPALD_TYPE_SHORT \<Rightarrow> stored (int_bytes 2 (strtol s 0))
      | DWPALD_TYPE_USHORT \<Rightarrow> stored (int_bytes 2 (strtol s 0))
      | DWPALD_TYPE_INT \<Rightarrow> stored (int_bytes 4 (strtol s 0))
      | DWPALD_TYPE_UINT \<Rightarrow> stored (int_bytes 4 (strtoul s 0))
      | DWPALD_TYPE_INT64 \<Rightarrow> stored (int_bytes 8 (strtol s 0))
      | DWPALD_TYPE_UINT64 \<Rightarrow> stored (int_bytes 8 (strtoul s 0))
      | DWPALD_TYPE_HEX \<Rightarrow> stored (int_bytes 4 (strtol s 16))
      | DWPALD_TYPE_BOOL \<Rightarrow> stored [if (of_int (strtol s 10) :: 32 word) \<noteq> 0 then 1 else 0]
      | _ \<Rightarrow> (False, c))"

text \<open>The fields before the end of the list.\<close>

definition active_fields :: "dwpald_fields_to_parse list \<Rightarrow> dwpald_fields_to_parse list" where
  "active_fields fs = takeWhile (\<lambda>f. fp_type f \<noteq> DWPALD_TYPE_END \<and> fp_type f \<noteq> DWPALD_TYPE_MAXCOUNT) fs"

fun cleanup_all_fields :: "dwpald_fields_to_parse list \<Rightarrow> caller \<Rightarrow> caller" where
  "cleanup_all_fields [] c = c"
| "cleanup_all_fields (f # fs) c =
     (let c1 = (case fp_numOfValidArgs f of None \<Rightarrow> c | Some i \<Rightarrow> c\<lparr>c_count := (c_count c)(i := 0)\<rparr>);
          c2 = (case fp_field f of None \<Rightarrow> c1 | Some a \<Rightarrow> put_bytes a (replicate (get_field_size f) 0) c1)
      in cleanup_all_fields fs c2)"

section \<open>Finding the values of a field\<close>

text \<open>
  The field whose first character is a newline ends the list of the field names.
\<close>

definition names_of :: "cstr list \<Rightarrow> cstr list" where
  "names_of ns = takeWhile (\<lambda>n. take 1 n \<noteq> [10]) ns"

fun column_scan :: "cstr \<Rightarrow> cstr list \<Rightarrow> nat \<Rightarrow> bool" where
  "column_scan msg [] found = True"
| "column_scan msg (n # ns) found =
     (if strstr msg n \<noteq> None
      then (if found + 1 > 1 then False
            else column_scan (drop (strnlen_s n HOSTAPD_TO_DWPAL_MSG_LENGTH) msg) ns (found + 1))
      else column_scan msg ns found)"

definition isColumnOfFields :: "cstr \<Rightarrow> cstr list option \<Rightarrow> bool" where
  "isColumnOfFields msg ends = (case ends of None \<Rightarrow> False | Some ns \<Rightarrow> column_scan msg (names_of ns) 0)"

function all_columns :: "cstr list \<Rightarrow> cstr \<Rightarrow> nat \<Rightarrow> bool" where
  "all_columns ns s dmax =
     (case strtok_s 10 s dmax of
        None \<Rightarrow> True
      | Some (line, rest, dmax') \<Rightarrow> isColumnOfFields line (Some ns) \<and> all_columns ns rest dmax')"
  by pat_completeness auto

lemma strtok_s_cases:
  assumes "strtok_s d s dmax = Some (tok, rest, dmax')"
  shows "\<exists>pre post. s = pre @ tok @ post \<and> (\<forall>c \<in> set pre. c = d) \<and> tok \<noteq> [] \<and> d \<notin> set tok \<and>
    (post = [] \<and> rest = [] \<or> post = d # rest)"
proof -
  define s1 where "s1 = dropWhile (\<lambda>c. c = d) s"
  define pre where "pre = takeWhile (\<lambda>c. c = d) s"
  define t where "t = takeWhile (\<lambda>c. c \<noteq> d) s1"
  define post where "post = dropWhile (\<lambda>c. c \<noteq> d) s1"
  have eq: "strtok_s d s dmax = (if s1 = [] then None
      else if post = [] then (if length pre + length t \<le> dmax then Some (t, [], dmax - (length pre + length t)) else None)
      else (if length pre + length t + 1 \<le> dmax then Some (t, tl post, dmax - (length pre + length t + 1)) else None))"
    by (simp only: strtok_s_def Let_def s1_def pre_def t_def post_def)
  have s: "s = pre @ t @ post" by (simp add: s1_def pre_def t_def post_def)
  have "s1 \<noteq> []" using eq assms by auto
  then have "hd s1 \<noteq> d" unfolding s1_def by (rule hd_dropWhile)
  with \<open>s1 \<noteq> []\<close> have "t \<noteq> []" by (cases s1) (simp_all add: t_def)
  moreover have "d \<notin> set t" unfolding t_def using set_takeWhileD by fastforce
  moreover have "\<forall>c \<in> set pre. c = d" unfolding pre_def using set_takeWhileD by fastforce
  moreover have "post \<noteq> [] \<Longrightarrow> hd post = d" unfolding post_def using hd_dropWhile [of "\<lambda>c. c \<noteq> d" s1] by simp
  moreover have "tok = t \<and> (post = [] \<and> rest = [] \<or> post \<noteq> [] \<and> rest = tl post)"
    using assms unfolding eq by (auto split: if_splits)
  ultimately show ?thesis using s by (intro exI [of _ pre] exI [of _ post]) (cases post; auto)
qed

lemma strtok_s_shorter: "strtok_s d s dmax = Some (tok, rest, dmax') \<Longrightarrow> length rest < length s"
  by (frule strtok_s_cases) auto

termination all_columns
  by (relation "measure (\<lambda>(ns, s, dmax). length s)") (auto dest: strtok_s_shorter)

declare all_columns.simps [simp del]

definition columnOfParamsToRowConvert :: "cstr \<Rightarrow> nat \<Rightarrow> cstr list \<Rightarrow> cstr" where
  "columnOfParamsToRowConvert msg msgLen ends =
     (if all_columns ends msg msgLen then map (\<lambda>c. if c = 10 then 32 else c) (take msgLen msg) else msg)"

text \<open>
  The loop of \<open>fieldValuesGet\<close> over the occurrences of the name.  \<open>rest\<close> is the text behind the
  latest occurrence, \<open>first\<close> the flag \<open>isFirstEndOfString\<close>, which is not set again for the
  next occurrence, and \<open>acc\<close> the bytes that were copied into the 4096 bytes of
  \<open>stringOfValues\<close>.  The result is None when a byte is written behind them, otherwise the flag
  whether the values can be used and the bytes.
\<close>

definition value_cut :: "dwpald_type \<Rightarrow> cstr \<Rightarrow> nat" where
  "value_cut t txt =
     length (takeWhile (\<lambda>c. (if is_array_field t then c \<noteq> 61 else c \<noteq> 32) \<and> c \<noteq> 0) txt) + 1"

function values_loop ::
  "dwpald_type \<Rightarrow> cstr \<Rightarrow> cstr list \<Rightarrow> cstr \<Rightarrow> bool \<Rightarrow> bool \<Rightarrow> u8 list \<Rightarrow> (bool \<times> u8 list) option" where
  "values_loop t name ends txt first found acc =
     (case strstr txt name of
        None \<Rightarrow> Some (found, acc)
      | Some at \<Rightarrow>
          (let rest = drop (at + strnlen_s name HOSTAPD_TO_DWPAL_VALUE_STRING_LENGTH) txt;
               hits = List.map_filter (\<lambda>e. strstr rest (sprintf_s HOSTAPD_TO_DWPAL_VALUE_STRING_LENGTH (32 # e))) (names_of ends);
               number = (if first \<and> hits \<noteq> [] then Min (set hits) + 1
                         else strnlen_s rest HOSTAPD_TO_DWPAL_VALUE_STRING_LENGTH + 1);
               cut = value_cut t (take (number - 1) rest)
           in if number \<ge> HOSTAPD_TO_DWPAL_VALUE_STRING_LENGTH then Some (False, acc)
              else if length acc + cut \<ge> HOSTAPD_TO_DWPAL_VALUE_STRING_LENGTH then None
              else values_loop t name ends rest (first \<and> hits = []) True (acc @ take cut (rest @ [0]))))"
  by pat_completeness auto
lemma value_cut_pos: "0 < value_cut t txt"
  by (simp add: value_cut_def)

lemma cut_shrinks:
  fixes cut n :: nat
  assumes "0 < cut" "\<not> n \<le> length acc + cut"
  shows "n - length (acc @ take cut (rest @ [c])) < n - length acc"
proof -
  have "0 < length (take cut (rest @ [c]))" using assms(1) by (cases rest) auto
  with assms(2) show ?thesis unfolding length_append by linarith
qed

termination values_loop
  by (relation "measure (\<lambda>(t, name, ends, txt, first, found, acc). HOSTAPD_TO_DWPAL_VALUE_STRING_LENGTH - length acc)")
    (auto simp only: in_measure prod.case wf_measure intro!: cut_shrinks value_cut_pos)

declare values_loop.simps [simp del]

definition strip_blanks :: "u8 list \<Rightarrow> u8 list" where
  "strip_blanks acc = (case acc of [] \<Rightarrow> [] | c # cs \<Rightarrow> c # rev (dropWhile (\<lambda>x. x = 32) (rev cs)))"

definition fieldValuesGet ::
  "cstr \<Rightarrow> nat \<Rightarrow> dwpald_type \<Rightarrow> cstr \<Rightarrow> cstr list \<Rightarrow> (bool \<times> cstr) option" where
  "fieldValuesGet buf bufLen t stringToSearch ends =
     do { (ret, acc) \<leftarrow> values_loop t (sprintf_s DWPAL_FIELD_NAME_LENGTH (32 # stringToSearch)) ends
                          (sprintf_s (bufLen + 2) (32 # buf)) True False [];
          Some (ret, cstr_of (strip_blanks acc)) }"

section \<open>Storing the values\<close>

definition mandatoryFieldValueGet :: "cstr option \<Rightarrow> nat \<Rightarrow> (cstr \<times> cstr \<times> nat) option" where
  "mandatoryFieldValueGet txt dmax =
     (case txt of
        None \<Rightarrow> None
      | Some s \<Rightarrow>
          (case strtok_s 32 s dmax of
             None \<Rightarrow> None
           | Some (param, rest, dmax') \<Rightarrow>
               if length param < HOSTAPD_TO_DWPAL_VALUE_STRING_LENGTH then Some (param, rest, dmax') else None))"

text \<open>
  The loop of \<open>arrayValuesGet\<close>: every element of the text is counted by \<open>idx\<close>, as many as the
  array has are stored, and behind the last element of the text the integer at \<open>idx\<close> is
  cleared, whatever the type of the array.
\<close>

function array_loop ::
  "nat \<Rightarrow> nat \<Rightarrow> dwpald_type \<Rightarrow> nat option \<Rightarrow> nat \<Rightarrow> cstr \<Rightarrow> nat \<Rightarrow> caller \<Rightarrow> bool \<times> nat \<times> caller" where
  "array_loop a elems t cnt idx s dmax c =
     (if idx \<ge> DWPAL_MAX_NUM_OF_ELEMENTS then (True, idx, c)
      else case strtok_s 32 s dmax of
        None \<Rightarrow> (True, idx, put_bytes (a + 4 * idx) [0, 0, 0, 0] c)
      | Some (param, rest, dmax') \<Rightarrow>
          if idx < elems
          then (let c1 = count_arg cnt c;
                    go_on = (\<lambda>bs at. array_loop a elems t cnt (idx + 1) rest dmax' (put_bytes at bs c1))
                in case t of
                     DWPALD_TYPE_HEX_ARRAY \<Rightarrow> go_on (int_bytes 4 (strtol param 16)) (a + 4 * idx)
                   | DWPALD_TYPE_INT_ARRAY \<Rightarrow> go_on (int_bytes 4 (strtol param 0)) (a + 4 * idx)
                   | DWPALD_TYPE_STR_ARRAY \<Rightarrow>
                       go_on (if length param < HOSTAPD_TO_DWPAL_VALUE_STRING_LENGTH then param @ [0] else [0])
                         (a + idx * HOSTAPD_TO_DWPAL_VALUE_STRING_LENGTH)
                   | _ \<Rightarrow> (False, idx, c1))
          else array_loop a elems t cnt (idx + 1) rest dmax' c)"
  by pat_completeness auto
termination
  by (relation "measure (\<lambda>(a, elems, t, cnt, idx, s, dmax, c). DWPAL_MAX_NUM_OF_ELEMENTS - idx)") auto

declare array_loop.simps [simp del]

definition arrayValuesGet :: "cstr \<Rightarrow> nat \<Rightarrow> dwpald_type \<Rightarrow> nat option \<Rightarrow> nat \<Rightarrow> caller \<Rightarrow> bool \<times> caller" where
  "arrayValuesGet s sz t cnt a c =
     (let elems = (case t of
                     DWPALD_TYPE_INT_ARRAY \<Rightarrow> sz div 4
                   | DWPALD_TYPE_HEX_ARRAY \<Rightarrow> sz div 4
                   | DWPALD_TYPE_STR_ARRAY \<Rightarrow> sz div HOSTAPD_TO_DWPAL_VALUE_STRING_LENGTH
                   | _ \<Rightarrow> sz);
          (ok, idx, c1) = array_loop a elems t cnt 0 s (strnlen_s s DWPAL_TO_HOSTAPD_MSG_LENGTH) c
      in (ok \<and> \<not> idx > elems, c1))"

section \<open>Parsing a response\<close>

text \<open>
  One field of a line.  The values without a name are taken from a copy of the line: while
  \<open>ms_first\<close> no field was treated yet, and afterwards \<open>ms_rest\<close> is where the latest of them
  ended.  A name that is missing is not looked for: the library would read through NULL.
\<close>

record mandatory_state =
  ms_first :: bool
  ms_rest :: "cstr option"
  ms_dmax :: nat

definition parse_field ::
  "cstr \<Rightarrow> nat \<Rightarrow> cstr list option \<Rightarrow> nat \<Rightarrow> nat \<Rightarrow> dwpald_fields_to_parse \<Rightarrow> mandatory_state \<Rightarrow> caller \<Rightarrow>
     (bool \<times> mandatory_state \<times> caller) option" where
  "parse_field line msgLen ends offset userBufLen f ms c =
     (let field = map_option (\<lambda>a. a + offset) (fp_field f); ms' = ms\<lparr>ms_first := False\<rparr>
      in if field \<noteq> None \<and> offset \<ge> userBufLen then Some (False, ms, c)
         else if fp_prefix f = None \<and> \<not> is_array_field (fp_type f)
         then (case mandatoryFieldValueGet (if ms_first ms then Some line else ms_rest ms) (ms_dmax ms) of
                 None \<Rightarrow> Some (False, ms, c)
               | Some (v, rest, dmax) \<Rightarrow>
                   (let (ok, c1) = (case field of None \<Rightarrow> (True, c) | Some a \<Rightarrow> set_field a f v c)
                    in Some (ok, \<lparr>ms_first = False, ms_rest = Some rest, ms_dmax = dmax\<rparr>, c1)))
         else (case (field, ends, fp_prefix f) of
                 (None, None, _) \<Rightarrow> Some (\<not> is_array_field (fp_type f), ms', c)
               | (None, Some _, _) \<Rightarrow> Some (True, ms', c)
               | (Some a, None, _) \<Rightarrow> Some (False, ms', c)
               | (Some a, Some ns, None) \<Rightarrow> None
               | (Some a, Some ns, Some name) \<Rightarrow> do {
                   (found, v) \<leftarrow> fieldValuesGet line msgLen (fp_type f) name ns;
                   let (ok, c1) =
                     (if \<not> found then (True, c)
                      else if is_array_field (fp_type f)
                      then arrayValuesGet v (fp_totalSizeOfArg f) (fp_type f) (fp_numOfValidArgs f) a c
                      else set_field a f v c);
                   Some (ok, ms', c1) }))"

fun parse_line ::
  "cstr \<Rightarrow> nat \<Rightarrow> cstr list option \<Rightarrow> nat \<Rightarrow> nat \<Rightarrow> dwpald_fields_to_parse list \<Rightarrow> mandatory_state \<Rightarrow> caller \<Rightarrow>
     (bool \<times> caller) option" where
  "parse_line line msgLen ends offset userBufLen [] ms c = Some (True, c)"
| "parse_line line msgLen ends offset userBufLen (f # fs) ms c =
     (if fp_type f = DWPALD_TYPE_DUMMY then parse_line line msgLen ends offset userBufLen fs ms c
      else do { (ok, ms1, c1) \<leftarrow> parse_field line msgLen ends offset userBufLen f ms c;
                if ok then parse_line line msgLen ends offset userBufLen fs ms1 c1 else Some (False, c1) })"

function parse_lines ::
  "cstr \<Rightarrow> nat \<Rightarrow> nat \<Rightarrow> cstr list option \<Rightarrow> nat \<Rightarrow> nat \<Rightarrow> nat \<Rightarrow> dwpald_fields_to_parse list \<Rightarrow> caller \<Rightarrow>
     (bool \<times> caller) option" where
  "parse_lines msg dmax msgLen ends lineIdx sizeOfStruct userBufLen fs c =
     (case strtok_s 10 msg dmax of
        None \<Rightarrow> Some (True, c)
      | Some (line, rest, dmax') \<Rightarrow> do {
          (ok, c1) \<leftarrow> parse_line line msgLen ends (lineIdx * sizeOfStruct) userBufLen fs
                        \<lparr>ms_first = True, ms_rest = None, ms_dmax = strnlen_s line HOSTAPD_TO_DWPAL_MSG_LENGTH\<rparr> c;
          if ok then parse_lines rest dmax' msgLen ends (lineIdx + 1) sizeOfStruct userBufLen fs c1
          else Some (False, c1) })"
  by pat_completeness auto
termination
  by (relation "measure (\<lambda>(msg, dmax, msgLen, ends, lineIdx, sizeOfStruct, userBufLen, fs, c). length msg)")
    (auto dest: strtok_s_shorter)

declare parse_lines.simps [simp del]

text \<open>The check of a field's size, for the fields that are not dummies.\<close>

definition field_size_ok :: "dwpald_fields_to_parse \<Rightarrow> bool" where
  "field_size_ok f \<longleftrightarrow> fp_field f = None \<or>
     (get_field_size f \<noteq> 0 \<and>
      (fp_type f = DWPALD_TYPE_STR_ARRAY \<longrightarrow> get_field_size f mod HOSTAPD_TO_DWPAL_VALUE_STRING_LENGTH = 0) \<and>
      (fp_type f = DWPALD_TYPE_INT_ARRAY \<or> fp_type f = DWPALD_TYPE_HEX_ARRAY \<longrightarrow> get_field_size f mod 4 = 0))"

text \<open>
  The names that end a value: as many as there are named fields that are not dummies, but taken
  from all fields.
\<close>

definition end_names :: "dwpald_fields_to_parse list \<Rightarrow> cstr list option" where
  "end_names fs =
     (let k = length (filter (\<lambda>f. fp_type f \<noteq> DWPALD_TYPE_DUMMY \<and> fp_prefix f \<noteq> None) fs)
      in if k = 0 then None else Some (take k (List.map_filter fp_prefix fs) @ [[10]]))"

definition dwpald_hostap_response_parse ::
  "cstr option \<Rightarrow> nat \<Rightarrow> dwpald_fields_to_parse list option \<Rightarrow> nat \<Rightarrow> caller \<Rightarrow> (bool \<times> caller) option" where
  "dwpald_hostap_response_parse msg msgLen fieldsToParse userBufLen c =
     (case fieldsToParse of
        None \<Rightarrow> Some (False, c)
      | Some all_fields \<Rightarrow>
          (let fs = active_fields all_fields; c1 = cleanup_all_fields fs c
           in case msg of
                None \<Rightarrow> Some (False, c1)
              | Some m \<Rightarrow>
                  (let len = strnlen_s m HOSTAPD_TO_DWPAL_MSG_LENGTH; real = filter (\<lambda>f. fp_type f \<noteq> DWPALD_TYPE_DUMMY) fs;
                       sizeOfStruct = sum_list (map get_field_size real); ends = end_names fs;
                       m1 = (case ends of None \<Rightarrow> m | Some ns \<Rightarrow> columnOfParamsToRowConvert m len ns)
                   in if msgLen = 0 \<or> len > msgLen then Some (False, c1)
                      else if strncmp_eq m (cbytes ''UNKNOWN'') 7 \<or> strncmp_eq m (cbytes ''FAIL'') 4 then Some (False, c1)
                      else if list_ex (\<lambda>f. \<not> field_size_ok f) real then Some (False, c1)
                      else parse_lines m1 len len ends 0 sizeOfStruct userBufLen fs c1)))"

section \<open>Lemmas on the text functions\<close>

lemma char_to_hex_table:
  "list_all (\<lambda>n. case char_to_hex (of_nat n) of None \<Rightarrow> False | Some (a, b) \<Rightarrow> hex_to_byte a b = int n) [0..<128]"
  "list_all (\<lambda>n. char_to_hex (of_nat n) = None) [128..<256]"
  by code_simp+

lemma char_to_hex_spec:
  assumes "c < 128"
  shows "\<exists>a b. char_to_hex c = Some (a, b) \<and> hex_to_byte a b = uint c"
proof -
  have "unat c \<in> set [0..<128]" using assms by (simp add: word_less_nat_alt)
  then have "case char_to_hex (of_nat (unat c)) of None \<Rightarrow> False | Some (a, b) \<Rightarrow> hex_to_byte a b = int (unat c)"
    by (rule bspec [OF char_to_hex_table(1) [unfolded list_all_iff]])
  then show ?thesis by (auto split: option.splits)
qed

lemma char_to_hex_high: "128 \<le> c \<Longrightarrow> char_to_hex c = None"
proof -
  assume "128 \<le> c"
  then have "128 \<le> unat c" by (simp add: word_le_nat_alt)
  moreover have "unat c < 256" by (rule order.strict_trans2 [OF unsigned_less]) simp
  ultimately have "unat c \<in> set [128..<256]" by (simp only: set_upt atLeastLessThan_iff)
  then have "char_to_hex (of_nat (unat c)) = None"
    by (rule bspec [OF char_to_hex_table(2) [unfolded list_all_iff]])
  then show ?thesis by simp
qed

lemma hex_pairs_low:
  "\<forall>c \<in> set s. c < 128 \<Longrightarrow> \<exists>h. hex_pairs s = Some h \<and> length h = 2 * length s \<and> unhex h = (True, s)"
proof (induction s)
  case (Cons c s)
  then obtain h where h: "hex_pairs s = Some h" "length h = 2 * length s" "unhex h = (True, s)" by auto
  obtain a b where "char_to_hex c = Some (a, b)" "hex_to_byte a b = uint c" using char_to_hex_spec Cons.prems by fastforce
  with h show ?case by simp
qed simp

lemma hex_pairs_high: "\<exists>c \<in> set s. 128 \<le> c \<Longrightarrow> hex_pairs s = None"
proof (induction s)
  case (Cons c s)
  show ?case
  proof (cases "128 \<le> c")
    case False
    with Cons show ?thesis by (auto simp: Option.bind_eq_None_conv split: option.splits)
  qed (simp add: char_to_hex_high)
qed simp

text \<open>Splitting at a blank: a text without blanks is one token, and one occurrence at a time.\<close>

lemma strtok_s_token:
  assumes "tok \<noteq> []" "d \<notin> set tok"
  shows "length tok + 1 \<le> dmax \<Longrightarrow> strtok_s d (tok @ d # rest) dmax = Some (tok, rest, dmax - (length tok + 1))"
    "length tok \<le> dmax \<Longrightarrow> strtok_s d tok dmax = Some (tok, [], dmax - length tok)"
proof -
  have tw: "takeWhile (\<lambda>c. c \<noteq> d) (tok @ d # rest) = tok" "dropWhile (\<lambda>c. c \<noteq> d) (tok @ d # rest) = d # rest"
    "takeWhile (\<lambda>c. c \<noteq> d) tok = tok" "dropWhile (\<lambda>c. c \<noteq> d) tok = []"
    using assms(2) by (induction tok) auto
  have "takeWhile (\<lambda>c. c = d) (tok @ r) = []" "dropWhile (\<lambda>c. c = d) (tok @ r) = tok @ r" for r
    using assms by (cases tok; auto)+
  note skip = this [of "d # rest"] this [of "[]", unfolded append_Nil2]
  show "length tok + 1 \<le> dmax \<Longrightarrow> strtok_s d (tok @ d # rest) dmax = Some (tok, rest, dmax - (length tok + 1))"
    "length tok \<le> dmax \<Longrightarrow> strtok_s d tok dmax = Some (tok, [], dmax - length tok)"
    unfolding strtok_s_def Let_def skip tw using assms(1) by simp_all
qed

lemma strstr_here: "strstr (n @ s) n = Some 0"
proof (cases "n @ s")
  case (Cons c cs)
  then have "take (length n) (c # cs) = n" by (metis append_eq_conv_conj)
  with Cons show ?thesis by simp
qed auto

lemma strstr_skip: "32 \<notin> set v \<Longrightarrow> strstr (v @ s) (32 # n) = map_option ((+) (length v)) (strstr s (32 # n))"
proof (induction v)
  case Nil
  show ?case by (cases "strstr s (32 # n)") auto
next
  case (Cons c v)
  then show ?case by (cases "strstr s (32 # n)") auto
qed

lemma strstr_item:
  "strstr (32 # s) (32 # n) = (if take (length n) s = n then Some 0 else map_option Suc (strstr s (32 # n)))"
  by simp

lemma strstr_none: "32 \<notin> set v \<Longrightarrow> strstr v (32 # n) = None"
  using strstr_skip [of v "[]" n] by simp

text \<open>Numbers are read back as they were printed.\<close>

lemma base_digits_step: "10 \<le> n \<Longrightarrow> base_digits 10 n = base_digits 10 (n div 10) @ [of_nat (48 + n mod 10)]"
  by (subst base_digits.simps) (simp add: Let_def)

lemma base_digits_one: "n < 10 \<Longrightarrow> base_digits 10 n = [of_nat (48 + n)]"
  by (subst base_digits.simps) (simp add: Let_def)

lemma digit_char: "n < 10 \<Longrightarrow> unat (of_nat (48 + n) :: u8) = 48 + n \<and> digit_value (of_nat (48 + n)) = n"
  using unat_of_nat_u8 [of "48 + n"] by (simp add: digit_value_def word_le_nat_alt del: of_nat_add)

lemma decimal_digits:
  "\<forall>c \<in> set (base_digits 10 n). digit_value c < 10 \<and> 48 \<le> unat c \<and> unat c \<le> 57"
  "foldl (\<lambda>n c. n * 10 + digit_value c) 0 (base_digits 10 n) = n"
  "base_digits 10 n \<noteq> []"
  "0 < n \<Longrightarrow> hd (base_digits 10 n) \<noteq> 48"
proof (induction n rule: less_induct)
  case (less n)
  have d: "digit_value (of_nat (48 + n mod 10)) = n mod 10" "unat (of_nat (48 + n mod 10) :: u8) = 48 + n mod 10"
    using digit_char [of "n mod 10"] by simp_all
  {
    case 1
    show ?case
    proof (cases "n < 10")
      case True
      with digit_char [OF True] show ?thesis by (simp add: base_digits_one del: of_nat_add)
    next
      case False
      with less(1) [of "n div 10"] d show ?thesis by (simp add: base_digits_step del: of_nat_add)
    qed
  next
    case 2
    show ?case
    proof (cases "n < 10")
      case True
      with digit_char [OF True] show ?thesis by (simp add: base_digits_one del: of_nat_add)
    next
      case False
      with less(2) [of "n div 10"] d show ?thesis by (simp add: base_digits_step del: of_nat_add)
    qed
  next
    case 3
    show ?case by (cases "n < 10") (simp_all add: base_digits_one base_digits_step)
  next
    case 4
    show ?case
    proof (cases "n < 10")
      case True
      with digit_char [OF True] 4 show ?thesis by (auto simp: base_digits_one simp del: of_nat_add)
    next
      case False
      with less(3,4) [of "n div 10"] show ?thesis by (simp add: base_digits_step hd_append)
    qed
  }
qed

lemma digits_value_decimal: "digits_value 10 (base_digits 10 n) = n"
  using decimal_digits(1,2) [of n] by (simp add: digits_value_def takeWhile_eq_all_conv [THEN iffD2])

lemma number_value_decimal: "number_value 0 (base_digits 10 n) = n"
proof (cases "n = 0")
  case True
  then show ?thesis by (simp add: number_value_def base_digits_one digits_value_def hex_prefixed_def digit_value_def)
next
  case False
  with decimal_digits(3,4) [of n] have "hd (base_digits 10 n) \<noteq> 48" "base_digits 10 n ! 0 \<noteq> 48"
    by (simp_all add: hd_conv_nth)
  then show ?thesis by (simp add: number_value_def hex_prefixed_def digits_value_decimal)
qed

lemma strtol_print_int:
  assumes "- (2 ^ 63) \<le> i" "i < 2 ^ 63"
  shows "strtol (print_int i) 0 = i"
proof -
  obtain c cs where c: "base_digits 10 (nat \<bar>i\<bar>) = c # cs" using decimal_digits(3) by (meson list.exhaust)
  then have "48 \<le> unat c \<and> unat c \<le> 57" using decimal_digits(1) [of "nat \<bar>i\<bar>"] by simp
  then have cc: "\<not> is_space c" "c \<noteq> 45" "c \<noteq> 43" "\<not> is_space 45"
    by (auto simp: is_space_def word_le_nat_alt)
  have "strto (print_int i) 0 = (i < 0, nat \<bar>i\<bar>)"
  proof (cases "i < 0")
    case True
    then have "print_int i = 45 # base_digits 10 (nat \<bar>i\<bar>)" by (simp add: print_int_def)
    with True cc(4) number_value_decimal [of "nat \<bar>i\<bar>"] show ?thesis by (simp add: strto_def)
  next
    case False
    then have "print_int i = c # cs" using c by (simp add: print_int_def)
    with False cc number_value_decimal [of "nat \<bar>i\<bar>"] c show ?thesis by (simp add: strto_def)
  qed
  with assms show ?thesis by (auto simp: strtol_def)
qed

lemma print_int_chars: "c \<in> set (print_int i) \<Longrightarrow> c \<noteq> 32 \<and> c \<noteq> 0"
  using decimal_digits(1) [of "nat i"] decimal_digits(1) [of "nat (- i)"]
  by (auto simp: print_int_def split: if_splits)

lemma print_int_nonempty: "print_int i \<noteq> []"
  using decimal_digits(3) by (simp add: print_int_def)

text \<open>A line as its words, each after a blank, and the word that begins with a name.\<close>

definition words :: "cstr list \<Rightarrow> cstr" where
  "words its = concat (map ((#) 32) its)"

lemma words_simps [simp]:
  "words [] = []" "words (w # ws) = 32 # w @ words ws" "words (ws @ vs) = words ws @ words vs"
  by (simp_all add: words_def)

lemma take_word:
  assumes "32 \<notin> set n"
  shows "take (length n) (w @ words ws) = n \<longleftrightarrow> take (length n) w = n"
proof (cases "length n \<le> length w")
  case False
  have "take (length n) (w @ words ws) \<noteq> n"
  proof
    assume n: "take (length n) (w @ words ws) = n"
    show False
    proof (cases ws)
      case Nil
      with n False show False by (metis append_Nil2 words_simps(1) length_take min.absorb1 nat_le_linear)
    next
      case (Cons v vs)
      have "n ! length w = 32" using False Cons by (subst n [symmetric]) (simp add: nth_append)
      with assms False show False by (metis linorder_not_le nth_mem)
    qed
  qed
  moreover have "take (length n) w \<noteq> n" using False by auto
  ultimately show ?thesis by blast
qed simp

lemma strstr_words_none:
  assumes "32 \<notin> set n" "\<forall>w \<in> set ws. 32 \<notin> set w \<and> take (length n) w \<noteq> n"
  shows "strstr (words ws) (32 # n) = None"
  using assms(2)
proof (induction ws)
  case Nil
  show ?case by simp
next
  case (Cons w ws)
  have "strstr (w @ words ws) (32 # n) = None" using Cons strstr_skip [of w "words ws" n] by simp
  with Cons.prems show ?case by (simp add: take_word [OF assms(1)] del: take_append)
qed

lemma strstr_words:
  assumes "32 \<notin> set n" "\<forall>w \<in> set pre. 32 \<notin> set w \<and> take (length n) w \<noteq> n"
  shows "strstr (words pre @ 32 # n @ v) (32 # n) = Some (length (words pre))"
  using assms(2)
proof (induction pre)
  case Nil
  show ?case using strstr_here [of "32 # n" v] by simp
next
  case (Cons w ws)
  have "strstr (words (w # ws) @ 32 # n @ v) (32 # n) =
      (if take (length n) (w @ words ws @ 32 # n @ v) = n then Some 0
       else map_option Suc (strstr (w @ words ws @ 32 # n @ v) (32 # n)))"
    by (simp del: take_append)
  moreover have "take (length n) (w @ words ws @ 32 # n @ v) \<noteq> n"
  proof -
    have "take (length n) (w @ words (ws @ [n @ v])) \<noteq> n"
      using Cons.prems take_word [OF assms(1)] by (simp del: take_append words_simps)
    then show ?thesis by (simp del: take_append)
  qed
  moreover have "strstr (w @ words ws @ 32 # n @ v) (32 # n) = Some (length w + length (words ws))"
    using Cons strstr_skip [of w "words ws @ 32 # n @ v" n] by simp
  ultimately show ?case by simp
qed

text \<open>One round of the loop of \<open>fieldValuesGet\<close> at the word of the name.\<close>

lemma strstr_le: "strstr s k = Some p \<Longrightarrow> p \<le> length s"
  by (induction s arbitrary: p) (auto split: if_splits)

lemma hits_behind:
  assumes "32 \<notin> set v" "\<forall>e \<in> set ends. length e + 1 < HOSTAPD_TO_DWPAL_VALUE_STRING_LENGTH"
    "p \<in> set (List.map_filter (\<lambda>e. strstr (v @ s) (sprintf_s HOSTAPD_TO_DWPAL_VALUE_STRING_LENGTH (32 # e))) (names_of ends))"
  shows "length v \<le> p"
proof -
  obtain e where "e \<in> set (names_of ends)" "strstr (v @ s) (sprintf_s HOSTAPD_TO_DWPAL_VALUE_STRING_LENGTH (32 # e)) = Some p"
    using assms(3) by (auto simp: List.map_filter_def)
  moreover from this(1) have "e \<in> set ends" unfolding names_of_def by (rule set_takeWhileD [THEN conjunct1])
  ultimately have "strstr (v @ s) (32 # e) = Some p" using assms(2) by (auto simp: sprintf_s_def)
  with assms(1) show ?thesis by (auto simp: strstr_skip)
qed

lemma value_cut_word:
  assumes "32 \<notin> set v" "0 \<notin> set v" "\<not> is_array_field t" "s = [] \<or> hd s = 32"
  shows "value_cut t (v @ s) = length v + 1"
proof -
  have "takeWhile (\<lambda>c. (if is_array_field t then c \<noteq> 61 else c \<noteq> 32) \<and> c \<noteq> 0) (v @ s) = v"
    using assms by (induction v) (auto split: if_splits, cases s, auto)
  then show ?thesis by (simp only: value_cut_def)
qed

lemma values_loop_word:
  assumes n: "32 \<notin> set n" "length n + 1 < HOSTAPD_TO_DWPAL_VALUE_STRING_LENGTH"
    and ws: "\<forall>w \<in> set (pre @ (n @ v) # post). 32 \<notin> set w \<and> 0 \<notin> set w" "\<forall>w \<in> set (pre @ post). take (length n) w \<noteq> n"
    and ends: "\<forall>e \<in> set ends. length e + 1 < HOSTAPD_TO_DWPAL_VALUE_STRING_LENGTH"
    and t: "\<not> is_array_field t"
    and len: "length acc + length (v @ words post) + 1 < HOSTAPD_TO_DWPAL_VALUE_STRING_LENGTH"
  shows "values_loop t (32 # n) ends (words (pre @ (n @ v) # post)) first found acc =
    Some (True, acc @ v @ [if post = [] then 0 else 32])"
proof -
  let ?L = HOSTAPD_TO_DWPAL_VALUE_STRING_LENGTH
  let ?rest = "v @ words post"
  have at: "strstr (words (pre @ (n @ v) # post)) (32 # n) = Some (length (words pre))"
    using strstr_words [OF n(1), of pre "v @ words post"] ws by simp
  have rest: "drop (length (words pre) + strnlen_s (32 # n) ?L) (words (pre @ (n @ v) # post)) = ?rest"
    using n(2) by (simp add: strnlen_s_def min_def)
  have v: "32 \<notin> set v" "0 \<notin> set v" using ws(1) by auto
  have last: "strstr ?rest (32 # n) = None"
    using strstr_words_none [OF n(1), of post] ws v(1) by (simp add: strstr_skip)
  define hits where "hits = List.map_filter (\<lambda>e. strstr ?rest (sprintf_s ?L (32 # e))) (names_of ends)"
  define number where "number = (if first \<and> hits \<noteq> [] then Min (set hits) + 1 else strnlen_s ?rest ?L + 1)"
  have hits: "length v \<le> p \<and> p \<le> length ?rest" if hit: "p \<in> set hits" for p
  proof -
    have "length v \<le> p" using hits_behind [OF v(1) ends] hit unfolding hits_def by blast
    moreover obtain e where "strstr ?rest (sprintf_s ?L (32 # e)) = Some p"
      using hit by (auto simp: hits_def List.map_filter_def)
    ultimately show ?thesis using strstr_le by blast
  qed
  have number: "length v + 1 \<le> number" "number \<le> length ?rest + 1"
    using hits [OF Min_in, OF finite_set] len by (auto simp: number_def strnlen_s_def)
  have "take (number - 1) ?rest = v @ take (number - 1 - length v) (words post)" using number by simp
  moreover have "take k (words post) = [] \<or> hd (take k (words post)) = 32" for k by (cases post; cases k) auto
  ultimately have cut: "value_cut t (take (number - 1) ?rest) = length v + 1"
    using value_cut_word [OF v t] by metis
  have piece: "take (length v + 1) (?rest @ [0]) = v @ [if post = [] then 0 else 32]" by (cases post) auto
  have "values_loop t (32 # n) ends (words (pre @ (n @ v) # post)) first found acc =
      values_loop t (32 # n) ends ?rest (first \<and> hits = []) True (acc @ v @ [if post = [] then 0 else 32])"
    using number len
    by (subst values_loop.simps) (simp only: at rest Let_def option.case flip: hits_def, simp only: cut piece flip: number_def, simp)
  also have "\<dots> = Some (True, acc @ v @ [if post = [] then 0 else 32])"
    by (subst values_loop.simps) (simp only: last option.case)
  finally show ?thesis .
qed

lemma field_values_word:
  assumes n: "32 \<notin> set n" "length n + 1 < DWPAL_FIELD_NAME_LENGTH"
    and buf: "32 # buf = words (pre @ (n @ v) # post)" "length buf + 1 < HOSTAPD_TO_DWPAL_VALUE_STRING_LENGTH" "length buf \<le> bufLen"
    and ws: "\<forall>w \<in> set (pre @ (n @ v) # post). 32 \<notin> set w \<and> 0 \<notin> set w" "\<forall>w \<in> set (pre @ post). take (length n) w \<noteq> n"
    and ends: "\<forall>e \<in> set ends. length e + 1 < HOSTAPD_TO_DWPAL_VALUE_STRING_LENGTH"
    and t: "\<not> is_array_field t" and v: "v \<noteq> []"
  shows "fieldValuesGet buf bufLen t n ends = Some (True, v)"
proof -
  have names: "sprintf_s DWPAL_FIELD_NAME_LENGTH (32 # n) = 32 # n" "sprintf_s (bufLen + 2) (32 # buf) = words (pre @ (n @ v) # post)"
    unfolding buf(1) [symmetric] using n(2) buf(3) by (simp_all add: sprintf_s_def)
  have "length (v @ words post) \<le> length buf" using arg_cong [OF buf(1), of length] by simp
  then have loop: "values_loop t (32 # n) ends (words (pre @ (n @ v) # post)) True False [] =
      Some (True, v @ [if post = [] then 0 else 32])"
    using n(2) buf(2) by (subst values_loop_word [OF n(1) _ ws ends t]) (simp_all add: DWPAL_FIELD_NAME_LENGTH_def HOSTAPD_TO_DWPAL_VALUE_STRING_LENGTH_def)
  have v0: "32 \<notin> set v" "0 \<notin> set v" using ws(1) by auto
  have "strip_blanks (v @ [if post = [] then 0 else 32]) = v @ (if post = [] then [0] else [])"
  proof (cases v rule: rev_cases)
    case (snoc u x)
    with v0(1) show ?thesis by (cases u) (auto simp: strip_blanks_def)
  qed (use v in simp)
  moreover have "cstr_of (v @ (if post = [] then [0] else [])) = v" using v0(2) by simp
  ultimately have "cstr_of (strip_blanks (v @ [if post = [] then 0 else 32])) = v" by (simp only:)
  with loop names show ?thesis by (simp add: fieldValuesGet_def)
qed

section \<open>Properties\<close>

text \<open>
  C31. A string of seven-bit characters is converted to hexadecimal and back without loss, given
  the room.
\<close>

theorem hex_string_roundtrip:
  assumes "\<forall>c \<in> set s. c < 128" "2 * length s + 1 \<le> sz" "length s < n"
  shows "\<exists>h. dwpald_str_to_hex sz s = Some (True, h) \<and> dwpald_hex_to_str n h = (True, Some s)"
proof -
  obtain h where h: "hex_pairs s = Some h" "length h = 2 * length s" "unhex h = (True, s)"
    using hex_pairs_low [OF assms(1)] by blast
  have "dwpald_str_to_hex sz s = Some (True, h)"
    using h(1) assms(2) by (auto simp: dwpald_str_to_hex_def strnlen_s_def Let_def)
  moreover have "dwpald_hex_to_str n h = (True, Some s)"
    using h(2,3) assms(3) by (auto simp: dwpald_hex_to_str_def strnlen_s_def Let_def)
  ultimately show ?thesis by blast
qed

theorem hex_string_roundtrip_witness:
  "\<exists>h. dwpald_str_to_hex 9 (cbytes ''ABCD'') = Some (True, h) \<and> dwpald_hex_to_str 5 h = (True, Some (cbytes ''ABCD''))"
  by (rule hex_string_roundtrip) (auto simp: cbytes_def)

text \<open>
  A character from 128 on makes the conversion to hexadecimal read outside its table of
  digits, and so does building a command with such a string.
\<close>

theorem hex_of_high_character:
  assumes "c \<in> set s" "128 \<le> c" "2 * length s + 1 \<le> sz"
  shows "dwpald_str_to_hex sz s = None"
proof -
  have "hex_pairs s = None" using assms(1,2) by (intro hex_pairs_high) blast
  with assms(3) show ?thesis by (auto simp: dwpald_str_to_hex_def strnlen_s_def Let_def)
qed

theorem hex_of_high_character_witness: "dwpald_str_to_hex 9 [65, 200] = None"
  by (rule hex_of_high_character [of 200]) simp_all



text \<open>What \<open>cmd_params\<close> appends, and that the buffer never overflows.\<close>

definition blank_ended :: "cstr \<Rightarrow> bool" where
  "blank_ended s \<longleftrightarrow> s \<noteq> [] \<and> last s = 32"

lemma cmd_param_text_blank: "cmd_param_text p = Some t \<Longrightarrow> t = [] \<or> blank_ended t"
  by (auto simp: cmd_param_text_def Let_def blank_ended_def split: dwpald_type.splits option.splits prod.splits bool.splits)

lemma cmd_params_bounded:
  "cmd_params ps out dmax tot = Some (tot', out') \<Longrightarrow> 0 < dmax \<Longrightarrow> blank_ended out \<Longrightarrow>
     length out' < length out + dmax \<and> tot' - tot = int (length out') - int (length out) \<and> blank_ended out'"
proof (induction ps arbitrary: out dmax tot)
  case (Cons p ps)
  show ?case
  proof (cases "fc_type p = DWPALD_TYPE_END \<or> fc_type p = DWPALD_TYPE_MAXCOUNT")
    case True
    with Cons.prems show ?thesis by auto
  next
    case False
    with Cons.prems(1) obtain t where t: "cmd_param_text p = Some t" "fc_type p = DWPALD_TYPE_DUMMY \<or> length t < dmax"
      "cmd_params ps (out @ t) (dmax - length t) (tot + int (length t)) = Some (tot', out')"
      by (auto split: option.splits if_splits)
    have "fc_type p = DWPALD_TYPE_DUMMY \<Longrightarrow> t = []" using t(1) by (simp add: cmd_param_text_def Let_def)
    then have small: "length t < dmax" using t(2) Cons.prems(2) by auto
    moreover have "blank_ended (out @ t)"
      using Cons.prems(3) cmd_param_text_blank [OF t(1)] by (auto simp: blank_ended_def)
    ultimately show ?thesis using Cons.IH [OF t(3)] by simp
  qed
qed simp

lemma cmd_build_cases:
  assumes "dwpald_hostap_cmd_build g d cmd ps = (r, Some out)"
  shows "\<exists>c tx. cmd = Some c \<and> length c + 1 < d \<and> out = butlast tx \<and> blank_ended tx \<and>
    cmd_params (case ps of None \<Rightarrow> [] | Some l \<Rightarrow> l) (c @ [32]) (d - length (c @ [32])) (int (length (c @ [32]))) = Some (r, tx)"
proof -
  obtain c tx where c: "cmd = Some c" "length c + 1 < d" "out = (if last tx = 32 then butlast tx else tx)"
    "cmd_params (case ps of None \<Rightarrow> [] | Some l \<Rightarrow> l) (c @ [32]) (d - length (c @ [32])) (int (length (c @ [32]))) = Some (r, tx)"
    using assms by (auto simp: dwpald_hostap_cmd_build_def split: option.splits if_splits)
  then have "blank_ended tx" using cmd_params_bounded [OF c(4)] by (simp add: blank_ended_def)
  with c show ?thesis by (auto simp: blank_ended_def)
qed

text \<open>
  C32. A command that is built fits in its buffer with its NUL, and the number that is returned is
  one more than the length of the command, as the blank at its end is removed but counted.
\<close>

theorem built_command_fits:
  assumes "dwpald_hostap_cmd_build g d cmd ps = (r, Some out)"
  shows "length out + 1 < d \<and> r = int (length out) + 1"
proof -
  obtain c tx where c: "length c + 1 < d" "out = butlast tx" "blank_ended tx"
    "cmd_params (case ps of None \<Rightarrow> [] | Some l \<Rightarrow> l) (c @ [32]) (d - length (c @ [32])) (int (length (c @ [32]))) = Some (r, tx)"
    using cmd_build_cases [OF assms] by blast
  with cmd_params_bounded [OF c(4)] show ?thesis by (cases tx rule: rev_cases) (auto simp: blank_ended_def)
qed

definition int_param :: "cstr \<times> int \<Rightarrow> dwpald_fields_to_cmd" where
  "int_param p = \<lparr>fc_num = of_int (snd p), fc_str = [], fc_type = DWPALD_TYPE_INT, fc_prefix = Some (fst p)\<rparr>"

theorem built_command_fits_witness:
  "length (cbytes ''SET a=-5'') + 1 < 11 \<and> 9 = int (length (cbytes ''SET a=-5'')) + 1"
proof (rule built_command_fits)
  show "dwpald_hostap_cmd_build True 11 (Some (cbytes ''SET'')) (Some [int_param (cbytes ''a='', -5)]) =
    (9, Some (cbytes ''SET a=-5''))" by code_simp
qed

lemma cmd_params_appends: "cmd_params ps out d tot = Some (r, tx) \<Longrightarrow> \<exists>t. tx = out @ t"
  by (induction ps arbitrary: out d tot) (fastforce split: if_splits option.splits)+

text \<open>
  C28. A command built from parameters that print something is the command that formatting the
  same text builds, but the two functions return different lengths for it.
\<close>

theorem built_command_equals_formatted:
  assumes "dwpald_hostap_cmd_build True d (Some c) ps = (r, Some out)" "out \<noteq> c"
  shows "\<exists>t. out = c @ [32] @ t \<and> dwpald_hostap_cmd_format True d (Some c) (Some t) = (r - 1, Some out)"
proof -
  obtain tx where tx: "length c + 1 < d" "out = butlast tx" "blank_ended tx"
    "cmd_params (case ps of None \<Rightarrow> [] | Some l \<Rightarrow> l) (c @ [32]) (d - length (c @ [32])) (int (length (c @ [32]))) = Some (r, tx)"
    using cmd_build_cases [OF assms(1)] by auto
  obtain t where t: "tx = c @ [32] @ t" using cmd_params_appends [OF tx(4)] by auto
  have "t \<noteq> []" using assms(2) tx(2) t by auto
  then have out: "out = c @ [32] @ butlast t" "length (butlast t) + 1 = length t" using tx(2) t by (simp_all add: butlast_append)
  have "length tx < d \<and> r = int (length tx)" using cmd_params_bounded [OF tx(4)] tx(1) by (auto simp: blank_ended_def)
  with t tx(1) out(2) have fits: "length (butlast t) < d - Suc (length c)" "r - 1 = int (Suc (length c)) + int (length (butlast t))"
    by auto
  have "dwpald_hostap_cmd_format True d (Some c) (Some (butlast t)) = (r - 1, Some out)"
    using tx(1) fits out(1) by (simp add: dwpald_hostap_cmd_format_def del: length_butlast)
  with out(1) show ?thesis by blast
qed

theorem built_command_equals_formatted_witness:
  "\<exists>t. cbytes ''SET a=-5'' = cbytes ''SET'' @ [32] @ t \<and>
     dwpald_hostap_cmd_format True 11 (Some (cbytes ''SET'')) (Some t) = (9 - 1, Some (cbytes ''SET a=-5''))"
proof (rule built_command_equals_formatted)
  show "dwpald_hostap_cmd_build True 11 (Some (cbytes ''SET'')) (Some [int_param (cbytes ''a='', -5)]) =
    (9, Some (cbytes ''SET a=-5''))" by code_simp
qed (simp add: cbytes_def)

lemma int_param_text:
  assumes "- (2 ^ 31) \<le> i" "i < 2 ^ 31"
  shows "cmd_param_text (int_param (n, i)) = Some (n @ print_int i @ [32])"
proof -
  have "sint (ucast (of_int i :: 64 word) :: 32 word) = i"
    using assms by (transfer fixing: i) (simp add: signed_take_bit_take_bit signed_take_bit_int_eq_self)
  then show ?thesis by (simp add: cmd_param_text_def int_param_def)
qed

lemma int_params_text:
  assumes "\<forall>(n, i) \<in> set ps. - (2 ^ 31) \<le> i \<and> i < 2 ^ 31"
  shows "cmd_params (map int_param ps) (out @ [32]) d tot = Some (r, tx) \<Longrightarrow>
     32 # tx = words [out] @ words (map (\<lambda>(n, i). n @ print_int i) ps) @ [32]"
  using assms
proof (induction ps arbitrary: out d tot)
  case (Cons p ps)
  obtain n i where p: "p = (n, i)" by (cases p)
  have t: "cmd_param_text (int_param p) = Some (n @ print_int i @ [32])" "fc_type (int_param p) = DWPALD_TYPE_INT"
    using Cons.prems(2) p by (auto simp: int_param_text, simp add: int_param_def)
  with Cons.prems(1) have "cmd_params (map int_param ps) ((out @ [32] @ n @ print_int i) @ [32])
      (d - length (n @ print_int i @ [32])) (tot + int (length (n @ print_int i @ [32]))) = Some (r, tx)"
    by (auto split: if_splits)
  from Cons.IH [OF this] Cons.prems(2) p show ?case by simp
qed simp

text \<open>
  C14. What is built can be read back: from a command with integer parameters the parser finds,
  by the name of each parameter, the text that converts to its number, if the names and the
  command are words of which none begins with another's name.
\<close>

theorem built_command_read_back:
  assumes "dwpald_hostap_cmd_build True d (Some cmd) (Some (map int_param (ps @ (n, i) # qs))) = (r, Some out)"
    "\<forall>(n, i) \<in> set (ps @ (n, i) # qs). - (2 ^ 31) \<le> i \<and> i < 2 ^ 31 \<and> 32 \<notin> set n \<and> 0 \<notin> set n"
    "32 \<notin> set cmd" "0 \<notin> set cmd" "take (length n) cmd \<noteq> n" "\<forall>(m, j) \<in> set (ps @ qs). take (length n) (m @ print_int j) \<noteq> n"
    "\<forall>e \<in> set ends. length e + 1 < HOSTAPD_TO_DWPAL_VALUE_STRING_LENGTH" "length n + 1 < DWPAL_FIELD_NAME_LENGTH"
    "length out + 1 < HOSTAPD_TO_DWPAL_VALUE_STRING_LENGTH"
  shows "\<exists>v. fieldValuesGet out (length out) DWPALD_TYPE_INT n ends = Some (True, v) \<and> strtol v 0 = i"
proof -
  let ?item = "\<lambda>(n, i). n @ print_int i"
  obtain tx where tx: "out = butlast tx" "blank_ended tx"
    "cmd_params (map int_param (ps @ (n, i) # qs)) (cmd @ [32]) (d - length (cmd @ [32])) (int (length (cmd @ [32]))) = Some (r, tx)"
    using cmd_build_cases [OF assms(1)] by auto
  have "32 # tx = words [cmd] @ words (map ?item (ps @ (n, i) # qs)) @ [32]"
    using int_params_text [OF _ tx(3)] assms(2) by fastforce
  moreover have "butlast (32 # tx) = 32 # out" using tx(1,2) by (simp add: blank_ended_def)
  ultimately have "32 # out = butlast ((words [cmd] @ words (map ?item (ps @ (n, i) # qs))) @ [32])" by simp
  then have out: "32 # out = words ((cmd # map ?item ps) @ (n @ print_int i) # map ?item qs)" by (simp only: butlast_snoc) simp
  have "fieldValuesGet out (length out) DWPALD_TYPE_INT n ends = Some (True, print_int i)"
  proof (rule field_values_word [OF _ assms(8) out assms(9) order_refl _ _ assms(7)])
    show "32 \<notin> set n" using assms(2) by auto
    have chars: "32 \<notin> set (print_int j)" "0 \<notin> set (print_int j)" for j using print_int_chars by blast+
    show "\<forall>w \<in> set ((cmd # map ?item ps) @ (n @ print_int i) # map ?item qs). 32 \<notin> set w \<and> 0 \<notin> set w"
      using assms(2-4) by (force simp: chars)
    show "\<forall>w \<in> set ((cmd # map ?item ps) @ map ?item qs). take (length n) w \<noteq> n"
      using assms(5,6) by fastforce
  qed (simp_all add: print_int_nonempty is_array_field_def)
  moreover have "strtol (print_int i) 0 = i" using assms(2) by (intro strtol_print_int) auto
  ultimately show ?thesis by blast
qed

theorem built_command_read_back_witness:
  "\<exists>v. fieldValuesGet (cbytes ''SET a=-5 b=70'') 13 DWPALD_TYPE_INT (cbytes ''b='') [cbytes ''a='', cbytes ''b='', [10]] =
     Some (True, v) \<and> strtol v 0 = 70"
proof -
  have b: "dwpald_hostap_cmd_build True 40 (Some (cbytes ''SET''))
      (Some (map int_param ([(cbytes ''a='', -5)] @ (cbytes ''b='', 70) # []))) = (14, Some (cbytes ''SET a=-5 b=70''))"
    by code_simp
  have "length (cbytes ''SET a=-5 b=70'') = 13" by (simp add: cbytes_def)
  moreover have "\<exists>v. fieldValuesGet (cbytes ''SET a=-5 b=70'') (length (cbytes ''SET a=-5 b=70'')) DWPALD_TYPE_INT (cbytes ''b='')
      [cbytes ''a='', cbytes ''b='', [10]] = Some (True, v) \<and> strtol v 0 = 70"
    by (rule built_command_read_back [OF b])
      (simp_all add: cbytes_def DWPAL_FIELD_NAME_LENGTH_def HOSTAPD_TO_DWPAL_VALUE_STRING_LENGTH_def)
  ultimately show ?thesis by simp
qed

lemma strstr_found: "strstr s k = Some p \<Longrightarrow> take (length k) (drop p s) = k"
  by (induction s arbitrary: p) (auto split: if_splits)

lemma takeWhile_stops: "i < length xs \<Longrightarrow> \<not> P (xs ! i) \<Longrightarrow> length (takeWhile P xs) \<le> i"
  by (metis linorder_not_less nth_length_takeWhile nth_mem set_takeWhileD takeWhile_nth)

lemma value_cut_le:
  assumes "strstr rest (32 # n) = Some p" "is_array_field t \<longrightarrow> 61 \<in> set n"
  shows "value_cut t (take k rest) \<le> p + length (32 # n)"
proof -
  have found: "take (length (32 # n)) (drop p rest) = 32 # n" by (rule strstr_found [OF assms(1)])
  obtain j where j: "j < length (32 # n)" "(32 # n) ! j = (if is_array_field t then 61 else 32)"
  proof (cases "is_array_field t")
    case True
    with assms(2) obtain i where "i < length n" "n ! i = 61" by (auto simp: in_set_conv_nth)
    with True show ?thesis by (intro that [of "Suc i"]) simp_all
  qed (rule that [of 0], simp_all)
  have "length (take (length (32 # n)) (drop p rest)) = length (32 # n)" by (simp only: found)
  then have "p + j < length rest" using j(1) by simp
  moreover have "rest ! (p + j) = (32 # n) ! j" using found j(1) by (metis nth_drop nth_take less_imp_le_nat linorder_not_less drop_all list.size(3) nat_less_le calculation trans_le_add1 length_drop)
  ultimately have at: "p + j < length rest" "rest ! (p + j) = (if is_array_field t then 61 else 32)" using j(2) by simp_all
  let ?P = "\<lambda>c. (if is_array_field t then c \<noteq> 61 else c \<noteq> 32) \<and> c \<noteq> 0"
  have "length (takeWhile ?P (take k rest)) \<le> p + j"
  proof (cases "p + j < k")
    case True
    with at show ?thesis by (intro takeWhile_stops) auto
  next
    case False
    then have "length (take k rest) \<le> p + j" by simp
    with length_takeWhile_le show ?thesis by (rule order_trans)
  qed
  with j(1) show ?thesis by (simp add: value_cut_def)
qed

lemma values_loop_safe:
  assumes "is_array_field t \<longrightarrow> 61 \<in> set n" "length n + 1 < HOSTAPD_TO_DWPAL_VALUE_STRING_LENGTH"
  shows "(\<And>p. strstr tx (32 # n) = Some p \<Longrightarrow>
      length acc + (length tx - (p + length (32 # n))) + 1 < HOSTAPD_TO_DWPAL_VALUE_STRING_LENGTH) \<Longrightarrow>
    values_loop t (32 # n) ends tx first found acc \<noteq> None"
proof (induction "HOSTAPD_TO_DWPAL_VALUE_STRING_LENGTH - length acc" arbitrary: tx first found acc rule: less_induct)
  case less
  let ?L = HOSTAPD_TO_DWPAL_VALUE_STRING_LENGTH
  show ?case
  proof (cases "strstr tx (32 # n)")
    case None
    then show ?thesis by (subst values_loop.simps) simp
  next
    case (Some p)
    define rest where "rest = drop (p + strnlen_s (32 # n) ?L) tx"
    define hits where "hits = List.map_filter (\<lambda>e. strstr rest (sprintf_s ?L (32 # e))) (names_of ends)"
    define number where "number = (if first \<and> hits \<noteq> [] then Min (set hits) + 1 else strnlen_s rest ?L + 1)"
    define cut where "cut = value_cut t (take (number - 1) rest)"
    have loop: "values_loop t (32 # n) ends tx first found acc =
        (if number \<ge> ?L then Some (False, acc) else if length acc + cut \<ge> ?L then None
         else values_loop t (32 # n) ends rest (first \<and> hits = []) True (acc @ take cut (rest @ [0])))"
      by (subst values_loop.simps) (simp only: Some Let_def option.case rest_def hits_def number_def cut_def)
    have rest_len: "length rest = length tx - (p + length (32 # n))"
      using assms(2) by (simp add: rest_def strnlen_s_def min_def)
    have "cut \<le> length rest + 1"
      using le_trans [OF length_takeWhile_le, of "take (number - 1) rest" "length rest"] by (simp add: cut_def value_cut_def)
    then have small: "length acc + cut < ?L" using less.prems [OF Some] rest_len by simp
    have "values_loop t (32 # n) ends rest (first \<and> hits = []) True (acc @ take cut (rest @ [0])) \<noteq> None"
    proof (rule less.hyps)
      show "?L - length (acc @ take cut (rest @ [0])) < ?L - length acc"
        using cut_shrinks [of cut ?L acc rest 0] small value_cut_pos by (simp add: cut_def)
      fix q
      assume q: "strstr rest (32 # n) = Some q"
      have cut_q: "cut \<le> q + length (32 # n)" unfolding cut_def by (rule value_cut_le [OF q assms(1)])
      have "length acc + length (take cut (rest @ [0])) + (length rest - (q + length (32 # n))) \<le> length acc + length rest"
      proof (cases "length rest \<le> q + length (32 # n)")
        case True
        have "length (32 # n) \<le> length (drop q rest)" using strstr_found [OF q] by (metis length_take min.cobounded1)
        then have "q + length (32 # n) \<le> length rest" by simp
        with True cut_q have "cut \<le> length rest" by simp
        with True show ?thesis by simp
      qed (use cut_q in simp)
      then show "length (acc @ take cut (rest @ [0])) + (length rest - (q + length (32 # n))) + 1 < ?L"
        using less.prems [OF Some] rest_len by simp
    qed
    with small show ?thesis unfolding loop by (simp del: not_None_eq)
  qed
qed

text \<open>
  The values of a field stay within the buffer that they are collected in whenever the line is
  shorter than the buffer: for a field that is no array, and for an array whose name contains an
  equals sign.
\<close>

theorem values_within_buffer:
  assumes "is_array_field t \<longrightarrow> 61 \<in> set n" "length n + 1 < DWPAL_FIELD_NAME_LENGTH"
    "length buf + 2 < HOSTAPD_TO_DWPAL_VALUE_STRING_LENGTH"
  shows "fieldValuesGet buf bufLen t n ends \<noteq> None"
proof -
  have "length n + 1 < HOSTAPD_TO_DWPAL_VALUE_STRING_LENGTH"
    using assms(2) by (simp add: DWPAL_FIELD_NAME_LENGTH_def HOSTAPD_TO_DWPAL_VALUE_STRING_LENGTH_def)
  then have "values_loop t (32 # n) ends (sprintf_s (bufLen + 2) (32 # buf)) True False [] \<noteq> None"
    using assms(3) by (intro values_loop_safe [OF assms(1)]) (auto simp: sprintf_s_def)
  with assms(2) show ?thesis by (auto simp: fieldValuesGet_def sprintf_s_def split: prod.split)
qed

theorem values_within_buffer_witness:
  "fieldValuesGet (cbytes ''x=1 x=2'') 7 DWPALD_TYPE_STR (cbytes ''x='') [cbytes ''x=''] \<noteq> None"
  by (rule values_within_buffer)
    (simp_all add: is_array_field_def cbytes_def DWPAL_FIELD_NAME_LENGTH_def HOSTAPD_TO_DWPAL_VALUE_STRING_LENGTH_def)

text \<open>
  The first round of the loop for a name that occurs a second time and is among the names that
  end a value: the value and the blank behind it are copied, and the flag is cleared.
\<close>

lemma values_loop_first:
  assumes n: "32 \<notin> set n" "length n + 1 < HOSTAPD_TO_DWPAL_VALUE_STRING_LENGTH" "n \<in> set (names_of ends)"
    and ends: "\<forall>e \<in> set ends. length e + 1 < HOSTAPD_TO_DWPAL_VALUE_STRING_LENGTH"
    and v: "32 \<notin> set v" "0 \<notin> set v" "is_array_field t \<longrightarrow> 61 \<notin> set v" "length v + 1 < HOSTAPD_TO_DWPAL_VALUE_STRING_LENGTH"
  shows "values_loop t (32 # n) ends (32 # n @ v @ 32 # n @ s) True found [] =
    values_loop t (32 # n) ends (v @ 32 # n @ s) False True (v @ [32])"
proof -
  let ?L = HOSTAPD_TO_DWPAL_VALUE_STRING_LENGTH
  let ?rest = "v @ 32 # n @ s"
  have at: "strstr (32 # n @ ?rest) (32 # n) = Some 0" by simp
  have rest: "drop (0 + strnlen_s (32 # n) ?L) (32 # n @ ?rest) = ?rest"
    using n(2) by (simp add: strnlen_s_def min_def)
  define hits where "hits = List.map_filter (\<lambda>e. strstr ?rest (sprintf_s ?L (32 # e))) (names_of ends)"
  have "strstr ?rest (sprintf_s ?L (32 # n)) = Some (length v)"
    using n(2) by (simp add: sprintf_s_def strstr_skip [OF v(1)])
  then have hit: "length v \<in> set hits" using n(3) by (force simp: hits_def List.map_filter_def)
  moreover have "length v \<le> p" if "p \<in> set hits" for p
    using hits_behind [OF v(1) ends] that unfolding hits_def by blast
  ultimately have "Min (set hits) = length v" "hits \<noteq> []" by (auto intro!: Min_eqI)
  note hits = this
  have "takeWhile (\<lambda>c. (if is_array_field t then c \<noteq> 61 else c \<noteq> 32) \<and> c \<noteq> 0) v = v"
    using v(1-3) by (subst takeWhile_eq_all_conv) auto
  then have cut: "value_cut t v = length v + 1" by (simp only: value_cut_def)
  show ?thesis
    using v(4) hits(2)
    by (subst values_loop.simps) (simp only: at rest Let_def option.case flip: hits_def, simp add: hits cut)
qed

text \<open>
  Values of a name that occurs twice may not fit together in the buffer that they are
  collected in, which the code writes beyond: nothing compares their total length with it.
\<close>

theorem repeated_values_overflow:
  assumes "32 \<notin> set n" "n \<in> set (names_of ends)" "length n + 1 < DWPAL_FIELD_NAME_LENGTH"
    "\<forall>e \<in> set ends. length e + 1 < HOSTAPD_TO_DWPAL_VALUE_STRING_LENGTH" "\<not> is_array_field t"
    "32 \<notin> set v" "0 \<notin> set v" "32 \<notin> set w" "0 \<notin> set w"
    "length v + 1 < HOSTAPD_TO_DWPAL_VALUE_STRING_LENGTH" "length w + 1 < HOSTAPD_TO_DWPAL_VALUE_STRING_LENGTH"
    "length v + length w + 2 \<ge> HOSTAPD_TO_DWPAL_VALUE_STRING_LENGTH" "length (n @ v @ 32 # n @ w) \<le> bufLen"
  shows "fieldValuesGet (n @ v @ 32 # n @ w) bufLen t n ends = None"
proof -
  let ?L = HOSTAPD_TO_DWPAL_VALUE_STRING_LENGTH
  have n: "length n + 1 < ?L" using assms(3) by (simp add: DWPAL_FIELD_NAME_LENGTH_def HOSTAPD_TO_DWPAL_VALUE_STRING_LENGTH_def)
  have at: "strstr (v @ 32 # n @ w) (32 # n) = Some (length v)" by (simp add: strstr_skip [OF assms(6)])
  have rest: "drop (length v + strnlen_s (32 # n) ?L) (v @ 32 # n @ w) = w" using n by (simp add: strnlen_s_def min_def)
  have cut: "value_cut t w = length w + 1" using value_cut_word [OF assms(8,9,5), of "[]"] by simp
  have "values_loop t (32 # n) ends (v @ 32 # n @ w) False True (v @ [32]) = None"
    using assms(11,12)
    by (subst values_loop.simps) (simp only: at rest Let_def option.case, simp add: strnlen_s_def min_def cut)
  then have "values_loop t (32 # n) ends (32 # n @ v @ 32 # n @ w) True False [] = None"
    using values_loop_first [OF assms(1) n assms(2,4,6,7) _ assms(10)] assms(5) by simp
  with assms(3,13) show ?thesis by (simp add: fieldValuesGet_def sprintf_s_def)
qed

theorem repeated_values_overflow_witness:
  "fieldValuesGet ([120, 61] @ replicate 2047 65 @ 32 # [120, 61] @ replicate 2047 66) 5000 DWPALD_TYPE_STR [120, 61] [[120, 61], [10]] = None"
  by (rule repeated_values_overflow)
    (simp_all add: names_of_def is_array_field_def DWPAL_FIELD_NAME_LENGTH_def HOSTAPD_TO_DWPAL_VALUE_STRING_LENGTH_def)

text \<open>
  When an array's name is repeated and another named field follows, the values that are
  collected end with the name of that field, as if it were one more element: the end of a
  later occurrence is looked for only by the equals sign.
\<close>

theorem repeated_field_takes_next_name:
  assumes "32 \<notin> set n" "n \<in> set (names_of ends)" "length n + 1 < DWPAL_FIELD_NAME_LENGTH" "is_array_field t"
    "\<forall>e \<in> set ends. length e + 1 < HOSTAPD_TO_DWPAL_VALUE_STRING_LENGTH"
    "32 \<notin> set v" "0 \<notin> set v" "61 \<notin> set v" "32 \<notin> set w" "0 \<notin> set w" "61 \<notin> set w"
    "32 \<notin> set m" "0 \<notin> set m" "61 \<notin> set m" "32 \<notin> set x" "take (length n) (m @ 61 # x) \<noteq> n"
    "length (n @ v @ 32 # n @ w @ 32 # m @ 61 # x) + 1 < HOSTAPD_TO_DWPAL_VALUE_STRING_LENGTH"
    "length (n @ v @ 32 # n @ w @ 32 # m @ 61 # x) \<le> bufLen"
  shows "fieldValuesGet (n @ v @ 32 # n @ w @ 32 # m @ 61 # x) bufLen t n ends =
    Some (True, v @ 32 # w @ 32 # m @ [61])"
proof -
  let ?L = HOSTAPD_TO_DWPAL_VALUE_STRING_LENGTH
  let ?rest = "w @ 32 # m @ 61 # x" and ?acc = "v @ 32 # w @ 32 # m @ [61]"
  have n: "length n + 1 < ?L" using assms(17) by simp
  have at: "strstr (v @ 32 # n @ ?rest) (32 # n) = Some (length v)" by (simp add: strstr_skip [OF assms(6)])
  have rest: "drop (length v + strnlen_s (32 # n) ?L) (v @ 32 # n @ ?rest) = ?rest" using n by (simp add: strnlen_s_def min_def)
  have "takeWhile (\<lambda>c. (if is_array_field t then c \<noteq> 61 else c \<noteq> 32) \<and> c \<noteq> 0) ?rest = w @ 32 # m"
  proof -
    have stop: "takeWhile (\<lambda>c. c \<noteq> 61 \<and> c \<noteq> 0) (y @ 61 # x) = y" if "61 \<notin> set y" "0 \<notin> set y" for y
      using that by (induction y) auto
    show ?thesis using stop [of "w @ 32 # m"] assms(4,10,11,13,14) by simp
  qed
  then have cut: "value_cut t ?rest = length (w @ 32 # m) + 1" by (simp only: value_cut_def)
  have last: "strstr ?rest (32 # n) = None"
    using strstr_words_none [OF assms(1), of "[m @ 61 # x]"] assms(12,15,16) by (simp add: strstr_skip [OF assms(9)])
  have piece: "take (length (w @ 32 # m) + 1) (?rest @ [0]) = w @ 32 # m @ [61]" by simp
  have "values_loop t (32 # n) ends (v @ 32 # n @ ?rest) False True (v @ [32]) =
      values_loop t (32 # n) ends ?rest False True ?acc"
    using assms(17) piece
    by (subst values_loop.simps) (simp only: at rest Let_def option.case, simp add: strnlen_s_def min_def cut)
  also have "\<dots> = Some (True, ?acc)" by (subst values_loop.simps) (simp only: last option.case)
  finally have "values_loop t (32 # n) ends (32 # n @ v @ 32 # n @ ?rest) True False [] = Some (True, ?acc)"
    using values_loop_first [OF assms(1) n assms(2,5,6,7), of t "?rest"] assms(8,17) by simp
  moreover have "strip_blanks ?acc = ?acc" by (cases v) (simp_all add: strip_blanks_def)
  moreover have "0 \<notin> set ?acc" using assms(7,10,13) by simp
  then have "cstr_of ?acc = ?acc" by (rule cstr_of_no_nul)
  ultimately show ?thesis using assms(3,18) by (simp add: fieldValuesGet_def sprintf_s_def)
qed

theorem repeated_field_takes_next_name_witness:
  "fieldValuesGet (cbytes ''x=a x=b y=7'') 11 DWPALD_TYPE_STR_ARRAY (cbytes ''x='') [cbytes ''x='', cbytes ''y='', [10]] =
     Some (True, cbytes ''a b y='')"
  using repeated_field_takes_next_name [of "cbytes ''x=''" "[cbytes ''x='', cbytes ''y='', [10]]" DWPALD_TYPE_STR_ARRAY
      "cbytes ''a''" "cbytes ''b''" "cbytes ''y''" "cbytes ''7''" 11]
  by (simp add: cbytes_def names_of_def is_array_field_def DWPAL_FIELD_NAME_LENGTH_def HOSTAPD_TO_DWPAL_VALUE_STRING_LENGTH_def)

text \<open>The elements of an array's text, and what is stored for them.\<close>

fun unwords :: "cstr list \<Rightarrow> cstr" where
  "unwords [] = []"
| "unwords [t] = t"
| "unwords (t # u # ts) = t @ 32 # unwords (u # ts)"

definition element_at :: "dwpald_type \<Rightarrow> nat \<Rightarrow> nat \<Rightarrow> nat" where
  "element_at t a i = (if t = DWPALD_TYPE_STR_ARRAY then a + i * HOSTAPD_TO_DWPAL_VALUE_STRING_LENGTH else a + 4 * i)"

definition element_bytes :: "dwpald_type \<Rightarrow> cstr \<Rightarrow> u8 list" where
  "element_bytes t e = (if t = DWPALD_TYPE_STR_ARRAY then e @ [0]
     else if t = DWPALD_TYPE_HEX_ARRAY then int_bytes 4 (strtol e 16) else int_bytes 4 (strtol e 0))"

fun store_elements :: "dwpald_type \<Rightarrow> nat \<Rightarrow> nat option \<Rightarrow> nat \<Rightarrow> cstr list \<Rightarrow> caller \<Rightarrow> caller" where
  "store_elements t a cnt i [] c = c"
| "store_elements t a cnt i (e # es) c =
     store_elements t a cnt (Suc i) es (put_bytes (element_at t a i) (element_bytes t e) (count_arg cnt c))"

lemma unwords_Cons: "ts \<noteq> [] \<Longrightarrow> unwords (t # ts) = t @ 32 # unwords ts"
  by (cases ts) auto

lemma array_loop_elements:
  assumes "is_array_field t" "\<forall>e \<in> set ts. e \<noteq> [] \<and> 32 \<notin> set e \<and> length e < HOSTAPD_TO_DWPAL_VALUE_STRING_LENGTH"
    "i + length ts \<le> elems" "i + length ts < DWPAL_MAX_NUM_OF_ELEMENTS" "length (unwords ts) \<le> d"
  shows "array_loop a elems t cnt i (unwords ts) d c =
    (True, i + length ts, put_bytes (a + 4 * (i + length ts)) [0, 0, 0, 0] (store_elements t a cnt i ts c))"
  using assms(2-)
proof (induction ts arbitrary: i d c)
  case Nil
  then show ?case by (subst array_loop.simps) (simp add: strtok_s_def)
next
  case (Cons e ts)
  let ?d = "if ts = [] then d - length e else d - (length e + 1)"
  have e: "e \<noteq> []" "32 \<notin> set e" "length e < HOSTAPD_TO_DWPAL_VALUE_STRING_LENGTH" using Cons.prems(1) by auto
  have tok: "strtok_s 32 (unwords (e # ts)) d = Some (e, unwords ts, ?d)"
    using strtok_s_token [OF e(1,2)] Cons.prems(4) by (cases "ts = []") (simp_all add: unwords_Cons)
  have IH: "array_loop a elems t cnt (Suc i) (unwords ts) ?d c' =
      (True, i + length (e # ts), put_bytes (a + 4 * (i + length (e # ts))) [0, 0, 0, 0] (store_elements t a cnt (Suc i) ts c'))" for c'
    using Cons.IH [of "Suc i" ?d c'] Cons.prems by (cases "ts = []") (simp_all add: unwords_Cons)
  consider "t = DWPALD_TYPE_STR_ARRAY" | "t = DWPALD_TYPE_INT_ARRAY" | "t = DWPALD_TYPE_HEX_ARRAY"
    using assms(1) by (auto simp: is_array_field_def)
  then have "array_loop a elems t cnt i (unwords (e # ts)) d c =
      array_loop a elems t cnt (Suc i) (unwords ts) ?d (put_bytes (element_at t a i) (element_bytes t e) (count_arg cnt c))"
    using Cons.prems(2,3) e(3)
    by cases (subst array_loop.simps, simp add: tok Let_def element_at_def element_bytes_def)+
  with IH show ?case by simp
qed

lemma put_bytes_mem: "c_mem (put_bytes a bs c) k = (if a \<le> k \<and> k < a + length bs then bs ! (k - a) else c_mem c k)"
  by (simp add: put_bytes_def)

lemma count_arg_mem [simp]: "c_mem (count_arg p c) = c_mem c" "c_count (put_bytes a bs c) = c_count c"
  by (simp_all add: count_arg_def put_bytes_def split: option.split)

lemma int_bytes_length [simp]: "length (int_bytes n i) = n"
  by (induction n arbitrary: i) auto

lemma store_elements_count: "c_count (store_elements t a (Some p) i ts c) p = c_count c p + length ts"
  by (induction ts arbitrary: i c) (simp_all add: count_arg_def)

text \<open>Numbers are four bytes each.\<close>

lemma store_numbers_mem:
  assumes "t = DWPALD_TYPE_INT_ARRAY \<or> t = DWPALD_TYPE_HEX_ARRAY"
  shows "c_mem (store_elements t a cnt i ts c) k =
    (if a + 4 * i \<le> k \<and> k < a + 4 * (i + length ts)
     then element_bytes t (ts ! ((k - (a + 4 * i)) div 4)) ! ((k - (a + 4 * i)) mod 4) else c_mem c k)"
proof (induction ts arbitrary: i c)
  case (Cons e ts)
  have len: "length (element_bytes t e) = 4" and at: "element_at t a i = a + 4 * i"
    using assms by (auto simp: element_bytes_def element_at_def)
  consider "k < a + 4 * i" | "a + 4 * i \<le> k" "k < a + 4 * i + 4" | "a + 4 * i + 4 \<le> k" by linarith
  then show ?case
  proof cases
    case 3
    define q where "q = k - (a + 4 * i + 4)"
    have q: "k - (a + 4 * i) = q + 4" "k - (a + 4 * Suc i) = q" "a + 4 * Suc i \<le> k" using 3 by (simp_all add: q_def)
    have "(q + 4) div 4 = Suc (q div 4)" "(q + 4) mod 4 = q mod 4" by simp_all
    with q 3 len at show ?thesis by (simp add: Cons.IH put_bytes_mem)
  qed (simp_all add: Cons.IH put_bytes_mem len at)
qed auto

text \<open>The strings are 4096 bytes each, so that the first one stays as it was stored.\<close>

lemma store_strings_mem:
  "k < a + i * HOSTAPD_TO_DWPAL_VALUE_STRING_LENGTH \<Longrightarrow> c_mem (store_elements DWPALD_TYPE_STR_ARRAY a cnt i ts c) k = c_mem c k"
  by (induction ts arbitrary: i c) (simp_all add: put_bytes_mem element_at_def)

text \<open>
  The numbers of an integer array are stored in their order and counted, and then the integer
  behind the last one is cleared: when the text has as many numbers as the array has room for,
  the four bytes behind the array are overwritten.
\<close>

theorem int_array_stored:
  assumes "\<forall>e \<in> set ts. e \<noteq> [] \<and> 32 \<notin> set e" "length ts \<le> sz div 4" "length ts < DWPAL_MAX_NUM_OF_ELEMENTS"
    "length (unwords ts) \<le> DWPAL_TO_HOSTAPD_MSG_LENGTH"
  shows "\<exists>c'. arrayValuesGet (unwords ts) sz DWPALD_TYPE_INT_ARRAY (Some p) a c = (True, c') \<and>
    c_count c' p = c_count c p + length ts \<and>
    (\<forall>i < length ts. \<forall>k < 4. c_mem c' (a + 4 * i + k) = int_bytes 4 (strtol (ts ! i) 0) ! k) \<and>
    (\<forall>k < 4. c_mem c' (a + 4 * length ts + k) = 0) \<and>
    (\<forall>k. k < a \<or> a + 4 * length ts + 4 \<le> k \<longrightarrow> c_mem c' k = c_mem c k)"
proof -
  let ?t = DWPALD_TYPE_INT_ARRAY
  let ?c = "put_bytes (a + 4 * length ts) [0, 0, 0, 0] (store_elements ?t a (Some p) 0 ts c)"
  have "length e < HOSTAPD_TO_DWPAL_VALUE_STRING_LENGTH" if "e \<in> set ts" for e
  proof -
    have "length e \<le> length (unwords ts)" using that
      by (induction ts rule: unwords.induct) auto
    with assms(4) show ?thesis by (simp add: DWPAL_TO_HOSTAPD_MSG_LENGTH_def HOSTAPD_TO_DWPAL_VALUE_STRING_LENGTH_def)
  qed
  then have "array_loop a (sz div 4) ?t (Some p) 0 (unwords ts) (length (unwords ts)) c = (True, length ts, ?c)"
    using array_loop_elements [of ?t ts 0 "sz div 4" "length (unwords ts)" a "Some p" c] assms(1-3) by (simp add: is_array_field_def)
  then have "arrayValuesGet (unwords ts) sz ?t (Some p) a c = (True, ?c)"
    using assms(2,4) by (simp add: arrayValuesGet_def strnlen_s_def min_def)
  moreover have "c_count ?c p = c_count c p + length ts" by (simp add: store_elements_count)
  moreover have "c_mem ?c (a + 4 * i + k) = int_bytes 4 (strtol (ts ! i) 0) ! k" if "i < length ts" "k < 4" for i k
  proof -
    have "(4 * i + k) div 4 = i" "(4 * i + k) mod 4 = k" using that(2) by simp_all
    with that show ?thesis by (simp add: put_bytes_mem store_numbers_mem element_bytes_def)
  qed
  moreover have "c_mem ?c (a + 4 * length ts + k) = 0" if "k < 4" for k
    using that by (simp add: put_bytes_mem nth_Cons' numeral_eq_Suc)
  moreover have "c_mem ?c k = c_mem c k" if "k < a \<or> a + 4 * length ts + 4 \<le> k" for k
    using that by (auto simp: put_bytes_mem store_numbers_mem)
  ultimately show ?thesis by blast
qed

theorem int_array_stored_witness:
  "\<exists>c'. arrayValuesGet (unwords [[49], [50]]) 8 DWPALD_TYPE_INT_ARRAY (Some 0) 100 \<lparr>c_mem = (\<lambda>_. 255), c_count = (\<lambda>_. 0)\<rparr> =
     (True, c') \<and> c_count c' 0 = 2 \<and> (\<forall>k < 4. c_mem c' (100 + 4 * 2 + k) = 0)"
proof -
  have "\<forall>e \<in> set [[49 :: u8], [50]]. e \<noteq> [] \<and> 32 \<notin> set e" "length [[49 :: u8], [50]] \<le> 8 div 4"
    "length [[49 :: u8], [50]] < DWPAL_MAX_NUM_OF_ELEMENTS" "length (unwords [[49 :: u8], [50]]) \<le> DWPAL_TO_HOSTAPD_MSG_LENGTH"
    by (simp_all add: DWPAL_MAX_NUM_OF_ELEMENTS_def DWPAL_TO_HOSTAPD_MSG_LENGTH_def)
  from int_array_stored [OF this, of 0 100 "\<lparr>c_mem = (\<lambda>_. 255), c_count = (\<lambda>_. 0)\<rparr>"] show ?thesis by fastforce
qed

text \<open>
  In an array of strings the first string is cut to four times the number of its elements:
  the end of the array is marked as if it had integers, inside its first string.
\<close>

theorem string_array_cut:
  assumes "\<forall>e \<in> set (e # ts). e \<noteq> [] \<and> 32 \<notin> set e \<and> 0 \<notin> set e"
    "length (e # ts) \<le> sz div HOSTAPD_TO_DWPAL_VALUE_STRING_LENGTH" "length (e # ts) < DWPAL_MAX_NUM_OF_ELEMENTS"
    "length (unwords (e # ts)) \<le> DWPAL_TO_HOSTAPD_MSG_LENGTH"
  shows "\<exists>c'. arrayValuesGet (unwords (e # ts)) sz DWPALD_TYPE_STR_ARRAY cnt a c = (True, c') \<and>
    cstr_of (map (c_mem c') [a..<a + HOSTAPD_TO_DWPAL_VALUE_STRING_LENGTH]) = take (4 * length (e # ts)) e"
proof -
  let ?t = DWPALD_TYPE_STR_ARRAY and ?L = HOSTAPD_TO_DWPAL_VALUE_STRING_LENGTH and ?n = "length (e # ts)"
  let ?c = "put_bytes (a + 4 * ?n) [0, 0, 0, 0] (store_elements ?t a cnt 0 (e # ts) c)"
  have long: "length x \<le> length (unwords us)" if "x \<in> set us" for x :: cstr and us
    using that by (induction us rule: unwords.induct) auto
  have small: "length x < ?L \<and> length x \<le> 512" if "x \<in> set (e # ts)" for x
    using long [OF that] assms(4) by (simp add: DWPAL_TO_HOSTAPD_MSG_LENGTH_def HOSTAPD_TO_DWPAL_VALUE_STRING_LENGTH_def)
  have "array_loop a (sz div ?L) ?t cnt 0 (unwords (e # ts)) (length (unwords (e # ts))) c = (True, ?n, ?c)"
    using array_loop_elements [of ?t "e # ts" 0 "sz div ?L" "length (unwords (e # ts))" a cnt c] assms(1-3) small
    by (simp add: is_array_field_def)
  then have run: "arrayValuesGet (unwords (e # ts)) sz ?t cnt a c = (True, ?c)"
    using assms(2,4) by (simp add: arrayValuesGet_def strnlen_s_def min_def)
  have n: "4 * ?n + 4 \<le> ?L" using assms(3) by (simp add: DWPAL_MAX_NUM_OF_ELEMENTS_def HOSTAPD_TO_DWPAL_VALUE_STRING_LENGTH_def)
  have mem: "c_mem ?c (a + k) = (if 4 * ?n \<le> k \<and> k < 4 * ?n + 4 then 0 else if k < length e then e ! k else
      if k = length e then 0 else c_mem c (a + k))" if "k < ?L" for k
    using that small [of e]
    by (auto simp: put_bytes_mem store_strings_mem element_at_def element_bytes_def nth_append nth_Cons' numeral_eq_Suc)
  have "takeWhile (\<lambda>b. b \<noteq> 0) (map (c_mem ?c) [a..<a + ?L]) = take (4 * ?n) e"
  proof -
    let ?bs = "map (c_mem ?c) [a..<a + ?L]" and ?m = "min (4 * ?n) (length e)"
    have m: "?m < ?L" using n by linarith
    have "take ?m ?bs = take (4 * ?n) e"
      using m mem by (intro nth_equalityI) auto
    moreover have "?bs ! ?m = 0" using m mem [OF m] by auto
    moreover have "\<forall>b \<in> set (take (4 * ?n) e). b \<noteq> 0" using assms(1) set_take_subset by fastforce
    ultimately show ?thesis
      using m by (subst id_take_nth_drop [of ?m ?bs]) (simp_all only: length_map length_upt takeWhile_append2, simp_all)
  qed
  with run show ?thesis by (simp add: cstr_of_def)
qed

theorem string_array_cut_witness:
  "\<exists>c'. arrayValuesGet (unwords [cbytes ''81:200:1:5'']) 8192 DWPALD_TYPE_STR_ARRAY None 0 \<lparr>c_mem = (\<lambda>_. 255), c_count = (\<lambda>_. 0)\<rparr> =
     (True, c') \<and> cstr_of (map (c_mem c') [0..<HOSTAPD_TO_DWPAL_VALUE_STRING_LENGTH]) = cbytes ''81:2''"
proof -
  have "\<forall>e \<in> set [cbytes ''81:200:1:5'']. e \<noteq> [] \<and> 32 \<notin> set e \<and> 0 \<notin> set e"
    "length [cbytes ''81:200:1:5''] \<le> 8192 div HOSTAPD_TO_DWPAL_VALUE_STRING_LENGTH"
    "length [cbytes ''81:200:1:5''] < DWPAL_MAX_NUM_OF_ELEMENTS"
    "length (unwords [cbytes ''81:200:1:5'']) \<le> DWPAL_TO_HOSTAPD_MSG_LENGTH"
    by (simp_all add: cbytes_def HOSTAPD_TO_DWPAL_VALUE_STRING_LENGTH_def DWPAL_MAX_NUM_OF_ELEMENTS_def DWPAL_TO_HOSTAPD_MSG_LENGTH_def)
  from string_array_cut [OF this, of None 0 "\<lparr>c_mem = (\<lambda>_. 255), c_count = (\<lambda>_. 0)\<rparr>"]
  show ?thesis by (simp add: cbytes_def)
qed

end
