(* ===== verification/Event_Registry.thy ===== *)
theory Event_Registry
  imports Dwpald_Protocol
begin

text \<open>
  What the interface managers need of a registry of event subscriptions, as a locale.  The
  two registries that the daemon has, by operation code in daemon/hostap_iface.c and by
  netlink number in daemon/nl_iface.c, are its interpretations.
\<close>

section \<open>The interface of a registry\<close>

text \<open>
  \<open>reg s k\<close> subscribes the station \<open>s\<close> to the event \<open>k\<close>, \<open>unreg s\<close> ends all its
  subscriptions, \<open>subs k\<close> lists the subscribers of an event, the latest first.
\<close>

locale event_registry =
  fixes reg :: "nat \<Rightarrow> 'k \<Rightarrow> 'e list \<Rightarrow> 'e list"
    and unreg :: "nat \<Rightarrow> 'e list \<Rightarrow> 'e list"
    and subs :: "'k \<Rightarrow> 'e list \<Rightarrow> nat list"
    and keys :: "'k set"
    and ok :: "'e list \<Rightarrow> bool"
  assumes empty_law: "ok []" "subs k [] = []"
    and reg_ok: "k \<in> keys \<Longrightarrow> ok es \<Longrightarrow> ok (reg s k es)"
    and unreg_ok: "ok es \<Longrightarrow> ok (unreg s es)"
    and subs_reg: "k \<in> keys \<Longrightarrow> k' \<in> keys \<Longrightarrow> ok es \<Longrightarrow>
      subs k' (reg s k es) = (if k' = k then s # remove1 s (subs k es) else subs k' es)"
    and subs_unreg: "k \<in> keys \<Longrightarrow> ok es \<Longrightarrow> subs k (unreg s es) = remove1 s (subs k es)"
    and subs_distinct: "k \<in> keys \<Longrightarrow> ok es \<Longrightarrow> distinct (subs k es)"
begin

definition reg_all :: "nat \<Rightarrow> 'k list \<Rightarrow> 'e list \<Rightarrow> 'e list" where
  "reg_all s ks es = fold (reg s) ks es"

lemma reg_all_ok: "set ks \<subseteq> keys \<Longrightarrow> ok es \<Longrightarrow> ok (reg_all s ks es)"
  unfolding reg_all_def by (induction ks arbitrary: es) (auto simp: reg_ok)

lemma reg_all_subs:
  "set ks \<subseteq> keys \<Longrightarrow> k \<in> keys \<Longrightarrow> ok es \<Longrightarrow>
     t \<in> set (subs k (reg_all s ks es)) \<longleftrightarrow> (t = s \<and> k \<in> set ks) \<or> t \<in> set (subs k es)"
  unfolding reg_all_def
proof (induction ks arbitrary: es)
  case Nil
  then show ?case by simp
next
  case (Cons j ks)
  have "ok (reg s j es)" using Cons.prems by (simp add: reg_ok)
  moreover have "t \<in> set (subs k (reg s j es)) \<longleftrightarrow> (t = s \<and> k = j) \<or> t \<in> set (subs k es)"
    using Cons.prems subs_distinct [of k es] by (auto simp: subs_reg)
  ultimately show ?case using Cons by auto
qed

lemma unreg_subs:
  "k \<in> keys \<Longrightarrow> ok es \<Longrightarrow> t \<in> set (subs k (unreg s es)) \<longleftrightarrow> t \<noteq> s \<and> t \<in> set (subs k es)"
  using subs_distinct [of k es] by (auto simp: subs_unreg)

text \<open>An update of a station's subscriptions: the new ones, and nobody else's change.\<close>

lemma update_subs:
  assumes "set ks \<subseteq> keys" "k \<in> keys" "ok es"
  shows "t \<in> set (subs k (reg_all s ks (unreg s es))) \<longleftrightarrow> (if t = s then k \<in> set ks else t \<in> set (subs k es))"
  using reg_all_subs [OF assms(1,2) unreg_ok [OF assms(3)]] unreg_subs [OF assms(2,3)] by auto

end

end
