(* ===== verification/Hostap_Iface.thy ===== *)
theory Hostap_Iface
  imports Event_Registry
begin

text \<open>
  The hostap side of the daemon, daemon/hostap_iface.c: the registry of the stations by
  operation code, the registration request, the delivery of an event, the messages for
  events and command responses.  The build with DWPALD_ADD_TO_BRIDGE, which calls the
  sysevent tool on some events, is not modelled; in the other build those functions are
  empty.  The dwpal library and \<open>calloc\<close> are arguments; list nodes can be allocated.
\<close>

section \<open>The registry\<close>

definition OP_CODE_SIZE :: nat where "OP_CODE_SIZE = 64"

record hostap_event =
  he_op_code :: cstr
  he_stations :: "nat list"

fun register_existing :: "nat \<Rightarrow> cstr \<Rightarrow> hostap_event list \<Rightarrow> hostap_event list option" where
  "register_existing s op [] = None"
| "register_existing s op (e # es) =
     (if strncmp_eq op (he_op_code e) OP_CODE_SIZE
      then Some (e\<lparr>he_stations := s # remove1 s (he_stations e)\<rparr> # es)
      else map_option ((#) e) (register_existing s op es))"

definition hostap_register_sta_to_event ::
  "bool \<Rightarrow> nat \<Rightarrow> cstr \<Rightarrow> hostap_event list \<Rightarrow> rc \<times> hostap_event list" where
  "hostap_register_sta_to_event mem_ok s op es =
     (case register_existing s op es of
        Some es' \<Rightarrow> (0, es')
      | None \<Rightarrow>
          if \<not> mem_ok then (1, es)
          else (0, \<lparr>he_op_code = strncpy_s OP_CODE_SIZE op (OP_CODE_SIZE - 1), he_stations = [s]\<rparr> # es))"

definition g_intf_events :: "cstr list" where
  "g_intf_events = [cbytes ''INTERFACE_CONNECTED_OK'', cbytes ''INTERFACE_RECONNECTED_OK'',
     cbytes ''INTERFACE_DISCONNECTED'']"

text \<open>
  The loop over the request.  \<open>rd\<close> is the memory from \<open>reg_str\<close> on: an entry whose length
  byte leads beyond the request is read from what follows it.  \<open>mem i\<close> is the answer of
  \<open>calloc\<close> for the entry at \<open>i\<close>; the flags tell which of the interface events were named.
\<close>

definition intf_event_index :: "cstr \<Rightarrow> nat option" where
  "intf_event_index op =
     map_option fst (find (\<lambda>(i, n). strncmp_eq op n (length n)) (enumerate 0 g_intf_events))"

function register_loop ::
  "(nat \<Rightarrow> bool) \<Rightarrow> nat \<Rightarrow> (nat \<Rightarrow> u8) \<Rightarrow> nat \<Rightarrow> nat \<Rightarrow> bool list \<Rightarrow> hostap_event list \<Rightarrow>
     rc \<times> bool list \<times> hostap_event list" where
  "register_loop mem s rd len i flags es =
     (if i < len \<and> rd i \<noteq> 0
      then (let n = unat (rd i); op = cstr_of (map rd [Suc i..<Suc i + n])
            in if n \<ge> OP_CODE_SIZE then (1, flags, es)
               else let (r, es') = hostap_register_sta_to_event (mem i) s op es
                    in if r \<noteq> 0 then (1, flags, es')
                       else register_loop mem s rd len (i + 1 + n)
                              (case intf_event_index op of None \<Rightarrow> flags | Some k \<Rightarrow> flags[k := True]) es')
      else (0, flags, es))"
  by pat_completeness auto
termination by (relation "measure (\<lambda>(mem, s, rd, len, i, flags, es). len - i)") auto

declare register_loop.simps [simp del]

fun force_register ::
  "(nat \<Rightarrow> bool) \<Rightarrow> nat \<Rightarrow> nat \<Rightarrow> (bool \<times> cstr) list \<Rightarrow> hostap_event list \<Rightarrow> rc \<times> hostap_event list" where
  "force_register mem s k [] es = (0, es)"
| "force_register mem s k ((named, op) # fs) es =
     (if named then force_register mem s (Suc k) fs es
      else let (r, es') = hostap_register_sta_to_event (mem k) s op es
           in if r \<noteq> 0 then (1, es') else force_register mem s (Suc k) fs es')"

definition hostap_register_sta_to_events ::
  "(nat \<Rightarrow> bool) \<Rightarrow> (nat \<Rightarrow> bool) \<Rightarrow> nat \<Rightarrow> (nat \<Rightarrow> u8) \<Rightarrow> nat \<Rightarrow> hostap_event list \<Rightarrow>
     rc \<times> hostap_event list" where
  "hostap_register_sta_to_events mem mem' s rd len es =
     (let (r, flags, es1) = register_loop mem s rd len 0 [False, False, False] es
      in if r \<noteq> 0 then (1, es1) else force_register mem' s 0 (zip flags g_intf_events) es1)"

definition hostap_unregister_sta_from_events :: "nat \<Rightarrow> hostap_event list \<Rightarrow> rc \<times> hostap_event list" where
  "hostap_unregister_sta_from_events s es =
     (0, filter (\<lambda>e. he_stations e \<noteq> []) (map (\<lambda>e. e\<lparr>he_stations := remove1 s (he_stations e)\<rparr>) es))"

section \<open>Delivery of an event\<close>

record hostap_extra_info =
  ei_op_code :: cstr
  ei_msg :: cstr
  ei_msg_len :: u16

text \<open>The result: the new state of the interface and the stations that the event is sent to, in order.\<close>

definition hostap_send_event ::
  "hostap_extra_info \<Rightarrow> hostap_event list \<Rightarrow> u8 \<Rightarrow> rc \<times> u8 \<times> nat list" where
  "hostap_send_event info es st =
     (let op = ei_op_code info;
          deliver = (\<lambda>st'. case find (\<lambda>e. strncmp_eq op (he_op_code e) OP_CODE_SIZE) es of
                             None \<Rightarrow> (0, st', []) | Some e \<Rightarrow> (0, st', he_stations e))
      in if starts_with op ''INTERFACE_RECONNECTED_OK'' then deliver INTERFACE_DWPAL_STATE_CONNECTED
         else if starts_with op ''INTERFACE_DISCONNECTED'' then deliver INTERFACE_DWPAL_STATE_DISCONNECTED
         else if starts_with op ''INTERFACE_CONNECTED_OK'' then (0, INTERFACE_DWPAL_STATE_CONNECTED, [])
         else deliver st)"

section \<open>Attaching\<close>

definition hostap_iface_attach :: "DWPAL_Ret \<Rightarrow> u8 \<Rightarrow> rc \<times> u8" where
  "hostap_iface_attach ret st =
     (if ret = DWPAL_FAILURE then (1, st)
      else if ret \<noteq> DWPAL_SUCCESS then (0, INTERFACE_DWPAL_STATE_DISCONNECTED)
      else (0, INTERFACE_DWPAL_STATE_CONNECTED))"

section \<open>Commands\<close>

definition HOSTAP_REPLY_LEN :: nat where "HOSTAP_REPLY_LEN = 4096 * 4"

text \<open>
  \<open>send\<close> is \<open>dwpal_ext_hostap_cmd_send\<close>, which returns the bytes of the reply, \<open>fresh\<close> the
  message for the response, \<open>sent_ok\<close> whether the server accepts it.  The header is popped
  into an uninitialised variable, whose bytes are \<open>junk\<close>.  The command is read as a C string.
\<close>

definition hostap_execute_command ::
  "(cstr \<Rightarrow> cstr \<Rightarrow> DWPAL_Ret \<times> u8 list) \<Rightarrow> wv_ipc_msg option \<Rightarrow> bool \<Rightarrow> u8 list \<Rightarrow> wv_ipc_msg \<Rightarrow>
     (rc \<times> msg_fate) option" where
  "hostap_execute_command send fresh sent_ok junk cmd =
     do { (_, hdr, _) \<leftarrow> dwpald_header_pop (Some cmd) \<lparr>h_magic = 0, h_bytes = junk\<rparr>;
          let n = unat (h_bytes hdr ! 2);
          (case wave_ipc_msg_get_data (Some cmd) of
             None \<Rightarrow> Some (1, NoMessage)
           | Some bytes \<Rightarrow>
               if wave_ipc_msg_get_size (Some cmd) < n \<or> n \<ge> IFNAMSIZ + 1 \<or> n = 0 then Some (1, NoMessage)
               else (case fresh of
                       None \<Rightarrow> Some (1, NoMessage)
                     | Some resp \<Rightarrow>
                         (case wave_ipc_msg_reserve_data (Some resp) (HOSTAP_REPLY_LEN + 1) of
                            (WAVE_IPC_SUCCESS, Some resp1) \<Rightarrow>
                              (let (ret, reply) = send (cstr_of (take n bytes)) (cstr_of (drop n bytes));
                                   resp2 = (if ret = DWPAL_SUCCESS
                                            then (case wave_ipc_msg_shrink_data (Some resp1) (length reply + 1) of
                                                    (_, mp) \<Rightarrow> (the mp)\<lparr>m_data := write_at (m_data resp1) 0 (reply @ [0])\<rparr>)
                                            else the (snd (wave_ipc_msg_shrink_data (Some resp1) 0)));
                                   resp3 = with_dwpald_header
                                     [DWPALD_CMD_RESP, DWPALD_IF_TYPE_HOSTAP, of_int (dwpal_ret_code ret), 0, 0, 0] resp2
                               in Some (if sent_ok then 0 else 1, PassedOn resp3))
                          | _ \<Rightarrow> Some (1, GivenBack)))) }"

section \<open>Events from hostapd\<close>

text \<open>
  The callback for an event.  A pointer argument is None for NULL and otherwise the bytes it
  points to, of which \<open>msg\<close> has at least \<open>msg_len\<close>.  \<open>mem_ok\<close> answers \<open>calloc\<close>.  On success
  the message goes to \<open>iface_manager_event_received\<close> with the extra information.
\<close>

definition dwpal_ext_hostap_event_callback ::
  "wv_ipc_msg option \<Rightarrow> bool \<Rightarrow> cstr option \<Rightarrow> cstr option \<Rightarrow> u8 list option \<Rightarrow> nat \<Rightarrow>
     DWPAL_Ret \<times> msg_fate \<times> hostap_extra_info option" where
  "dwpal_ext_hostap_event_callback fresh mem_ok vap op_code msg msg_len =
     (case (vap, op_code) of
        (Some v, Some op) \<Rightarrow>
          if msg = None \<and> msg_len \<noteq> 0 then (DWPAL_FAILURE, NoMessage, None)
          else (case fresh of
                  None \<Rightarrow> (DWPAL_FAILURE, NoMessage, None)
                | Some e_msg \<Rightarrow>
                    let len1 = (if msg \<noteq> None \<and> msg_len \<noteq> 0 then size_add msg_len 1 else msg_len);
                        len16 = (of_nat len1 :: u16)
                    in if unat len16 \<noteq> len1 then (DWPAL_FAILURE, Lost, None)
                       else let vlen = of_nat (length v); oplen = of_nat (length op);
                                e1 = with_dwpald_header ([DWPALD_EVENT, DWPALD_IF_TYPE_HOSTAP] @
                                       wv_aligned_16_bit_assign [vlen, oplen, 0, 0] 2 len16) e_msg;
                                reserve = unat vlen + unat oplen + unat len16
                            in (case wave_ipc_msg_reserve_data (Some e1) reserve of
                                  (WAVE_IPC_SUCCESS, Some e2) \<Rightarrow>
                                    let e3 = e2\<lparr>m_data := event_payload vlen oplen len16 v op msg (m_data e2)\<rparr>;
                                        e4 = with_ipc_header [5, 0, 0, 0] e3
                                    in if \<not> mem_ok then (DWPAL_FAILURE, GivenBack, None)
                                       else (DWPAL_SUCCESS, PassedOn e4,
                                             Some \<lparr>ei_op_code = strncpy_s (unat oplen + 1) op (unat oplen),
                                                   ei_msg = (case msg of
                                                               None \<Rightarrow> []
                                                             | Some bs \<Rightarrow> if len16 = 0 then []
                                                                 else strncpy_s (unat len16 + 1) (cstr_of bs) (unat len16)),
                                                   ei_msg_len = len16\<rparr>)
                                | _ \<Rightarrow> (DWPAL_FAILURE, GivenBack, None)))
      | _ \<Rightarrow> (DWPAL_FAILURE, NoMessage, None))"

section \<open>The registry as an event registry\<close>

definition hostap_subs :: "cstr \<Rightarrow> hostap_event list \<Rightarrow> nat list" where
  "hostap_subs op es = (case find (\<lambda>e. he_op_code e = op) es of None \<Rightarrow> [] | Some e \<Rightarrow> he_stations e)"

definition hostap_registry_ok :: "hostap_event list \<Rightarrow> bool" where
  "hostap_registry_ok es \<longleftrightarrow> distinct (map he_op_code es) \<and>
     (\<forall>e \<in> set es. length (he_op_code e) < OP_CODE_SIZE \<and> distinct (he_stations e) \<and> he_stations e \<noteq> [])"

definition op_codes :: "cstr set" where
  "op_codes = {op. length op < OP_CODE_SIZE}"

abbreviation hostap_reg :: "nat \<Rightarrow> cstr \<Rightarrow> hostap_event list \<Rightarrow> hostap_event list" where
  "hostap_reg s op es \<equiv> snd (hostap_register_sta_to_event True s op es)"

abbreviation hostap_unreg :: "nat \<Rightarrow> hostap_event list \<Rightarrow> hostap_event list" where
  "hostap_unreg s es \<equiv> snd (hostap_unregister_sta_from_events s es)"

lemma subs_Cons [simp]:
  "hostap_subs op [] = []"
  "hostap_subs op (e # es) = (if he_op_code e = op then he_stations e else hostap_subs op es)"
  by (auto simp: hostap_subs_def)

lemma subs_none: "op \<notin> he_op_code ` set es \<Longrightarrow> hostap_subs op es = []"
  by (induction es) auto

lemma registry_ok_Nil [simp]: "hostap_registry_ok []"
  by (simp add: hostap_registry_ok_def)

lemma registry_ok_Cons [simp]:
  "hostap_registry_ok (e # es) \<longleftrightarrow> he_op_code e \<notin> he_op_code ` set es \<and> length (he_op_code e) < OP_CODE_SIZE \<and>
     distinct (he_stations e) \<and> he_stations e \<noteq> [] \<and> hostap_registry_ok es"
  by (auto simp: hostap_registry_ok_def)

lemma op_code_match: "op \<in> op_codes \<Longrightarrow> length op' < OP_CODE_SIZE \<Longrightarrow> strncmp_eq op op' OP_CODE_SIZE \<longleftrightarrow> op' = op"
  by (auto simp: op_codes_def strncmp_eq_short)

lemma register_existing_spec:
  assumes "op \<in> op_codes" "hostap_registry_ok es"
  shows "case register_existing s op es of
      None \<Rightarrow> op \<notin> he_op_code ` set es
    | Some es' \<Rightarrow> op \<in> he_op_code ` set es \<and> hostap_registry_ok es' \<and> he_op_code ` set es' = he_op_code ` set es \<and>
        (\<forall>k. hostap_subs k es' = (if k = op then s # remove1 s (hostap_subs op es) else hostap_subs k es))"
  using assms
proof (induction es)
  case Nil
  then show ?case by simp
next
  case (Cons e es)
  show ?case
  proof (cases "he_op_code e = op")
    case True
    with Cons.prems show ?thesis by (auto simp: op_code_match)
  next
    case False
    with Cons show ?thesis by (auto simp: op_code_match split: option.splits)
  qed
qed

lemma hostap_reg_spec:
  assumes "op \<in> op_codes" "hostap_registry_ok es"
  shows "fst (hostap_register_sta_to_event True s op es) = 0" "hostap_registry_ok (hostap_reg s op es)"
    "hostap_subs k (hostap_reg s op es) = (if k = op then s # remove1 s (hostap_subs op es) else hostap_subs k es)"
  using register_existing_spec [OF assms, of s] assms(1)
  by (auto simp: hostap_register_sta_to_event_def OP_CODE_SIZE_def op_codes_def assms(2) subs_none split: option.splits)

lemma hostap_unreg_spec:
  assumes "hostap_registry_ok es"
  shows "hostap_registry_ok (hostap_unreg s es)" "hostap_subs k (hostap_unreg s es) = remove1 s (hostap_subs k es)"
  using assms
  by (induction es) (auto simp: hostap_unregister_sta_from_events_def subs_none image_iff)

interpretation hr: event_registry hostap_reg hostap_unreg hostap_subs op_codes hostap_registry_ok
proof unfold_locales
  fix k es
  assume "hostap_registry_ok es"
  then show "distinct (hostap_subs k es)" by (induction es) auto
qed (simp_all add: hostap_reg_spec hostap_unreg_spec)

section \<open>Registration requests\<close>

text \<open>A request lists its operation codes, each after its length.\<close>

definition flags_after :: "cstr list \<Rightarrow> bool list \<Rightarrow> bool list" where
  "flags_after ops flags = fold (\<lambda>op fl. case intf_event_index op of None \<Rightarrow> fl | Some k \<Rightarrow> fl[k := True]) ops flags"

definition request_ok :: "cstr list \<Rightarrow> bool" where
  "request_ok ops \<longleftrightarrow> (\<forall>op \<in> set ops. 0 < length op \<and> length op < OP_CODE_SIZE \<and> 0 \<notin> set op)"

lemma register_rc [simp]: "fst (hostap_register_sta_to_event True s op es) = 0"
  by (simp add: hostap_register_sta_to_event_def split: option.split)

lemma map_read: "\<forall>k < length bs. rd (i + k) = bs ! k \<Longrightarrow> map rd [i..<i + length bs] = bs"
  by (rule nth_equalityI) simp_all

lemma register_loop_enc:
  assumes "request_ok ops" "\<forall>k < length (hdr_enc ops). rd (i + k) = hdr_enc ops ! k"
    "i + length (hdr_enc ops) < len \<longrightarrow> rd (i + length (hdr_enc ops)) = 0" "i + length (hdr_enc ops) \<le> len"
  shows "register_loop (\<lambda>_. True) s rd len i flags es =
    (0, flags_after ops flags, fold (hostap_reg s) ops es)"
  using assms
proof (induction ops arbitrary: i flags es)
  case Nil
  then have "\<not> (i < len \<and> rd i \<noteq> 0)" by auto
  then show ?case by (subst register_loop.simps) (simp add: flags_after_def del: de_Morgan_conj)
next
  case (Cons op ops)
  have op: "0 < length op" "length op < OP_CODE_SIZE" "0 \<notin> set op" using Cons.prems(1) by (auto simp: request_ok_def)
  then have short: "length op < 256" by (simp add: OP_CODE_SIZE_def)
  have rd0: "rd i = of_nat (length op)" using Cons.prems(2) by (auto dest: spec [of _ 0])
  have bytes: "rd (Suc i + k) = (op @ hdr_enc ops) ! k" if "k < length (op @ hdr_enc ops)" for k
    using Cons.prems(2) [rule_format, of "Suc k"] that by simp
  have "map rd [Suc i..<Suc i + length op] = op"
    by (rule map_read) (use bytes in \<open>auto simp: nth_append\<close>)
  then have code: "cstr_of (map rd [Suc i..<Suc i + length op]) = op" using op(3) by simp
  have next_: "rd (Suc i + length op + k) = hdr_enc ops ! k" if "k < length (hdr_enc ops)" for k
    using bytes [of "length op + k"] that by (simp add: add.assoc)
  then have "\<forall>k < length (hdr_enc ops). rd (Suc i + length op + k) = hdr_enc ops ! k" by blast
  then have IH: "register_loop (\<lambda>_. True) s rd len (Suc i + length op) fl es' =
      (0, flags_after ops fl, fold (hostap_reg s) ops es')" for fl es'
    using Cons.prems by (intro Cons.IH) (simp_all add: request_ok_def add.assoc)
  obtain es' where reg: "hostap_register_sta_to_event True s op es = (0, es')"
    using register_rc by (metis prod.collapse)
  have "i < len" using Cons.prems(4) by simp
  with rd0 code IH reg op short show ?case
    by (subst register_loop.simps) (simp add: unat_of_nat_u8 of_nat_u8_nonzero flags_after_def Let_def Suc_le_eq del: upt_Suc)
qed

lemma force_register_all:
  "force_register (\<lambda>_. True) s k fs es = (0, fold (hostap_reg s) (map snd (filter (\<lambda>f. \<not> fst f) fs)) es)"
proof (induction fs arbitrary: k es)
  case (Cons f fs)
  obtain es' where reg: "hostap_register_sta_to_event True s (snd f) es = (0, es')"
    using register_rc by (metis prod.collapse)
  with Cons show ?case by (cases f) simp
qed simp

text \<open>Whether one of the operation codes begins with the name of an interface event.\<close>

definition names_intf :: "cstr list \<Rightarrow> cstr \<Rightarrow> bool" where
  "names_intf ops n \<longleftrightarrow> (\<exists>op \<in> set ops. strncmp_eq op n (length n))"

lemma intf_lengths: "\<forall>n \<in> set g_intf_events. 10 < length n \<and> length n < OP_CODE_SIZE \<and> 0 \<notin> set n" "length g_intf_events = 3"
  "map (\<lambda>n. n ! 10) g_intf_events = [67, 82, 68]"
  by code_simp+

lemma strncmp_eq_at: "strncmp_eq op n (length n) \<Longrightarrow> k < length n \<Longrightarrow> op ! k = n ! k"
  unfolding strncmp_eq_def by (metis nth_take order_refl take_all)

lemma intf_event_index_Some:
  "intf_event_index op = Some k \<longleftrightarrow> k < 3 \<and> strncmp_eq op (g_intf_events ! k) (length (g_intf_events ! k))"
proof -
  obtain a b c where g: "g_intf_events = [a, b, c]" by (simp add: g_intf_events_def)
  have l: "10 < length a" "10 < length b" "10 < length c" and d: "a ! 10 \<noteq> b ! 10" "a ! 10 \<noteq> c ! 10" "b ! 10 \<noteq> c ! 10"
    using intf_lengths by (auto simp: g)
  show ?thesis
    using strncmp_eq_at [of op a 10] strncmp_eq_at [of op b 10] strncmp_eq_at [of op c 10] l d
    by (auto simp: intf_event_index_def g nth_Cons' less_Suc_eq numeral_3_eq_3)
qed

lemma flags_after_length [simp]: "length (flags_after ops flags) = length flags"
  unfolding flags_after_def by (induction ops arbitrary: flags) (auto split: option.split)

lemma list_update_True [simp]: "k < length xs \<Longrightarrow> xs[j := True] ! k \<longleftrightarrow> xs ! k \<or> j = k"
  by (cases "j = k") simp_all

lemma flags_after_nth:
  "k < length flags \<Longrightarrow> flags_after ops flags ! k \<longleftrightarrow> flags ! k \<or> (\<exists>op \<in> set ops. intf_event_index op = Some k)"
proof (induction ops arbitrary: flags)
  case Nil
  then show ?case by (simp add: flags_after_def)
next
  case (Cons op ops)
  let ?fl = "case intf_event_index op of None \<Rightarrow> flags | Some j \<Rightarrow> flags[j := True]"
  have "flags_after (op # ops) flags = flags_after ops ?fl" by (simp add: flags_after_def)
  moreover have "length ?fl = length flags" "?fl ! k \<longleftrightarrow> flags ! k \<or> intf_event_index op = Some k"
    using Cons.prems by (auto split: option.split)
  ultimately show ?case using Cons.IH [of ?fl] Cons.prems by auto
qed

lemma forced_set:
  "set (map snd (filter (\<lambda>f. \<not> fst f) (zip (flags_after ops [False, False, False]) g_intf_events))) =
     {n \<in> set g_intf_events. \<not> names_intf ops n}"
proof -
  have fl: "flags_after ops [False, False, False] ! k \<longleftrightarrow> names_intf ops (g_intf_events ! k)" if "k < 3" for k
    using that flags_after_nth [of k "[False, False, False]" ops]
    by (auto simp: names_intf_def intf_event_index_Some less_Suc_eq numeral_3_eq_3)
  show ?thesis
  proof (intro set_eqI iffI)
    fix n
    assume "n \<in> set (map snd (filter (\<lambda>f. \<not> fst f) (zip (flags_after ops [False, False, False]) g_intf_events)))"
    then obtain k where "k < length g_intf_events" "n = g_intf_events ! k" "\<not> flags_after ops [False, False, False] ! k"
      by (auto simp: set_zip)
    then have "k < 3" "n = g_intf_events ! k" "\<not> flags_after ops [False, False, False] ! k"
      using intf_lengths(2) by simp_all
    with fl show "n \<in> {n \<in> set g_intf_events. \<not> names_intf ops n}" using intf_lengths(2) by auto
  next
    fix n
    assume "n \<in> {n \<in> set g_intf_events. \<not> names_intf ops n}"
    then obtain k where k: "k < 3" "n = g_intf_events ! k" "\<not> names_intf ops n"
      using intf_lengths(2) by (auto simp: in_set_conv_nth)
    then have "(flags_after ops [False, False, False] ! k, n) \<in> set (zip (flags_after ops [False, False, False]) g_intf_events)"
      using intf_lengths(2) by (auto simp: set_zip)
    with fl k show "n \<in> set (map snd (filter (\<lambda>f. \<not> fst f) (zip (flags_after ops [False, False, False]) g_intf_events)))"
      by (force simp: image_iff)
  qed
qed

text \<open>What the registration of a well-formed request does.\<close>

lemma register_request_eq:
  assumes "request_ok ops" "\<forall>k < length (hdr_enc ops @ [0]). rd k = (hdr_enc ops @ [0]) ! k" "len = length (hdr_enc ops) + 1"
  shows "\<exists>forced. set forced = {n \<in> set g_intf_events. \<not> names_intf ops n} \<and>
    hostap_register_sta_to_events (\<lambda>_. True) (\<lambda>_. True) s rd len es = (0, hr.reg_all s (ops @ forced) es)"
proof -
  have "rd (length (hdr_enc ops)) = 0" using assms(2) by auto
  moreover have "\<forall>k < length (hdr_enc ops). rd (0 + k) = hdr_enc ops ! k" using assms(2) by (auto simp: nth_append)
  ultimately have "register_loop (\<lambda>_. True) s rd len 0 [False, False, False] es =
      (0, flags_after ops [False, False, False], fold (hostap_reg s) ops es)"
    using assms(1,3) by (intro register_loop_enc) auto
  then have "hostap_register_sta_to_events (\<lambda>_. True) (\<lambda>_. True) s rd len es = (0, hr.reg_all s (ops @
      map snd (filter (\<lambda>f. \<not> fst f) (zip (flags_after ops [False, False, False]) g_intf_events))) es)"
    by (simp add: hostap_register_sta_to_events_def force_register_all hr.reg_all_def)
  with forced_set [of ops] show ?thesis by blast
qed

lemma starts_with_exclusive:
  "starts_with op ''INTERFACE_CONNECTED_OK'' \<Longrightarrow> \<not> starts_with op ''INTERFACE_RECONNECTED_OK''"
  "starts_with op ''INTERFACE_CONNECTED_OK'' \<Longrightarrow> \<not> starts_with op ''INTERFACE_DISCONNECTED''"
  "starts_with op ''INTERFACE_RECONNECTED_OK'' \<Longrightarrow> \<not> starts_with op ''INTERFACE_DISCONNECTED''"
proof -
  have at: "op ! 10 = of_char (n ! 10)" if "starts_with op n" "10 < length n" for n
    using strncmp_eq_at [of op "cbytes n" 10] that by (simp add: starts_with_def cbytes_def)
  show "starts_with op ''INTERFACE_CONNECTED_OK'' \<Longrightarrow> \<not> starts_with op ''INTERFACE_RECONNECTED_OK''"
    "starts_with op ''INTERFACE_CONNECTED_OK'' \<Longrightarrow> \<not> starts_with op ''INTERFACE_DISCONNECTED''"
    "starts_with op ''INTERFACE_RECONNECTED_OK'' \<Longrightarrow> \<not> starts_with op ''INTERFACE_DISCONNECTED''"
    by (auto dest!: at)
qed

section \<open>Properties\<close>

text \<open>
  C22. A well-formed registration request subscribes its station to exactly the operation codes
  that it lists and to those interface events that no listed code begins with; nothing else
  changes.  In particular a code that merely begins with the name of an interface event keeps
  the daemon from subscribing the station to that event.
\<close>

theorem registration_request_subscribes:
  assumes "hostap_registry_ok es" "request_ok ops"
    "\<forall>k < length (hdr_enc ops @ [0]). rd k = (hdr_enc ops @ [0]) ! k" "k \<in> op_codes"
  shows "\<exists>es'. hostap_register_sta_to_events (\<lambda>_. True) (\<lambda>_. True) s rd (length (hdr_enc ops) + 1) es = (0, es') \<and>
    hostap_registry_ok es' \<and>
    (t \<in> set (hostap_subs k es') \<longleftrightarrow>
       (t = s \<and> (k \<in> set ops \<or> k \<in> set g_intf_events \<and> \<not> names_intf ops k)) \<or> t \<in> set (hostap_subs k es))"
proof -
  obtain forced where f: "set forced = {n \<in> set g_intf_events. \<not> names_intf ops n}"
    "hostap_register_sta_to_events (\<lambda>_. True) (\<lambda>_. True) s rd (length (hdr_enc ops) + 1) es = (0, hr.reg_all s (ops @ forced) es)"
    using register_request_eq [OF assms(2,3) refl] by blast
  have "set (ops @ forced) \<subseteq> op_codes"
    using assms(2) f(1) intf_lengths(1) by (auto simp: request_ok_def op_codes_def)
  from hr.reg_all_ok [OF this assms(1), of s] hr.reg_all_subs [OF this assms(4,1), of t s] f show ?thesis by auto
qed

definition ex_ops :: "cstr list" where
  "ex_ops = [cbytes ''AP-STA-CONNECTED'', cbytes ''INTERFACE_DISCONNECTED_X'']"

theorem registration_request_subscribes_witness:
  "\<exists>es'. hostap_register_sta_to_events (\<lambda>_. True) (\<lambda>_. True) 7 (\<lambda>k. (hdr_enc ex_ops @ [0]) ! k)
       (length (hdr_enc ex_ops) + 1) [] = (0, es') \<and>
     7 \<in> set (hostap_subs (cbytes ''INTERFACE_RECONNECTED_OK'') es') \<and>
     7 \<notin> set (hostap_subs (cbytes ''INTERFACE_DISCONNECTED'') es')"
proof -
  have ops: "request_ok ex_ops" by (auto simp: request_ok_def ex_ops_def cbytes_def OP_CODE_SIZE_def)
  have k: "cbytes ''INTERFACE_RECONNECTED_OK'' \<in> op_codes" "cbytes ''INTERFACE_DISCONNECTED'' \<in> op_codes"
    by (simp_all add: op_codes_def OP_CODE_SIZE_def cbytes_def)
  have n: "cbytes ''INTERFACE_RECONNECTED_OK'' \<in> set g_intf_events \<and> \<not> names_intf ex_ops (cbytes ''INTERFACE_RECONNECTED_OK'')"
    "cbytes ''INTERFACE_DISCONNECTED'' \<notin> set ex_ops \<and> names_intf ex_ops (cbytes ''INTERFACE_DISCONNECTED'')"
    by code_simp+
  from registration_request_subscribes [OF registry_ok_Nil ops _ k(1), of "\<lambda>k. (hdr_enc ex_ops @ [0]) ! k" 7 7]
    registration_request_subscribes [OF registry_ok_Nil ops _ k(2), of "\<lambda>k. (hdr_enc ex_ops @ [0]) ! k" 7 7]
  show ?thesis using n by auto
qed

text \<open>
  The length byte of an entry is not compared with the length of the request: an entry may
  name up to 63 bytes that lie behind the request, and what the station is subscribed to is
  made of them.
\<close>

theorem registration_reads_beyond_request:
  assumes "rd 0 = n" "n \<noteq> 0" "unat n < OP_CODE_SIZE"
  shows "register_loop (\<lambda>_. True) s rd 1 0 flags es =
    (0, (case intf_event_index (cstr_of (map rd [1..<1 + unat n])) of None \<Rightarrow> flags | Some k \<Rightarrow> flags[k := True]),
     hostap_reg s (cstr_of (map rd [1..<1 + unat n])) es)"
proof -
  have stop: "register_loop (\<lambda>_. True) s rd 1 (1 + unat n) fl es' = (0, fl, es')" for fl es'
    by (subst register_loop.simps) simp
  show ?thesis
    using assms stop
    by (subst register_loop.simps)
      (simp add: Let_def hostap_register_sta_to_event_def del: upt_Suc split: option.split)
qed

theorem registration_reads_beyond_request_witness:
  "snd (snd (register_loop (\<lambda>_. True) 7 (\<lambda>i. if i = 0 then 2 else 65) 1 0 [False, False, False] [])) =
     [\<lparr>he_op_code = [65, 65], he_stations = [7]\<rparr>]"
proof -
  have "(2 :: u8) \<noteq> 0" "unat (2 :: u8) < OP_CODE_SIZE" by (simp_all add: OP_CODE_SIZE_def)
  from registration_reads_beyond_request [where rd = "\<lambda>i. if i = 0 then 2 else 65", OF _ this, of 7 "[False, False, False]" "[]"]
  show ?thesis
    by (simp add: upt_rec cstr_of_def hostap_register_sta_to_event_def strncpy_s_def OP_CODE_SIZE_def)
qed

text \<open>
  C23. An event is sent to the stations subscribed to its operation code, the latest first, and
  to nobody else, except that an event whose code begins with INTERFACE_CONNECTED_OK is sent to
  nobody; the three interface events set the state of the interface, no other event does.
\<close>

theorem event_delivered_to_subscribers:
  assumes "hostap_registry_ok es" "ei_op_code info \<in> op_codes"
  shows "hostap_send_event info es st =
    (0,
     (if starts_with (ei_op_code info) ''INTERFACE_RECONNECTED_OK'' \<or> starts_with (ei_op_code info) ''INTERFACE_CONNECTED_OK''
      then INTERFACE_DWPAL_STATE_CONNECTED
      else if starts_with (ei_op_code info) ''INTERFACE_DISCONNECTED'' then INTERFACE_DWPAL_STATE_DISCONNECTED else st),
     (if starts_with (ei_op_code info) ''INTERFACE_CONNECTED_OK'' then [] else hostap_subs (ei_op_code info) es))"
proof -
  let ?op = "ei_op_code info"
  have "(case find (\<lambda>e. strncmp_eq ?op (he_op_code e) OP_CODE_SIZE) es of None \<Rightarrow> (0, st', []) | Some e \<Rightarrow> (0, st', he_stations e)) =
      ((0 :: rc), st', hostap_subs ?op es)" for st' :: u8
    using assms(1)
  proof (induction es)
    case (Cons e es)
    then show ?case using assms(2) by (simp add: op_code_match)
  qed simp
  then show ?thesis using starts_with_exclusive by (auto simp: hostap_send_event_def Let_def)
qed

theorem event_delivered_to_subscribers_witness:
  "hostap_send_event \<lparr>ei_op_code = cbytes ''INTERFACE_DISCONNECTED'', ei_msg = [], ei_msg_len = 0\<rparr>
     [\<lparr>he_op_code = cbytes ''INTERFACE_DISCONNECTED'', he_stations = [3, 7]\<rparr>] 1 =
   (0, INTERFACE_DWPAL_STATE_DISCONNECTED, [3, 7])"
proof -
  let ?i = "\<lparr>ei_op_code = cbytes ''INTERFACE_DISCONNECTED'', ei_msg = [], ei_msg_len = 0\<rparr>"
  let ?es = "[\<lparr>he_op_code = cbytes ''INTERFACE_DISCONNECTED'', he_stations = [3, 7]\<rparr>]"
  have ok: "hostap_registry_ok ?es" "ei_op_code ?i \<in> op_codes"
    by (simp_all add: OP_CODE_SIZE_def op_codes_def cbytes_def)
  have "\<not> starts_with (ei_op_code ?i) ''INTERFACE_RECONNECTED_OK''" "\<not> starts_with (ei_op_code ?i) ''INTERFACE_CONNECTED_OK''"
    "starts_with (ei_op_code ?i) ''INTERFACE_DISCONNECTED''" by code_simp+
  then show ?thesis using event_delivered_to_subscribers [OF ok, of 1] by simp
qed

text \<open>
  An event whose message, with its terminating NUL, does not fit in 16 bits is refused
  after its IPC message was allocated, and the message is not given back.
\<close>

theorem long_event_message_lost:
  assumes "65535 \<le> n" "n < 2 ^ 64 - 1"
  shows "dwpal_ext_hostap_event_callback (Some e_msg) mem_ok (Some v) (Some op) (Some bs) n = (DWPAL_FAILURE, Lost, None)"
proof -
  have "unat (of_nat (n + 1) :: u16) < 65536" using unsigned_less [of "of_nat (n + 1) :: u16"] by simp
  then have "unat (of_nat (n + 1) :: u16) \<noteq> n + 1" using assms(1) by linarith
  with assms show ?thesis by (simp add: dwpal_ext_hostap_event_callback_def size_add_def Let_def)
qed

theorem long_event_message_lost_witness:
  "dwpal_ext_hostap_event_callback (Some ex_msg) True (Some [119]) (Some [65]) (Some (replicate 65536 66)) 65535 =
     (DWPAL_FAILURE, Lost, None)"
  by (rule long_event_message_lost) simp_all

end
