(* ===== verification/Nl_Iface.thy ===== *)
theory Nl_Iface
  imports Event_Registry
begin

text \<open>
  The netlink side of the daemon, daemon/nl_iface.c: the registry of the stations by the
  number of a driver event, the registration request, attaching, the responses to a netlink
  command and the messages for events.  The netlink library and the dwpal library are
  arguments; list nodes can be allocated.
\<close>

section \<open>The registry\<close>

record drv_event =
  de_nl_id :: u32
  de_stations :: "nat list"

fun register_drv_existing :: "nat \<Rightarrow> u32 \<Rightarrow> drv_event list \<Rightarrow> drv_event list option" where
  "register_drv_existing s n [] = None"
| "register_drv_existing s n (e # es) =
     (if de_nl_id e = n then Some (e\<lparr>de_stations := s # remove1 s (de_stations e)\<rparr> # es)
      else map_option ((#) e) (register_drv_existing s n es))"

definition nl_manager_register_sta_to_drv_event ::
  "bool \<Rightarrow> nat \<Rightarrow> u32 \<Rightarrow> drv_event list \<Rightarrow> rc \<times> drv_event list" where
  "nl_manager_register_sta_to_drv_event mem_ok s n es =
     (case register_drv_existing s n es of
        Some es' \<Rightarrow> (0, es')
      | None \<Rightarrow> if \<not> mem_ok then (1, es) else (0, \<lparr>de_nl_id = n, de_stations = [s]\<rparr> # es))"

fun register_drv_loop :: "(nat \<Rightarrow> bool) \<Rightarrow> nat \<Rightarrow> nat \<Rightarrow> u32 list \<Rightarrow> drv_event list \<Rightarrow> rc \<times> drv_event list" where
  "register_drv_loop mem s i [] es = (0, es)"
| "register_drv_loop mem s i (n # ns) es =
     (let (r, es') = nl_manager_register_sta_to_drv_event (mem i) s n es
      in if r \<noteq> 0 then (1, es') else register_drv_loop mem s (Suc i) ns es')"

definition nl_register_sta_to_events ::
  "(nat \<Rightarrow> bool) \<Rightarrow> nat \<Rightarrow> u8 list option \<Rightarrow> nat \<Rightarrow> drv_event list \<Rightarrow> rc \<times> drv_event list" where
  "nl_register_sta_to_events mem s reg_str len es =
     (case reg_str of
        None \<Rightarrow> (1, es)
      | Some bs \<Rightarrow>
          if len = 0 then (1, es)
          else if len mod 4 \<noteq> 0 then (1, es)
          else register_drv_loop mem s 0 (map (\<lambda>i. u32_at bs (4 * i)) [0..<len div 4]) es)"

definition nl_unregister_sta_from_events :: "nat \<Rightarrow> drv_event list \<Rightarrow> rc \<times> drv_event list" where
  "nl_unregister_sta_from_events s es =
     (0, filter (\<lambda>e. de_stations e \<noteq> []) (map (\<lambda>e. e\<lparr>de_stations := remove1 s (de_stations e)\<rparr>) es))"

text \<open>The stations that an event with the number \<open>n\<close> is sent to, in order.\<close>

definition nl_send_drv_event :: "u32 \<Rightarrow> drv_event list \<Rightarrow> u8 \<Rightarrow> rc \<times> u8 \<times> nat list" where
  "nl_send_drv_event n es st =
     (case find (\<lambda>e. de_nl_id e = n) es of None \<Rightarrow> (0, st, []) | Some e \<Rightarrow> (0, st, de_stations e))"

section \<open>Attaching\<close>

text \<open>
  \<open>attached\<close> is the static variable of the file, \<open>ret\<close> and \<open>id_ret\<close> the results of the two
  library calls.
\<close>

definition nl_iface_attach :: "DWPAL_Ret \<Rightarrow> DWPAL_Ret \<times> int \<Rightarrow> bool \<Rightarrow> u8 \<Rightarrow> rc \<times> bool \<times> u8" where
  "nl_iface_attach ret id_ret attached st =
     (if \<not> attached \<and> ret = DWPAL_FAILURE then (1, attached, st)
      else if fst id_ret \<noteq> DWPAL_SUCCESS then (1, True, st)
      else (0, True, of_int (snd id_ret)))"

definition nl_iface_detach :: "bool \<Rightarrow> rc \<times> bool" where
  "nl_iface_detach attached = (0, False)"

section \<open>Commands\<close>

text \<open>
  A response is the message and its \<open>has_more\<close> flag.  The argument of the callback is the IPC
  message that the netlink message was copied into, if there was one.
\<close>

type_synonym nl_response = "wv_ipc_msg \<times> u8"

definition dwpal_ext_nl80211_callback :: "bool \<Rightarrow> wv_ipc_msg option \<Rightarrow> nl_response option" where
  "dwpal_ext_nl80211_callback is_multi resp =
     (case resp of
        None \<Rightarrow> None
      | Some m \<Rightarrow>
          (case dwpald_header_push (Some m)
                  \<lparr>h_magic = 0, h_bytes = [DWPALD_CMD_RESP, DWPALD_IF_TYPE_KERNEL, 1, 0, 0, 0]\<rparr> of
             (r, _, mp) \<Rightarrow> if r \<noteq> 0 then None else map_option (\<lambda>m'. (m', if is_multi then 1 else 0)) mp))"

text \<open>
  \<open>converted\<close> tells whether the request could be read as a netlink message, \<open>dump\<close> is its
  flag NLM_F_DUMP, \<open>answers\<close> the arguments of the successive callback invocations, \<open>res\<close> and
  \<open>ret\<close> what the library returns, \<open>fresh\<close> the message for the final response.
\<close>

definition nl_execute_command ::
  "bool \<Rightarrow> bool \<Rightarrow> wv_ipc_msg option list \<Rightarrow> int \<Rightarrow> DWPAL_Ret \<Rightarrow> wv_ipc_msg option \<Rightarrow> rc \<times> nl_response list" where
  "nl_execute_command converted dump answers res ret fresh =
     (if \<not> converted then (1, [])
      else let sent = List.map_filter (dwpal_ext_nl80211_callback dump) answers
           in if answers = [] \<or> dump
              then (case fresh of
                      None \<Rightarrow> (1, sent)
                    | Some m \<Rightarrow>
                        (0, sent @ [(with_dwpald_header
                           [DWPALD_CMD_RESP, DWPALD_IF_TYPE_KERNEL, 0, of_int res, of_int (dwpal_ret_code ret), 0] m, 0)]))
              else (0, sent))"

section \<open>Events\<close>

definition NL80211_CMD_VENDOR :: int where "NL80211_CMD_VENDOR = 103"

text \<open>
  The callback for a vendor event: what becomes of the message it allocates, and the number of
  the event that goes along with it.
\<close>

definition dwpal_nlVendorEventCallback ::
  "wv_ipc_msg option \<Rightarrow> bool \<Rightarrow> cstr \<Rightarrow> int \<Rightarrow> u32 \<Rightarrow> nat \<Rightarrow> u8 list \<Rightarrow> DWPAL_Ret \<times> msg_fate \<times> u32 option" where
  "dwpal_nlVendorEventCallback fresh mem_ok ifname event subevent len dat =
     (let len16 = (of_nat len :: u16)
      in if event \<noteq> NL80211_CMD_VENDOR then (DWPAL_FAILURE, NoMessage, None)
         else if unat len16 \<noteq> len then (DWPAL_FAILURE, NoMessage, None)
         else (case fresh of
                 None \<Rightarrow> (DWPAL_FAILURE, NoMessage, None)
               | Some e_msg \<Rightarrow>
                   let nlen = (of_nat (length ifname) :: u8);
                       e1 = with_dwpald_header (wv_aligned_16_bit_assign
                              [DWPALD_EVENT, DWPALD_IF_TYPE_DRIVER, nlen, 0, 0, 0] 3 len16) e_msg;
                       reserve = 4 + unat nlen + unat len16
                   in (case wave_ipc_msg_reserve_data (Some e1) reserve of
                         (WAVE_IPC_SUCCESS, Some e2) \<Rightarrow>
                           let d1 = write_at (m_data e2) 0 (u32_bytes subevent);
                               d2 = write_at d1 4 (take (unat nlen) ifname);
                               d3 = (if len16 = 0 then d2 else write_at d2 (4 + unat nlen) (take (unat len16) dat));
                               e3 = with_ipc_header [5, 0, 0, 0] (e2\<lparr>m_data := d3\<rparr>)
                           in if \<not> mem_ok then (DWPAL_FAILURE, GivenBack, None)
                              else (DWPAL_SUCCESS, PassedOn e3, Some subevent)
                       | _ \<Rightarrow> (DWPAL_FAILURE, GivenBack, None))))"

text \<open>A message that no vendor sent is passed on without a number: every attached client gets it.\<close>

definition dwpal_nlNonVendorEventCallback :: "wv_ipc_msg option \<Rightarrow> int \<times> msg_fate" where
  "dwpal_nlNonVendorEventCallback copied =
     (case copied of
        None \<Rightarrow> (1, NoMessage)
      | Some m \<Rightarrow>
          (case dwpald_header_push (Some m) \<lparr>h_magic = 0, h_bytes = [DWPALD_EVENT, DWPALD_IF_TYPE_KERNEL, 0, 0, 0, 0]\<rparr> of
             (r, _, Some m') \<Rightarrow> if r \<noteq> 0 then (1, GivenBack) else (0, PassedOn (with_ipc_header [5, 0, 0, 0] m'))
           | _ \<Rightarrow> (1, GivenBack)))"

section \<open>The registry as an event registry\<close>

definition nl_subs :: "u32 \<Rightarrow> drv_event list \<Rightarrow> nat list" where
  "nl_subs n es = (case find (\<lambda>e. de_nl_id e = n) es of None \<Rightarrow> [] | Some e \<Rightarrow> de_stations e)"

definition nl_registry_ok :: "drv_event list \<Rightarrow> bool" where
  "nl_registry_ok es \<longleftrightarrow> distinct (map de_nl_id es) \<and> (\<forall>e \<in> set es. distinct (de_stations e) \<and> de_stations e \<noteq> [])"

abbreviation nl_reg :: "nat \<Rightarrow> u32 \<Rightarrow> drv_event list \<Rightarrow> drv_event list" where
  "nl_reg s n es \<equiv> snd (nl_manager_register_sta_to_drv_event True s n es)"

abbreviation nl_unreg :: "nat \<Rightarrow> drv_event list \<Rightarrow> drv_event list" where
  "nl_unreg s es \<equiv> snd (nl_unregister_sta_from_events s es)"

lemma nl_subs_simps [simp]:
  "nl_subs n [] = []" "nl_subs n (e # es) = (if de_nl_id e = n then de_stations e else nl_subs n es)"
  by (auto simp: nl_subs_def)

lemma nl_subs_none: "n \<notin> de_nl_id ` set es \<Longrightarrow> nl_subs n es = []"
  by (induction es) auto

lemma nl_registry_ok_simps [simp]:
  "nl_registry_ok []"
  "nl_registry_ok (e # es) \<longleftrightarrow> de_nl_id e \<notin> de_nl_id ` set es \<and> distinct (de_stations e) \<and> de_stations e \<noteq> [] \<and>
     nl_registry_ok es"
  by (auto simp: nl_registry_ok_def)

lemma register_drv_existing_spec:
  assumes "nl_registry_ok es"
  shows "case register_drv_existing s n es of
      None \<Rightarrow> n \<notin> de_nl_id ` set es
    | Some es' \<Rightarrow> nl_registry_ok es' \<and> de_nl_id ` set es' = de_nl_id ` set es \<and>
        (\<forall>k. nl_subs k es' = (if k = n then s # remove1 s (nl_subs n es) else nl_subs k es))"
  using assms by (induction es) (auto split: option.splits)

lemma nl_reg_spec:
  assumes "nl_registry_ok es"
  shows "fst (nl_manager_register_sta_to_drv_event True s n es) = 0" "nl_registry_ok (nl_reg s n es)"
    "nl_subs k (nl_reg s n es) = (if k = n then s # remove1 s (nl_subs n es) else nl_subs k es)"
  using register_drv_existing_spec [OF assms, of n s] assms
  by (auto simp: nl_manager_register_sta_to_drv_event_def nl_subs_none split: option.splits)

lemma nl_unreg_spec:
  assumes "nl_registry_ok es"
  shows "nl_registry_ok (nl_unreg s es)" "nl_subs k (nl_unreg s es) = remove1 s (nl_subs k es)"
  using assms by (induction es) (auto simp: nl_unregister_sta_from_events_def nl_subs_none image_iff)

interpretation nr: event_registry nl_reg nl_unreg nl_subs UNIV nl_registry_ok
proof unfold_locales
  fix k es
  assume "nl_registry_ok es"
  then show "distinct (nl_subs k es)" by (induction es) auto
qed (simp_all add: nl_reg_spec nl_unreg_spec)

lemma register_drv_loop_all:
  "register_drv_loop (\<lambda>_. True) s i ns es = (0, nr.reg_all s ns es)"
proof (induction ns arbitrary: i es)
  case (Cons n ns)
  obtain es' where "nl_manager_register_sta_to_drv_event True s n es = (0, es')"
    by (cases "register_drv_existing s n es") (simp_all add: nl_manager_register_sta_to_drv_event_def)
  with Cons show ?case by (simp add: nr.reg_all_def)
qed (simp add: nr.reg_all_def)

lemma request_numbers:
  "map (\<lambda>i. u32_at (concat (map u32_bytes ns)) (4 * i)) [0..<length ns] = ns"
proof (rule nth_equalityI)
  fix i
  assume i: "i < length (map (\<lambda>i. u32_at (concat (map u32_bytes ns)) (4 * i)) [0..<length ns])"
  then have split: "concat (map u32_bytes ns) = concat (map u32_bytes (take i ns)) @ u32_bytes (ns ! i) @
      concat (map u32_bytes (drop (Suc i) ns))"
    by (metis (no_types, lifting) append.assoc concat.simps(2) concat_append id_take_nth_drop length_map length_upt
        list.simps(9) map_append diff_zero)
  have "length (concat (map u32_bytes xs)) = 4 * length xs" for xs
    by (induction xs) (simp_all add: u32_bytes_def)
  then have "length (concat (map u32_bytes (take i ns))) = 4 * i" using i by simp
  with u32_at_bytes [of "concat (map u32_bytes (take i ns))" "ns ! i"] i
  show "map (\<lambda>i. u32_at (concat (map u32_bytes ns)) (4 * i)) [0..<length ns] ! i = ns ! i"
    by (simp add: split)
qed simp

section \<open>Properties\<close>

lemma callback_response:
  assumes "hdr_stack m []"
  shows "\<exists>m'. dwpal_ext_nl80211_callback multi (Some m) = Some (m', if multi then 1 else 0)"
proof -
  let ?h = "\<lparr>h_magic = 0, h_bytes = [DWPALD_CMD_RESP, DWPALD_IF_TYPE_KERNEL, 1, 0, 0, 0]\<rparr>"
  have "hdr_fits ([] @ [DWPALD_HDR_MAGIC # h_bytes ?h])" by (simp add: hdr_fits_def IPC_MSG_HDR_SIZE_def)
  from dwpald_push_ok [OF assms _ this] show ?thesis by (simp add: dwpal_ext_nl80211_callback_def)
qed

lemma callback_responses:
  assumes "\<forall>a \<in> set answers. \<exists>m. a = Some m \<and> hdr_stack m []"
  shows "length (List.map_filter (dwpal_ext_nl80211_callback multi) answers) = length answers \<and>
    (\<forall>r \<in> set (List.map_filter (dwpal_ext_nl80211_callback multi) answers). snd r = (if multi then 1 else 0))"
  using assms
proof (induction answers)
  case (Cons a as)
  obtain m where m: "a = Some m" "hdr_stack m []" using Cons.prems by auto
  obtain m' where "dwpal_ext_nl80211_callback multi (Some m) = Some (m', if multi then 1 else 0)"
    using callback_response [OF m(2)] by blast
  with Cons m(1) show ?case by (simp add: List.map_filter_simps)
qed (simp add: List.map_filter_simps)

text \<open>
  A netlink command gets a complete response: all messages but the last carry the more flag
  and the last does not, so that the client, which waits for a message without the flag, gets
  all of them.  For a dump there is one message per answer and a final one; any other command
  with at most one answer gets one message.
\<close>

theorem nl_command_gets_complete_response:
  assumes "\<forall>a \<in> set answers. \<exists>m. a = Some m \<and> hdr_stack m []" "dump \<or> length answers \<le> 1"
  shows "\<exists>rs final. nl_execute_command True dump answers res ret (Some m) = (0, rs @ [final]) \<and>
    (\<forall>r \<in> set rs. snd r = 1) \<and> snd final = 0 \<and> length rs = (if dump then length answers else 0)"
proof -
  let ?sent = "List.map_filter (dwpal_ext_nl80211_callback dump) answers"
  have sent: "length ?sent = length answers" "\<forall>r \<in> set ?sent. snd r = (if dump then 1 else 0)"
    using callback_responses [OF assms(1), of dump] by simp_all
  show ?thesis
  proof (cases "answers = [] \<or> dump")
    case True
    with sent show ?thesis by (cases dump) (auto simp: nl_execute_command_def Let_def)
  next
    case False
    with assms(2) have "length answers = Suc 0" by (cases answers) auto
    with sent(1) have "length ?sent = Suc 0" by (rule trans)
    then obtain r where r: "?sent = [r]" by (auto simp: length_Suc_conv)
    moreover have "nl_execute_command True dump answers res ret (Some m) = (0, ?sent)"
      using False by (simp add: nl_execute_command_def Let_def)
    ultimately show ?thesis using sent(2) False by (intro exI [of _ "[]"] exI [of _ r]) simp
  qed
qed

theorem nl_command_gets_complete_response_witness:
  "\<exists>rs final. nl_execute_command True True [Some ex_msg, Some ex_msg] 0 DWPAL_SUCCESS (Some ex_msg) = (0, rs @ [final]) \<and>
     length rs = 2 \<and> snd final = 0"
proof -
  have "\<forall>a \<in> set [Some ex_msg, Some ex_msg]. \<exists>m. a = Some m \<and> hdr_stack m []" using ex_msg_stack by auto
  from nl_command_gets_complete_response [OF this, of True 0 DWPAL_SUCCESS ex_msg] show ?thesis by fastforce
qed

end
