(* ===== verification/Iface_Manager.thy ===== *)
theory Iface_Manager
  imports Hostap_Iface Nl_Iface
begin

text \<open>
  The interface manager of daemon/iface_manager.c, which runs once for hostapd and once for
  netlink: its attached interfaces, the works that its serializer executes one at a time, and
  the functions that submit them.  A work returns its code, the new state, and the calls it
  makes to the IPC server and to the dwpal library in order.  The works that are delayed in
  the serializer are part of the state: only detach works without a station are.
\<close>

section \<open>Data\<close>

record 'e attached_interface =
  ai_ifname :: cstr
  ai_state :: u8
  ai_events :: "'e list"
  ai_clients :: "nat list"
  ai_keep :: bool

record 'e iface_manager =
  im_iftype :: u8
  im_ifaces :: "'e attached_interface list"
  im_delayed :: "cstr list"

text \<open>
  The table of functions of the interface type, with the answers of the library and the
  allocator inside: \<open>register\<close> reads the request from memory and gets its length.
\<close>

record ('e, 'i) manager_apis =
  api_execute :: "wv_ipc_msg \<Rightarrow> nat \<Rightarrow> u8 \<Rightarrow> rc"
  api_attach :: "cstr \<Rightarrow> u8 \<Rightarrow> rc \<times> u8"
  api_register :: "nat \<Rightarrow> (nat \<Rightarrow> u8) \<Rightarrow> nat \<Rightarrow> 'e list \<Rightarrow> rc \<times> 'e list"
  api_unregister :: "nat \<Rightarrow> 'e list \<Rightarrow> rc \<times> 'e list"
  api_send :: "'i \<Rightarrow> 'e list \<Rightarrow> u8 \<Rightarrow> rc \<times> u8 \<times> nat list"

record detach_work =
  dw_ifname :: cstr
  dw_seq_num :: u8
  dw_ipsta :: "nat option"

record cmd_work =
  cw_cmd :: wv_ipc_msg
  cw_seq_num :: u8
  cw_ipsta :: nat

record 'i event_work =
  ew_event :: wv_ipc_msg
  ew_ifname :: cstr
  ew_info :: "'i option"

datatype mgr_call =
    Respond nat u8 "u8 list"
  | ReqFailed nat u8
  | SendTo nat
  | DetachIface cstr

type_synonym 'e work_result = "rc \<times> 'e iface_manager \<times> mgr_call list"

section \<open>The works\<close>

definition find_iface :: "cstr \<Rightarrow> 'e attached_interface list \<Rightarrow> 'e attached_interface option" where
  "find_iface name ifs = find (\<lambda>a. strncmp_eq (ai_ifname a) name (IFNAMSIZ + 1)) ifs"

fun update_iface ::
  "cstr \<Rightarrow> ('e attached_interface \<Rightarrow> 'e attached_interface) \<Rightarrow> 'e attached_interface list \<Rightarrow> 'e attached_interface list" where
  "update_iface name f [] = []"
| "update_iface name f (a # as) =
     (if strncmp_eq (ai_ifname a) name (IFNAMSIZ + 1) then f a # as else a # update_iface name f as)"

fun remove_iface :: "cstr \<Rightarrow> 'e attached_interface list \<Rightarrow> 'e attached_interface list" where
  "remove_iface name [] = []"
| "remove_iface name (a # as) =
     (if strncmp_eq (ai_ifname a) name (IFNAMSIZ + 1) then as else a # remove_iface name as)"

text \<open>\<open>serializer_cancel_delayed_work\<close> with \<open>detach_work_obj_cmp\<close>, and \<open>serializer_add_delayed_work\<close>.\<close>

definition detach_work_obj_cmp :: "detach_work option \<Rightarrow> detach_work option \<Rightarrow> rc" where
  "detach_work_obj_cmp pending cancel =
     (case (pending, cancel) of
        (Some p, Some c) \<Rightarrow> if strncmp_eq (dw_ifname p) (dw_ifname c) (IFNAMSIZ + 1) then 0 else 1
      | _ \<Rightarrow> 1)"

definition cancel_detach :: "cstr \<Rightarrow> 'e iface_manager \<Rightarrow> 'e iface_manager" where
  "cancel_detach name m =
     m\<lparr>im_delayed := filter (\<lambda>n. detach_work_obj_cmp
         (Some \<lparr>dw_ifname = n, dw_seq_num = 0, dw_ipsta = None\<rparr>)
         (Some \<lparr>dw_ifname = name, dw_seq_num = 0, dw_ipsta = None\<rparr>) \<noteq> 0) (im_delayed m)\<rparr>"

definition schedule_detach :: "cstr \<Rightarrow> 'e iface_manager \<Rightarrow> 'e iface_manager" where
  "schedule_detach name m = m\<lparr>im_delayed := im_delayed m @ [name]\<rparr>"

definition execute_cmd_work :: "('e, 'i) manager_apis \<Rightarrow> cmd_work \<Rightarrow> 'e iface_manager \<Rightarrow> 'e work_result" where
  "execute_cmd_work apis cw m =
     (if api_execute apis (cw_cmd cw) (cw_ipsta cw) (cw_seq_num cw) \<noteq> 0
      then (1, m, [ReqFailed (cw_ipsta cw) (cw_seq_num cw)])
      else (0, m, []))"

definition send_event_to_sta_list :: "nat list \<Rightarrow> rc \<times> mgr_call list" where
  "send_event_to_sta_list clients = (0, map SendTo clients)"

definition send_event_work :: "('e, 'i) manager_apis \<Rightarrow> 'i event_work \<Rightarrow> 'e iface_manager \<Rightarrow> 'e work_result" where
  "send_event_work apis ew m =
     (case find_iface (ew_ifname ew) (im_ifaces m) of
        None \<Rightarrow> (1, m, [])
      | Some a \<Rightarrow>
          (case ew_info ew of
             None \<Rightarrow> (let (r, cs) = send_event_to_sta_list (ai_clients a) in (r, m, cs))
           | Some i \<Rightarrow>
               (let (r, st, tos) = api_send apis i (ai_events a) (ai_state a)
                in (r, m\<lparr>im_ifaces := update_iface (ew_ifname ew) (\<lambda>a. a\<lparr>ai_state := st\<rparr>) (im_ifaces m)\<rparr>,
                    map SendTo tos))))"

text \<open>
  The name of the interface at the start of a command's data, and what follows it.  The name
  field has 17 bytes, of which at most 16 are taken.
\<close>

definition cmd_ifname :: "wv_ipc_msg \<Rightarrow> cstr" where
  "cmd_ifname msg = strncpy_s (IFNAMSIZ + 1) (cstr_of (msg_bytes msg)) IFNAMSIZ"

definition cmd_request :: "wv_ipc_msg \<Rightarrow> (nat \<Rightarrow> u8) \<times> nat" where
  "cmd_request msg = ((\<lambda>k. m_data msg (IFNAMSIZ + 1 + k)), wave_ipc_msg_get_size (Some msg) - (IFNAMSIZ + 1))"

definition cmd_too_short :: "wv_ipc_msg \<Rightarrow> bool" where
  "cmd_too_short msg \<longleftrightarrow> wave_ipc_msg_get_size (Some msg) < IFNAMSIZ + 1 \<or> wave_ipc_msg_get_data (Some msg) = None"

text \<open>
  The station joins the clients of the interface and is registered to the events it asks for.
\<close>

definition attach_client ::
  "('e, 'i) manager_apis \<Rightarrow> nat \<Rightarrow> cstr \<Rightarrow> (nat \<Rightarrow> u8) \<times> nat \<Rightarrow> 'e iface_manager \<Rightarrow> rc \<times> 'e iface_manager" where
  "attach_client apis sta name req m =
     (let m1 = m\<lparr>im_ifaces := update_iface name (\<lambda>a. a\<lparr>ai_clients := remove1 sta (ai_clients a) @ [sta]\<rparr>) (im_ifaces m)\<rparr>
      in case find_iface name (im_ifaces m1) of
           None \<Rightarrow> (0, m1)
         | Some a \<Rightarrow>
             if snd req = 0 then (0, m1)
             else let (r, es) = api_register apis sta (fst req) (snd req) (ai_events a)
                  in (r, m1\<lparr>im_ifaces := update_iface name (\<lambda>a. a\<lparr>ai_events := es\<rparr>) (im_ifaces m1)\<rparr>))"

text \<open>
  \<open>mem_ok\<close> answers the allocations for a new interface, \<open>resp_ok\<close> that of the response.
\<close>

definition iface_attach_work ::
  "('e, 'i) manager_apis \<Rightarrow> bool \<Rightarrow> bool \<Rightarrow> cmd_work \<Rightarrow> 'e iface_manager \<Rightarrow> 'e work_result" where
  "iface_attach_work apis mem_ok resp_ok cw m =
     (let msg = cw_cmd cw; sta = cw_ipsta cw; name = cmd_ifname msg;
          err = (\<lambda>m'. (1, m', [ReqFailed sta (cw_seq_num cw)]));
          known = find_iface name (im_ifaces m);
          (r, st) = api_attach apis name (case known of None \<Rightarrow> 0 | Some a \<Rightarrow> ai_state a);
          m1 = (case known of
                  None \<Rightarrow> m\<lparr>im_ifaces := im_ifaces m @
                    [\<lparr>ai_ifname = name, ai_state = st, ai_events = [], ai_clients = [], ai_keep = False\<rparr>]\<rparr>
                | Some _ \<Rightarrow> m\<lparr>im_ifaces := update_iface name (\<lambda>a. a\<lparr>ai_state := st\<rparr>) (im_ifaces m)\<rparr>);
          (r2, m2) = attach_client apis sta name (cmd_request msg) m1
      in if cmd_too_short msg \<or> (known = None \<and> \<not> mem_ok) \<or> r \<noteq> 0 then err m
         else if r2 \<noteq> 0 \<or> \<not> resp_ok then err m2
         else (0, m2, [Respond sta (cw_seq_num cw) [DWPALD_ATTACH_RESP, im_iftype m, st, 0, 0, 0]]))"

definition iface_update_event_work ::
  "('e, 'i) manager_apis \<Rightarrow> bool \<Rightarrow> cmd_work \<Rightarrow> 'e iface_manager \<Rightarrow> 'e work_result" where
  "iface_update_event_work apis resp_ok cw m =
     (let msg = cw_cmd cw; sta = cw_ipsta cw; name = cmd_ifname msg; (rd, len) = cmd_request msg;
          err = (\<lambda>m'. (1, m', [ReqFailed sta (cw_seq_num cw)]));
          reply = (\<lambda>m'. if \<not> resp_ok then err m'
                        else (0, m', [Respond sta (cw_seq_num cw) [DWPALD_UPDATE_EVENT_RESP, im_iftype m, 0, 0, 0, 0]]))
      in if cmd_too_short msg then err m
         else (case find_iface name (im_ifaces m) of
                 None \<Rightarrow> err m
               | Some a \<Rightarrow>
                   if len = 0 then reply m
                   else (let (r, es) = api_unregister apis sta (ai_events a);
                             (r2, es2) = (if r \<noteq> 0 then (1, es) else api_register apis sta rd len es);
                             m1 = m\<lparr>im_ifaces := update_iface name (\<lambda>a. a\<lparr>ai_events := es2\<rparr>) (im_ifaces m)\<rparr>
                         in if r2 \<noteq> 0 then err m1 else reply m1)))"

text \<open>
  The work for a detach request, and without a station the delayed one.  The second component
  of the result tells whether the copy of the work made for the future is lost: it is
  neither scheduled nor freed.
\<close>

definition idle :: "'e attached_interface \<Rightarrow> bool" where
  "idle a \<longleftrightarrow> \<not> ai_keep a \<and> ai_clients a = []"

definition iface_detach_work ::
  "('e, 'i) manager_apis \<Rightarrow> bool \<Rightarrow> bool \<Rightarrow> detach_work \<Rightarrow> 'e iface_manager \<Rightarrow> 'e work_result \<times> bool" where
  "iface_detach_work apis mem_ok resp_ok dw m =
     (if \<not> mem_ok then ((1, m, []), False)
      else let name = strncpy_s (IFNAMSIZ + 1) (dw_ifname dw) IFNAMSIZ; m1 = cancel_detach name m
           in (case find_iface (dw_ifname dw) (im_ifaces m1) of
                 None \<Rightarrow>
                   ((1, m1, (case dw_ipsta dw of None \<Rightarrow> [] | Some s \<Rightarrow> [ReqFailed s (dw_seq_num dw)])), False)
               | Some a \<Rightarrow>
                   (case dw_ipsta dw of
                      Some s \<Rightarrow>
                        let a1 = a\<lparr>ai_events := snd (api_unregister apis s (ai_events a)), ai_clients := remove1 s (ai_clients a)\<rparr>;
                            m2 = m1\<lparr>im_ifaces := update_iface (dw_ifname dw) (\<lambda>_. a1) (im_ifaces m1)\<rparr>;
                            m3 = (if idle a1 then schedule_detach name m2 else m2)
                        in if \<not> resp_ok then ((1, m3, []), \<not> idle a1)
                           else ((0, m3, [Respond s (dw_seq_num dw) [DWPALD_DETACH_RESP, im_iftype m, 0, 0, 0, 0]]), \<not> idle a1)
                    | None \<Rightarrow>
                        if idle a
                        then ((0, m1\<lparr>im_ifaces := remove_iface (dw_ifname dw) (im_ifaces m1)\<rparr>, [DetachIface (dw_ifname dw)]), False)
                        else ((0, m1, []), False))))"

text \<open>One round of the loop of \<open>sta_disconnect_work\<close>; \<open>mem\<close> answers its \<open>calloc\<close>.\<close>

fun disconnect_loop ::
  "('e, 'i) manager_apis \<Rightarrow> (nat \<Rightarrow> bool) \<Rightarrow> nat \<Rightarrow> nat \<Rightarrow> 'e attached_interface list \<Rightarrow> 'e iface_manager \<Rightarrow>
     'e attached_interface list \<times> 'e iface_manager" where
  "disconnect_loop apis mem s k [] m = ([], m)"
| "disconnect_loop apis mem s k (a # as) m =
     (let a1 = a\<lparr>ai_events := snd (api_unregister apis s (ai_events a)), ai_clients := remove1 s (ai_clients a)\<rparr>;
          name = strncpy_s (IFNAMSIZ + 1) (ai_ifname a) IFNAMSIZ;
          m1 = (if idle a1 \<and> mem k then schedule_detach name (cancel_detach name m) else m);
          (as1, m2) = disconnect_loop apis mem s (Suc k) as m1
      in (a1 # as1, m2))"

definition sta_disconnect_work ::
  "('e, 'i) manager_apis \<Rightarrow> (nat \<Rightarrow> bool) \<Rightarrow> nat option \<Rightarrow> 'e iface_manager \<Rightarrow> 'e work_result" where
  "sta_disconnect_work apis mem sp m =
     (case sp of
        None \<Rightarrow> (1, m, [])
      | Some s \<Rightarrow> (let (ifs, m1) = disconnect_loop apis mem s 0 (im_ifaces m) m in (0, m1\<lparr>im_ifaces := ifs\<rparr>, [])))"

section \<open>Submitting works\<close>

text \<open>
  What is put in the serializer.  The result of a submission is the return code, the work if
  one was put, what became of the message, and the number of references to the station that
  the submission keeps.  \<open>exec_ok\<close> is the answer of \<open>serializer_exec_work_async\<close>; when it
  fails the work is cleaned, which gives back its message and its reference.
\<close>

datatype 'i mgr_work =
    CmdWork cmd_work
  | EventWork "'i event_work"
  | AttachWork cmd_work
  | DetachWork detach_work
  | DisconnWork nat
  | UpdateEventWork cmd_work

definition iface_manager_sta_cmd_async ::
  "bool \<Rightarrow> bool \<Rightarrow> bool \<Rightarrow> nat option \<Rightarrow> u8 \<Rightarrow> wv_ipc_msg option \<Rightarrow>
     (rc \<times> 'i mgr_work option \<times> msg_fate \<times> int) option" where
  "iface_manager_sta_cmd_async manager_given mem_ok exec_ok sp sq cp =
     (case (sp, cp) of
        (Some sta, Some cmd) \<Rightarrow>
          if \<not> manager_given then Some (1, None, GivenBack, 0)
          else do {
            (r, hdr, mp) \<leftarrow> dwpald_header_peek (Some cmd) \<lparr>h_magic = 0, h_bytes = [0, 0, 0, 0, 0, 0]\<rparr>;
            cmd1 \<leftarrow> mp;
            let kind = h_bytes hdr ! 0;
            let cw = \<lparr>cw_cmd = cmd1, cw_seq_num = sq, cw_ipsta = sta\<rparr>;
            let submit = (\<lambda>w fate. if exec_ok then Some (0, Some w, fate, 1) else Some (1, None, GivenBack, 0));
            if r \<noteq> 0 then Some (1, None, GivenBack, 0)
            else if kind = DWPALD_CMD \<or> kind = DWPALD_ATTACH_REQ
            then if \<not> mem_ok then Some (1, None, GivenBack, 0)
                 else submit (if kind = DWPALD_CMD then CmdWork cw else AttachWork cw) (PassedOn cmd1)
            else if kind = DWPALD_DETACH_REQ
            then if wave_ipc_msg_get_size (Some cmd1) \<noteq> IFNAMSIZ + 1 then Some (1, None, GivenBack, 0)
                 else if \<not> mem_ok then Some (1, None, GivenBack, 0)
                 else submit (DetachWork \<lparr>dw_ifname = cmd_ifname cmd1, dw_seq_num = sq, dw_ipsta = Some sta\<rparr>) GivenBack
            else if kind = DWPALD_UPDATE_EVENT_REQ
            then if \<not> mem_ok then Some (1, None, GivenBack, 0) else submit (UpdateEventWork cw) (PassedOn cmd1)
            else Some (1, None, GivenBack, 0) }
      | (_, Some cmd) \<Rightarrow> Some (1, None, GivenBack, 0)
      | (_, None) \<Rightarrow> Some (1, None, NoMessage, 0))"

text \<open>The last component: the extra information is lost, as the failing \<open>calloc\<close> leaves it.\<close>

definition iface_manager_event_received ::
  "bool \<Rightarrow> bool \<Rightarrow> wv_ipc_msg \<Rightarrow> cstr \<Rightarrow> nat \<Rightarrow> 'i option \<Rightarrow> rc \<times> 'i mgr_work option \<times> msg_fate \<times> bool" where
  "iface_manager_event_received mem_ok exec_ok event name ifnamsiz info =
     (if \<not> mem_ok then (1, None, GivenBack, info \<noteq> None)
      else let w = EventWork \<lparr>ew_event = event, ew_ifname = strncpy_s (IFNAMSIZ + 1) name (ifnamsiz - 1), ew_info = info\<rparr>
           in if exec_ok then (0, Some w, PassedOn event, False) else (1, None, GivenBack, False))"

definition iface_manager_sta_disconnected :: "bool \<Rightarrow> nat \<Rightarrow> rc \<times> 'i mgr_work option \<times> int" where
  "iface_manager_sta_disconnected exec_ok sta =
     (if exec_ok then (0, Some (DisconnWork sta), 1) else (1, None, 0))"

section \<open>Starting and stopping\<close>

text \<open>
  The loop over the interfaces that the manager attaches at its start, and the creation: on an
  error every interface of the list is detached, the ones not attached yet as well.
\<close>

fun attach_seeds ::
  "('e, 'i) manager_apis \<Rightarrow> 'e attached_interface list \<Rightarrow> rc \<times> 'e attached_interface list" where
  "attach_seeds apis [] = (0, [])"
| "attach_seeds apis (a # as) =
     (let (r, st) = api_attach apis (ai_ifname a) (ai_state a)
      in if r \<noteq> 0 then (1, a # as)
         else let (r', as') = attach_seeds apis as in (r', a\<lparr>ai_state := st\<rparr> # as'))"

definition iface_manager_init ::
  "('e, 'i) manager_apis \<Rightarrow> bool \<Rightarrow> bool \<Rightarrow> cstr list option \<Rightarrow> u8 \<Rightarrow> 'e iface_manager option \<times> mgr_call list" where
  "iface_manager_init apis mem_ok serializer_ok seeds iftype =
     (if \<not> mem_ok then (None, [])
      else let ifs = map (\<lambda>n. \<lparr>ai_ifname = strncpy_s (IFNAMSIZ + 1) n IFNAMSIZ, ai_state = INTERFACE_DWPAL_STATE_UNKNOWN,
                                ai_events = [], ai_clients = [], ai_keep = True\<rparr>)
                       (case seeds of None \<Rightarrow> [] | Some ns \<Rightarrow> ns);
               err = (\<lambda>ifs. (None, map (\<lambda>a. DetachIface (ai_ifname a)) ifs))
           in if \<not> serializer_ok then err ifs
              else let (r, ifs') = attach_seeds apis ifs
                   in if r \<noteq> 0 then err ifs'
                      else (Some \<lparr>im_iftype = iftype, im_ifaces = ifs', im_delayed = []\<rparr>, []))"

definition iface_manager_deinit :: "'e iface_manager option \<Rightarrow> rc \<times> mgr_call list" where
  "iface_manager_deinit mp =
     (case mp of None \<Rightarrow> (1, []) | Some m \<Rightarrow> (0, map (\<lambda>a. DetachIface (ai_ifname a)) (im_ifaces m)))"

section \<open>The state of a manager\<close>

definition iface_ok :: "('e list \<Rightarrow> bool) \<Rightarrow> 'e attached_interface \<Rightarrow> bool" where
  "iface_ok ok a \<longleftrightarrow> length (ai_ifname a) < IFNAMSIZ + 1 \<and> distinct (ai_clients a) \<and> ok (ai_events a)"

definition mgr_ok :: "('e list \<Rightarrow> bool) \<Rightarrow> 'e iface_manager \<Rightarrow> bool" where
  "mgr_ok ok m \<longleftrightarrow> distinct (map ai_ifname (im_ifaces m)) \<and> (\<forall>a \<in> set (im_ifaces m). iface_ok ok a) \<and>
     distinct (im_delayed m) \<and> (\<forall>n \<in> set (im_delayed m). length n < IFNAMSIZ + 1) \<and>
     (\<forall>a \<in> set (im_ifaces m). idle a \<longrightarrow> ai_ifname a \<in> set (im_delayed m))"

lemma name_match [simp]:
  "length a < Suc IFNAMSIZ \<Longrightarrow> length b < Suc IFNAMSIZ \<Longrightarrow> strncmp_eq a b (Suc IFNAMSIZ) \<longleftrightarrow> a = b"
  by (rule strncmp_eq_short)

lemma cancel_detach_eq:
  assumes "\<forall>n \<in> set (im_delayed m). length n < IFNAMSIZ + 1" "length name < IFNAMSIZ + 1"
  shows "cancel_detach name m = m\<lparr>im_delayed := filter (\<lambda>n. n \<noteq> name) (im_delayed m)\<rparr>"
proof -
  have "filter (\<lambda>n. detach_work_obj_cmp (Some \<lparr>dw_ifname = n, dw_seq_num = 0, dw_ipsta = None\<rparr>)
      (Some \<lparr>dw_ifname = name, dw_seq_num = 0, dw_ipsta = None\<rparr>) \<noteq> 0) (im_delayed m) =
      filter (\<lambda>n. n \<noteq> name) (im_delayed m)"
    using assms by (intro filter_cong) (auto simp: detach_work_obj_cmp_def name_match)
  then show ?thesis by (simp add: cancel_detach_def)
qed

lemma find_iface_eq:
  assumes "\<forall>a \<in> set ifs. length (ai_ifname a) < IFNAMSIZ + 1" "length name < IFNAMSIZ + 1"
  shows "find_iface name ifs = find (\<lambda>a. ai_ifname a = name) ifs"
  using assms unfolding find_iface_def by (induction ifs) (auto simp: name_match)

lemma not_in_image: "n \<notin> f ` A \<longleftrightarrow> (\<forall>x \<in> A. f x \<noteq> n)"
  by auto

lemma update_iface_eq:
  assumes "\<forall>a \<in> set ifs. length (ai_ifname a) < IFNAMSIZ + 1" "length name < IFNAMSIZ + 1" "distinct (map ai_ifname ifs)"
  shows "update_iface name f ifs = map (\<lambda>a. if ai_ifname a = name then f a else a) ifs"
  using assms
proof (induction ifs)
  case (Cons a ifs)
  show ?case
  proof (cases "ai_ifname a = name")
    case True
    then have "\<forall>b \<in> set ifs. ai_ifname b \<noteq> name" using Cons.prems(3) by (auto simp: not_in_image)
    then have "map (\<lambda>a. if ai_ifname a = name then f a else a) ifs = ifs" by (simp add: map_idI)
    with True Cons.prems show ?thesis by (simp add: name_match)
  next
    case False
    with Cons show ?thesis by (simp add: name_match)
  qed
qed simp

lemma remove_iface_eq:
  assumes "\<forall>a \<in> set ifs. length (ai_ifname a) < IFNAMSIZ + 1" "length name < IFNAMSIZ + 1" "distinct (map ai_ifname ifs)"
  shows "remove_iface name ifs = filter (\<lambda>a. ai_ifname a \<noteq> name) ifs"
  using assms
proof (induction ifs)
  case (Cons a ifs)
  show ?case
  proof (cases "ai_ifname a = name")
    case True
    then have "\<forall>b \<in> set ifs. ai_ifname b \<noteq> name" using Cons.prems(3) by (auto simp: not_in_image)
    then have "filter (\<lambda>a. ai_ifname a \<noteq> name) ifs = ifs" by simp
    with True Cons.prems show ?thesis by (simp add: name_match)
  next
    case False
    with Cons show ?thesis by (simp add: name_match)
  qed
qed simp

lemma mgr_okE:
  assumes "mgr_ok ok m"
  shows "distinct (map ai_ifname (im_ifaces m))" "\<forall>a \<in> set (im_ifaces m). length (ai_ifname a) < IFNAMSIZ + 1"
    "\<And>a. a \<in> set (im_ifaces m) \<Longrightarrow> iface_ok ok a" "distinct (im_delayed m)" "\<forall>n \<in> set (im_delayed m). length n < IFNAMSIZ + 1"
    "\<And>a. a \<in> set (im_ifaces m) \<Longrightarrow> idle a \<Longrightarrow> ai_ifname a \<in> set (im_delayed m)"
  using assms by (auto simp: mgr_ok_def iface_ok_def)

lemma find_iface_Some:
  assumes "mgr_ok ok m" "length name < IFNAMSIZ + 1" "find_iface name (im_ifaces m) = Some a"
  shows "a \<in> set (im_ifaces m)" "ai_ifname a = name"
  using assms(3) unfolding find_iface_eq [OF mgr_okE(2) [OF assms(1)] assms(2)] by (auto simp: find_Some_iff)

lemma find_iface_None:
  assumes "mgr_ok ok m" "length name < IFNAMSIZ + 1"
  shows "find_iface name (im_ifaces m) = None \<longleftrightarrow> name \<notin> ai_ifname ` set (im_ifaces m)"
  unfolding find_iface_eq [OF mgr_okE(2) [OF assms(1)] assms(2)] by (auto simp: find_None_iff)

lemma find_iface_In:
  assumes "mgr_ok ok m" "a \<in> set (im_ifaces m)"
  shows "find_iface (ai_ifname a) (im_ifaces m) = Some a"
proof -
  have len: "length (ai_ifname a) < IFNAMSIZ + 1" using mgr_okE(2) [OF assms(1)] assms(2) by blast
  obtain b where b: "find_iface (ai_ifname a) (im_ifaces m) = Some b"
    using find_iface_None [OF assms(1) len] assms(2) by (cases "find_iface (ai_ifname a) (im_ifaces m)") auto
  with find_iface_Some [OF assms(1) len b] assms(2) mgr_okE(1) [OF assms(1)] show ?thesis
    by (metis distinct_map inj_onD)
qed

lemma update_member:
  assumes "mgr_ok ok m" "length name < IFNAMSIZ + 1"
  shows "set (update_iface name f (im_ifaces m)) =
    {f a | a. a \<in> set (im_ifaces m) \<and> ai_ifname a = name} \<union> {a \<in> set (im_ifaces m). ai_ifname a \<noteq> name}"
  unfolding update_iface_eq [OF mgr_okE(2) [OF assms(1)] assms(2) mgr_okE(1) [OF assms(1)]] by auto

lemma mgr_ok_update:
  assumes ok: "mgr_ok ok m" and name: "length name < IFNAMSIZ + 1"
    and f: "\<And>a. a \<in> set (im_ifaces m) \<Longrightarrow> ai_ifname a = name \<Longrightarrow> iface_ok ok (f a) \<and> ai_ifname (f a) = name \<and>
      (idle (f a) \<longrightarrow> name \<in> set (im_delayed m))"
  shows "mgr_ok ok (m\<lparr>im_ifaces := update_iface name f (im_ifaces m)\<rparr>)"
proof -
  have "map ai_ifname (update_iface name f (im_ifaces m)) = map ai_ifname (im_ifaces m)"
    unfolding update_iface_eq [OF mgr_okE(2) [OF ok] name mgr_okE(1) [OF ok]] using f by auto
  moreover have "iface_ok ok b \<and> (idle b \<longrightarrow> ai_ifname b \<in> set (im_delayed m))"
    if "b \<in> set (update_iface name f (im_ifaces m))" for b
    using that update_member [OF ok name, of f] f mgr_okE(3,6) [OF ok] by auto
  ultimately show ?thesis using ok by (auto simp: mgr_ok_def)
qed

lemma mgr_ok_keep:
  assumes ok: "mgr_ok ok m" and name: "length name < IFNAMSIZ + 1"
    and f: "\<And>a. a \<in> set (im_ifaces m) \<Longrightarrow> ai_ifname a = name \<Longrightarrow> ai_ifname (f a) = ai_ifname a \<and>
      ai_keep (f a) = ai_keep a \<and> ai_clients (f a) = ai_clients a \<and> ok (ai_events (f a))"
  shows "mgr_ok ok (m\<lparr>im_ifaces := update_iface name f (im_ifaces m)\<rparr>)"
proof (rule mgr_ok_update [OF ok name])
  fix a
  assume a: "a \<in> set (im_ifaces m)" "ai_ifname a = name"
  have "idle (f a) = idle a" using f [OF a] by (simp add: idle_def)
  with a f [OF a] mgr_okE(3,6) [OF ok a(1)]
  show "iface_ok ok (f a) \<and> ai_ifname (f a) = name \<and> (idle (f a) \<longrightarrow> name \<in> set (im_delayed m))"
    by (simp add: iface_ok_def)
qed

lemma mgr_ok_delayed:
  assumes "mgr_ok ok m" "distinct ds" "\<forall>n \<in> set ds. length n < IFNAMSIZ + 1"
    "\<And>a. a \<in> set (im_ifaces m) \<Longrightarrow> idle a \<Longrightarrow> ai_ifname a \<in> set ds"
  shows "mgr_ok ok (m\<lparr>im_delayed := ds\<rparr>)"
  using assms by (auto simp: mgr_ok_def)

lemma reschedule_eq:
  assumes "\<forall>n \<in> set (im_delayed m). length n < IFNAMSIZ + 1" "length name < IFNAMSIZ + 1"
  shows "schedule_detach name (cancel_detach name m) = m\<lparr>im_delayed := filter (\<lambda>n. n \<noteq> name) (im_delayed m) @ [name]\<rparr>"
  by (simp add: cancel_detach_eq [OF assms] schedule_detach_def)

lemma name_copy [simp]: "length n < Suc IFNAMSIZ \<Longrightarrow> strncpy_s (Suc IFNAMSIZ) n IFNAMSIZ = n"
  by (rule strncpy_s_short) simp_all

lemma cmd_ifname_length: "length (cmd_ifname msg) < IFNAMSIZ + 1"
  unfolding cmd_ifname_def by (rule strncpy_s_length) simp

lemma mgr_ok_replace:
  assumes ok: "mgr_ok ok m" and n: "length n < IFNAMSIZ + 1" and a: "a \<in> set (im_ifaces m)"
    and a1: "iface_ok ok a1" "ai_ifname a1 = n"
    and m': "im_ifaces m' = update_iface n (\<lambda>_. a1) (im_ifaces m)"
      "im_delayed m' = filter (\<lambda>d. d \<noteq> n) (im_delayed m) @ (if idle a1 then [n] else [])"
  shows "mgr_ok ok m'"
proof -
  have "map ai_ifname (update_iface n (\<lambda>_. a1) (im_ifaces m)) = map ai_ifname (im_ifaces m)"
    unfolding update_iface_eq [OF mgr_okE(2) [OF ok] n mgr_okE(1) [OF ok]] using a1(2) by auto
  moreover have "iface_ok ok b \<and> (idle b \<longrightarrow> ai_ifname b \<in> set (im_delayed m'))"
    if "b \<in> set (update_iface n (\<lambda>_. a1) (im_ifaces m))" for b
    using that update_member [OF ok n, of "\<lambda>_. a1"] a1 mgr_okE(3,6) [OF ok] m'(2) by auto
  ultimately show ?thesis using mgr_okE(1,4,5) [OF ok] n m' by (auto simp: mgr_ok_def)
qed

section \<open>What the serializer runs\<close>

text \<open>
  A work that was submitted, with the answers of the allocations it makes, or a delayed detach
  whose time has come.  The serializer runs them one at a time.
\<close>

datatype 'i mgr_act =
    RunWork "'i mgr_work" bool bool
  | DelayedDetach cstr bool

fun mgr_step :: "('e, 'i) manager_apis \<Rightarrow> 'i mgr_act \<Rightarrow> 'e iface_manager \<Rightarrow> 'e work_result" where
  "mgr_step apis (RunWork w mem_ok resp_ok) m =
     (case w of
        CmdWork cw \<Rightarrow> execute_cmd_work apis cw m
      | EventWork ew \<Rightarrow> send_event_work apis ew m
      | AttachWork cw \<Rightarrow> iface_attach_work apis mem_ok resp_ok cw m
      | DetachWork dw \<Rightarrow> fst (iface_detach_work apis mem_ok resp_ok dw m)
      | DisconnWork sta \<Rightarrow> sta_disconnect_work apis (\<lambda>_. mem_ok) (Some sta) m
      | UpdateEventWork cw \<Rightarrow> iface_update_event_work apis resp_ok cw m)"
| "mgr_step apis (DelayedDetach name mem_ok) m =
     fst (iface_detach_work apis mem_ok True \<lparr>dw_ifname = name, dw_seq_num = 0, dw_ipsta = None\<rparr>
       (m\<lparr>im_delayed := remove1 name (im_delayed m)\<rparr>))"

text \<open>
  The shape of the submitted works, and the one assumption on the allocator: a
  disconnection or a delayed detach gets the memory for the work that it schedules.
\<close>

fun work_ok :: "'i mgr_work \<Rightarrow> bool" where
  "work_ok (EventWork ew) = (length (ew_ifname ew) < IFNAMSIZ + 1)"
| "work_ok (DetachWork dw) = (length (dw_ifname dw) < IFNAMSIZ + 1 \<and> dw_ipsta dw \<noteq> None)"
| "work_ok w = True"

fun act_ok :: "'i mgr_act \<Rightarrow> 'e iface_manager \<Rightarrow> bool" where
  "act_ok (RunWork w mem_ok resp_ok) m = (work_ok w \<and> ((\<exists>sta. w = DisconnWork sta) \<longrightarrow> mem_ok))"
| "act_ok (DelayedDetach name mem_ok) m = (name \<in> set (im_delayed m) \<and> mem_ok)"

inductive mgr_reach :: "('e, 'i) manager_apis set \<Rightarrow> 'e iface_manager \<Rightarrow> bool" for A where
  start: "apis \<in> A \<Longrightarrow> distinct (map (\<lambda>n. take IFNAMSIZ n) (case seeds of None \<Rightarrow> [] | Some ns \<Rightarrow> ns)) \<Longrightarrow>
    iface_manager_init apis mem_ok serializer_ok seeds iftype = (Some m, calls) \<Longrightarrow> mgr_reach A m"
| step: "mgr_reach A m \<Longrightarrow> apis \<in> A \<Longrightarrow> act_ok act m \<Longrightarrow> mgr_reach A (fst (snd (mgr_step apis act m)))"

text \<open>What the functions of the manager submit has that shape.\<close>

lemma sta_cmd_work_ok:
  assumes "iface_manager_sta_cmd_async given mem_ok exec_ok sp sq cp = Some (r, Some w, fate, refs)"
  shows "work_ok w"
  using assms
  by (auto simp: iface_manager_sta_cmd_async_def bind_eq_Some_conv Let_def cmd_ifname_length [simplified]
    split: option.splits if_splits)

lemma event_received_work_ok:
  assumes "iface_manager_event_received mem_ok exec_ok event name ifnamsiz info = (r, Some w, fate, lost)"
  shows "work_ok w"
  using assms strncpy_s_length [of "IFNAMSIZ + 1" name "ifnamsiz - 1"]
  by (auto simp: iface_manager_event_received_def Let_def split: if_splits)

lemma seeds_attached_names: "map ai_ifname (snd (attach_seeds apis ifs)) = map ai_ifname ifs"
  by (induction ifs) (auto split: prod.split)

lemma seeds_attached:
  "a \<in> set (snd (attach_seeds apis ifs)) \<Longrightarrow> \<exists>b \<in> set ifs. ai_ifname a = ai_ifname b \<and> ai_events a = ai_events b \<and>
     ai_clients a = ai_clients b \<and> ai_keep a = ai_keep b"
  by (induction ifs) (auto split: prod.splits if_splits)

lemma name_copy_take: "strncpy_s (Suc IFNAMSIZ) n IFNAMSIZ = take IFNAMSIZ n"
  by (simp add: strncpy_s_def less_Suc_eq_le)

lemma init_ok:
  fixes apis :: "('a, 'i) manager_apis"
  assumes "ok []" "distinct (map (\<lambda>n. take IFNAMSIZ n) (case seeds of None \<Rightarrow> [] | Some ns \<Rightarrow> ns))"
    "iface_manager_init apis mem_ok serializer_ok seeds iftype = (Some m, calls)"
  shows "mgr_ok ok m"
proof -
  define ifs where "ifs = map (\<lambda>n. \<lparr>ai_ifname = strncpy_s (IFNAMSIZ + 1) n IFNAMSIZ, ai_state = INTERFACE_DWPAL_STATE_UNKNOWN,
       ai_events = [] :: 'a list, ai_clients = [], ai_keep = True\<rparr>) (case seeds of None \<Rightarrow> [] | Some ns \<Rightarrow> ns)"
  have m: "im_ifaces m = snd (attach_seeds apis ifs)" "im_delayed m = []"
    using assms(3) unfolding ifs_def by (auto simp: iface_manager_init_def Let_def split: if_splits prod.splits)
  have names: "distinct (map ai_ifname (im_ifaces m))"
    using assms(2) by (simp add: m seeds_attached_names ifs_def name_copy_take comp_def)
  have "iface_ok ok a \<and> \<not> idle a" if member: "a \<in> set (im_ifaces m)" for a
  proof -
    obtain b where "b \<in> set ifs" "ai_ifname a = ai_ifname b" "ai_events a = ai_events b" "ai_clients a = ai_clients b"
      "ai_keep a = ai_keep b" using seeds_attached [OF member [unfolded m(1)]] by blast
    moreover from this(1) have "ai_events b = [] \<and> ai_clients b = [] \<and> ai_keep b \<and> length (ai_ifname b) < IFNAMSIZ + 1"
      by (auto simp: ifs_def name_copy_take)
    ultimately show ?thesis using assms(1) by (simp add: iface_ok_def idle_def)
  qed
  with names m(2) show ?thesis by (auto simp: mgr_ok_def)
qed

text \<open>
  What a manager needs of its functions: registering subscribes the station to some events,
  also when it fails half-way, and unregistering is that of the registry.
\<close>

locale managed_registry = event_registry reg unreg subs keys ok
  for reg :: "nat \<Rightarrow> 'k \<Rightarrow> 'e list \<Rightarrow> 'e list" and unreg :: "nat \<Rightarrow> 'e list \<Rightarrow> 'e list"
    and subs :: "'k \<Rightarrow> 'e list \<Rightarrow> nat list" and keys :: "'k set" and ok :: "'e list \<Rightarrow> bool" +
  fixes apis :: "('e, 'i) manager_apis"
  assumes register_law: "ok es \<Longrightarrow> \<exists>ks. set ks \<subseteq> keys \<and> snd (api_register apis s rd len es) = reg_all s ks es"
    and unregister_law: "api_unregister apis s es = (0, unreg s es)"
begin

lemma register_ok: "ok es \<Longrightarrow> api_register apis s rd len es = (r, es') \<Longrightarrow> ok es'"
  using register_law [of es s rd len] reg_all_ok by auto

lemma attach_client_ok:
  assumes m: "mgr_ok ok (m\<lparr>im_ifaces := update_iface n (\<lambda>a. a\<lparr>ai_clients := remove1 s (ai_clients a) @ [s]\<rparr>) (im_ifaces m)\<rparr>)"
      (is "mgr_ok ok ?m1") and n: "length n < IFNAMSIZ + 1"
  shows "mgr_ok ok (snd (attach_client apis s n req m))"
proof -
  consider "find_iface n (im_ifaces ?m1) = None \<or> snd req = 0" | a where "find_iface n (im_ifaces ?m1) = Some a" "snd req \<noteq> 0"
    by (cases "find_iface n (im_ifaces ?m1)") auto
  then show ?thesis
  proof cases
    case 1
    with m show ?thesis by (auto simp: attach_client_def Let_def split: option.splits)
  next
    case (2 a)
    obtain r es where es: "api_register apis s (fst req) (snd req) (ai_events a) = (r, es)" by (meson surj_pair)
    have "ok (ai_events a)" using find_iface_Some(1) [OF m n 2(1)] mgr_okE(3) [OF m] by (auto simp: iface_ok_def)
    then have "ok es" by (rule register_ok [OF _ es])
    then have "mgr_ok ok (?m1\<lparr>im_ifaces := update_iface n (\<lambda>a. a\<lparr>ai_events := es\<rparr>) (im_ifaces ?m1)\<rparr>)"
      by (intro mgr_ok_keep [OF m n]) simp
    with 2 es show ?thesis by (simp add: attach_client_def Let_def)
  qed
qed

lemma attach_ok:
  assumes m: "mgr_ok ok m"
  shows "mgr_ok ok (fst (snd (iface_attach_work apis mem_ok resp_ok cw m)))"
proof -
  let ?n = "cmd_ifname (cw_cmd cw)" and ?s = "cw_ipsta cw"
  let ?join = "\<lambda>a :: 'e attached_interface. a\<lparr>ai_clients := remove1 ?s (ai_clients a) @ [?s]\<rparr>"
  have n: "length ?n < IFNAMSIZ + 1" by (rule cmd_ifname_length)
  obtain r st where att: "api_attach apis ?n (case find_iface ?n (im_ifaces m) of None \<Rightarrow> 0 | Some a \<Rightarrow> ai_state a) = (r, st)"
    by (meson surj_pair)
  let ?new = "\<lparr>ai_ifname = ?n, ai_state = st, ai_events = [], ai_clients = [], ai_keep = False\<rparr>"
  let ?m1 = "case find_iface ?n (im_ifaces m) of None \<Rightarrow> m\<lparr>im_ifaces := im_ifaces m @ [?new]\<rparr>
      | Some _ \<Rightarrow> m\<lparr>im_ifaces := update_iface ?n (\<lambda>a. a\<lparr>ai_state := st\<rparr>) (im_ifaces m)\<rparr>"
  have "mgr_ok ok (?m1\<lparr>im_ifaces := update_iface ?n ?join (im_ifaces ?m1)\<rparr>)"
  proof (cases "find_iface ?n (im_ifaces m)")
    case None
    then have fresh: "?n \<notin> ai_ifname ` set (im_ifaces m)" using find_iface_None [OF m n] by blast
    have keep: "update_iface ?n ?join (im_ifaces m) = im_ifaces m"
      unfolding update_iface_eq [OF mgr_okE(2) [OF m] n mgr_okE(1) [OF m]] using fresh by (intro map_idI) force
    have app: "update_iface ?n ?join (ifs @ [?new]) = update_iface ?n ?join ifs @ [?join ?new]"
      if "\<forall>a \<in> set ifs. length (ai_ifname a) < IFNAMSIZ + 1 \<and> ai_ifname a \<noteq> ?n" for ifs
      using that n by (induction ifs) (auto simp: name_match)
    have "update_iface ?n ?join (im_ifaces m @ [?new]) = im_ifaces m @ [?join ?new]"
      using app [of "im_ifaces m"] fresh mgr_okE(2) [OF m] keep by (simp add: not_in_image)
    moreover have "mgr_ok ok (m\<lparr>im_ifaces := im_ifaces m @ [?join ?new]\<rparr>)"
      using m n fresh empty_law by (auto simp: mgr_ok_def iface_ok_def idle_def)
    ultimately show ?thesis using None by simp
  next
    case (Some a)
    have m1: "mgr_ok ok (m\<lparr>im_ifaces := update_iface ?n (\<lambda>a. a\<lparr>ai_state := st\<rparr>) (im_ifaces m)\<rparr>)" (is "mgr_ok ok ?m2")
      using mgr_okE(3) [OF m] by (intro mgr_ok_keep [OF m n]) (simp add: iface_ok_def)
    have "mgr_ok ok (?m2\<lparr>im_ifaces := update_iface ?n ?join (im_ifaces ?m2)\<rparr>)"
      using mgr_okE(3) [OF m1] n by (intro mgr_ok_update [OF m1 n]) (auto simp: iface_ok_def idle_def)
    with Some show ?thesis by simp
  qed
  from attach_client_ok [OF this n, of "cmd_request (cw_cmd cw)"] m att show ?thesis
    by (auto simp: iface_attach_work_def Let_def split: prod.split)
qed

lemma update_event_ok:
  assumes m: "mgr_ok ok m"
  shows "mgr_ok ok (fst (snd (iface_update_event_work apis resp_ok cw m)))"
proof (cases "find_iface (cmd_ifname (cw_cmd cw)) (im_ifaces m)")
  case None
  with m show ?thesis by (auto simp: iface_update_event_work_def Let_def split: prod.split)
next
  case (Some a)
  let ?n = "cmd_ifname (cw_cmd cw)" and ?s = "cw_ipsta cw"
  have n: "length ?n < IFNAMSIZ + 1" by (rule cmd_ifname_length)
  obtain rd len where req: "cmd_request (cw_cmd cw) = (rd, len)" by (meson surj_pair)
  obtain r es where es: "api_register apis ?s rd len (unreg ?s (ai_events a)) = (r, es)" by (meson surj_pair)
  have "ok (ai_events a)" using find_iface_Some(1) [OF m n Some] mgr_okE(3) [OF m] by (auto simp: iface_ok_def)
  then have "ok es" by (intro register_ok [OF _ es] unreg_ok)
  then have "mgr_ok ok (m\<lparr>im_ifaces := update_iface ?n (\<lambda>a. a\<lparr>ai_events := es\<rparr>) (im_ifaces m)\<rparr>)"
    by (intro mgr_ok_keep [OF m n]) simp
  with m Some req es show ?thesis by (simp add: iface_update_event_work_def unregister_law Let_def)
qed

lemma detach_ok:
  assumes m: "mgr_ok ok m" and n: "length (dw_ifname dw) < IFNAMSIZ + 1" and request: "dw_ipsta dw = Some s"
  shows "mgr_ok ok (fst (snd (fst (iface_detach_work apis mem_ok resp_ok dw m))))"
proof (cases mem_ok)
  case False
  with m show ?thesis by (simp add: iface_detach_work_def)
next
  case mem: True
  let ?n = "dw_ifname dw"
  have c: "cancel_detach ?n m = m\<lparr>im_delayed := filter (\<lambda>d. d \<noteq> ?n) (im_delayed m)\<rparr>"
    by (rule cancel_detach_eq [OF mgr_okE(5) [OF m] n])
  show ?thesis
  proof (cases "find_iface ?n (im_ifaces m)")
    case None
    then have "?n \<notin> ai_ifname ` set (im_ifaces m)" using find_iface_None [OF m n] by blast
    then have "mgr_ok ok (cancel_detach ?n m)"
      unfolding c using mgr_okE(4-6) [OF m] by (intro mgr_ok_delayed [OF m]) force+
    with mem None n show ?thesis by (simp add: iface_detach_work_def Let_def c)
  next
    case (Some a)
    let ?a1 = "a\<lparr>ai_events := unreg s (ai_events a), ai_clients := remove1 s (ai_clients a)\<rparr>"
    note a = find_iface_Some [OF m n Some]
    have a1: "iface_ok ok ?a1" "ai_ifname ?a1 = ?n"
      using mgr_okE(3) [OF m a(1)] a(2) unreg_ok by (auto simp: iface_ok_def)
    have "mgr_ok ok m'" if "im_ifaces m' = update_iface ?n (\<lambda>_. ?a1) (im_ifaces m)"
      "im_delayed m' = filter (\<lambda>d. d \<noteq> ?n) (im_delayed m) @ (if idle ?a1 then [?n] else [])" for m' :: "'e iface_manager"
      by (rule mgr_ok_replace [OF m n a(1) a1 that])
    with mem Some request n show ?thesis
      by (auto simp: iface_detach_work_def Let_def c unregister_law schedule_detach_def)
  qed
qed

text \<open>A delayed detach work runs: it has left the serializer's list.\<close>

lemma delayed_detach_ok:
  assumes m: "mgr_ok ok m" and n: "length n < IFNAMSIZ + 1"
  shows "mgr_ok ok (fst (snd (fst (iface_detach_work apis True resp_ok \<lparr>dw_ifname = n, dw_seq_num = 0, dw_ipsta = None\<rparr>
    (m\<lparr>im_delayed := remove1 n (im_delayed m)\<rparr>)))))"
proof -
  have "\<forall>d \<in> set (remove1 n (im_delayed m)). length d < IFNAMSIZ + 1" using mgr_okE(5) [OF m] set_remove1_subset by fast
  then have c: "cancel_detach n (m\<lparr>im_delayed := remove1 n (im_delayed m)\<rparr>) =
      m\<lparr>im_delayed := filter (\<lambda>d. d \<noteq> n) (remove1 n (im_delayed m))\<rparr>"
    using cancel_detach_eq [of "m\<lparr>im_delayed := remove1 n (im_delayed m)\<rparr>" n] n by simp
  have ds: "filter (\<lambda>d. d \<noteq> n) (remove1 n (im_delayed m)) = filter (\<lambda>d. d \<noteq> n) (im_delayed m)"
    by (induction "im_delayed m") (simp_all add: filter_remove1 remove1_idem)
  show ?thesis
  proof (cases "find_iface n (im_ifaces m)")
    case None
    then have "n \<notin> ai_ifname ` set (im_ifaces m)" using find_iface_None [OF m n] by blast
    then have "mgr_ok ok (m\<lparr>im_delayed := filter (\<lambda>d. d \<noteq> n) (im_delayed m)\<rparr>)"
      using mgr_okE(4-6) [OF m] by (intro mgr_ok_delayed [OF m]) force+
    with None n show ?thesis by (simp add: iface_detach_work_def Let_def c ds)
  next
    case (Some a)
    note a = find_iface_Some [OF m n Some]
    have only: "b = a" if "b \<in> set (im_ifaces m)" "ai_ifname b = n" for b
      using find_iface_In [OF m that(1)] that(2) Some by simp
    have rest: "remove_iface n (im_ifaces m) = filter (\<lambda>a. ai_ifname a \<noteq> n) (im_ifaces m)"
      by (rule remove_iface_eq [OF mgr_okE(2) [OF m] n mgr_okE(1) [OF m]])
    have "mgr_ok ok (m\<lparr>im_delayed := filter (\<lambda>d. d \<noteq> n) (im_delayed m),
        im_ifaces := filter (\<lambda>a. ai_ifname a \<noteq> n) (im_ifaces m)\<rparr>)"
      using m by (auto simp: mgr_ok_def distinct_map_filter)
    moreover have "mgr_ok ok (m\<lparr>im_delayed := filter (\<lambda>d. d \<noteq> n) (im_delayed m)\<rparr>)" if "\<not> idle a"
      using mgr_okE(4-6) [OF m] only that by (intro mgr_ok_delayed [OF m]) auto
    ultimately show ?thesis using Some n
      by (auto simp: iface_detach_work_def Let_def c ds rest)
  qed
qed

definition leave :: "nat \<Rightarrow> 'e attached_interface \<Rightarrow> 'e attached_interface" where
  "leave s a = a\<lparr>ai_events := unreg s (ai_events a), ai_clients := remove1 s (ai_clients a)\<rparr>"

lemma leave_simps [simp]: "ai_ifname (leave s a) = ai_ifname a" "ai_clients (leave s a) = remove1 s (ai_clients a)"
  "ai_events (leave s a) = unreg s (ai_events a)"
  by (simp_all add: leave_def)

lemma disconnect_loop_spec:
  assumes "\<forall>a \<in> set ifs. length (ai_ifname a) < IFNAMSIZ + 1" "distinct (im_delayed m)"
    "\<forall>n \<in> set (im_delayed m). length n < IFNAMSIZ + 1"
  shows "\<exists>ds. disconnect_loop apis (\<lambda>_. True) s k ifs m = (map (leave s) ifs, m\<lparr>im_delayed := ds\<rparr>) \<and> distinct ds \<and>
    set ds = set (im_delayed m) \<union> {ai_ifname a | a. a \<in> set ifs \<and> idle (leave s a)}"
  using assms
proof (induction ifs arbitrary: k m)
  case Nil
  then show ?case by (intro exI [of _ "im_delayed m"]) simp
next
  case (Cons a ifs)
  let ?n = "ai_ifname a"
  have n: "length ?n < IFNAMSIZ + 1" using Cons.prems(1) by simp
  let ?ds = "if idle (leave s a) then filter (\<lambda>d. d \<noteq> ?n) (im_delayed m) @ [?n] else im_delayed m"
  have m1: "(if idle (leave s a) then schedule_detach ?n (cancel_detach ?n m) else m) = m\<lparr>im_delayed := ?ds\<rparr>"
    using reschedule_eq [OF Cons.prems(3) n] by simp
  have pre: "distinct ?ds" "\<forall>d \<in> set ?ds. length d < IFNAMSIZ + 1" using Cons.prems(2,3) n by auto
  obtain ds where ds: "disconnect_loop apis (\<lambda>_. True) s (Suc k) ifs (m\<lparr>im_delayed := ?ds\<rparr>) =
      (map (leave s) ifs, m\<lparr>im_delayed := ds\<rparr>)" "distinct ds"
    "set ds = set ?ds \<union> {ai_ifname a | a. a \<in> set ifs \<and> idle (leave s a)}"
    using Cons.IH [of "m\<lparr>im_delayed := ?ds\<rparr>" "Suc k"] Cons.prems(1) pre by auto
  have "disconnect_loop apis (\<lambda>_. True) s k (a # ifs) m = (map (leave s) (a # ifs), m\<lparr>im_delayed := ds\<rparr>)"
    using ds(1) m1 n by (cases "idle (leave s a)") (simp_all add: Let_def unregister_law flip: leave_def)
  moreover have "set ds = set (im_delayed m) \<union> {ai_ifname b | b. b \<in> set (a # ifs) \<and> idle (leave s b)}"
    using ds(3) by auto
  ultimately show ?case using ds(2) by blast
qed

lemma disconnect_eq:
  assumes m: "mgr_ok ok m"
  shows "\<exists>ds. sta_disconnect_work apis (\<lambda>_. True) (Some s) m =
      (0, m\<lparr>im_delayed := ds, im_ifaces := map (leave s) (im_ifaces m)\<rparr>, []) \<and>
    mgr_ok ok (m\<lparr>im_delayed := ds, im_ifaces := map (leave s) (im_ifaces m)\<rparr>)"
proof -
  obtain ds where ds: "disconnect_loop apis (\<lambda>_. True) s 0 (im_ifaces m) m = (map (leave s) (im_ifaces m), m\<lparr>im_delayed := ds\<rparr>)"
    "distinct ds" "set ds = set (im_delayed m) \<union> {ai_ifname a | a. a \<in> set (im_ifaces m) \<and> idle (leave s a)}"
    using disconnect_loop_spec [OF mgr_okE(2) [OF m] mgr_okE(4,5) [OF m], of s 0] by blast
  have "map ai_ifname (map (leave s) (im_ifaces m)) = map ai_ifname (im_ifaces m)" by simp
  then have "mgr_ok ok (m\<lparr>im_delayed := ds, im_ifaces := map (leave s) (im_ifaces m)\<rparr>)"
    using m ds(2,3) unreg_ok unfolding mgr_ok_def iface_ok_def by (auto simp del: map_map)
  with ds(1) show ?thesis by (intro exI [of _ ds]) (simp add: sta_disconnect_work_def)
qed

lemma event_work_ok:
  assumes m: "mgr_ok ok m" and n: "length (ew_ifname ew) < IFNAMSIZ + 1"
  shows "mgr_ok ok (fst (snd (send_event_work apis ew m)))"
proof -
  have "mgr_ok ok (m\<lparr>im_ifaces := update_iface (ew_ifname ew) (\<lambda>a. a\<lparr>ai_state := st\<rparr>) (im_ifaces m)\<rparr>)" for st
    using mgr_okE(3) [OF m] by (intro mgr_ok_keep [OF m n]) (simp add: iface_ok_def)
  with m show ?thesis
    by (auto simp: send_event_work_def send_event_to_sta_list_def split: option.split prod.split)
qed

lemma step_ok:
  assumes m: "mgr_ok ok m" and act: "act_ok act m"
  shows "mgr_ok ok (fst (snd (mgr_step apis act m)))"
proof (cases act)
  case (DelayedDetach n mem_ok)
  with act mgr_okE(5) [OF m] delayed_detach_ok [OF m, of n True] show ?thesis by simp
next
  case (RunWork w mem_ok resp_ok)
  show ?thesis
  proof (cases w)
    case (CmdWork cw)
    with RunWork m show ?thesis by (simp add: execute_cmd_work_def)
  next
    case (EventWork ew)
    with RunWork act event_work_ok [OF m, of ew] show ?thesis by simp
  next
    case (AttachWork cw)
    with RunWork attach_ok [OF m] show ?thesis by simp
  next
    case (DetachWork dw)
    with RunWork act obtain s where "length (dw_ifname dw) < IFNAMSIZ + 1" "dw_ipsta dw = Some s" by auto
    from detach_ok [OF m this] RunWork DetachWork show ?thesis by simp
  next
    case (DisconnWork sta)
    with RunWork act disconnect_eq [OF m, of sta] show ?thesis by auto
  next
    case (UpdateEventWork cw)
    with RunWork update_event_ok [OF m] show ?thesis by simp
  qed
qed

end

section \<open>The managers of the daemon\<close>

text \<open>The tables of the two interface types; the arguments are the answers of the library and the allocator.\<close>

definition hostap_man_apis ::
  "(wv_ipc_msg \<Rightarrow> nat \<Rightarrow> u8 \<Rightarrow> rc) \<Rightarrow> (cstr \<Rightarrow> DWPAL_Ret) \<Rightarrow> (nat \<Rightarrow> bool) \<Rightarrow> (nat \<Rightarrow> bool) \<Rightarrow>
     (hostap_event, hostap_extra_info) manager_apis" where
  "hostap_man_apis execute attach mem mem' =
     \<lparr>api_execute = execute, api_attach = (\<lambda>name. hostap_iface_attach (attach name)),
      api_register = hostap_register_sta_to_events mem mem',
      api_unregister = hostap_unregister_sta_from_events, api_send = hostap_send_event\<rparr>"

definition nl_man_apis ::
  "(wv_ipc_msg \<Rightarrow> nat \<Rightarrow> u8 \<Rightarrow> rc) \<Rightarrow> DWPAL_Ret \<Rightarrow> DWPAL_Ret \<times> int \<Rightarrow> bool \<Rightarrow> (nat \<Rightarrow> bool) \<Rightarrow> (drv_event, u32) manager_apis" where
  "nl_man_apis execute attach id_ret attached mem =
     \<lparr>api_execute = execute,
      api_attach = (\<lambda>name st. case nl_iface_attach attach id_ret attached st of (r, _, st') \<Rightarrow> (r, st')),
      api_register = (\<lambda>s rd len. nl_register_sta_to_events mem s (Some (map rd [0..<len])) len),
      api_unregister = nl_unregister_sta_from_events, api_send = nl_send_drv_event\<rparr>"

lemma hostap_reg_any:
  assumes "length op < OP_CODE_SIZE"
  shows "snd (hostap_register_sta_to_event mem_ok s op es) = hostap_reg s op es \<or>
    snd (hostap_register_sta_to_event mem_ok s op es) = es"
  by (cases mem_ok; cases "register_existing s op es") (simp_all add: hostap_register_sta_to_event_def)

lemma reg_all_Cons: "hr.reg_all s (k # ks) es = hr.reg_all s ks (hostap_reg s k es)"
  by (simp add: hr.reg_all_def)

lemma register_loop_any:
  "\<exists>ks. set ks \<subseteq> op_codes \<and> snd (snd (register_loop mem s rd len i flags es)) = hr.reg_all s ks es"
proof (induction mem s rd len i flags es rule: register_loop.induct)
  case (1 mem s rd len i flags es)
  let ?n = "unat (rd i)" and ?op = "cstr_of (map rd [Suc i..<Suc i + unat (rd i)])"
  have nil: "\<exists>ks. set ks \<subseteq> op_codes \<and> es = hr.reg_all s ks es"
    by (intro exI [of _ "[]"]) (simp add: hr.reg_all_def)
  obtain r es' where reg: "hostap_register_sta_to_event (mem i) s ?op es = (r, es')" by (meson surj_pair)
  consider (stop) "\<not> (i < len \<and> rd i \<noteq> 0) \<or> ?n \<ge> OP_CODE_SIZE" | (go) "i < len \<and> rd i \<noteq> 0" "?n < OP_CODE_SIZE" by linarith
  then show ?case
  proof cases
    case stop
    with nil show ?thesis by (subst register_loop.simps) (auto simp: Let_def simp del: upt_Suc)
  next
    case go
    have "length ?op < OP_CODE_SIZE"
      using cstr_of_length [of "map rd [Suc i..<Suc i + ?n]"] go(2) by (simp del: upt_Suc)
    then have op: "?op \<in> op_codes" "es' = hostap_reg s ?op es \<or> es' = es"
      using hostap_reg_any [of ?op "mem i" s es] reg by (auto simp: op_codes_def)
    have step: "snd (snd (register_loop mem s rd len i flags es)) = (if r \<noteq> 0 then es'
        else snd (snd (register_loop mem s rd len (i + 1 + ?n)
          (case intf_event_index ?op of None \<Rightarrow> flags | Some k \<Rightarrow> flags[k := True]) es')))"
      using go reg by (subst register_loop.simps) (simp add: Let_def del: upt_Suc)
    have "\<exists>ks. set ks \<subseteq> op_codes \<and> snd (snd (register_loop mem s rd len i flags es)) = hr.reg_all s ks es'"
    proof (cases "r = 0")
      case True
      with "1.IH" [OF go(1) refl refl] go(2) reg step show ?thesis by (simp del: upt_Suc)
    next
      case False
      with step show ?thesis by (intro exI [of _ "[]"]) (simp add: hr.reg_all_def)
    qed
    then obtain ks where ks: "set ks \<subseteq> op_codes" "snd (snd (register_loop mem s rd len i flags es)) = hr.reg_all s ks es'" by blast
    from op(2) show ?thesis
    proof
      assume "es' = hostap_reg s ?op es"
      with ks op(1) show ?thesis by (intro exI [of _ "?op # ks"]) (simp add: reg_all_Cons del: upt_Suc)
    next
      assume "es' = es"
      with ks show ?thesis by blast
    qed
  qed
qed

lemma reg_all_append: "hr.reg_all s js (hr.reg_all s ks es) = hr.reg_all s (ks @ js) es"
  by (simp add: hr.reg_all_def)

lemma force_register_any:
  "\<forall>f \<in> set fs. length (snd f) < OP_CODE_SIZE \<Longrightarrow>
     \<exists>ks. set ks \<subseteq> op_codes \<and> snd (force_register mem s k fs es) = hr.reg_all s ks es"
proof (induction mem s k fs es rule: force_register.induct)
  case (1 mem s k es)
  show ?case by (intro exI [of _ "[]"]) (simp add: hr.reg_all_def)
next
  case (2 mem s k named op fs es)
  obtain r es' where reg: "hostap_register_sta_to_event (mem k) s op es = (r, es')" by (meson surj_pair)
  have op: "length op < OP_CODE_SIZE" using "2.prems" by simp
  have es': "\<exists>ks. set ks \<subseteq> op_codes \<and> es' = hr.reg_all s ks es"
    using hostap_reg_any [OF op, of "mem k" s es] reg op
    by (auto simp: op_codes_def hr.reg_all_def intro: exI [of _ "[]"] exI [of _ "[op]"])
  show ?case
  proof (cases named)
    case True
    with 2 show ?thesis by simp
  next
    case False
    show ?thesis
    proof (cases "r = 0")
      case True
      with "2.IH"(2) [OF False reg [symmetric] refl] "2.prems" obtain ks where
        "set ks \<subseteq> op_codes" "snd (force_register mem s (Suc k) fs es') = hr.reg_all s ks es'" by auto
      moreover obtain js where "set js \<subseteq> op_codes" "es' = hr.reg_all s js es" using es' by blast
      ultimately show ?thesis using False True reg by (intro exI [of _ "js @ ks"]) (simp add: reg_all_append)
    next
      case False
      with es' \<open>\<not> named\<close> reg show ?thesis by simp
    qed
  qed
qed

lemma hostap_register_any:
  "\<exists>ks. set ks \<subseteq> op_codes \<and> snd (hostap_register_sta_to_events mem mem' s rd len es) = hr.reg_all s ks es"
proof -
  obtain r flags es1 where one: "register_loop mem s rd len 0 [False, False, False] es = (r, flags, es1)" by (meson prod_cases3)
  obtain ks where ks: "set ks \<subseteq> op_codes" "es1 = hr.reg_all s ks es"
    using register_loop_any [of mem s rd len 0 "[False, False, False]" es] one by auto
  have "\<forall>f \<in> set (zip flags g_intf_events). length (snd f) < OP_CODE_SIZE"
    using intf_lengths(1) by (auto dest: set_zip_rightD)
  from force_register_any [OF this, of mem' s 0 es1] obtain js where
    "set js \<subseteq> op_codes" "snd (force_register mem' s 0 (zip flags g_intf_events) es1) = hr.reg_all s js es1" by blast
  note js = this
  show ?thesis
  proof (cases "r = 0")
    case True
    with one js ks have "snd (hostap_register_sta_to_events mem mem' s rd len es) = hr.reg_all s (ks @ js) es"
      by (simp add: hostap_register_sta_to_events_def reg_all_append)
    moreover have "set (ks @ js) \<subseteq> op_codes" using js(1) ks(1) by simp
    ultimately show ?thesis by blast
  next
    case False
    with one ks show ?thesis by (auto simp: hostap_register_sta_to_events_def)
  qed
qed

interpretation hm: managed_registry hostap_reg hostap_unreg hostap_subs op_codes hostap_registry_ok
  "hostap_man_apis execute attach mem mem'" for execute attach mem mem'
  by unfold_locales
    (simp_all add: hostap_man_apis_def hostap_register_any hostap_unregister_sta_from_events_def)

lemma nl_reg_any:
  "snd (nl_manager_register_sta_to_drv_event mem_ok s n es) = nl_reg s n es \<or>
     snd (nl_manager_register_sta_to_drv_event mem_ok s n es) = es"
  by (cases mem_ok; cases "register_drv_existing s n es") (simp_all add: nl_manager_register_sta_to_drv_event_def)

lemma register_drv_loop_any: "\<exists>ks. snd (register_drv_loop mem s i ns es) = nr.reg_all s ks es"
proof (induction ns arbitrary: i es)
  case Nil
  show ?case by (intro exI [of _ "[]"]) (simp add: nr.reg_all_def)
next
  case (Cons n ns)
  obtain r es' where reg: "nl_manager_register_sta_to_drv_event (mem i) s n es = (r, es')" by (meson surj_pair)
  obtain js where js: "es' = nr.reg_all s js es"
    using nl_reg_any [of "mem i" s n es] reg by (auto simp: nr.reg_all_def intro: that [of "[]"] that [of "[n]"])
  obtain ks where "snd (register_drv_loop mem s (Suc i) ns es') = nr.reg_all s ks es'" using Cons.IH by blast
  with js have "snd (register_drv_loop mem s (Suc i) ns es') = nr.reg_all s (js @ ks) es" by (simp add: nr.reg_all_def)
  with reg js show ?case by (cases "r = 0") auto
qed

interpretation nm: managed_registry nl_reg nl_unreg nl_subs UNIV nl_registry_ok
  "nl_man_apis execute attach id_ret attached mem" for execute attach id_ret attached mem
proof unfold_locales
  fix es s rd len
  show "\<exists>ks. set ks \<subseteq> UNIV \<and> snd (api_register (nl_man_apis execute attach id_ret attached mem) s rd len es) = nr.reg_all s ks es"
    using register_drv_loop_any [of mem s 0 "map (\<lambda>i. u32_at (map rd [0..<len]) (4 * i)) [0..<len div 4]" es]
    by (auto simp: nl_man_apis_def nl_register_sta_to_events_def nr.reg_all_def intro: exI [of _ "[]"])
qed (simp add: nl_man_apis_def nl_unregister_sta_from_events_def)

text \<open>The tables that the two managers can have, whatever the library and the allocator answer.\<close>

definition hostap_tables :: "(hostap_event, hostap_extra_info) manager_apis set" where
  "hostap_tables = {apis. \<exists>execute attach mem mem'. apis = hostap_man_apis execute attach mem mem'}"

definition nl_tables :: "(drv_event, u32) manager_apis set" where
  "nl_tables = {apis. \<exists>execute attach id_ret attached mem. apis = nl_man_apis execute attach id_ret attached mem}"

lemma hostap_reach_ok: "mgr_reach hostap_tables m \<Longrightarrow> mgr_ok hostap_registry_ok m"
proof (induction rule: mgr_reach.induct)
  case (start apis seeds mem_ok serializer_ok iftype m calls)
  then show ?case by (intro init_ok [OF _ start(2,3)]) simp
next
  case (step m apis act)
  then show ?case using hm.step_ok by (auto simp: hostap_tables_def)
qed

lemma nl_reach_ok: "mgr_reach nl_tables m \<Longrightarrow> mgr_ok nl_registry_ok m"
proof (induction rule: mgr_reach.induct)
  case (start apis seeds mem_ok serializer_ok iftype m calls)
  then show ?case by (intro init_ok [OF _ start(2,3)] nr.empty_law)
next
  case (step m apis act)
  then show ?case using nm.step_ok by (auto simp: nl_tables_def)
qed

lemma mgr_ok_once:
  assumes "mgr_ok ok m" "a \<in> set (im_ifaces m)" "idle a"
  shows "count_list (im_delayed m) (ai_ifname a) = 1"
proof -
  have "count_list ds n = 1" if "distinct ds" "n \<in> set ds" for ds :: "cstr list" and n
    using that by (induction ds) (auto simp: count_list_0_iff)
  with mgr_okE(4,6) [OF assms(1)] assms(2,3) show ?thesis by blast
qed

section \<open>Properties\<close>


text \<open>The states of the witnesses: the interface wlan0, to which the station 7 attaches.\<close>

definition ex_cmd :: "u8 list \<Rightarrow> wv_ipc_msg" where
  "ex_cmd bs = ex_msg\<lparr>m_data_len := of_nat (length bs), m_data := (\<lambda>k. if k < length bs then bs ! k else 0)\<rparr>"

definition ex_attach :: cmd_work where
  "ex_attach = \<lparr>cw_cmd = ex_cmd (cbytes ''wlan0'' @ replicate 12 0), cw_seq_num = 1, cw_ipsta = 7\<rparr>"

definition ex_apis :: "(hostap_event, hostap_extra_info) manager_apis" where
  "ex_apis = hostap_man_apis (\<lambda>_ _ _. 0) (\<lambda>_. DWPAL_SUCCESS) (\<lambda>_. True) (\<lambda>_. True)"

definition ex_manager :: "nat list \<Rightarrow> cstr list \<Rightarrow> hostap_event iface_manager" where
  "ex_manager clients delayed =
     \<lparr>im_iftype = DWPALD_IF_TYPE_HOSTAP,
      im_ifaces = [\<lparr>ai_ifname = cbytes ''wlan0'', ai_state = INTERFACE_DWPAL_STATE_CONNECTED, ai_events = [],
                    ai_clients = clients, ai_keep = False\<rparr>],
      im_delayed = delayed\<rparr>"

lemma ex_apis_hostap: "ex_apis \<in> hostap_tables"
  by (auto simp: ex_apis_def hostap_tables_def)

lemma ex_attached: "mgr_reach hostap_tables (ex_manager [7] [])"
proof -
  have "iface_manager_init ex_apis True True None DWPALD_IF_TYPE_HOSTAP =
      (Some \<lparr>im_iftype = DWPALD_IF_TYPE_HOSTAP, im_ifaces = [], im_delayed = []\<rparr>, [])" by code_simp
  then have "mgr_reach hostap_tables \<lparr>im_iftype = DWPALD_IF_TYPE_HOSTAP, im_ifaces = [], im_delayed = []\<rparr>"
    by (rule mgr_reach.start [OF ex_apis_hostap, rotated]) simp
  from mgr_reach.step [OF this ex_apis_hostap, of "RunWork (AttachWork ex_attach) True True"]
  have "mgr_reach hostap_tables (fst (snd (mgr_step ex_apis (RunWork (AttachWork ex_attach) True True)
      \<lparr>im_iftype = DWPALD_IF_TYPE_HOSTAP, im_ifaces = [], im_delayed = []\<rparr>)))" by simp
  moreover have "fst (snd (mgr_step ex_apis (RunWork (AttachWork ex_attach) True True)
      \<lparr>im_iftype = DWPALD_IF_TYPE_HOSTAP, im_ifaces = [], im_delayed = []\<rparr>)) = ex_manager [7] []" by code_simp
  ultimately show ?thesis by simp
qed

lemma ex_left: "mgr_reach hostap_tables (ex_manager [] [cbytes ''wlan0''])"
proof -
  have "fst (snd (mgr_step ex_apis (RunWork (DisconnWork 7) True True) (ex_manager [7] []))) =
      ex_manager [] [cbytes ''wlan0'']" by code_simp
  with mgr_reach.step [OF ex_attached ex_apis_hostap, of "RunWork (DisconnWork 7) True True"] show ?thesis by simp
qed


text \<open>
  C26. A station that disconnects is forgotten: it is a client of no interface and a subscriber of
  no event any more, while the interfaces stay, and the other stations keep what they had.
\<close>

theorem disconnected_station_forgotten:
  assumes "mgr_reach hostap_tables m" "apis \<in> hostap_tables"
  shows "\<exists>m'. mgr_step apis (RunWork (DisconnWork s) True resp_ok) m = (0, m', []) \<and>
    map ai_ifname (im_ifaces m') = map ai_ifname (im_ifaces m) \<and>
    (\<forall>a' \<in> set (im_ifaces m'). s \<notin> set (ai_clients a') \<and> (\<forall>op \<in> op_codes. s \<notin> set (hostap_subs op (ai_events a')))) \<and>
    (\<forall>i < length (im_ifaces m). \<forall>t. t \<noteq> s \<longrightarrow>
       (t \<in> set (ai_clients (im_ifaces m' ! i)) \<longleftrightarrow> t \<in> set (ai_clients (im_ifaces m ! i))) \<and>
       (\<forall>op \<in> op_codes. t \<in> set (hostap_subs op (ai_events (im_ifaces m' ! i))) \<longleftrightarrow>
          t \<in> set (hostap_subs op (ai_events (im_ifaces m ! i)))))"
proof -
  note ok = hostap_reach_ok [OF assms(1)]
  obtain ds where run: "mgr_step apis (RunWork (DisconnWork s) True resp_ok) m =
      (0, m\<lparr>im_delayed := ds, im_ifaces := map (hm.leave s) (im_ifaces m)\<rparr>, [])"
    using hm.disconnect_eq [OF ok, of _ _ _ _ s] assms(2) by (fastforce simp: hostap_tables_def)
  have one: "s \<notin> set (ai_clients (hm.leave s a)) \<and> (t \<noteq> s \<longrightarrow> (t \<in> set (ai_clients (hm.leave s a)) \<longleftrightarrow> t \<in> set (ai_clients a))) \<and>
      (\<forall>op \<in> op_codes. t \<in> set (hostap_subs op (ai_events (hm.leave s a))) \<longleftrightarrow> t \<noteq> s \<and> t \<in> set (hostap_subs op (ai_events a)))"
    if "a \<in> set (im_ifaces m)" for a t
    using mgr_okE(3) [OF ok that] hr.unreg_subs by (auto simp: iface_ok_def)
  have "map ai_ifname (map (hm.leave s) (im_ifaces m)) = map ai_ifname (im_ifaces m)" by simp
  moreover have "\<forall>a' \<in> set (map (hm.leave s) (im_ifaces m)). s \<notin> set (ai_clients a') \<and>
      (\<forall>op \<in> op_codes. s \<notin> set (hostap_subs op (ai_events a')))" using one by auto
  ultimately show ?thesis using run one by simp
qed

theorem disconnected_station_forgotten_witness:
  "\<exists>m'. mgr_step ex_apis (RunWork (DisconnWork 7) True True) (ex_manager [7] []) = (0, m', []) \<and>
     (\<forall>a' \<in> set (im_ifaces m'). 7 \<notin> set (ai_clients a'))"
  using disconnected_station_forgotten [OF ex_attached ex_apis_hostap, of 7 True] by blast

text \<open>
  When the time of a scheduled detach has come, the interface is detached and removed if it
  has no client and was not named at the start; otherwise all interfaces stay and the library
  is not called.
\<close>

theorem delayed_detach_removes_idle:
  assumes "mgr_reach hostap_tables m" "n \<in> set (im_delayed m)" "apis \<in> hostap_tables"
  shows "let (r, m', calls) = mgr_step apis (DelayedDetach n True) m in
    n \<notin> set (im_delayed m') \<and>
    (if \<exists>a \<in> set (im_ifaces m). ai_ifname a = n \<and> \<not> ai_keep a \<and> ai_clients a = []
     then im_ifaces m' = filter (\<lambda>a. ai_ifname a \<noteq> n) (im_ifaces m) \<and> calls = [DetachIface n]
     else im_ifaces m' = im_ifaces m \<and> calls = [])"
proof -
  note ok = hostap_reach_ok [OF assms(1)]
  have n: "length n < IFNAMSIZ + 1" using mgr_okE(5) [OF ok] assms(2) by blast
  let ?m1 = "m\<lparr>im_delayed := remove1 n (im_delayed m)\<rparr>"
  have "\<forall>d \<in> set (remove1 n (im_delayed m)). length d < IFNAMSIZ + 1" using mgr_okE(5) [OF ok] set_remove1_subset by fast
  then have c: "cancel_detach n ?m1 = ?m1\<lparr>im_delayed := filter (\<lambda>d. d \<noteq> n) (remove1 n (im_delayed m))\<rparr>"
    using cancel_detach_eq [of ?m1 n] n by simp
  show ?thesis
  proof (cases "find_iface n (im_ifaces m)")
    case None
    then have "\<not> (\<exists>a \<in> set (im_ifaces m). ai_ifname a = n \<and> \<not> ai_keep a \<and> ai_clients a = [])"
      using find_iface_None [OF ok n] by blast
    with None n show ?thesis by (simp add: iface_detach_work_def Let_def c)
  next
    case (Some a)
    note a = find_iface_Some [OF ok n Some]
    have only: "b = a" if "b \<in> set (im_ifaces m)" "ai_ifname b = n" for b
      using find_iface_In [OF ok that(1)] that(2) Some by simp
    have "(\<exists>b \<in> set (im_ifaces m). ai_ifname b = n \<and> \<not> ai_keep b \<and> ai_clients b = []) \<longleftrightarrow> idle a"
      unfolding idle_def using only a by metis
    moreover have "remove_iface n (im_ifaces m) = filter (\<lambda>a. ai_ifname a \<noteq> n) (im_ifaces m)"
      by (rule remove_iface_eq [OF mgr_okE(2) [OF ok] n mgr_okE(1) [OF ok]])
    ultimately show ?thesis using Some n by (auto simp: iface_detach_work_def Let_def c)
  qed
qed

theorem delayed_detach_removes_idle_witness:
  "im_ifaces (fst (snd (mgr_step ex_apis (DelayedDetach (cbytes ''wlan0'') True) (ex_manager [] [cbytes ''wlan0''])))) = []"
  using delayed_detach_removes_idle [OF ex_left _ ex_apis_hostap, of "cbytes ''wlan0''"]
  by (auto simp: ex_manager_def Let_def split: prod.splits)

text \<open>
  When the registration of an attach request fails, for want of memory or because an entry
  is too long, the station is told that the request failed and yet stays a client of the
  interface, which is therefore not detached.
\<close>

theorem failed_attach_keeps_client:
  assumes "mgr_ok ok m" "\<not> cmd_too_short (cw_cmd cw)" "find_iface (cmd_ifname (cw_cmd cw)) (im_ifaces m) = Some a"
    "fst (api_attach apis (cmd_ifname (cw_cmd cw)) (ai_state a)) = 0" "snd (cmd_request (cw_cmd cw)) \<noteq> 0"
    "fst (api_register apis (cw_ipsta cw) (fst (cmd_request (cw_cmd cw))) (snd (cmd_request (cw_cmd cw))) (ai_events a)) \<noteq> 0"
  shows "\<exists>m'. iface_attach_work apis mem_ok resp_ok cw m = (1, m', [ReqFailed (cw_ipsta cw) (cw_seq_num cw)]) \<and>
    (\<exists>a' \<in> set (im_ifaces m'). ai_ifname a' = cmd_ifname (cw_cmd cw) \<and> cw_ipsta cw \<in> set (ai_clients a'))"
proof -
  let ?n = "cmd_ifname (cw_cmd cw)" and ?s = "cw_ipsta cw"
  have n: "length ?n < IFNAMSIZ + 1" by (rule cmd_ifname_length)
  note a = find_iface_Some [OF assms(1) n assms(3)]
  obtain st where st: "api_attach apis ?n (ai_state a) = (0, st)" using assms(4) by (metis prod.collapse)
  obtain r es where es: "api_register apis ?s (fst (cmd_request (cw_cmd cw))) (snd (cmd_request (cw_cmd cw))) (ai_events a) = (r, es)"
    "r \<noteq> 0" using assms(6) by (metis prod.collapse)
  have upd: "find_iface ?n (update_iface ?n f ifs) = map_option f (find_iface ?n ifs)"
    if "\<And>b. ai_ifname (f b) = ai_ifname b" for f and ifs :: "'a attached_interface list"
    using that by (induction ifs) (auto simp: find_iface_def)
  define join where "join = (\<lambda>b :: 'a attached_interface. b\<lparr>ai_clients := remove1 ?s (ai_clients b) @ [?s]\<rparr>)"
  define a1 where "a1 = (join (a\<lparr>ai_state := st\<rparr>))\<lparr>ai_events := es\<rparr>"
  define ifs where "ifs = update_iface ?n (\<lambda>b. b\<lparr>ai_events := es\<rparr>) (update_iface ?n join
      (update_iface ?n (\<lambda>b. b\<lparr>ai_state := st\<rparr>) (im_ifaces m)))"
  have "find_iface ?n ifs = Some a1"
    unfolding ifs_def a1_def using assms(3) by (simp add: upd join_def)
  then have "a1 \<in> set ifs" by (auto simp: find_iface_def find_Some_iff)
  moreover have "iface_attach_work apis mem_ok resp_ok cw m =
      (1, m\<lparr>im_ifaces := ifs\<rparr>, [ReqFailed ?s (cw_seq_num cw)])"
    using assms(2,3,5) st es by (simp add: iface_attach_work_def attach_client_def Let_def upd ifs_def join_def)
  moreover have "ai_ifname a1 = ?n" "?s \<in> set (ai_clients a1)" using a(2) by (simp_all add: join_def a1_def)
  ultimately show ?thesis by auto
qed

definition ex_bad_attach :: cmd_work where
  "ex_bad_attach = \<lparr>cw_cmd = ex_cmd (cbytes ''wlan0'' @ replicate 12 0 @ [64]), cw_seq_num = 1, cw_ipsta = 8\<rparr>"

theorem failed_attach_keeps_client_witness:
  "\<exists>m'. iface_attach_work ex_apis True True ex_bad_attach (ex_manager [7] []) = (1, m', [ReqFailed 8 1]) \<and>
     (\<exists>a' \<in> set (im_ifaces m'). ai_ifname a' = cmd_ifname (cw_cmd ex_bad_attach) \<and> 8 \<in> set (ai_clients a'))"
proof -
  let ?a = "\<lparr>ai_ifname = cbytes ''wlan0'', ai_state = INTERFACE_DWPAL_STATE_CONNECTED, ai_events = [] :: hostap_event list,
      ai_clients = [7], ai_keep = False\<rparr>"
  have short: "\<not> cmd_too_short (cw_cmd ex_bad_attach)" by code_simp
  have found: "find_iface (cmd_ifname (cw_cmd ex_bad_attach)) (im_ifaces (ex_manager [7] [])) = Some ?a" by code_simp
  have att: "fst (api_attach ex_apis (cmd_ifname (cw_cmd ex_bad_attach)) (ai_state ?a)) = 0" by code_simp
  have len: "snd (cmd_request (cw_cmd ex_bad_attach)) \<noteq> 0" by code_simp
  have fails: "fst (api_register ex_apis (cw_ipsta ex_bad_attach) (fst (cmd_request (cw_cmd ex_bad_attach)))
      (snd (cmd_request (cw_cmd ex_bad_attach))) (ai_events ?a)) \<noteq> 0" by code_simp
  have "cw_ipsta ex_bad_attach = 8" "cw_seq_num ex_bad_attach = 1" by (simp_all add: ex_bad_attach_def)
  with failed_attach_keeps_client [OF hostap_reach_ok [OF ex_attached] short found att len fails, of True True]
  show ?thesis by metis
qed

end
