(* ===== verification/Dwpal_Daemon.thy ===== *)
theory Dwpal_Daemon
  imports Iface_Manager
begin

text \<open>
  The daemon of daemon/dwpal_daemon.c: its station database, the callbacks that the IPC server
  calls for a client that comes, sends a command or goes, the dispatch of the commands to the
  two interface managers, its start and its end.  A manager comes with the works that its
  serializer has not run yet, in their order.
\<close>

section \<open>Data\<close>

record ('e, 'i) running_manager =
  rm_state :: "'e iface_manager"
  rm_works :: "'i mgr_work list"

text \<open>
  \<open>dd_refs\<close> counts the references to a station that the callbacks and the works hold, as
  \<open>wave_ipcs_sta_incref\<close> and \<open>wave_ipcs_sta_decref\<close> change them.
\<close>

record dwpal_daemon =
  dd_sta_list :: "nat list"
  dd_hap_man :: "(hostap_event, hostap_extra_info) running_manager option"
  dd_nl_man :: "(drv_event, u32) running_manager option"
  dd_terminate :: bool
  dd_term_from_signum :: int
  dd_refs :: "nat \<Rightarrow> int"

definition add_refs :: "nat \<Rightarrow> int \<Rightarrow> dwpal_daemon \<Rightarrow> dwpal_daemon" where
  "add_refs s k d = d\<lparr>dd_refs := (dd_refs d)(s := dd_refs d s + k)\<rparr>"

definition submit_work :: "'i mgr_work option \<Rightarrow> ('e, 'i) running_manager option \<Rightarrow> ('e, 'i) running_manager option" where
  "submit_work wp rp =
     map_option (\<lambda>rm. rm\<lparr>rm_works := rm_works rm @ (case wp of None \<Rightarrow> [] | Some w \<Rightarrow> [w])\<rparr>) rp"

section \<open>The callbacks of the server\<close>

fun dwpald_request_name :: "u8 \<Rightarrow> string" where
  "dwpald_request_name req =
     (if req = DWPALD_CMD then ''DWPALD_CMD''
      else if req = DWPALD_ATTACH_REQ then ''DWPALD_ATTACH_REQ''
      else if req = DWPALD_DETACH_REQ then ''DWPALD_DETACH_REQ''
      else if req = DWPALD_UPDATE_EVENT_REQ then ''DWPALD_UPDATE_EVENT_REQ''
      else ''(unknown)'')"

text \<open>\<open>mem_ok\<close> and \<open>exec_ok\<close> answer the allocation of the work and its submission.\<close>

definition dwpald_cmd_async ::
  "bool \<Rightarrow> bool \<Rightarrow> nat \<Rightarrow> u8 \<Rightarrow> wv_ipc_msg \<Rightarrow> dwpal_daemon \<Rightarrow> (rc \<times> msg_fate \<times> dwpal_daemon) option" where
  "dwpald_cmd_async mem_ok exec_ok sta sq cmd d =
     do { (r, hdr, mp) \<leftarrow> dwpald_header_peek (Some cmd) \<lparr>h_magic = 0, h_bytes = [0, 0, 0, 0, 0, 0]\<rparr>;
          cmd1 \<leftarrow> mp;
          let h = h_bytes hdr;
          if r \<noteq> 0 then Some (1, GivenBack, d)
          else if h ! 0 \<in> {DWPALD_CMD, DWPALD_ATTACH_REQ, DWPALD_DETACH_REQ, DWPALD_UPDATE_EVENT_REQ}
          then if h ! 1 = DWPALD_IF_TYPE_HOSTAP
               then do { (res, wp, fate, k) \<leftarrow>
                           iface_manager_sta_cmd_async (dd_hap_man d \<noteq> None) mem_ok exec_ok (Some sta) sq (Some cmd1);
                         Some (res, fate, add_refs sta k (d\<lparr>dd_hap_man := submit_work wp (dd_hap_man d)\<rparr>)) }
               else if h ! 1 = DWPALD_IF_TYPE_KERNEL
               then do { (res, wp, fate, k) \<leftarrow>
                           iface_manager_sta_cmd_async (dd_nl_man d \<noteq> None) mem_ok exec_ok (Some sta) sq (Some cmd1);
                         Some (res, fate, add_refs sta k (d\<lparr>dd_nl_man := submit_work wp (dd_nl_man d)\<rparr>)) }
               else Some (1, GivenBack, d)
          else Some (1, GivenBack, d) }"

definition dwpald_stop_cond :: "dwpal_daemon \<Rightarrow> bool" where
  "dwpald_stop_cond d = dd_terminate d"

definition dwpald_adding_client :: "bool \<Rightarrow> nat \<Rightarrow> dwpal_daemon \<Rightarrow> rc \<times> dwpal_daemon" where
  "dwpald_adding_client mem_ok sta d =
     (if \<not> mem_ok then (1, d) else (0, add_refs sta 1 (d\<lparr>dd_sta_list := sta # dd_sta_list d\<rparr>)))"

text \<open>
  A manager that could not be created is a null pointer, which \<open>iface_manager_sta_disconnected\<close>
  dereferences: the result is None then.
\<close>

definition dwpald_removing_client :: "bool \<Rightarrow> bool \<Rightarrow> nat \<Rightarrow> dwpal_daemon \<Rightarrow> (rc \<times> dwpal_daemon) option" where
  "dwpald_removing_client hap_ok nl_ok sta d =
     (if sta \<notin> set (dd_sta_list d) then Some (1, d)
      else case (dd_hap_man d, dd_nl_man d, iface_manager_sta_disconnected hap_ok sta, iface_manager_sta_disconnected nl_ok sta) of
        (Some _, Some _, (_, w1, k1), (_, w2, k2)) \<Rightarrow>
          Some (0, add_refs sta (k1 + k2 - 1)
            (d\<lparr>dd_sta_list := remove1 sta (dd_sta_list d), dd_hap_man := submit_work w1 (dd_hap_man d),
               dd_nl_man := submit_work w2 (dd_nl_man d)\<rparr>))
      | _ \<Rightarrow> None)"

definition termination_handler :: "int \<Rightarrow> dwpal_daemon \<Rightarrow> dwpal_daemon" where
  "termination_handler signum d = d\<lparr>dd_terminate := True, dd_term_from_signum := signum\<rparr>"

section \<open>Start and end\<close>

text \<open>What \<open>run_dwpald_daemon\<close> does, given the answers of what it calls.\<close>

datatype daemon_call = CreateServer | InitHapMan "cstr list" | InitNlMan | RunServer | DeleteServer
  | DeinitHapMan | DeinitNlMan | FreeStaList

definition run_dwpald_daemon ::
  "bool \<Rightarrow> bool \<Rightarrow> bool \<Rightarrow> bool \<Rightarrow> bool \<Rightarrow> bool \<Rightarrow> cstr list \<Rightarrow> rc \<times> daemon_call list" where
  "run_dwpald_daemon signals_ok list_ok create_ok hap_ok nl_ok run_ok ifs =
     (let final = (if list_ok then [FreeStaList] else [])
      in if \<not> signals_ok then (1, [])
         else if \<not> create_ok then (1, [CreateServer] @ final)
         else (if run_ok then 0 else 1,
               [CreateServer, InitHapMan ifs, InitNlMan, RunServer, DeleteServer] @
               (if hap_ok then [DeinitHapMan] else []) @ (if nl_ok then [DeinitNlMan] else []) @ final))"

text \<open>
  The options as \<open>getopt\<close> gives them, each with its argument and the answer of \<open>malloc\<close>.  The
  result is None when the program ends at once.
\<close>

record main_options =
  mo_ifaces :: "cstr list"
  mo_daemonize :: bool
  mo_open_syslog :: bool
  mo_debug :: bool

fun parse_options :: "(char \<times> cstr \<times> bool) list \<Rightarrow> main_options \<Rightarrow> main_options option" where
  "parse_options [] mo = Some mo"
| "parse_options ((c, arg, mem_ok) # os) mo =
     (if c = CHR ''i''
      then if mem_ok then parse_options os (mo\<lparr>mo_ifaces := mo_ifaces mo @ [strncpy_s (IFNAMSIZ + 1) arg IFNAMSIZ]\<rparr>) else None
      else if c = CHR ''B'' then parse_options os (mo\<lparr>mo_daemonize := True\<rparr>)
      else if c = CHR ''s'' then parse_options os (mo\<lparr>mo_open_syslog := True\<rparr>)
      else if c = CHR ''d'' then parse_options os (mo\<lparr>mo_debug := True\<rparr>)
      else None)"

definition daemon_main :: "(char \<times> cstr \<times> bool) list \<Rightarrow> bool \<Rightarrow> (cstr list \<Rightarrow> rc \<times> daemon_call list) \<Rightarrow> rc \<times> daemon_call list" where
  "daemon_main opts syslog_ok run =
     (case parse_options opts \<lparr>mo_ifaces = [], mo_daemonize = False, mo_open_syslog = False, mo_debug = False\<rparr> of
        None \<Rightarrow> (1, [])
      | Some mo \<Rightarrow> if mo_open_syslog mo \<and> \<not> syslog_ok then (1, []) else run (mo_ifaces mo))"

section \<open>The daemon at work\<close>

text \<open>The station whose reference a work holds, which its clean-up function gives back.\<close>

fun work_sta :: "'i mgr_work \<Rightarrow> nat option" where
  "work_sta (CmdWork cw) = Some (cw_ipsta cw)"
| "work_sta (EventWork ew) = None"
| "work_sta (AttachWork cw) = Some (cw_ipsta cw)"
| "work_sta (DetachWork dw) = dw_ipsta dw"
| "work_sta (DisconnWork s) = Some s"
| "work_sta (UpdateEventWork cw) = Some (cw_ipsta cw)"

definition clean_work :: "'i mgr_work \<Rightarrow> dwpal_daemon \<Rightarrow> dwpal_daemon" where
  "clean_work w d = (case work_sta w of None \<Rightarrow> d | Some s \<Rightarrow> add_refs s (-1) d)"

text \<open>
  What happens in the daemon: the server calls back, hostapd or the kernel reports an event, a
  serializer runs its next work or a delayed detach, or a signal arrives.  A manager's functions
  come with the answers of the library and the allocator.
\<close>

datatype daemon_act =
    AddClient nat bool
  | RemoveClient nat
  | ClientCmd nat u8 wv_ipc_msg bool bool
  | HostapEvent wv_ipc_msg cstr hostap_extra_info bool bool
  | KernelEvent wv_ipc_msg "u32 option" bool bool
  | RunHostap "(hostap_event, hostap_extra_info) manager_apis" bool bool
  | RunKernel "(drv_event, u32) manager_apis" bool bool
  | HostapTimer "(hostap_event, hostap_extra_info) manager_apis" cstr
  | KernelTimer "(drv_event, u32) manager_apis" cstr
  | Signal int

definition run_next ::
  "('e, 'i) manager_apis \<Rightarrow> bool \<Rightarrow> bool \<Rightarrow> ('e, 'i) running_manager \<Rightarrow> ('i mgr_work \<times> ('e, 'i) running_manager) option" where
  "run_next apis mem_ok resp_ok rm =
     (case rm_works rm of
        [] \<Rightarrow> None
      | w # ws \<Rightarrow> Some (w, \<lparr>rm_state = fst (snd (mgr_step apis (RunWork w mem_ok resp_ok) (rm_state rm))), rm_works = ws\<rparr>))"

definition run_timer :: "('e, 'i) manager_apis \<Rightarrow> cstr \<Rightarrow> ('e, 'i) running_manager \<Rightarrow> ('e, 'i) running_manager" where
  "run_timer apis n rm = rm\<lparr>rm_state := fst (snd (mgr_step apis (DelayedDetach n True) (rm_state rm)))\<rparr>"

fun daemon_step :: "daemon_act \<Rightarrow> dwpal_daemon \<Rightarrow> dwpal_daemon option" where
  "daemon_step (AddClient s mem_ok) d = Some (snd (dwpald_adding_client mem_ok s d))"
| "daemon_step (RemoveClient s) d = map_option snd (dwpald_removing_client True True s d)"
| "daemon_step (ClientCmd s sq cmd mem_ok exec_ok) d = map_option (snd \<circ> snd) (dwpald_cmd_async mem_ok exec_ok s sq cmd d)"
| "daemon_step (HostapEvent event name info mem_ok exec_ok) d =
     (case iface_manager_event_received mem_ok exec_ok event name (IFNAMSIZ + 1) (Some info) of
        (_, wp, _, _) \<Rightarrow> Some (d\<lparr>dd_hap_man := submit_work wp (dd_hap_man d)\<rparr>))"
| "daemon_step (KernelEvent event info mem_ok exec_ok) d =
     (case iface_manager_event_received mem_ok exec_ok event (cbytes ''nl_drv'') 7 info of
        (_, wp, _, _) \<Rightarrow> Some (d\<lparr>dd_nl_man := submit_work wp (dd_nl_man d)\<rparr>))"
| "daemon_step (RunHostap apis mem_ok resp_ok) d =
     do { rm \<leftarrow> dd_hap_man d; (w, rm1) \<leftarrow> run_next apis mem_ok resp_ok rm; Some (clean_work w (d\<lparr>dd_hap_man := Some rm1\<rparr>)) }"
| "daemon_step (RunKernel apis mem_ok resp_ok) d =
     do { rm \<leftarrow> dd_nl_man d; (w, rm1) \<leftarrow> run_next apis mem_ok resp_ok rm; Some (clean_work w (d\<lparr>dd_nl_man := Some rm1\<rparr>)) }"
| "daemon_step (HostapTimer apis n) d = Some (d\<lparr>dd_hap_man := map_option (run_timer apis n) (dd_hap_man d)\<rparr>)"
| "daemon_step (KernelTimer apis n) d = Some (d\<lparr>dd_nl_man := map_option (run_timer apis n) (dd_nl_man d)\<rparr>)"
| "daemon_step (Signal n) d = Some (termination_handler n d)"

text \<open>
  When an action can happen.  The server adds a station whose memory nobody refers to and takes
  commands from the stations it has added.  A disconnection gets the memory for what it
  schedules, and the delay of a detach that runs is over.
\<close>

definition next_gets_memory :: "('e, 'i) running_manager option \<Rightarrow> bool \<Rightarrow> bool" where
  "next_gets_memory rp mem_ok \<longleftrightarrow>
     (case rp of
        None \<Rightarrow> True
      | Some rm \<Rightarrow> (case rm_works rm of [] \<Rightarrow> True | w # _ \<Rightarrow> (\<exists>s. w = DisconnWork s) \<longrightarrow> mem_ok))"

definition is_scheduled :: "cstr \<Rightarrow> ('e, 'i) running_manager option \<Rightarrow> bool" where
  "is_scheduled n rp \<longleftrightarrow> (case rp of None \<Rightarrow> False | Some rm \<Rightarrow> n \<in> set (im_delayed (rm_state rm)))"

fun daemon_act_ok :: "daemon_act \<Rightarrow> dwpal_daemon \<Rightarrow> bool" where
  "daemon_act_ok (AddClient s mem_ok) d = (dd_refs d s = 0)"
| "daemon_act_ok (ClientCmd s sq cmd mem_ok exec_ok) d = (s \<in> set (dd_sta_list d))"
| "daemon_act_ok (RunHostap apis mem_ok resp_ok) d = (apis \<in> hostap_tables \<and> next_gets_memory (dd_hap_man d) mem_ok)"
| "daemon_act_ok (RunKernel apis mem_ok resp_ok) d = (apis \<in> nl_tables \<and> next_gets_memory (dd_nl_man d) mem_ok)"
| "daemon_act_ok (HostapTimer apis n) d = (apis \<in> hostap_tables \<and> is_scheduled n (dd_hap_man d))"
| "daemon_act_ok (KernelTimer apis n) d = (apis \<in> nl_tables \<and> is_scheduled n (dd_nl_man d))"
| "daemon_act_ok act d = True"

text \<open>The state in which the server starts to run, with the managers that could be created.\<close>

definition created :: "('e, 'i) manager_apis set \<Rightarrow> cstr list option \<Rightarrow> ('e, 'i) running_manager option \<Rightarrow> bool" where
  "created tables seeds rp \<longleftrightarrow>
     (case rp of
        None \<Rightarrow> True
      | Some rm \<Rightarrow> rm_works rm = [] \<and> (\<exists>apis \<in> tables. \<exists>mem_ok serializer_ok iftype calls.
          iface_manager_init apis mem_ok serializer_ok seeds iftype = (Some (rm_state rm), calls)))"

inductive daemon_reach :: "dwpal_daemon \<Rightarrow> bool" where
  start: "distinct (map (take IFNAMSIZ) ifs) \<Longrightarrow> created hostap_tables (Some ifs) hap \<Longrightarrow> created nl_tables None nl \<Longrightarrow>
    daemon_reach \<lparr>dd_sta_list = [], dd_hap_man = hap, dd_nl_man = nl, dd_terminate = False, dd_term_from_signum = 0,
      dd_refs = (\<lambda>_. 0)\<rparr>"
| step: "daemon_reach d \<Longrightarrow> daemon_act_ok act d \<Longrightarrow> daemon_step act d = Some d' \<Longrightarrow> daemon_reach d'"

section \<open>What refers to a station\<close>

text \<open>
  A manager refers to a station by a bare pointer: as a client of an interface or as the
  subscriber of an event.
\<close>

definition iface_refers :: "('k \<Rightarrow> 'e list \<Rightarrow> nat list) \<Rightarrow> 'k set \<Rightarrow> 'e attached_interface \<Rightarrow> nat \<Rightarrow> bool" where
  "iface_refers subs keys a s \<longleftrightarrow> s \<in> set (ai_clients a) \<or> (\<exists>k \<in> keys. s \<in> set (subs k (ai_events a)))"

definition refers :: "('k \<Rightarrow> 'e list \<Rightarrow> nat list) \<Rightarrow> 'k set \<Rightarrow> 'e iface_manager \<Rightarrow> nat \<Rightarrow> bool" where
  "refers subs keys m s \<longleftrightarrow> (\<exists>a \<in> set (im_ifaces m). iface_refers subs keys a s)"

lemma update_iface_set: "set (update_iface n f ifs) \<subseteq> set ifs \<union> f ` set ifs"
  by (induction ifs) auto

lemma remove_iface_set: "set (remove_iface n ifs) \<subseteq> set ifs"
  by (induction ifs) auto

lemma refers_update:
  assumes "refers subs keys (m\<lparr>im_ifaces := update_iface n f (im_ifaces m)\<rparr>) s"
    "\<And>a. a \<in> set (im_ifaces m) \<Longrightarrow> iface_refers subs keys (f a) s \<Longrightarrow> refers subs keys m s \<or> P"
  shows "refers subs keys m s \<or> P"
  using assms update_iface_set [of n f "im_ifaces m"] by (fastforce simp: refers_def)

lemma refersI: "a \<in> set (im_ifaces m) \<Longrightarrow> iface_refers subs keys a s \<Longrightarrow> refers subs keys m s"
  by (auto simp: refers_def)

lemma schedule_ifaces [simp]: "im_ifaces (schedule_detach n m) = im_ifaces m" "im_ifaces (cancel_detach n m) = im_ifaces m"
  by (simp_all add: schedule_detach_def cancel_detach_def)

lemma find_iface_in: "find_iface n ifs = Some a \<Longrightarrow> a \<in> set ifs"
  by (auto simp: find_iface_def find_Some_iff)

context managed_registry begin

lemma register_refers:
  assumes "ok es" "api_register apis s rd len es = (r, es')" "k \<in> keys" "t \<in> set (subs k es')"
  shows "t = s \<or> t \<in> set (subs k es)"
  using register_law [OF assms(1), of s rd len] reg_all_subs [OF _ assms(3,1)] assms(2,4) by auto

lemma attach_client_refers:
  assumes evs: "\<forall>a \<in> set (im_ifaces m). ok (ai_events a)" and t: "refers subs keys (snd (attach_client apis s n req m)) t"
  shows "refers subs keys m t \<or> t = s"
proof -
  let ?join = "\<lambda>a. a\<lparr>ai_clients := remove1 s (ai_clients a) @ [s]\<rparr>"
  let ?m1 = "m\<lparr>im_ifaces := update_iface n ?join (im_ifaces m)\<rparr>"
  have m1: "refers subs keys ?m1 t \<Longrightarrow> refers subs keys m t \<or> t = s"
  proof (erule refers_update)
    fix a
    assume a: "a \<in> set (im_ifaces m)" "iface_refers subs keys (?join a) t"
    then have "iface_refers subs keys a t \<or> t = s" by (auto simp: iface_refers_def dest: notin_set_remove1)
    with a(1) show "refers subs keys m t \<or> t = s" by (blast intro: refersI)
  qed
  have evs1: "\<forall>a \<in> set (im_ifaces ?m1). ok (ai_events a)" using evs update_iface_set [of n ?join "im_ifaces m"] by auto
  show ?thesis
  proof (cases "find_iface n (im_ifaces ?m1) = None \<or> snd req = 0")
    case True
    with t m1 show ?thesis by (auto simp: attach_client_def Let_def split: option.splits)
  next
    case False
    then obtain a where a: "find_iface n (im_ifaces ?m1) = Some a" "snd req \<noteq> 0" by auto
    obtain r es where es: "api_register apis s (fst req) (snd req) (ai_events a) = (r, es)" by (meson surj_pair)
    note a1 = find_iface_in [OF a(1)]
    have "refers subs keys (?m1\<lparr>im_ifaces := update_iface n (\<lambda>a. a\<lparr>ai_events := es\<rparr>) (im_ifaces ?m1)\<rparr>) t"
      using t a es by (simp add: attach_client_def Let_def)
    then have "refers subs keys ?m1 t \<or> t = s"
    proof (rule refers_update)
      fix b
      assume b: "b \<in> set (im_ifaces ?m1)" "iface_refers subs keys (b\<lparr>ai_events := es\<rparr>) t"
      then consider "iface_refers subs keys b t" | k where "k \<in> keys" "t \<in> set (subs k es)" by (auto simp: iface_refers_def)
      then show "refers subs keys ?m1 t \<or> t = s"
      proof cases
        case 1
        with b(1) show ?thesis by (blast intro: refersI)
      next
        case (2 k)
        with register_refers [OF _ es 2] evs1 a1 have "t = s \<or> iface_refers subs keys a t" by (auto simp: iface_refers_def)
        with a1 show ?thesis by (blast intro: refersI)
      qed
    qed
    with m1 show ?thesis by blast
  qed
qed

lemma events_ok: "mgr_ok ok m \<Longrightarrow> \<forall>a \<in> set (im_ifaces m). ok (ai_events a)"
  using mgr_okE(3) by (auto simp: iface_ok_def)

lemma state_refers:
  assumes "refers subs keys (m\<lparr>im_ifaces := update_iface n (\<lambda>a. a\<lparr>ai_state := st\<rparr>) (im_ifaces m)\<rparr>) t"
  shows "refers subs keys m t"
proof -
  from assms have "refers subs keys m t \<or> False"
  proof (rule refers_update)
    fix a
    assume a: "a \<in> set (im_ifaces m)" "iface_refers subs keys (a\<lparr>ai_state := st\<rparr>) t"
    then have "iface_refers subs keys a t" by (simp add: iface_refers_def)
    with a(1) show "refers subs keys m t \<or> False" by (blast intro: refersI)
  qed
  then show ?thesis by simp
qed

lemma attach_refers:
  assumes m: "mgr_ok ok m" and t: "refers subs keys (fst (snd (iface_attach_work apis mem_ok resp_ok cw m))) t"
  shows "refers subs keys m t \<or> t = cw_ipsta cw"
proof -
  let ?n = "cmd_ifname (cw_cmd cw)"
  obtain r st where att: "api_attach apis ?n (case find_iface ?n (im_ifaces m) of None \<Rightarrow> 0 | Some a \<Rightarrow> ai_state a) = (r, st)"
    by (meson surj_pair)
  define m1 where "m1 = (case find_iface ?n (im_ifaces m) of
      None \<Rightarrow> m\<lparr>im_ifaces := im_ifaces m @
        [\<lparr>ai_ifname = ?n, ai_state = st, ai_events = [], ai_clients = [], ai_keep = False\<rparr>]\<rparr>
    | Some _ \<Rightarrow> m\<lparr>im_ifaces := update_iface ?n (\<lambda>a. a\<lparr>ai_state := st\<rparr>) (im_ifaces m)\<rparr>)"
  have evs: "\<forall>a \<in> set (im_ifaces m1). ok (ai_events a)"
    using events_ok [OF m] update_iface_set [of ?n "\<lambda>a. a\<lparr>ai_state := st\<rparr>" "im_ifaces m"] empty_law(1)
    by (auto simp: m1_def split: option.split)
  have m1: "refers subs keys m1 t \<Longrightarrow> refers subs keys m t"
  proof (cases "find_iface ?n (im_ifaces m)")
    case None
    then show "refers subs keys m1 t \<Longrightarrow> refers subs keys m t"
      using empty_law(2) by (auto simp: m1_def refers_def iface_refers_def)
  next
    case (Some a)
    then show "refers subs keys m1 t \<Longrightarrow> refers subs keys m t" using state_refers by (simp add: m1_def)
  qed
  have "fst (snd (iface_attach_work apis mem_ok resp_ok cw m)) \<in> {m, snd (attach_client apis (cw_ipsta cw) ?n (cmd_request (cw_cmd cw)) m1)}"
    using att by (simp add: iface_attach_work_def Let_def split: prod.split flip: m1_def)
  with t consider "refers subs keys m t" | "refers subs keys (snd (attach_client apis (cw_ipsta cw) ?n (cmd_request (cw_cmd cw)) m1)) t"
    by auto
  then show ?thesis by cases (use m1 attach_client_refers [OF evs] in blast)+
qed

lemma update_event_refers:
  assumes m: "mgr_ok ok m" and t: "refers subs keys (fst (snd (iface_update_event_work apis resp_ok cw m))) t"
  shows "refers subs keys m t \<or> t = cw_ipsta cw"
proof (cases "find_iface (cmd_ifname (cw_cmd cw)) (im_ifaces m)")
  case None
  then have "fst (snd (iface_update_event_work apis resp_ok cw m)) = m"
    by (simp add: iface_update_event_work_def Let_def split: prod.split)
  with t show ?thesis by simp
next
  case (Some a)
  let ?n = "cmd_ifname (cw_cmd cw)" and ?s = "cw_ipsta cw"
  obtain rd len where req: "cmd_request (cw_cmd cw) = (rd, len)" by (meson surj_pair)
  obtain r es where es: "api_register apis ?s rd len (unreg ?s (ai_events a)) = (r, es)" by (meson surj_pair)
  note a = find_iface_in [OF Some]
  have oka: "ok (ai_events a)" using events_ok [OF m] a by blast
  have "fst (snd (iface_update_event_work apis resp_ok cw m)) \<in>
      {m, m\<lparr>im_ifaces := update_iface ?n (\<lambda>a. a\<lparr>ai_events := es\<rparr>) (im_ifaces m)\<rparr>}"
    using Some req es by (simp add: iface_update_event_work_def unregister_law Let_def)
  moreover have "refers subs keys m t \<or> t = ?s"
    if "refers subs keys (m\<lparr>im_ifaces := update_iface ?n (\<lambda>a. a\<lparr>ai_events := es\<rparr>) (im_ifaces m)\<rparr>) t"
    using that
  proof (rule refers_update)
    fix b
    assume b: "b \<in> set (im_ifaces m)" "iface_refers subs keys (b\<lparr>ai_events := es\<rparr>) t"
    then consider "iface_refers subs keys b t" | k where "k \<in> keys" "t \<in> set (subs k es)" by (auto simp: iface_refers_def)
    then show "refers subs keys m t \<or> t = ?s"
    proof cases
      case 1
      with b(1) show ?thesis by (blast intro: refersI)
    next
      case (2 k)
      with register_refers [OF unreg_ok [OF oka] es 2] unreg_subs [OF 2(1) oka] have "t = ?s \<or> iface_refers subs keys a t"
        by (auto simp: iface_refers_def)
      with a show ?thesis by (blast intro: refersI)
    qed
  qed
  ultimately show ?thesis using t by auto
qed

lemma leave_refers:
  assumes "ok (ai_events a)" "distinct (ai_clients a)"
  shows "iface_refers subs keys (leave s a) t \<longleftrightarrow> t \<noteq> s \<and> iface_refers subs keys a t"
  using unreg_subs [OF _ assms(1)] assms(2) by (auto simp: iface_refers_def)

lemma detach_refers:
  assumes m: "mgr_ok ok m" and t: "refers subs keys (fst (snd (fst (iface_detach_work apis mem_ok resp_ok dw m)))) t"
  shows "refers subs keys m t"
proof (cases "mem_ok \<and> find_iface (dw_ifname dw) (im_ifaces m) \<noteq> None")
  case False
  then have "im_ifaces (fst (snd (fst (iface_detach_work apis mem_ok resp_ok dw m)))) = im_ifaces m"
    by (auto simp: iface_detach_work_def Let_def)
  with t show ?thesis by (simp add: refers_def)
next
  case True
  then obtain a where a: "find_iface (dw_ifname dw) (im_ifaces m) = Some a" by auto
  note ain = find_iface_in [OF a]
  show ?thesis
  proof (cases "dw_ipsta dw")
    case None
    then have "set (im_ifaces (fst (snd (fst (iface_detach_work apis mem_ok resp_ok dw m))))) \<subseteq> set (im_ifaces m)"
      using a True remove_iface_set [of "dw_ifname dw" "im_ifaces m"] by (simp add: iface_detach_work_def Let_def)
    with t show ?thesis by (auto simp: refers_def)
  next
    case (Some s)
    have "im_ifaces (fst (snd (fst (iface_detach_work apis mem_ok resp_ok dw m)))) =
        update_iface (dw_ifname dw) (\<lambda>_. leave s a) (im_ifaces m)"
      using a True Some by (simp add: iface_detach_work_def Let_def unregister_law leave_def)
    with t have "refers subs keys (m\<lparr>im_ifaces := update_iface (dw_ifname dw) (\<lambda>_. leave s a) (im_ifaces m)\<rparr>) t"
      by (simp add: refers_def)
    then have "refers subs keys m t \<or> False"
    proof (rule refers_update)
      fix b
      assume "iface_refers subs keys (leave s a) t"
      with leave_refers mgr_okE(3) [OF m ain] have "iface_refers subs keys a t" by (auto simp: iface_ok_def)
      with ain show "refers subs keys m t \<or> False" by (blast intro: refersI)
    qed
    then show ?thesis by simp
  qed
qed

lemma disconnect_refers:
  assumes m: "mgr_ok ok m"
  shows "refers subs keys (fst (snd (sta_disconnect_work apis (\<lambda>_. True) (Some s) m))) t \<longleftrightarrow> t \<noteq> s \<and> refers subs keys m t"
proof -
  obtain ds where "sta_disconnect_work apis (\<lambda>_. True) (Some s) m =
      (0, m\<lparr>im_delayed := ds, im_ifaces := map (leave s) (im_ifaces m)\<rparr>, [])" using disconnect_eq [OF m] by blast
  moreover have "iface_refers subs keys (leave s a) t \<longleftrightarrow> t \<noteq> s \<and> iface_refers subs keys a t" if "a \<in> set (im_ifaces m)" for a
    using mgr_okE(3) [OF m that] by (intro leave_refers) (auto simp: iface_ok_def)
  ultimately show ?thesis by (auto simp: refers_def)
qed

lemma event_refers: "refers subs keys (fst (snd (send_event_work apis ew m))) t \<Longrightarrow> refers subs keys m t"
  by (auto simp: send_event_work_def send_event_to_sta_list_def Let_def dest: state_refers split: option.splits prod.splits)

lemma delayed_refers:
  assumes m: "mgr_ok ok m" and t: "refers subs keys (fst (snd (mgr_step apis (DelayedDetach n mem_ok) m))) t"
  shows "refers subs keys m t"
proof -
  have "set (im_ifaces (fst (snd (mgr_step apis (DelayedDetach n mem_ok) m)))) \<subseteq> set (im_ifaces m)"
    using remove_iface_set [of n "im_ifaces m"] by (simp add: iface_detach_work_def Let_def split: option.split)
  with t show ?thesis by (auto simp: refers_def)
qed

text \<open>
  A work makes the manager refer to no station but its own, and a disconnection ends every
  reference to the station.
\<close>

lemma work_refers:
  assumes m: "mgr_ok ok m" and act: "act_ok (RunWork w mem_ok resp_ok) m"
    and t: "refers subs keys (fst (snd (mgr_step apis (RunWork w mem_ok resp_ok) m))) t"
  shows "w \<noteq> DisconnWork t" "refers subs keys m t \<or> work_sta w = Some t"
proof -
  have both: "w \<noteq> DisconnWork t \<and> (refers subs keys m t \<or> work_sta w = Some t)"
  proof (cases w)
    case (CmdWork cw)
    with t show ?thesis by (simp add: execute_cmd_work_def split: if_splits)
  next
    case (EventWork ew)
    with t event_refers show ?thesis by simp
  next
    case (AttachWork cw)
    with t attach_refers [OF m] show ?thesis by fastforce
  next
    case (DetachWork dw)
    with t detach_refers [OF m] show ?thesis by simp
  next
    case (DisconnWork s)
    with t act disconnect_refers [OF m] show ?thesis by simp
  next
    case (UpdateEventWork cw)
    with t update_event_refers [OF m] show ?thesis by fastforce
  qed
  then show "w \<noteq> DisconnWork t" "refers subs keys m t \<or> work_sta w = Some t" by blast+
qed

end

section \<open>A manager and its works\<close>

text \<open>
  The works of a manager are in order: a work holds a station that is connected or whose
  disconnection comes later, and behind a disconnection nothing of the station follows.
\<close>

fun orderly :: "nat set \<Rightarrow> 'i mgr_work list \<Rightarrow> bool" where
  "orderly stas [] \<longleftrightarrow> True"
| "orderly stas (w # ws) \<longleftrightarrow> orderly stas ws \<and>
     (case work_sta w of
        None \<Rightarrow> True
      | Some s \<Rightarrow> (case w of
          DisconnWork _ \<Rightarrow> s \<notin> stas \<and> (\<forall>v \<in> set ws. work_sta v \<noteq> Some s)
        | _ \<Rightarrow> s \<in> stas \<or> DisconnWork s \<in> set ws))"

definition man_inv :: "('k \<Rightarrow> 'e list \<Rightarrow> nat list) \<Rightarrow> 'k set \<Rightarrow> ('e list \<Rightarrow> bool) \<Rightarrow> nat set \<Rightarrow> ('e, 'i) running_manager \<Rightarrow> bool" where
  "man_inv subs keys ok stas rm \<longleftrightarrow> mgr_ok ok (rm_state rm) \<and> (\<forall>w \<in> set (rm_works rm). work_ok w) \<and>
     orderly stas (rm_works rm) \<and>
     (\<forall>s. refers subs keys (rm_state rm) s \<longrightarrow> s \<in> stas \<or> DisconnWork s \<in> set (rm_works rm))"

definition works_of :: "nat \<Rightarrow> 'i mgr_work list \<Rightarrow> nat" where
  "works_of s ws = length (filter (\<lambda>w. work_sta w = Some s) ws)"

lemma works_of_simps [simp]:
  "works_of s [] = 0" "works_of s (w # ws) = (if work_sta w = Some s then 1 else 0) + works_of s ws"
  "works_of s (vs @ ws) = works_of s vs + works_of s ws"
  by (simp_all add: works_of_def)

lemma works_of_none: "works_of s ws = 0 \<longleftrightarrow> (\<forall>w \<in> set ws. work_sta w \<noteq> Some s)"
  by (auto simp: works_of_def filter_empty_conv)

lemma disconn_works: "works_of s ws = 0 \<Longrightarrow> DisconnWork s \<notin> set ws"
  by (auto simp: works_of_none)

lemma orderly_connected: "orderly stas ws \<Longrightarrow> s \<in> stas \<Longrightarrow> DisconnWork s \<notin> set ws"
  by (induction ws) (auto split: option.splits)

lemma orderly_snoc:
  assumes "orderly stas ws" "\<forall>s. work_sta w = Some s \<longrightarrow> s \<in> stas" "\<forall>s. w \<noteq> DisconnWork s"
  shows "orderly stas (ws @ [w])"
  using assms(1)
proof (induction ws)
  case Nil
  with assms show ?case by (auto split: option.split mgr_work.split)
next
  case (Cons v ws)
  with assms(2) show ?case by (cases v) (auto split: option.splits)
qed

lemma orderly_remove:
  assumes "orderly stas ws" "s \<in> stas"
  shows "orderly (stas - {s}) (ws @ [DisconnWork s])"
  using assms
proof (induction ws)
  case (Cons v ws)
  then show ?case by (cases v) (auto split: option.splits)
qed simp

lemma orderly_add: "orderly stas ws \<Longrightarrow> works_of s ws = 0 \<Longrightarrow> orderly (insert s stas) ws"
proof (induction ws)
  case (Cons v ws)
  then show ?case by (cases v) (auto split: option.splits if_splits)
qed simp

lemma man_submit:
  assumes "man_inv subs keys ok stas rm" "\<forall>w. wp = Some w \<longrightarrow> work_ok w \<and> (\<forall>s. work_sta w = Some s \<longrightarrow> s \<in> stas) \<and> (\<forall>s. w \<noteq> DisconnWork s)"
  shows "man_inv subs keys ok stas (rm\<lparr>rm_works := rm_works rm @ (case wp of None \<Rightarrow> [] | Some w \<Rightarrow> [w])\<rparr>)"
  using assms orderly_snoc [of stas "rm_works rm"] by (cases wp) (auto simp: man_inv_def)

lemma man_remove:
  assumes "man_inv subs keys ok stas rm" "s \<in> stas"
  shows "man_inv subs keys ok (stas - {s}) (rm\<lparr>rm_works := rm_works rm @ [DisconnWork s]\<rparr>)"
  using assms orderly_remove by (auto simp: man_inv_def)

lemma man_add:
  assumes "man_inv subs keys ok stas rm" "works_of s (rm_works rm) = 0"
  shows "man_inv subs keys ok (insert s stas) rm"
  using assms orderly_add by (auto simp: man_inv_def)

lemma init_refers:
  fixes apis :: "('b, 'i) manager_apis"
  assumes "iface_manager_init apis mem_ok serializer_ok seeds iftype = (Some m, calls)" "\<forall>k \<in> keys. subs k [] = []"
  shows "\<not> refers subs keys m s"
proof -
  define ifs where "ifs = map (\<lambda>n. \<lparr>ai_ifname = strncpy_s (IFNAMSIZ + 1) n IFNAMSIZ, ai_state = INTERFACE_DWPAL_STATE_UNKNOWN,
       ai_events = [] :: 'b list, ai_clients = [], ai_keep = True\<rparr>) (case seeds of None \<Rightarrow> [] | Some ns \<Rightarrow> ns)"
  have ifs: "im_ifaces m = snd (attach_seeds apis ifs)"
    using assms(1) unfolding ifs_def by (auto simp: iface_manager_init_def Let_def split: if_splits prod.splits)
  moreover have "\<forall>b \<in> set ifs. ai_events b = [] \<and> ai_clients b = []" by (auto simp: ifs_def)
  ultimately have ifs: "im_ifaces m = snd (attach_seeds apis ifs)" "\<forall>b \<in> set ifs. ai_events b = [] \<and> ai_clients b = []" by blast+
  have "ai_events a = [] \<and> ai_clients a = []" if "a \<in> set (im_ifaces m)" for a
    using seeds_attached [of a apis ifs] ifs that by fastforce
  with assms(2) show ?thesis by (auto simp: refers_def iface_refers_def)
qed

lemma man_created:
  fixes tables :: "('e, 'i) manager_apis set"
  assumes "created tables seeds (Some rm)" "ok []" "\<forall>k \<in> keys. subs k [] = []"
    "distinct (map (take IFNAMSIZ) (case seeds of None \<Rightarrow> [] | Some ns \<Rightarrow> ns))"
  shows "man_inv subs keys ok {} rm \<and> rm_works rm = []"
proof -
  obtain mem_ok serializer_ok iftype calls and apis :: "('e, 'i) manager_apis" where
    m: "rm_works rm = []" "iface_manager_init apis mem_ok serializer_ok seeds iftype = (Some (rm_state rm), calls)"
    using assms(1) by (auto simp: created_def)
  have "mgr_ok ok (rm_state rm)" using init_ok [of ok, OF assms(2) assms(4) m(2)] .
  with m(1) init_refers [where subs = subs and keys = keys, OF m(2) assms(3)] show ?thesis by (simp add: man_inv_def)
qed

context managed_registry begin

lemma man_run:
  assumes rm: "man_inv subs keys ok stas rm" and run: "run_next apis mem_ok resp_ok rm = Some (w, rm1)"
    and mem: "(\<exists>s. w = DisconnWork s) \<longrightarrow> mem_ok"
  shows "man_inv subs keys ok stas rm1" "rm_works rm = w # rm_works rm1"
proof -
  obtain ws where ws: "rm_works rm = w # ws"
    "rm1 = \<lparr>rm_state = fst (snd (mgr_step apis (RunWork w mem_ok resp_ok) (rm_state rm))), rm_works = ws\<rparr>"
    using run by (auto simp: run_next_def split: list.splits)
  then show "rm_works rm = w # rm_works rm1" by simp
  have m: "mgr_ok ok (rm_state rm)" and act: "act_ok (RunWork w mem_ok resp_ok) (rm_state rm)"
    using rm mem ws(1) by (auto simp: man_inv_def)
  have "s \<in> stas \<or> DisconnWork s \<in> set ws" if "refers subs keys (rm_state rm1) s" for s
  proof -
    have t: "w \<noteq> DisconnWork s" "refers subs keys (rm_state rm) s \<or> work_sta w = Some s"
      using work_refers [OF m act, of s] that ws(2) by simp_all
    have "work_sta w = Some s \<Longrightarrow> s \<in> stas \<or> DisconnWork s \<in> set ws"
      using rm ws(1) t(1) by (cases w) (auto simp: man_inv_def)
    with t rm ws(1) show ?thesis by (auto simp: man_inv_def)
  qed
  with rm ws step_ok [OF m act] show "man_inv subs keys ok stas rm1" by (auto simp: man_inv_def)
qed

lemma man_timer:
  assumes rm: "man_inv subs keys ok stas rm" and n: "n \<in> set (im_delayed (rm_state rm))"
  shows "man_inv subs keys ok stas (run_timer apis n rm)"
proof -
  have m: "mgr_ok ok (rm_state rm)" and act: "act_ok (DelayedDetach n True) (rm_state rm)"
    using rm n by (auto simp: man_inv_def)
  have "mgr_ok ok (fst (snd (mgr_step apis (DelayedDetach n True) (rm_state rm))))" by (rule step_ok [OF m act])
  then show ?thesis using rm delayed_refers [OF m] unfolding man_inv_def run_timer_def
    by (auto simp del: mgr_step.simps)
qed

end

section \<open>The state of the daemon\<close>

definition queued :: "nat \<Rightarrow> ('e, 'i) running_manager option \<Rightarrow> nat" where
  "queued s rp = (case rp of None \<Rightarrow> 0 | Some rm \<Rightarrow> works_of s (rm_works rm))"

definition held :: "nat \<Rightarrow> dwpal_daemon \<Rightarrow> int" where
  "held s d = (if s \<in> set (dd_sta_list d) then 1 else 0) + int (queued s (dd_hap_man d)) + int (queued s (dd_nl_man d))"

definition daemon_inv :: "dwpal_daemon \<Rightarrow> bool" where
  "daemon_inv d \<longleftrightarrow> distinct (dd_sta_list d) \<and>
     (\<forall>rm. dd_hap_man d = Some rm \<longrightarrow> man_inv hostap_subs op_codes hostap_registry_ok (set (dd_sta_list d)) rm) \<and>
     (\<forall>rm. dd_nl_man d = Some rm \<longrightarrow> man_inv nl_subs UNIV nl_registry_ok (set (dd_sta_list d)) rm) \<and>
     (\<forall>s. dd_refs d s = held s d)"

lemma sta_cmd_work:
  assumes "iface_manager_sta_cmd_async given mem_ok exec_ok (Some sta) sq (Some cmd) = Some (res, wp, fate, k)"
  shows "k = (if wp = None then 0 else 1) \<and> (wp \<noteq> None \<longrightarrow> given) \<and>
    (\<forall>w. wp = Some w \<longrightarrow> work_ok w \<and> work_sta w = Some sta \<and> (\<forall>s. w \<noteq> DisconnWork s))"
proof -
  have "\<forall>w. wp = Some w \<longrightarrow> work_ok w" using sta_cmd_work_ok assms by blast
  then show ?thesis using assms
    by (auto simp: iface_manager_sta_cmd_async_def bind_eq_Some_conv Let_def split: if_splits)
qed

lemma submit_simps [simp]:
  "submit_work wp None = None"
  "submit_work wp (Some rm) = Some (rm\<lparr>rm_works := rm_works rm @ (case wp of None \<Rightarrow> [] | Some w \<Rightarrow> [w])\<rparr>)"
  by (simp_all add: submit_work_def)

lemma queued_submit:
  "queued t (submit_work wp rp) =
     queued t rp + (if rp \<noteq> None \<and> (\<exists>w. wp = Some w \<and> work_sta w = Some t) then 1 else 0)"
  by (cases rp; cases wp) (auto simp: queued_def)

lemma add_refs_simps [simp]:
  "dd_sta_list (add_refs s k d) = dd_sta_list d" "dd_hap_man (add_refs s k d) = dd_hap_man d"
  "dd_nl_man (add_refs s k d) = dd_nl_man d" "dd_refs (add_refs s k d) t = dd_refs d t + (if t = s then k else 0)"
  by (simp_all add: add_refs_def)

lemma cmd_inv:
  assumes d: "daemon_inv d" and s: "sta \<in> set (dd_sta_list d)"
    and run: "dwpald_cmd_async mem_ok exec_ok sta sq cmd d = Some (res, fate, d')"
  shows "daemon_inv d'"
proof -
  consider "d' = d"
    | wp k r f cmd1 where "iface_manager_sta_cmd_async (dd_hap_man d \<noteq> None) mem_ok exec_ok (Some sta) sq (Some cmd1) = Some (r, wp, f, k)"
      "d' = add_refs sta k (d\<lparr>dd_hap_man := submit_work wp (dd_hap_man d)\<rparr>)"
    | wp k r f cmd1 where "iface_manager_sta_cmd_async (dd_nl_man d \<noteq> None) mem_ok exec_ok (Some sta) sq (Some cmd1) = Some (r, wp, f, k)"
      "d' = add_refs sta k (d\<lparr>dd_nl_man := submit_work wp (dd_nl_man d)\<rparr>)"
    using run by (auto simp: dwpald_cmd_async_def bind_eq_Some_conv Let_def split: if_splits)
  then show ?thesis
  proof cases
    case 1
    with d show ?thesis by simp
  next
    case (2 wp k r f cmd1)
    note w = sta_cmd_work [OF 2(1)]
    have "man_inv hostap_subs op_codes hostap_registry_ok (set (dd_sta_list d)) rm'"
      if "submit_work wp (dd_hap_man d) = Some rm'" for rm'
      using d w s that man_submit [of hostap_subs op_codes hostap_registry_ok "set (dd_sta_list d)" _ wp]
      by (cases "dd_hap_man d") (auto simp: daemon_inv_def)
    with d w 2(2) show ?thesis by (auto simp: daemon_inv_def held_def queued_submit)
  next
    case (3 wp k r f cmd1)
    note w = sta_cmd_work [OF 3(1)]
    have "man_inv nl_subs UNIV nl_registry_ok (set (dd_sta_list d)) rm'"
      if "submit_work wp (dd_nl_man d) = Some rm'" for rm'
      using d w s that man_submit [of nl_subs UNIV nl_registry_ok "set (dd_sta_list d)" _ wp]
      by (cases "dd_nl_man d") (auto simp: daemon_inv_def)
    with d w 3(2) show ?thesis by (auto simp: daemon_inv_def held_def queued_submit)
  qed
qed

lemma removing_inv:
  assumes d: "daemon_inv d" and run: "dwpald_removing_client True True sta d = Some (r, d')"
  shows "daemon_inv d'"
proof (cases "sta \<in> set (dd_sta_list d)")
  case False
  with run d show ?thesis by (simp add: dwpald_removing_client_def)
next
  case True
  with run obtain h n where hn: "dd_hap_man d = Some h" "dd_nl_man d = Some n"
    by (auto simp: dwpald_removing_client_def split: option.splits)
  define h1 where "h1 = h\<lparr>rm_works := rm_works h @ [DisconnWork sta]\<rparr>"
  define n1 where "n1 = n\<lparr>rm_works := rm_works n @ [DisconnWork sta]\<rparr>"
  have d': "d' = add_refs sta 1 (d\<lparr>dd_sta_list := remove1 sta (dd_sta_list d), dd_hap_man := Some h1, dd_nl_man := Some n1\<rparr>)"
    using run True hn by (simp add: dwpald_removing_client_def iface_manager_sta_disconnected_def h1_def n1_def)
  have stas: "set (remove1 sta (dd_sta_list d)) = set (dd_sta_list d) - {sta}" "distinct (remove1 sta (dd_sta_list d))"
    using d by (simp_all add: daemon_inv_def)
  have "man_inv hostap_subs op_codes hostap_registry_ok (set (dd_sta_list d) - {sta}) h1"
    "man_inv nl_subs UNIV nl_registry_ok (set (dd_sta_list d) - {sta}) n1"
    using d hn man_remove True by (auto simp: daemon_inv_def h1_def n1_def)
  moreover have "dd_refs d' s = held s d'" for s
    using d True hn stas unfolding d' by (auto simp: daemon_inv_def held_def queued_def h1_def n1_def)
  ultimately show ?thesis using stas unfolding d' by (simp add: daemon_inv_def)
qed

lemma adding_inv:
  assumes d: "daemon_inv d" and s: "dd_refs d sta = 0"
  shows "daemon_inv (snd (dwpald_adding_client mem_ok sta d))"
proof -
  have "held sta d = 0" using d s by (simp add: daemon_inv_def)
  then have new: "sta \<notin> set (dd_sta_list d)" "queued sta (dd_hap_man d) = 0" "queued sta (dd_nl_man d) = 0"
    by (auto simp: held_def split: if_splits)
  then show ?thesis
    using d man_add [of hostap_subs op_codes hostap_registry_ok _ _ sta] man_add [of nl_subs UNIV nl_registry_ok _ _ sta]
    by (auto simp: dwpald_adding_client_def daemon_inv_def held_def queued_def)
qed

lemma event_work_shape:
  assumes "iface_manager_event_received mem_ok exec_ok e n l k = (r, Some w, f, b)"
  shows "work_ok w \<and> work_sta w = None \<and> (\<forall>s. w \<noteq> DisconnWork s)"
  using assms event_received_work_ok [OF assms] by (auto simp: iface_manager_event_received_def Let_def split: if_splits)

lemma timer_works [simp]: "rm_works (run_timer apis n rm) = rm_works rm"
  by (simp add: run_timer_def)

lemma event_inv:
  "daemon_inv d \<Longrightarrow> iface_manager_event_received mem_ok exec_ok e n l i = (r, wp, f, b) \<Longrightarrow>
     daemon_inv (d\<lparr>dd_hap_man := submit_work wp (dd_hap_man d)\<rparr>)"
  "daemon_inv d \<Longrightarrow> iface_manager_event_received mem_ok exec_ok e n l j = (r, wp', f, b) \<Longrightarrow>
     daemon_inv (d\<lparr>dd_nl_man := submit_work wp' (dd_nl_man d)\<rparr>)"
proof -
  assume d: "daemon_inv d" and "iface_manager_event_received mem_ok exec_ok e n l i = (r, wp, f, b)"
  then have w: "\<forall>w. wp = Some w \<longrightarrow> work_ok w \<and> work_sta w = None \<and> (\<forall>s. w \<noteq> DisconnWork s)"
    using event_work_shape by blast
  have "man_inv hostap_subs op_codes hostap_registry_ok (set (dd_sta_list d)) rm'"
    if "submit_work wp (dd_hap_man d) = Some rm'" for rm'
    using d w that man_submit [of hostap_subs op_codes hostap_registry_ok "set (dd_sta_list d)" _ wp]
    by (cases "dd_hap_man d") (auto simp: daemon_inv_def)
  with d w show "daemon_inv (d\<lparr>dd_hap_man := submit_work wp (dd_hap_man d)\<rparr>)"
    by (auto simp: daemon_inv_def held_def queued_submit)
next
  assume d: "daemon_inv d" and "iface_manager_event_received mem_ok exec_ok e n l j = (r, wp', f, b)"
  then have w: "\<forall>w. wp' = Some w \<longrightarrow> work_ok w \<and> work_sta w = None \<and> (\<forall>s. w \<noteq> DisconnWork s)"
    using event_work_shape by blast
  have "man_inv nl_subs UNIV nl_registry_ok (set (dd_sta_list d)) rm'"
    if "submit_work wp' (dd_nl_man d) = Some rm'" for rm'
    using d w that man_submit [of nl_subs UNIV nl_registry_ok "set (dd_sta_list d)" _ wp']
    by (cases "dd_nl_man d") (auto simp: daemon_inv_def)
  with d w show "daemon_inv (d\<lparr>dd_nl_man := submit_work wp' (dd_nl_man d)\<rparr>)"
    by (auto simp: daemon_inv_def held_def queued_submit)
qed

lemma clean_simps [simp]:
  "dd_sta_list (clean_work w d) = dd_sta_list d" "dd_hap_man (clean_work w d) = dd_hap_man d"
  "dd_nl_man (clean_work w d) = dd_nl_man d" "dd_refs (clean_work w d) s = dd_refs d s - (if work_sta w = Some s then 1 else 0)"
  by (auto simp: clean_work_def split: option.split)

lemma next_memory: "next_gets_memory (Some rm) mem_ok \<Longrightarrow> run_next apis mem_ok resp_ok rm = Some (w, rm1) \<Longrightarrow>
    (\<exists>s. w = DisconnWork s) \<longrightarrow> mem_ok"
  by (auto simp: next_gets_memory_def run_next_def split: list.splits)

lemma run_inv:
  assumes d: "daemon_inv d"
  shows "dd_hap_man d = Some rm \<Longrightarrow> hapis \<in> hostap_tables \<Longrightarrow> next_gets_memory (dd_hap_man d) mem_ok \<Longrightarrow>
      run_next hapis mem_ok resp_ok rm = Some (w, rm1) \<Longrightarrow> daemon_inv (clean_work w (d\<lparr>dd_hap_man := Some rm1\<rparr>))"
    "dd_nl_man d = Some nrm \<Longrightarrow> napis \<in> nl_tables \<Longrightarrow> next_gets_memory (dd_nl_man d) mem_ok \<Longrightarrow>
      run_next napis mem_ok resp_ok nrm = Some (nw, nrm1) \<Longrightarrow> daemon_inv (clean_work nw (d\<lparr>dd_nl_man := Some nrm1\<rparr>))"
proof -
  show "dd_hap_man d = Some rm \<Longrightarrow> hapis \<in> hostap_tables \<Longrightarrow> next_gets_memory (dd_hap_man d) mem_ok \<Longrightarrow>
      run_next hapis mem_ok resp_ok rm = Some (w, rm1) \<Longrightarrow> daemon_inv (clean_work w (d\<lparr>dd_hap_man := Some rm1\<rparr>))"
  proof -
    assume rm: "dd_hap_man d = Some rm" and "hapis \<in> hostap_tables" and mem: "next_gets_memory (dd_hap_man d) mem_ok"
      and run: "run_next hapis mem_ok resp_ok rm = Some (w, rm1)"
    then have "man_inv hostap_subs op_codes hostap_registry_ok (set (dd_sta_list d)) rm1" "rm_works rm = w # rm_works rm1"
      using d hm.man_run [OF _ _ next_memory [of rm mem_ok]] by (auto simp: hostap_tables_def daemon_inv_def)
    then show "daemon_inv (clean_work w (d\<lparr>dd_hap_man := Some rm1\<rparr>))"
      using d rm by (auto simp: daemon_inv_def held_def queued_def)
  qed
  show "dd_nl_man d = Some nrm \<Longrightarrow> napis \<in> nl_tables \<Longrightarrow> next_gets_memory (dd_nl_man d) mem_ok \<Longrightarrow>
      run_next napis mem_ok resp_ok nrm = Some (nw, nrm1) \<Longrightarrow> daemon_inv (clean_work nw (d\<lparr>dd_nl_man := Some nrm1\<rparr>))"
  proof -
    assume rm: "dd_nl_man d = Some nrm" and "napis \<in> nl_tables" and mem: "next_gets_memory (dd_nl_man d) mem_ok"
      and run: "run_next napis mem_ok resp_ok nrm = Some (nw, nrm1)"
    then have "man_inv nl_subs UNIV nl_registry_ok (set (dd_sta_list d)) nrm1" "rm_works nrm = nw # rm_works nrm1"
      using d nm.man_run [OF _ _ next_memory [of nrm mem_ok]] by (auto simp: nl_tables_def daemon_inv_def)
    then show "daemon_inv (clean_work nw (d\<lparr>dd_nl_man := Some nrm1\<rparr>))"
      using d rm by (auto simp: daemon_inv_def held_def queued_def)
  qed
qed

lemma timer_inv:
  assumes d: "daemon_inv d"
  shows "hapis \<in> hostap_tables \<Longrightarrow> is_scheduled n (dd_hap_man d) \<Longrightarrow>
      daemon_inv (d\<lparr>dd_hap_man := map_option (run_timer hapis n) (dd_hap_man d)\<rparr>)"
    "napis \<in> nl_tables \<Longrightarrow> is_scheduled n (dd_nl_man d) \<Longrightarrow>
      daemon_inv (d\<lparr>dd_nl_man := map_option (run_timer napis n) (dd_nl_man d)\<rparr>)"
proof -
  show "hapis \<in> hostap_tables \<Longrightarrow> is_scheduled n (dd_hap_man d) \<Longrightarrow>
      daemon_inv (d\<lparr>dd_hap_man := map_option (run_timer hapis n) (dd_hap_man d)\<rparr>)"
    using d hm.man_timer
    by (cases "dd_hap_man d") (auto simp: is_scheduled_def hostap_tables_def daemon_inv_def held_def queued_def)
  show "napis \<in> nl_tables \<Longrightarrow> is_scheduled n (dd_nl_man d) \<Longrightarrow>
      daemon_inv (d\<lparr>dd_nl_man := map_option (run_timer napis n) (dd_nl_man d)\<rparr>)"
    using d nm.man_timer
    by (cases "dd_nl_man d") (auto simp: is_scheduled_def nl_tables_def daemon_inv_def held_def queued_def)
qed

lemma daemon_step_inv:
  assumes d: "daemon_inv d" and ok: "daemon_act_ok act d" and run: "daemon_step act d = Some d'"
  shows "daemon_inv d'"
proof (cases act)
  case (AddClient s mem_ok)
  with adding_inv [OF d] ok run show ?thesis by auto
next
  case (RemoveClient s)
  with removing_inv [OF d] run show ?thesis by auto
next
  case (ClientCmd s sq cmd mem_ok exec_ok)
  with cmd_inv [OF d] ok run show ?thesis by auto
next
  case (HostapEvent event name info mem_ok exec_ok)
  with event_inv(1) [OF d] run show ?thesis by (auto split: prod.splits)
next
  case (KernelEvent event info mem_ok exec_ok)
  with event_inv(2) [OF d] run show ?thesis by (auto split: prod.splits)
next
  case (RunHostap apis mem_ok resp_ok)
  with run_inv(1) [OF d] ok run show ?thesis by (auto simp: bind_eq_Some_conv)
next
  case (RunKernel apis mem_ok resp_ok)
  with run_inv(2) [OF d] ok run show ?thesis by (auto simp: bind_eq_Some_conv)
next
  case (HostapTimer apis n)
  with timer_inv(1) [OF d] ok run show ?thesis by auto
next
  case (KernelTimer apis n)
  with timer_inv(2) [OF d] ok run show ?thesis by auto
next
  case (Signal n)
  with d run show ?thesis by (auto simp: termination_handler_def daemon_inv_def held_def)
qed

lemma daemon_reach_inv: "daemon_reach d \<Longrightarrow> daemon_inv d"
proof (induction rule: daemon_reach.induct)
  case (start ifs hap nl)
  have "man_inv hostap_subs op_codes hostap_registry_ok {} rm \<and> rm_works rm = []" if "hap = Some rm" for rm
    using man_created [of hostap_tables "Some ifs" rm hostap_registry_ok op_codes hostap_subs] start(1,2) that by simp
  moreover have "man_inv nl_subs UNIV nl_registry_ok {} rm \<and> rm_works rm = []" if "nl = Some rm" for rm
    using man_created [of nl_tables None rm nl_registry_ok UNIV nl_subs] start(3) that nr.empty_law by simp
  ultimately show ?case by (auto simp: daemon_inv_def held_def queued_def split: option.split)
next
  case (step d act d')
  then show ?case by (blast intro: daemon_step_inv)
qed

section \<open>Dispatch of a command\<close>

text \<open>The work that a command of a kind becomes.\<close>

definition cmd_becomes :: "u8 \<Rightarrow> nat \<Rightarrow> u8 \<Rightarrow> wv_ipc_msg \<Rightarrow> 'i mgr_work" where
  "cmd_becomes kind sta sq cmd =
     (let cw = \<lparr>cw_cmd = cmd, cw_seq_num = sq, cw_ipsta = sta\<rparr>
      in if kind = DWPALD_CMD then CmdWork cw
         else if kind = DWPALD_ATTACH_REQ then AttachWork cw
         else if kind = DWPALD_DETACH_REQ
         then DetachWork \<lparr>dw_ifname = cmd_ifname cmd, dw_seq_num = sq, dw_ipsta = Some sta\<rparr>
         else UpdateEventWork cw)"

lemma kinds_differ [simp]:
  "DWPALD_CMD \<noteq> DWPALD_ATTACH_REQ" "DWPALD_CMD \<noteq> DWPALD_DETACH_REQ" "DWPALD_CMD \<noteq> DWPALD_UPDATE_EVENT_REQ"
  "DWPALD_ATTACH_REQ \<noteq> DWPALD_DETACH_REQ" "DWPALD_ATTACH_REQ \<noteq> DWPALD_UPDATE_EVENT_REQ"
  "DWPALD_DETACH_REQ \<noteq> DWPALD_UPDATE_EVENT_REQ" "DWPALD_IF_TYPE_HOSTAP \<noteq> DWPALD_IF_TYPE_KERNEL"
  by (simp_all add: DWPALD_CMD_def DWPALD_ATTACH_REQ_def DWPALD_DETACH_REQ_def DWPALD_UPDATE_EVENT_REQ_def
      DWPALD_IF_TYPE_HOSTAP_def DWPALD_IF_TYPE_KERNEL_def)

declare kinds_differ [symmetric, simp]

lemma sta_cmd_async_eq:
  assumes m: "hdr_stack m []" "length h = 6" and cmd: "cmd = with_dwpald_header h m"
    and kind: "h ! 0 \<in> {DWPALD_CMD, DWPALD_ATTACH_REQ, DWPALD_DETACH_REQ, DWPALD_UPDATE_EVENT_REQ}"
    and size: "h ! 0 = DWPALD_DETACH_REQ \<longrightarrow> unat (m_data_len m) = IFNAMSIZ + 1"
  shows "iface_manager_sta_cmd_async True True True (Some sta) sq (Some cmd) =
    Some (0, Some (cmd_becomes (h ! 0) sta sq cmd), if h ! 0 = DWPALD_DETACH_REQ then GivenBack else PassedOn cmd, 1)"
proof -
  have peek: "dwpald_header_peek (Some cmd) \<lparr>h_magic = 0, h_bytes = [0, 0, 0, 0, 0, 0]\<rparr> =
      Some (0, \<lparr>h_magic = DWPALD_HDR_MAGIC, h_bytes = h\<rparr>, Some cmd)"
    using dwpald_header_roundtrip(2) [OF m] cmd by simp
  have "m_data_len cmd = m_data_len m" using with_dwpald_header_stack(1) [OF m] cmd by simp
  with kind size show ?thesis
    unfolding iface_manager_sta_cmd_async_def
    by (elim insertE emptyE) (simp_all add: peek cmd_becomes_def wave_ipc_msg_get_size_def Let_def IFNAMSIZ_def WAVE_IPC_BUFF_SIZE_def)
qed

lemma cmd_async_eq:
  assumes m: "hdr_stack m []" "length h = 6" and cmd: "cmd = with_dwpald_header h m"
    and kind: "h ! 0 \<in> {DWPALD_CMD, DWPALD_ATTACH_REQ, DWPALD_DETACH_REQ, DWPALD_UPDATE_EVENT_REQ}"
    and size: "h ! 0 = DWPALD_DETACH_REQ \<longrightarrow> unat (m_data_len m) = IFNAMSIZ + 1"
    and fate: "fate = (if h ! 0 = DWPALD_DETACH_REQ then GivenBack else PassedOn cmd)"
  shows "h ! 1 = DWPALD_IF_TYPE_HOSTAP \<Longrightarrow> dd_hap_man d = Some rm \<Longrightarrow> dwpald_cmd_async True True sta sq cmd d =
      Some (0, fate, add_refs sta 1 (d\<lparr>dd_hap_man := Some (rm\<lparr>rm_works := rm_works rm @ [cmd_becomes (h ! 0) sta sq cmd]\<rparr>)\<rparr>))"
    "h ! 1 = DWPALD_IF_TYPE_KERNEL \<Longrightarrow> dd_nl_man d = Some nrm \<Longrightarrow> dwpald_cmd_async True True sta sq cmd d =
      Some (0, fate, add_refs sta 1 (d\<lparr>dd_nl_man := Some (nrm\<lparr>rm_works := rm_works nrm @ [cmd_becomes (h ! 0) sta sq cmd]\<rparr>)\<rparr>))"
proof -
  have peek: "dwpald_header_peek (Some cmd) \<lparr>h_magic = 0, h_bytes = [0, 0, 0, 0, 0, 0]\<rparr> =
      Some (0, \<lparr>h_magic = DWPALD_HDR_MAGIC, h_bytes = h\<rparr>, Some cmd)"
    using dwpald_header_roundtrip(2) [OF m] cmd by simp
  note eq = sta_cmd_async_eq [OF m cmd kind size, of sta sq]
  show "h ! 1 = DWPALD_IF_TYPE_HOSTAP \<Longrightarrow> dd_hap_man d = Some rm \<Longrightarrow> dwpald_cmd_async True True sta sq cmd d =
      Some (0, fate, add_refs sta 1 (d\<lparr>dd_hap_man := Some (rm\<lparr>rm_works := rm_works rm @ [cmd_becomes (h ! 0) sta sq cmd]\<rparr>)\<rparr>))"
    using kind fate by (simp add: dwpald_cmd_async_def peek eq Let_def)
  show "h ! 1 = DWPALD_IF_TYPE_KERNEL \<Longrightarrow> dd_nl_man d = Some nrm \<Longrightarrow> dwpald_cmd_async True True sta sq cmd d =
      Some (0, fate, add_refs sta 1 (d\<lparr>dd_nl_man := Some (nrm\<lparr>rm_works := rm_works nrm @ [cmd_becomes (h ! 0) sta sq cmd]\<rparr>)\<rparr>))"
    using kind fate by (simp add: dwpald_cmd_async_def peek eq Let_def)
qed

section \<open>Properties\<close>


text \<open>The states of the witnesses: the station 7 connects, attaches to wlan0, and leaves.\<close>

definition ex_daemon :: "nat list \<Rightarrow> hostap_event iface_manager \<Rightarrow> hostap_extra_info mgr_work list \<Rightarrow>
    u32 mgr_work list \<Rightarrow> int \<Rightarrow> dwpal_daemon" where
  "ex_daemon stas m ws nws n =
     \<lparr>dd_sta_list = stas, dd_hap_man = Some \<lparr>rm_state = m, rm_works = ws\<rparr>,
      dd_nl_man = Some \<lparr>rm_state = \<lparr>im_iftype = DWPALD_IF_TYPE_KERNEL, im_ifaces = [], im_delayed = []\<rparr>, rm_works = nws\<rparr>,
      dd_terminate = False, dd_term_from_signum = 0, dd_refs = (\<lambda>s. if s = 7 then n else 0)\<rparr>"

definition ex_attach_header :: "u8 list" where
  "ex_attach_header = [DWPALD_ATTACH_REQ, DWPALD_IF_TYPE_HOSTAP, 0, 0, 0, 0]"

definition ex_attach_cmd :: wv_ipc_msg where
  "ex_attach_cmd = with_dwpald_header ex_attach_header (ex_cmd (cbytes ''wlan0'' @ replicate 12 0))"

abbreviation no_ifaces :: "hostap_event iface_manager" where
  "no_ifaces \<equiv> \<lparr>im_iftype = DWPALD_IF_TYPE_HOSTAP, im_ifaces = [], im_delayed = []\<rparr>"

lemma ex_cmd_stack: "hdr_stack (ex_cmd bs) []"
  using ex_msg_stack by (simp add: hdr_stack_def ex_cmd_def)

lemma ex_daemon_starts: "daemon_reach (ex_daemon [7] no_ifaces [] [] 1)"
proof -
  have "iface_manager_init ex_apis True True (Some []) DWPALD_IF_TYPE_HOSTAP = (Some no_ifaces, [])" by code_simp
  then have hap: "created hostap_tables (Some []) (Some \<lparr>rm_state = no_ifaces, rm_works = [] :: hostap_extra_info mgr_work list\<rparr>)"
    unfolding created_def option.case by (intro conjI bexI [OF _ ex_apis_hostap] exI) simp_all
  have "iface_manager_init (nl_man_apis (\<lambda>_ _ _. 0) DWPAL_SUCCESS (DWPAL_SUCCESS, 5) True (\<lambda>_. True)) True True None DWPALD_IF_TYPE_KERNEL =
      (Some \<lparr>im_iftype = DWPALD_IF_TYPE_KERNEL, im_ifaces = [], im_delayed = []\<rparr>, [])" by code_simp
  then have nl: "created nl_tables None (Some \<lparr>rm_state = \<lparr>im_iftype = DWPALD_IF_TYPE_KERNEL, im_ifaces = [], im_delayed = []\<rparr>,
      rm_works = [] :: u32 mgr_work list\<rparr>)"
    unfolding created_def nl_tables_def option.case by (intro conjI bexI exI) (simp, simp, blast)
  note start = daemon_reach.start [OF _ hap nl]
  show ?thesis
    by (rule daemon_reach.step [OF start, of "AddClient 7 True"])
      (auto simp: dwpald_adding_client_def add_refs_def ex_daemon_def)
qed

lemma ex_daemon_attached: "daemon_reach (ex_daemon [7] (ex_manager [7] []) [] [] 1)"
proof -
  have "dwpald_cmd_async True True 7 1 ex_attach_cmd (ex_daemon [7] no_ifaces [] [] 1) =
      Some (0, PassedOn ex_attach_cmd, ex_daemon [7] no_ifaces
        [AttachWork \<lparr>cw_cmd = ex_attach_cmd, cw_seq_num = 1, cw_ipsta = 7\<rparr>] [] 2)"
    by (subst cmd_async_eq(1) [OF ex_cmd_stack _ ex_attach_cmd_def])
      (auto simp: ex_attach_header_def ex_daemon_def add_refs_def cmd_becomes_def Let_def)
  then have queued: "daemon_reach (ex_daemon [7] no_ifaces [AttachWork \<lparr>cw_cmd = ex_attach_cmd, cw_seq_num = 1, cw_ipsta = 7\<rparr>] [] 2)"
    by (intro daemon_reach.step [OF ex_daemon_starts, of "ClientCmd 7 1 ex_attach_cmd True True"]) (simp_all add: ex_daemon_def)
  have m: "ex_attach_cmd = (ex_cmd (cbytes ''wlan0'' @ replicate 12 0))\<lparr>m_hdr := hdr_area [DWPALD_HDR_MAGIC # ex_attach_header]\<rparr>"
    unfolding ex_attach_cmd_def by (rule with_dwpald_header_stack(1) [OF ex_cmd_stack]) (simp add: ex_attach_header_def)
  have "fst (snd (mgr_step ex_apis (RunWork (AttachWork \<lparr>cw_cmd = ex_attach_cmd, cw_seq_num = 1, cw_ipsta = 7\<rparr>) True True) no_ifaces)) =
      ex_manager [7] []" unfolding m by code_simp
  then show ?thesis
    by (intro daemon_reach.step [OF queued, of "RunHostap ex_apis True True"])
      (auto simp: ex_apis_hostap ex_daemon_def next_gets_memory_def run_next_def clean_work_def add_refs_def)
qed


text \<open>
  C39. The daemon runs without a manager that could not be created, and then the first client that
  leaves makes it use a null pointer: in a daemon whose hostapd interfaces could not be attached,
  a station connects, and its removal does not return.
\<close>

theorem daemon_crashes_without_manager:
  "fst (iface_manager_init (hostap_man_apis (\<lambda>_ _ _. 0) (\<lambda>_. DWPAL_FAILURE) (\<lambda>_. True) (\<lambda>_. True)) True True
      (Some [cbytes ''wlan0'']) DWPALD_IF_TYPE_HOSTAP) = None \<and>
   (\<exists>d. daemon_reach d \<and> dd_hap_man d = None \<and> s \<in> set (dd_sta_list d) \<and> daemon_step (RemoveClient s) d = None)"
proof (rule conjI)
  show "fst (iface_manager_init (hostap_man_apis (\<lambda>_ _ _. 0) (\<lambda>_. DWPAL_FAILURE) (\<lambda>_. True) (\<lambda>_. True)) True True
      (Some [cbytes ''wlan0'']) DWPALD_IF_TYPE_HOSTAP) = None" by code_simp
  define d where "d = \<lparr>dd_sta_list = [], dd_hap_man = None, dd_nl_man = None, dd_terminate = False, dd_term_from_signum = 0,
      dd_refs = (\<lambda>_. 0)\<rparr>"
  define d1 where "d1 = snd (dwpald_adding_client True s d)"
  have "daemon_reach d" unfolding d_def
    by (rule daemon_reach.start [of "[cbytes ''wlan0'']"]) (simp_all add: created_def)
  then have "daemon_reach d1"
    by (rule daemon_reach.step [of _ "AddClient s True"]) (simp_all add: d_def d1_def)
  moreover have "dd_hap_man d1 = None \<and> s \<in> set (dd_sta_list d1) \<and> daemon_step (RemoveClient s) d1 = None"
    by (simp add: d1_def d_def dwpald_adding_client_def dwpald_removing_client_def)
  ultimately show "\<exists>d. daemon_reach d \<and> dd_hap_man d = None \<and> s \<in> set (dd_sta_list d) \<and> daemon_step (RemoveClient s) d = None"
    by blast
qed

end
