(* ===== verification/Dwpald_Client.thy ===== *)
theory Dwpald_Client
  imports Dwpald_Protocol
begin

text \<open>
  The client library daemon/dwpald_client.c: the attachments of a program to hostap interfaces
  and to the driver, the requests that tell the daemon about them, the delivery of the daemon's
  events to the program's callbacks, and the commands.  A callback is a number.  The IPC client
  is an argument, a record of the functions of wv_ipc/wave_ipc_client.h over a state of its own;
  a reply is the list of its messages, which is empty for NULL.  Allocations other than that of
  a message succeed; a mutex makes the code between its lock and its unlock one step.
\<close>

section \<open>Data\<close>

datatype dwpald_ret = DWPALD_SUCCESS | DWPALD_DISCONNECTED | DWPALD_DWPAL_FAILURE
  | DPWALD_DWPAL_IFACE_IS_DOWN | DWPALD_FAILED | DWPALD_ERROR

definition DEFAULT_ATTACH_ID :: u32 where "DEFAULT_ATTACH_ID = 0"
definition OPCODE_SIZE :: nat where "OPCODE_SIZE = 64"
definition MAX_NUM_CB_EVENTS :: nat where "MAX_NUM_CB_EVENTS = 64"

record 'c clb_id =
  cb_fun :: 'c
  cb_id :: u32

type_synonym dwpald_hostap_clb_id = "nat option clb_id"
type_synonym dwpald_nl_event_clb_id = "nat clb_id"
type_synonym dwpald_drv_clb_id = "nat clb_id"

record dwpald_hostap_event_with_id =
  he_code :: cstr
  he_code_len :: u8
  he_clbs :: "dwpald_hostap_clb_id list"

record dwpald_driver_nl_event_with_id =
  dn_nl_id :: u32
  dn_clbs :: "dwpald_drv_clb_id list"

record dwpald_hostap_attachment =
  ha_ifname :: cstr
  ha_common_event :: "nat option"
  ha_events :: "dwpald_hostap_event_with_id list"
  ha_state :: u8

record dwpald_drv_nl_attachment =
  dna_drv_events :: "dwpald_driver_nl_event_with_id list"
  dna_nl_event_cb :: "dwpald_nl_event_clb_id list"

record dwpald_connection =
  dc_listener_running :: bool
  dc_hostap :: "dwpald_hostap_attachment list"
  dc_drv_nl :: "dwpald_drv_nl_attachment option"
  dc_nl80211_id :: int

text \<open>What the program hands over: an operation code with its length, or an event number.\<close>

record dwpald_hostap_event =
  ev_op_code :: "cstr option"
  ev_op_code_len :: u8
  ev_hapd_clb :: "nat option"

record dwpald_driver_nl_event =
  ev_nl_id :: u32
  ev_drv_clb :: "nat option"

text \<open>The functions of the IPC client that the library calls; the flag of \<open>ipc_emulate\<close> is WV_IPC_SYNC.\<close>

record 'w ipc_client =
  ipc_alloc :: "'w \<Rightarrow> wv_ipc_msg option \<times> 'w"
  ipc_send_cmd :: "wv_ipc_msg \<Rightarrow> 'w \<Rightarrow> wv_ipc_ret \<times> wv_ipc_msg list \<times> 'w"
  ipc_emulate :: "bool \<Rightarrow> wv_ipc_msg \<Rightarrow> 'w \<Rightarrow> wv_ipc_ret \<times> 'w"
  ipc_in_event_thread :: "'w \<Rightarrow> bool"

definition dwpald_ret_from_dwpal_ret :: "int \<Rightarrow> dwpald_ret" where
  "dwpald_ret_from_dwpal_ret r =
     (if r = dwpal_ret_code DWPAL_FAILURE then DWPALD_DWPAL_FAILURE
      else if r = dwpal_ret_code DWPAL_INTERFACE_IS_DOWN then DPWALD_DWPAL_IFACE_IS_DOWN
      else DWPALD_ERROR)"

fun dwpald_ret_to_string :: "dwpald_ret \<Rightarrow> string" where
  "dwpald_ret_to_string DWPALD_SUCCESS = ''DWPALD_SUCCESS''"
| "dwpald_ret_to_string DWPALD_DISCONNECTED = ''DWPALD_DISCONNECTED''"
| "dwpald_ret_to_string DWPALD_DWPAL_FAILURE = ''DWPALD_DWPAL_FAILURE''"
| "dwpald_ret_to_string DPWALD_DWPAL_IFACE_IS_DOWN = ''DPWALD_DWPAL_IFACE_IS_DOWN''"
| "dwpald_ret_to_string DWPALD_FAILED = ''DWPALD_FAILED''"
| "dwpald_ret_to_string DWPALD_ERROR = ''DWPALD_ERROR''"

section \<open>Requests\<close>

text \<open>
  A request with a header and data.  The result is the return code, the bytes of the response's
  header, its messages, which the callers give back, and the state of the IPC client; None when
  popping the header does not return.
\<close>

definition filled_msg :: "u8 list \<Rightarrow> u8 list \<Rightarrow> wv_ipc_msg \<Rightarrow> wv_ipc_msg" where
  "filled_msg h dat m = the (snd (wave_ipc_msg_fill_data (Some (with_dwpald_header h m)) (Some dat) (length dat)))"

definition pop_first :: "u8 list \<Rightarrow> wv_ipc_msg list \<Rightarrow> (rc \<times> u8 list \<times> wv_ipc_msg list) option" where
  "pop_first h ms =
     do { (r, hdr, mp) \<leftarrow> dwpald_header_pop (case ms of [] \<Rightarrow> None | m # _ \<Rightarrow> Some m) \<lparr>h_magic = 0, h_bytes = h\<rparr>;
          Some (r, h_bytes hdr, (case mp of None \<Rightarrow> [] | Some m \<Rightarrow> m # tl ms)) }"

definition send_request ::
  "'w ipc_client \<Rightarrow> u8 \<Rightarrow> u8 \<Rightarrow> u8 list \<Rightarrow> u8 \<Rightarrow> 'w \<Rightarrow> (dwpald_ret \<times> u8 list \<times> 'w) option" where
  "send_request ipc req resp reg_request if_type w =
     (case ipc_alloc ipc w of
        (None, w1) \<Rightarrow> Some (DWPALD_ERROR, [0, 0, 0, 0, 0, 0], w1)
      | (Some m, w1) \<Rightarrow>
          (case ipc_send_cmd ipc (filled_msg [req, if_type, 0, 0, 0, 0] reg_request m) w1 of
             (WAVE_IPC_ERROR, _, w2) \<Rightarrow> Some (DWPALD_ERROR, [0, 0, 0, 0, 0, 0], w2)
           | (WAVE_IPC_SUCCESS, ms, w2) \<Rightarrow>
               do { (r, hdr, _) \<leftarrow> pop_first [0, 0, 0, 0, 0, 0] ms;
                    if r \<noteq> 0 \<or> hdr ! 0 \<noteq> resp \<or> hdr ! 1 \<noteq> if_type then Some (DWPALD_ERROR, hdr, w2)
                    else Some (DWPALD_SUCCESS, hdr, w2) }
           | (WAVE_IPC_CMD_FAILED, _, w2) \<Rightarrow> Some (DWPALD_ERROR, [0, 0, 0, 0, 0, 0], w2)
           | (_, _, w2) \<Rightarrow> Some (DWPALD_DISCONNECTED, [0, 0, 0, 0, 0, 0], w2)))"

definition dwpald_send_attach_cmd ::
  "'w ipc_client \<Rightarrow> u8 list \<Rightarrow> u8 \<Rightarrow> 'w \<Rightarrow> (dwpald_ret \<times> u8 list \<times> 'w) option" where
  "dwpald_send_attach_cmd ipc = send_request ipc DWPALD_ATTACH_REQ DWPALD_ATTACH_RESP"

definition dwpald_send_update_event_cmd ::
  "'w ipc_client \<Rightarrow> u8 list \<Rightarrow> u8 \<Rightarrow> 'w \<Rightarrow> (dwpald_ret \<times> u8 list \<times> 'w) option" where
  "dwpald_send_update_event_cmd ipc = send_request ipc DWPALD_UPDATE_EVENT_REQ DWPALD_UPDATE_EVENT_RESP"

text \<open>
  The request of a hostap attachment: the buffer is cleared, the name is copied to its start and
  the operation codes follow from byte 17 on, each after its length; \<open>written\<close> advances by the
  length of the text that was printed.
\<close>

fun request_length :: "dwpald_hostap_event_with_id list \<Rightarrow> nat" where
  "request_length [] = 0"
| "request_length (e # es) = unat (he_code_len e) + 1 + request_length es"

fun write_codes :: "nat \<Rightarrow> dwpald_hostap_event_with_id list \<Rightarrow> u8 list \<Rightarrow> u8 list" where
  "write_codes written [] buf = buf"
| "write_codes written (e # es) buf =
     (let txt = sprintf_s (length buf - (written + 1)) (he_code e)
      in write_codes (written + 1 + length txt) es
           (splice (buf[written := he_code_len e]) (written + 1) (txt @ [0])))"

definition hostap_request :: "cstr \<Rightarrow> dwpald_hostap_event_with_id list \<Rightarrow> u8 list" where
  "hostap_request ifname es =
     (let req_len = IFNAMSIZ + 1 + request_length es + 1
      in write_codes (IFNAMSIZ + 1) es
           (splice (replicate req_len 0) 0 (strncpy_s req_len ifname IFNAMSIZ @ [0])))"

definition dwpald_send_hostap_attach ::
  "'w ipc_client \<Rightarrow> dwpald_hostap_attachment \<Rightarrow> 'w \<Rightarrow> (dwpald_ret \<times> dwpald_hostap_attachment \<times> 'w) option" where
  "dwpald_send_hostap_attach ipc a w =
     do { (ret, hdr, w1) \<leftarrow> dwpald_send_attach_cmd ipc (hostap_request (ha_ifname a) (ha_events a)) DWPALD_IF_TYPE_HOSTAP w;
          Some (ret, (if ret = DWPALD_SUCCESS then a\<lparr>ha_state := hdr ! 2\<rparr> else a), w1) }"

definition dwpald_send_hostap_update_event ::
  "'w ipc_client \<Rightarrow> cstr \<Rightarrow> dwpald_hostap_event_with_id list \<Rightarrow> 'w \<Rightarrow> (dwpald_ret \<times> 'w) option" where
  "dwpald_send_hostap_update_event ipc ifname es w =
     do { (ret, _, w1) \<leftarrow> dwpald_send_update_event_cmd ipc (hostap_request ifname es) DWPALD_IF_TYPE_HOSTAP w;
          Some (ret, w1) }"

definition dwpald_send_hostap_detach :: "'w ipc_client \<Rightarrow> cstr \<Rightarrow> 'w \<Rightarrow> (dwpald_ret \<times> 'w) option" where
  "dwpald_send_hostap_detach ipc ifname w =
     (case ipc_alloc ipc w of
        (None, w1) \<Rightarrow> Some (DWPALD_ERROR, w1)
      | (Some m, w1) \<Rightarrow>
          let m1 = the (snd (wave_ipc_msg_reserve_data (Some m) (IFNAMSIZ + 1)));
              m2 = m1\<lparr>m_data := write_at (m_data m1) 0 (strncpy_s (IFNAMSIZ + 1) ifname IFNAMSIZ @ [0])\<rparr>
          in (case ipc_send_cmd ipc (with_dwpald_header [DWPALD_DETACH_REQ, DWPALD_IF_TYPE_HOSTAP, 0, 0, 0, 0] m2) w1 of
                (WAVE_IPC_ERROR, _, w2) \<Rightarrow> Some (DWPALD_ERROR, w2)
              | (WAVE_IPC_SUCCESS, ms, w2) \<Rightarrow>
                  do { (r, hdr, _) \<leftarrow> pop_first [0, 0, 0, 0, 0, 0] ms;
                       if r \<noteq> 0 \<or> hdr ! 0 \<noteq> DWPALD_DETACH_RESP \<or> hdr ! 1 \<noteq> DWPALD_IF_TYPE_HOSTAP
                       then Some (DWPALD_ERROR, w2) else Some (DWPALD_SUCCESS, w2) }
              | (WAVE_IPC_CMD_FAILED, _, w2) \<Rightarrow> Some (DWPALD_ERROR, w2)
              | (_, _, w2) \<Rightarrow> Some (DWPALD_DISCONNECTED, w2)))"

definition DWPALD_NL_DRV_IFNAME :: cstr where "DWPALD_NL_DRV_IFNAME = cbytes ''nl_drv''"

definition drv_nl_request :: "dwpald_driver_nl_event_with_id list \<Rightarrow> u8 list" where
  "drv_nl_request es =
     splice (replicate (IFNAMSIZ + 1) 0) 0 (DWPALD_NL_DRV_IFNAME @ [0]) @ concat (map (u32_bytes \<circ> dn_nl_id) es)"

text \<open>Both requests store the third byte of the response's header as the number of nl80211.\<close>

definition dwpald_send_drv_nl_attach ::
  "'w ipc_client \<Rightarrow> dwpald_driver_nl_event_with_id list \<Rightarrow> dwpald_connection \<Rightarrow> 'w \<Rightarrow>
     (dwpald_ret \<times> dwpald_connection \<times> 'w) option" where
  "dwpald_send_drv_nl_attach ipc es c w =
     do { (ret, hdr, w1) \<leftarrow> dwpald_send_attach_cmd ipc (drv_nl_request es) DWPALD_IF_TYPE_KERNEL w;
          Some (ret, (if ret = DWPALD_SUCCESS then c\<lparr>dc_nl80211_id := uint (hdr ! 2)\<rparr> else c), w1) }"

definition dwpald_send_drv_nl_update_event ::
  "'w ipc_client \<Rightarrow> dwpald_driver_nl_event_with_id list \<Rightarrow> dwpald_connection \<Rightarrow> 'w \<Rightarrow>
     (dwpald_ret \<times> dwpald_connection \<times> 'w) option" where
  "dwpald_send_drv_nl_update_event ipc es c w =
     do { (ret, hdr, w1) \<leftarrow> dwpald_send_update_event_cmd ipc (drv_nl_request es) DWPALD_IF_TYPE_KERNEL w;
          Some (ret, (if ret = DWPALD_SUCCESS then c\<lparr>dc_nl80211_id := uint (hdr ! 2)\<rparr> else c), w1) }"

section \<open>Lists of events\<close>

definition dwpald_free_hostap_events_with_id ::
  "dwpald_hostap_event_with_id list \<Rightarrow> u32 \<Rightarrow> dwpald_hostap_event_with_id list" where
  "dwpald_free_hostap_events_with_id es i =
     filter (\<lambda>e. he_clbs e \<noteq> []) (map (\<lambda>e. e\<lparr>he_clbs := filter (\<lambda>c. cb_id c \<noteq> i) (he_clbs e)\<rparr>) es)"

definition dwpald_free_driver_events_with_id ::
  "dwpald_driver_nl_event_with_id list \<Rightarrow> u32 \<Rightarrow> dwpald_driver_nl_event_with_id list" where
  "dwpald_free_driver_events_with_id es i =
     filter (\<lambda>e. dn_clbs e \<noteq> []) (map (\<lambda>e. e\<lparr>dn_clbs := filter (\<lambda>c. cb_id c \<noteq> i) (dn_clbs e)\<rparr>) es)"

definition dwpald_push_drv_callback :: "dwpald_drv_clb_id list \<Rightarrow> nat option \<Rightarrow> u32 \<Rightarrow> dwpald_drv_clb_id list" where
  "dwpald_push_drv_callback l clb i = (case clb of None \<Rightarrow> l | Some f \<Rightarrow> l @ [\<lparr>cb_fun = f, cb_id = i\<rparr>])"

definition dwpald_push_kernel_callback ::
  "dwpald_nl_event_clb_id list \<Rightarrow> nat option \<Rightarrow> u32 \<Rightarrow> dwpald_nl_event_clb_id list" where
  "dwpald_push_kernel_callback l clb i = (case clb of None \<Rightarrow> l | Some f \<Rightarrow> l @ [\<lparr>cb_fun = f, cb_id = i\<rparr>])"

definition dwpald_push_hostap_callback ::
  "dwpald_hostap_clb_id list \<Rightarrow> nat option \<Rightarrow> u32 \<Rightarrow> dwpald_hostap_clb_id list" where
  "dwpald_push_hostap_callback l clb i = l @ [\<lparr>cb_fun = clb, cb_id = i\<rparr>]"

text \<open>On a bad argument every callback with the identifier is removed, the ones of earlier calls as well.\<close>

fun dwpald_copy_hostap_events ::
  "dwpald_hostap_event_with_id list \<Rightarrow> dwpald_hostap_event list \<Rightarrow> u32 \<Rightarrow> rc \<times> dwpald_hostap_event_with_id list" where
  "dwpald_copy_hostap_events dst [] i = (0, dst)"
| "dwpald_copy_hostap_events dst (v # vs) i =
     (case ev_op_code v of
        None \<Rightarrow> (1, dwpald_free_hostap_events_with_id dst i)
      | Some op \<Rightarrow>
          if ev_op_code_len v = 0 \<or> ev_hapd_clb v = None then (1, dwpald_free_hostap_events_with_id dst i)
          else dwpald_copy_hostap_events
                 (\<lparr>he_code = strncpy_s (unat (ev_op_code_len v) + 1) op (unat (ev_op_code_len v)),
                   he_code_len = ev_op_code_len v,
                   he_clbs = dwpald_push_hostap_callback [] (ev_hapd_clb v) i\<rparr> # dst) vs i)"

fun dwpald_copy_driver_events ::
  "dwpald_driver_nl_event_with_id list \<Rightarrow> dwpald_driver_nl_event list \<Rightarrow> u32 \<Rightarrow>
     rc \<times> dwpald_driver_nl_event_with_id list" where
  "dwpald_copy_driver_events dst [] i = (0, dst)"
| "dwpald_copy_driver_events dst (v # vs) i =
     (if ev_drv_clb v = None then (1, dwpald_free_driver_events_with_id dst i)
      else dwpald_copy_driver_events
             (\<lparr>dn_nl_id = ev_nl_id v, dn_clbs = dwpald_push_drv_callback [] (ev_drv_clb v) i\<rparr> # dst) vs i)"

text \<open>
  Adding to the events of an attachment.  \<open>clb_found\<close> is set when a callback is found and not
  cleared for the next event; the operation codes are compared over the length that the program
  gives, so that an event may be found of which the new one is a proper prefix.  The result is
  None when a NULL operation code is compared.
\<close>

fun add_to_hostap_event ::
  "cstr \<Rightarrow> nat \<Rightarrow> nat option \<Rightarrow> u32 \<Rightarrow> bool \<Rightarrow> dwpald_hostap_event_with_id list \<Rightarrow>
     (bool \<times> dwpald_hostap_event_with_id list) option" where
  "add_to_hostap_event op n clb i clb_found [] = None"
| "add_to_hostap_event op n clb i clb_found (e # es) =
     (if strncmp_eq (he_code e) op n
      then (let fnd = (clb_found \<or> (\<exists>c \<in> set (he_clbs e). cb_fun c = clb))
            in Some (fnd, (if fnd then e else e\<lparr>he_clbs := dwpald_push_hostap_callback (he_clbs e) clb i\<rparr>) # es))
      else map_option (\<lambda>(f, es'). (f, e # es')) (add_to_hostap_event op n clb i clb_found es))"

fun add_hostap_loop ::
  "bool \<Rightarrow> dwpald_hostap_event_with_id list \<Rightarrow> dwpald_hostap_event list \<Rightarrow> u32 \<Rightarrow>
     (rc \<times> dwpald_hostap_event_with_id list) option" where
  "add_hostap_loop clb_found es [] i = Some (0, es)"
| "add_hostap_loop clb_found es (v # vs) i =
     (if ev_op_code v = None \<and> es \<noteq> [] \<and> ev_op_code_len v \<noteq> 0 then None
      else case add_to_hostap_event (case ev_op_code v of None \<Rightarrow> [] | Some s \<Rightarrow> s) (unat (ev_op_code_len v))
                  (ev_hapd_clb v) i clb_found es of
             Some (f, es') \<Rightarrow> add_hostap_loop f es' vs i
           | None \<Rightarrow>
               (case dwpald_copy_hostap_events es [v] i of
                  (r, es') \<Rightarrow> if r \<noteq> 0 then Some (-1, es') else add_hostap_loop clb_found es' vs i))"

definition dwpald_add_hostap_events ::
  "dwpald_hostap_event_with_id list \<Rightarrow> dwpald_hostap_event list \<Rightarrow> u32 \<Rightarrow>
     (rc \<times> dwpald_hostap_event_with_id list) option" where
  "dwpald_add_hostap_events = add_hostap_loop False"

fun add_to_driver_event ::
  "u32 \<Rightarrow> nat option \<Rightarrow> u32 \<Rightarrow> bool \<Rightarrow> dwpald_driver_nl_event_with_id list \<Rightarrow>
     (bool \<times> dwpald_driver_nl_event_with_id list) option" where
  "add_to_driver_event n clb i clb_found [] = None"
| "add_to_driver_event n clb i clb_found (e # es) =
     (if n = dn_nl_id e
      then (let fnd = (clb_found \<or> (\<exists>c \<in> set (dn_clbs e). Some (cb_fun c) = clb))
            in Some (fnd, (if fnd then e else e\<lparr>dn_clbs := dwpald_push_drv_callback (dn_clbs e) clb i\<rparr>) # es))
      else map_option (\<lambda>(f, es'). (f, e # es')) (add_to_driver_event n clb i clb_found es))"

fun add_driver_loop ::
  "bool \<Rightarrow> dwpald_driver_nl_event_with_id list \<Rightarrow> dwpald_driver_nl_event list \<Rightarrow> u32 \<Rightarrow>
     rc \<times> dwpald_driver_nl_event_with_id list" where
  "add_driver_loop clb_found es [] i = (0, es)"
| "add_driver_loop clb_found es (v # vs) i =
     (case add_to_driver_event (ev_nl_id v) (ev_drv_clb v) i clb_found es of
        Some (f, es') \<Rightarrow> add_driver_loop f es' vs i
      | None \<Rightarrow>
          (case dwpald_copy_driver_events es [v] i of
             (r, es') \<Rightarrow> if r \<noteq> 0 then (-1, es') else add_driver_loop clb_found es' vs i))"

definition dwpald_add_driver_events ::
  "dwpald_driver_nl_event_with_id list \<Rightarrow> dwpald_driver_nl_event list \<Rightarrow> u32 \<Rightarrow>
     rc \<times> dwpald_driver_nl_event_with_id list" where
  "dwpald_add_driver_events = add_driver_loop False"

definition dwpald_add_kernel_events ::
  "dwpald_nl_event_clb_id list \<Rightarrow> nat \<Rightarrow> u32 \<Rightarrow> rc \<times> dwpald_nl_event_clb_id list" where
  "dwpald_add_kernel_events l clb i =
     (0, if \<exists>c \<in> set l. cb_fun c = clb then l else dwpald_push_kernel_callback l (Some clb) i)"

section \<open>Delivery of the daemon's events\<close>

text \<open>
  The calls of the program's functions: a hostap callback gets the name, the operation code, the
  message as a pointer and its length; a driver callback the name, the number, the data and
  their size; a netlink callback the netlink message.
\<close>

datatype 'n client_call =
    HostapClb nat cstr cstr "u8 list option" nat
  | DriverClb nat cstr int "u8 list" nat
  | NlClb nat 'n

definition copy_hostap_event ::
  "dwpald_hostap_attachment \<Rightarrow> dwpald_hostap_event_with_id option \<Rightarrow> nat \<Rightarrow> nat list" where
  "copy_hostap_event a event max_num =
     (case event of
        None \<Rightarrow> []
      | Some e \<Rightarrow> take max_num ((case ha_common_event a of None \<Rightarrow> [] | Some f \<Rightarrow> [f]) @
                                 List.map_filter cb_fun (he_clbs e)))"

fun update_attachment ::
  "cstr \<Rightarrow> (dwpald_hostap_attachment \<Rightarrow> dwpald_hostap_attachment) \<Rightarrow> dwpald_hostap_attachment list \<Rightarrow>
     dwpald_hostap_attachment list" where
  "update_attachment name f [] = []"
| "update_attachment name f (a # as) =
     (if strncmp_eq (ha_ifname a) name (IFNAMSIZ + 1) then f a # as else a # update_attachment name f as)"

definition find_attachment :: "cstr \<Rightarrow> dwpald_hostap_attachment list \<Rightarrow> dwpald_hostap_attachment option" where
  "find_attachment name as = find (\<lambda>a. strncmp_eq (ha_ifname a) name (IFNAMSIZ + 1)) as"

text \<open>The state that an operation code announces.\<close>

definition announced_state :: "cstr \<Rightarrow> u8 option" where
  "announced_state op =
     (if starts_with op ''INTERFACE_CONNECTED_OK'' then Some INTERFACE_DWPAL_STATE_CONNECTED
      else if starts_with op ''INTERFACE_RECONNECTED_OK'' then Some INTERFACE_DWPAL_STATE_CONNECTED
      else if starts_with op ''INTERFACE_DISCONNECTED'' then Some INTERFACE_DWPAL_STATE_DISCONNECTED
      else None)"

definition dwpald_receive_hostap_event ::
  "wv_ipc_msg \<Rightarrow> u8 list \<Rightarrow> dwpald_connection \<Rightarrow> rc \<times> 'n client_call list \<times> dwpald_connection" where
  "dwpald_receive_hostap_event event hdr c =
     (let len = unat (wv_aligned_16_bit_fetch hdr 4); n = unat (hdr ! 2); k = unat (hdr ! 3);
          dat = (case wave_ipc_msg_get_data (Some event) of None \<Rightarrow> [] | Some bs \<Rightarrow> bs);
          ifname = cstr_of (take n dat); op_code = cstr_of (take k (drop n dat));
          event_msg = (if len = 0 then None else Some (drop (n + k) dat));
          msg_len = (if len = 0 then 0 else len - 1)
      in if wave_ipc_msg_get_size (Some event) \<noteq> n + k + len then (1, [], c)
         else if n > IFNAMSIZ then (1, [], c)
         else if k = 0 \<or> k > OPCODE_SIZE - 1 then (1, [], c)
         else (case find_attachment ifname (dc_hostap c) of
                 None \<Rightarrow> (1, [], c)
               | Some a \<Rightarrow>
                   let a1 = (case announced_state op_code of None \<Rightarrow> a | Some st \<Rightarrow> a\<lparr>ha_state := st\<rparr>);
                       found = find (\<lambda>e. strncmp_eq (he_code e) op_code OPCODE_SIZE) (ha_events a1)
                   in ((if found = None \<and> announced_state op_code = None then 1 else 0),
                       map (\<lambda>f. HostapClb f ifname op_code event_msg msg_len) (copy_hostap_event a1 found MAX_NUM_CB_EVENTS),
                       c\<lparr>dc_hostap := update_attachment ifname (\<lambda>_. a1) (dc_hostap c)\<rparr>)))"

definition dwpald_receive_drv_event ::
  "wv_ipc_msg \<Rightarrow> u8 list \<Rightarrow> dwpald_connection \<Rightarrow> rc \<times> 'n client_call list" where
  "dwpald_receive_drv_event event hdr c =
     (let data_size = unat (wv_aligned_16_bit_fetch hdr 3); n = unat (hdr ! 2)
      in case wave_ipc_msg_get_data (Some event) of
           None \<Rightarrow> (1, [])
         | Some dat \<Rightarrow>
             if wave_ipc_msg_get_size (Some event) \<noteq> 4 + n + data_size then (1, [])
             else if n > IFNAMSIZ then (1, [])
             else (case dc_drv_nl c of
                     None \<Rightarrow> (1, [])
                   | Some d \<Rightarrow>
                       let event_id = u32_at dat 0; ifname = cstr_of (take n (drop 4 dat));
                           found = find (\<lambda>e. dn_nl_id e = event_id) (dna_drv_events d)
                       in ((if found = None then 1 else 0),
                           (case found of
                              None \<Rightarrow> []
                            | Some e \<Rightarrow> map (\<lambda>cb. DriverClb (cb_fun cb) ifname (sint event_id) (drop (4 + n) dat) data_size)
                                          (take MAX_NUM_CB_EVENTS (dn_clbs e))))))"

text \<open>\<open>nl_from\<close> is \<open>dwpald_nl_msg_from_ipc_msg\<close>, a conversion of the netlink library.\<close>

definition dwpald_receive_kernel_event ::
  "(wv_ipc_msg \<Rightarrow> 'n option) \<Rightarrow> wv_ipc_msg \<Rightarrow> dwpald_connection \<Rightarrow> rc \<times> 'n client_call list" where
  "dwpald_receive_kernel_event nl_from event c =
     (case nl_from event of
        None \<Rightarrow> (1, [])
      | Some nl \<Rightarrow>
          (case dc_drv_nl c of
             None \<Rightarrow> (1, [])
           | Some d \<Rightarrow> (0, map (\<lambda>cb. NlClb (cb_fun cb) nl) (take MAX_NUM_CB_EVENTS (dna_nl_event_cb d)))))"

text \<open>\<open>junk\<close> are the bytes of the header variable before the header is popped into it.\<close>

definition dwpald_event ::
  "(wv_ipc_msg \<Rightarrow> 'n option) \<Rightarrow> u8 list \<Rightarrow> wv_ipc_msg \<Rightarrow> dwpald_connection \<Rightarrow>
     (rc \<times> 'n client_call list \<times> dwpald_connection) option" where
  "dwpald_event nl_from junk event c =
     do { (r, hdr, mp) \<leftarrow> dwpald_header_pop (Some event) \<lparr>h_magic = 0, h_bytes = junk\<rparr>;
          e \<leftarrow> mp;
          let h = h_bytes hdr;
          if r \<noteq> 0 \<or> h ! 0 \<noteq> DWPALD_EVENT then Some (1, [], c)
          else if h ! 1 = DWPALD_IF_TYPE_HOSTAP then Some (dwpald_receive_hostap_event e h c)
          else if h ! 1 = DWPALD_IF_TYPE_DRIVER
          then Some (case dwpald_receive_drv_event e h c of (r, cs) \<Rightarrow> (r, cs, c))
          else if h ! 1 = DWPALD_IF_TYPE_KERNEL
          then Some (case dwpald_receive_kernel_event nl_from e c of (r, cs) \<Rightarrow> (r, cs, c))
          else Some (1, [], c) }"

section \<open>Emulated events\<close>

text \<open>The result is the return code, what became of the message, and the state of the IPC client.\<close>

definition dwpald_emulate_event ::
  "'w ipc_client \<Rightarrow> bool \<Rightarrow> cstr option \<Rightarrow> cstr option \<Rightarrow> u8 list option \<Rightarrow> nat \<Rightarrow> 'w \<Rightarrow> rc \<times> msg_fate \<times> 'w" where
  "dwpald_emulate_event ipc sync ifname op_code msg msg_len w =
     (case (ifname, op_code) of
        (Some n, Some op) \<Rightarrow>
          if msg = None \<and> msg_len \<noteq> 0 then (1, NoMessage, w)
          else (case ipc_alloc ipc w of
                  (None, w1) \<Rightarrow> (1, NoMessage, w1)
                | (Some e_msg, w1) \<Rightarrow>
                    let len1 = (if msg \<noteq> None \<and> msg_len \<noteq> 0 then size_add msg_len 1 else msg_len);
                        len16 = (of_nat len1 :: u16)
                    in if unat len16 \<noteq> len1 then (dwpal_ret_code DWPAL_FAILURE, Lost, w1)
                       else let nlen = of_nat (strnlen_s n IFNAMSIZ); oplen = of_nat (strnlen_s op OPCODE_SIZE);
                                e1 = with_dwpald_header ([DWPALD_EVENT, DWPALD_IF_TYPE_HOSTAP] @
                                       wv_aligned_16_bit_assign [nlen, oplen, 0, 0] 2 len16) e_msg;
                                reserve = unat nlen + unat oplen + unat len16
                            in (case wave_ipc_msg_reserve_data (Some e1) reserve of
                                  (WAVE_IPC_SUCCESS, Some e2) \<Rightarrow>
                                    if wave_ipc_msg_get_data (Some e2) = None then (1, GivenBack, w1)
                                    else let e3 = e2\<lparr>m_data := event_payload nlen oplen len16 n op msg (m_data e2)\<rparr>
                                         in (case ipc_emulate ipc sync e3 w1 of
                                               (r, w2) \<Rightarrow> (if r = WAVE_IPC_SUCCESS then 0 else 1, PassedOn e3, w2))
                                | _ \<Rightarrow> (1, GivenBack, w1)))
      | _ \<Rightarrow> (1, NoMessage, w))"

definition emulate_state_event :: "'w ipc_client \<Rightarrow> bool \<Rightarrow> cstr \<Rightarrow> string \<Rightarrow> 'w \<Rightarrow> 'w" where
  "emulate_state_event ipc sync ifname op w =
     snd (snd (dwpald_emulate_event ipc sync (Some ifname) (Some (cbytes op)) None 0 w))"

section \<open>The connection\<close>

text \<open>The global \<open>dwpald_conn\<close> is None for NULL; the answers of the IPC client are arguments.\<close>

definition dwpald_connected :: "dwpald_connection option \<Rightarrow> bool" where
  "dwpald_connected conn \<longleftrightarrow> conn \<noteq> None"

definition dwpald_connect ::
  "wv_ipc_ret \<Rightarrow> dwpald_connection option \<Rightarrow> dwpald_ret \<times> dwpald_connection option" where
  "dwpald_connect conn_ret conn =
     (if conn \<noteq> None then (DWPALD_ERROR, conn)
      else if conn_ret = WAVE_IPC_ERROR then (DWPALD_ERROR, conn)
      else (if conn_ret = WAVE_IPC_SUCCESS then DWPALD_SUCCESS else DWPALD_DISCONNECTED,
            Some \<lparr>dc_listener_running = False, dc_hostap = [], dc_drv_nl = None, dc_nl80211_id = -1\<rparr>))"

text \<open>The flag tells whether the listener is stopped.\<close>

definition dwpald_disconnect :: "dwpald_connection option \<Rightarrow> dwpald_ret \<times> bool \<times> dwpald_connection option" where
  "dwpald_disconnect conn =
     (case conn of None \<Rightarrow> (DWPALD_ERROR, False, None) | Some c \<Rightarrow> (DWPALD_SUCCESS, dc_listener_running c, None))"

definition dwpald_start_listener ::
  "wv_ipc_ret \<Rightarrow> dwpald_connection option \<Rightarrow> dwpald_ret \<times> dwpald_connection option" where
  "dwpald_start_listener ret conn =
     (case conn of
        None \<Rightarrow> (DWPALD_ERROR, None)
      | Some c \<Rightarrow>
          if dc_listener_running c then (DWPALD_SUCCESS, conn)
          else if ret = WAVE_IPC_ERROR then (DWPALD_ERROR, conn)
          else (DWPALD_SUCCESS, Some (c\<lparr>dc_listener_running := True\<rparr>)))"

definition dwpald_stop_listener ::
  "wv_ipc_ret \<Rightarrow> dwpald_connection option \<Rightarrow> dwpald_ret \<times> dwpald_connection option" where
  "dwpald_stop_listener ret conn =
     (case conn of
        None \<Rightarrow> (DWPALD_ERROR, None)
      | Some c \<Rightarrow>
          if \<not> dc_listener_running c then (DWPALD_SUCCESS, conn)
          else if ret = WAVE_IPC_ERROR then (DWPALD_ERROR, conn)
          else (DWPALD_SUCCESS, Some (c\<lparr>dc_listener_running := False\<rparr>)))"

definition dwpald_start_blocked_listen :: "wv_ipc_ret \<Rightarrow> dwpald_connection option \<Rightarrow> dwpald_ret" where
  "dwpald_start_blocked_listen ret conn =
     (case conn of None \<Rightarrow> DWPALD_ERROR | Some c \<Rightarrow> if ret = WAVE_IPC_SUCCESS then DWPALD_SUCCESS else DWPALD_ERROR)"

text \<open>What the IPC client calls when the connection to the daemon is back, and when it is lost.\<close>

fun reconnect_loop ::
  "'w ipc_client \<Rightarrow> dwpald_hostap_attachment list \<Rightarrow> 'w \<Rightarrow> (rc \<times> dwpald_hostap_attachment list \<times> 'w) option" where
  "reconnect_loop ipc [] w = Some (0, [], w)"
| "reconnect_loop ipc (a # as) w =
     do { (ret, a1, w1) \<leftarrow> dwpald_send_hostap_attach ipc a w;
          if ret \<noteq> DWPALD_SUCCESS then Some (1, a1 # as, w1)
          else do {
            let w2 = (if ha_state a1 = INTERFACE_DWPAL_STATE_CONNECTED
                      then emulate_state_event ipc False (ha_ifname a1) ''INTERFACE_RECONNECTED_OK'' w1 else w1);
            (r, as', w3) \<leftarrow> reconnect_loop ipc as w2;
            Some (r, a1 # as', w3) } }"

definition dwpald_reconnected :: "'w ipc_client \<Rightarrow> dwpald_connection \<Rightarrow> 'w \<Rightarrow> (rc \<times> dwpald_connection \<times> 'w) option" where
  "dwpald_reconnected ipc c w =
     do { (r, as, w1) \<leftarrow> reconnect_loop ipc (dc_hostap c) w;
          let c1 = c\<lparr>dc_hostap := as\<rparr>;
          if r \<noteq> 0 then Some (1, c1, w1)
          else (case dc_drv_nl c1 of
                  None \<Rightarrow> Some (0, c1, w1)
                | Some d \<Rightarrow>
                    do { (ret, c2, w2) \<leftarrow> dwpald_send_drv_nl_attach ipc (dna_drv_events d) c1 w1;
                         Some (if ret \<noteq> DWPALD_SUCCESS then 1 else 0, c2, w2) }) }"

fun disconnected_loop ::
  "'w ipc_client \<Rightarrow> dwpald_hostap_attachment list \<Rightarrow> 'w \<Rightarrow> dwpald_hostap_attachment list \<times> 'w" where
  "disconnected_loop ipc [] w = ([], w)"
| "disconnected_loop ipc (a # as) w =
     (if ha_state a = INTERFACE_DWPAL_STATE_CONNECTED
      then (let w1 = emulate_state_event ipc False (ha_ifname a) ''INTERFACE_DISCONNECTED'' w;
                (as', w2) = disconnected_loop ipc as w1
            in (a\<lparr>ha_state := INTERFACE_DWPAL_STATE_DISCONNECTED\<rparr> # as', w2))
      else (let (as', w2) = disconnected_loop ipc as w in (a # as', w2)))"

definition dwpald_disconnected :: "'w ipc_client \<Rightarrow> dwpald_connection \<Rightarrow> 'w \<Rightarrow> rc \<times> dwpald_connection \<times> 'w" where
  "dwpald_disconnected ipc c w =
     (case disconnected_loop ipc (dc_hostap c) w of (as, w1) \<Rightarrow> (0, c\<lparr>dc_hostap := as\<rparr>, w1))"

section \<open>Attaching to hostap interfaces\<close>

text \<open>
  An array of the program is its pointer, None for NULL, and its number of entries.  The result
  of an operation on the connection is the return code, the connection and the state of the IPC
  client; it is None where the code would use a NULL operation code, or where the pop of a
  response's header does not return.
\<close>

definition add_to_attachment ::
  "'w ipc_client \<Rightarrow> cstr \<Rightarrow> dwpald_hostap_event list \<Rightarrow> u32 \<Rightarrow> dwpald_hostap_attachment \<Rightarrow> dwpald_connection \<Rightarrow> 'w \<Rightarrow>
     (dwpald_ret \<times> dwpald_connection \<times> 'w) option" where
  "add_to_attachment ipc ifname events i a c w =
     (let ret = (if ha_state a = INTERFACE_DWPAL_STATE_CONNECTED then DWPALD_SUCCESS else DPWALD_DWPAL_IFACE_IS_DOWN)
      in if i = DEFAULT_ATTACH_ID then Some (ret, c, w)
         else do {
           (r, es) \<leftarrow> dwpald_add_hostap_events (ha_events a) events i;
           let c1 = c\<lparr>dc_hostap := update_attachment ifname (\<lambda>a. a\<lparr>ha_events := es\<rparr>) (dc_hostap c)\<rparr>;
           if r \<noteq> 0 then Some (DWPALD_ERROR, c1, w)
           else if length (ha_events a) = length es then Some (ret, c1, w)
           else do { (ret2, w1) \<leftarrow> dwpald_send_hostap_update_event ipc ifname es w;
                     Some (if ret2 \<noteq> DWPALD_SUCCESS then DWPALD_ERROR else ret, c1, w1) } })"

definition new_attachment ::
  "'w ipc_client \<Rightarrow> cstr \<Rightarrow> dwpald_hostap_event list \<Rightarrow> nat option \<Rightarrow> bool \<Rightarrow> u32 \<Rightarrow> dwpald_connection \<Rightarrow> 'w \<Rightarrow>
     (dwpald_ret \<times> dwpald_connection \<times> 'w) option" where
  "new_attachment ipc ifname events common fail_on_iface_down i c w =
     (case dwpald_copy_hostap_events [] events i of
        (r, es) \<Rightarrow>
          if r \<noteq> 0 then Some (DWPALD_ERROR, c, w)
          else do {
            (ret, a, w1) \<leftarrow> dwpald_send_hostap_attach ipc
               \<lparr>ha_ifname = strncpy_s (IFNAMSIZ + 1) ifname IFNAMSIZ, ha_common_event = common, ha_events = es,
                 ha_state = INTERFACE_DWPAL_STATE_DISCONNECTED\<rparr> w;
            let down = (ha_state a = INTERFACE_DWPAL_STATE_DISCONNECTED);
            if ret \<noteq> DWPALD_SUCCESS then Some (ret, c, w1)
            else if down \<and> fail_on_iface_down
            then do { (_, w2) \<leftarrow> dwpald_send_hostap_detach ipc ifname w1; Some (DPWALD_DWPAL_IFACE_IS_DOWN, c, w2) }
            else Some (if down then DPWALD_DWPAL_IFACE_IS_DOWN else DWPALD_SUCCESS,
                       c\<lparr>dc_hostap := dc_hostap c @ [a]\<rparr>,
                       if ha_state a = INTERFACE_DWPAL_STATE_CONNECTED
                       then emulate_state_event ipc True ifname ''INTERFACE_CONNECTED_OK'' w1 else w1) })"

definition dwpald_hostap_attach_ex_with_id ::
  "'w ipc_client \<Rightarrow> cstr option \<Rightarrow> nat \<Rightarrow> dwpald_hostap_event list option \<Rightarrow> nat option \<Rightarrow> bool \<Rightarrow> u32 \<Rightarrow>
     dwpald_connection option \<Rightarrow> 'w \<Rightarrow> (dwpald_ret \<times> dwpald_connection option \<times> 'w) option" where
  "dwpald_hostap_attach_ex_with_id ipc ifname num events common fail_on_iface_down i conn w =
     (case (conn, ifname) of
        (Some c, Some name) \<Rightarrow>
          if num \<noteq> 0 \<and> events = None then Some (DWPALD_ERROR, conn, w)
          else if ipc_in_event_thread ipc w then Some (DWPALD_FAILED, conn, w)
          else do {
            let evs = take num (case events of None \<Rightarrow> [] | Some vs \<Rightarrow> vs);
            (ret, c1, w1) \<leftarrow> (case find_attachment name (dc_hostap c) of
                 Some a \<Rightarrow> add_to_attachment ipc name evs i a c w
               | None \<Rightarrow> new_attachment ipc name evs common fail_on_iface_down i c w);
            Some (ret, Some c1, w1) }
      | _ \<Rightarrow> Some (DWPALD_ERROR, conn, w))"

definition dwpald_hostap_attach_ex ::
  "'w ipc_client \<Rightarrow> cstr option \<Rightarrow> nat \<Rightarrow> dwpald_hostap_event list option \<Rightarrow> nat option \<Rightarrow> bool \<Rightarrow>
     dwpald_connection option \<Rightarrow> 'w \<Rightarrow> (dwpald_ret \<times> dwpald_connection option \<times> 'w) option" where
  "dwpald_hostap_attach_ex ipc ifname num events common fail_on_iface_down =
     dwpald_hostap_attach_ex_with_id ipc ifname num events common fail_on_iface_down DEFAULT_ATTACH_ID"

definition dwpald_hostap_attach ::
  "'w ipc_client \<Rightarrow> cstr option \<Rightarrow> nat \<Rightarrow> dwpald_hostap_event list option \<Rightarrow> bool \<Rightarrow>
     dwpald_connection option \<Rightarrow> 'w \<Rightarrow> (dwpald_ret \<times> dwpald_connection option \<times> 'w) option" where
  "dwpald_hostap_attach ipc ifname num events fail_on_iface_down =
     dwpald_hostap_attach_ex_with_id ipc ifname num events None fail_on_iface_down DEFAULT_ATTACH_ID"

definition dwpald_hostap_attach_with_id ::
  "'w ipc_client \<Rightarrow> cstr option \<Rightarrow> nat \<Rightarrow> dwpald_hostap_event list option \<Rightarrow> bool \<Rightarrow> u32 \<Rightarrow>
     dwpald_connection option \<Rightarrow> 'w \<Rightarrow> (dwpald_ret \<times> dwpald_connection option \<times> 'w) option" where
  "dwpald_hostap_attach_with_id ipc ifname num events fail_on_iface_down i conn w =
     (if i = DEFAULT_ATTACH_ID then Some (DWPALD_ERROR, conn, w)
      else dwpald_hostap_attach_ex_with_id ipc ifname num events None fail_on_iface_down i conn w)"

fun remove_attachment :: "cstr \<Rightarrow> dwpald_hostap_attachment list \<Rightarrow> dwpald_hostap_attachment list" where
  "remove_attachment name [] = []"
| "remove_attachment name (a # as) =
     (if strncmp_eq (ha_ifname a) name (IFNAMSIZ + 1) then as else a # remove_attachment name as)"

definition detach_id ::
  "'w ipc_client \<Rightarrow> cstr \<Rightarrow> u32 \<Rightarrow> dwpald_connection \<Rightarrow> 'w \<Rightarrow> (dwpald_ret \<times> dwpald_connection \<times> 'w) option" where
  "detach_id ipc name i c w =
     (case find_attachment name (dc_hostap c) of
        None \<Rightarrow> Some (DWPALD_SUCCESS, c, w)
      | Some a \<Rightarrow>
          let es = dwpald_free_hostap_events_with_id (ha_events a) i;
              c1 = c\<lparr>dc_hostap := update_attachment name (\<lambda>a. a\<lparr>ha_events := es\<rparr>) (dc_hostap c)\<rparr>
          in if length es = length (ha_events a) then Some (DWPALD_SUCCESS, c1, w)
             else do {
               (ret, w1) \<leftarrow> (if es = [] then dwpald_send_hostap_detach ipc name w
                            else dwpald_send_hostap_update_event ipc name es w);
               Some (if ret = DWPALD_DISCONNECTED then DWPALD_SUCCESS else ret,
                     if es = [] then c\<lparr>dc_hostap := remove_attachment name (dc_hostap c)\<rparr> else c1, w1) })"

definition dwpald_hostap_detach_with_id ::
  "'w ipc_client \<Rightarrow> cstr option \<Rightarrow> u32 \<Rightarrow> dwpald_connection option \<Rightarrow> 'w \<Rightarrow>
     (dwpald_ret \<times> dwpald_connection option \<times> 'w) option" where
  "dwpald_hostap_detach_with_id ipc ifname i conn w =
     (case (conn, ifname) of
        (Some c, Some name) \<Rightarrow>
          if ipc_in_event_thread ipc w then Some (DWPALD_FAILED, conn, w)
          else do { (ret, c1, w1) \<leftarrow> detach_id ipc name i c w; Some (ret, Some c1, w1) }
      | _ \<Rightarrow> Some (DWPALD_ERROR, conn, w))"

definition dwpald_hostap_detach ::
  "'w ipc_client \<Rightarrow> cstr option \<Rightarrow> dwpald_connection option \<Rightarrow> 'w \<Rightarrow>
     (dwpald_ret \<times> dwpald_connection option \<times> 'w) option" where
  "dwpald_hostap_detach ipc ifname = dwpald_hostap_detach_with_id ipc ifname DEFAULT_ATTACH_ID"

section \<open>Attaching to the driver\<close>

definition add_to_drv_nl ::
  "'w ipc_client \<Rightarrow> dwpald_driver_nl_event list \<Rightarrow> nat option \<Rightarrow> u32 \<Rightarrow> dwpald_drv_nl_attachment \<Rightarrow>
     dwpald_connection \<Rightarrow> 'w \<Rightarrow> (dwpald_ret \<times> dwpald_connection \<times> 'w) option" where
  "add_to_drv_nl ipc events nl_event_cb i d c w =
     (if i = DEFAULT_ATTACH_ID then Some (DWPALD_SUCCESS, c, w)
      else do {
        let (r, es) = (if events \<noteq> [] then dwpald_add_driver_events (dna_drv_events d) events i else (0, dna_drv_events d));
        let c1 = c\<lparr>dc_drv_nl := Some (d\<lparr>dna_drv_events := es\<rparr>)\<rparr>;
        if r \<noteq> 0 then Some (DWPALD_ERROR, c1, w)
        else do {
          (ret, c2, w1) \<leftarrow> (if length es \<noteq> length (dna_drv_events d)
                           then dwpald_send_drv_nl_update_event ipc es c1 w else Some (DWPALD_SUCCESS, c1, w));
          if ret \<noteq> DWPALD_SUCCESS then Some (ret, c2, w1)
          else (case nl_event_cb of
                  None \<Rightarrow> Some (DWPALD_SUCCESS, c2, w1)
                | Some f \<Rightarrow>
                    Some (DWPALD_SUCCESS,
                      c2\<lparr>dc_drv_nl := Some (d\<lparr>dna_drv_events := es,
                           dna_nl_event_cb := snd (dwpald_add_kernel_events (dna_nl_event_cb d) f i)\<rparr>)\<rparr>, w1)) } })"

definition new_drv_nl ::
  "'w ipc_client \<Rightarrow> dwpald_driver_nl_event list \<Rightarrow> nat option \<Rightarrow> u32 \<Rightarrow> dwpald_connection \<Rightarrow> 'w \<Rightarrow>
     (dwpald_ret \<times> dwpald_connection \<times> 'w) option" where
  "new_drv_nl ipc events nl_event_cb i c w =
     (case dwpald_copy_driver_events [] events i of
        (r, es) \<Rightarrow>
          if r \<noteq> 0 then Some (DWPALD_ERROR, c, w)
          else do {
            (ret, c1, w1) \<leftarrow> dwpald_send_drv_nl_attach ipc es c w;
            if ret \<noteq> DWPALD_SUCCESS then Some (ret, c1, w1)
            else Some (DWPALD_SUCCESS,
                   c1\<lparr>dc_drv_nl := Some \<lparr>dna_drv_events = es,
                        dna_nl_event_cb = dwpald_push_kernel_callback [] nl_event_cb i\<rparr>\<rparr>, w1) })"

definition dwpald_nl_drv_attach_with_id ::
  "'w ipc_client \<Rightarrow> nat \<Rightarrow> dwpald_driver_nl_event list option \<Rightarrow> nat option \<Rightarrow> u32 \<Rightarrow>
     dwpald_connection option \<Rightarrow> 'w \<Rightarrow> (dwpald_ret \<times> dwpald_connection option \<times> 'w) option" where
  "dwpald_nl_drv_attach_with_id ipc num events nl_event_cb i conn w =
     (case conn of
        None \<Rightarrow> Some (DWPALD_ERROR, conn, w)
      | Some c \<Rightarrow>
          if num \<noteq> 0 \<and> events = None then Some (DWPALD_ERROR, conn, w)
          else do {
            let evs = take num (case events of None \<Rightarrow> [] | Some vs \<Rightarrow> vs);
            (ret, c1, w1) \<leftarrow> (case dc_drv_nl c of
                 Some d \<Rightarrow> add_to_drv_nl ipc evs nl_event_cb i d c w
               | None \<Rightarrow> new_drv_nl ipc evs nl_event_cb i c w);
            Some (ret, Some c1, w1) })"

definition dwpald_nl_drv_attach ::
  "'w ipc_client \<Rightarrow> nat \<Rightarrow> dwpald_driver_nl_event list option \<Rightarrow> nat option \<Rightarrow>
     dwpald_connection option \<Rightarrow> 'w \<Rightarrow> (dwpald_ret \<times> dwpald_connection option \<times> 'w) option" where
  "dwpald_nl_drv_attach ipc num events nl_event_cb = dwpald_nl_drv_attach_with_id ipc num events nl_event_cb DEFAULT_ATTACH_ID"

section \<open>Commands\<close>

text \<open>
  A hostap command: \<open>cmd\<close> are the bytes behind the pointer, at least \<open>len\<close> of them, and
  \<open>reply_len\<close> is the room for the reply.  The result is the return code, the bytes written to the
  reply, the new value of \<open>*reply_len\<close> if there is one, and the state of the IPC client.  A
  length of 0 makes the code read the byte before the command: the result is None.
\<close>

definition hostap_cmd_msg :: "cstr \<Rightarrow> u8 list \<Rightarrow> nat \<Rightarrow> wv_ipc_msg \<Rightarrow> wv_ipc_msg" where
  "hostap_cmd_msg ifname cmd len m =
     (let n = of_nat (strnlen_s ifname IFNAMSIZ);
          m1 = with_dwpald_header [DWPALD_CMD, DWPALD_IF_TYPE_HOSTAP, n, 0, 0, 0] m;
          m2 = the (snd (wave_ipc_msg_fill_data (Some m1) (Some ifname) (unat n)));
          m3 = the (snd (wave_ipc_msg_append_data (Some m2) (Some cmd) len))
      in if cmd ! (len - 1) \<noteq> 0 then the (snd (wave_ipc_msg_append_data (Some m3) (Some [0]) 1)) else m3)"

definition dwpald_hostap_cmd ::
  "'w ipc_client \<Rightarrow> u8 list \<Rightarrow> cstr option \<Rightarrow> u8 list option \<Rightarrow> nat \<Rightarrow> bool \<Rightarrow> nat option \<Rightarrow>
     dwpald_connection option \<Rightarrow> 'w \<Rightarrow> (dwpald_ret \<times> u8 list \<times> nat option \<times> 'w) option" where
  "dwpald_hostap_cmd ipc junk ifname cmd len reply_given reply_len conn w =
     (case (ifname, cmd, reply_len, conn) of
        (Some name, Some bytes, Some room, Some _) \<Rightarrow>
          if \<not> reply_given then Some (DWPALD_ERROR, [], reply_len, w)
          else (case ipc_alloc ipc w of
                  (None, w1) \<Rightarrow> Some (DWPALD_ERROR, [], reply_len, w1)
                | (Some m, w1) \<Rightarrow>
                    if len = 0 then None
                    else (case ipc_send_cmd ipc (hostap_cmd_msg name bytes len m) w1 of
                            (WAVE_IPC_SUCCESS, ms, w2) \<Rightarrow>
                              do { (r, hdr, ms1) \<leftarrow> pop_first junk ms;
                                   let resp = (case ms1 of [] \<Rightarrow> None | m # _ \<Rightarrow> Some m);
                                   let n = wave_ipc_msg_get_size resp;
                                   let dpal_ret = sint (hdr ! 2);
                                   if r \<noteq> 0 \<or> hdr ! 0 \<noteq> DWPALD_CMD_RESP \<or> hdr ! 1 \<noteq> DWPALD_IF_TYPE_HOSTAP
                                   then Some (DWPALD_ERROR, [], Some 0, w2)
                                   else if dpal_ret \<noteq> dwpal_ret_code DWPAL_SUCCESS
                                   then Some (dwpald_ret_from_dwpal_ret dpal_ret, [], Some 0, w2)
                                   else if n > room then Some (DWPALD_ERROR, [], Some 0, w2)
                                   else (case wave_ipc_msg_get_data resp of
                                           None \<Rightarrow> Some (DWPALD_ERROR, [], Some 0, w2)
                                         | Some dat \<Rightarrow>
                                             if n = 0 then Some (DWPALD_ERROR, [], Some 0, w2)
                                             else Some (DWPALD_SUCCESS, dat, Some (n - 1), w2)) }
                          | (WAVE_IPC_DISCONNECTED, _, w2) \<Rightarrow> Some (DWPALD_DISCONNECTED, [], Some 0, w2)
                          | (_, _, w2) \<Rightarrow> Some (DWPALD_ERROR, [], Some 0, w2)))
      | _ \<Rightarrow> Some (DWPALD_ERROR, [], reply_len, w))"

section \<open>Netlink commands\<close>

text \<open>
  A netlink message is made by the netlink library; \<open>nl_bytes\<close> are the bytes of the one to send,
  \<open>built\<close> the same with None where the library fails, and \<open>nl_from\<close> reads a netlink message
  from an IPC message.
\<close>

definition dwpald_nl80211_id_get :: "bool \<Rightarrow> dwpald_connection option \<Rightarrow> dwpald_ret \<times> int option" where
  "dwpald_nl80211_id_get out_given conn =
     (case conn of
        None \<Rightarrow> (DWPALD_ERROR, None)
      | Some c \<Rightarrow>
          if \<not> out_given \<or> dc_nl80211_id c = -1 then (DWPALD_ERROR, None)
          else (DWPALD_SUCCESS, Some (dc_nl80211_id c)))"

definition dwpald_send_nl_command_to_daemon ::
  "'w ipc_client \<Rightarrow> u8 list \<Rightarrow> 'w \<Rightarrow> dwpald_ret \<times> wv_ipc_msg list \<times> 'w" where
  "dwpald_send_nl_command_to_daemon ipc nl_bytes w =
     (case ipc_alloc ipc w of
        (None, w1) \<Rightarrow> (DWPALD_ERROR, [], w1)
      | (Some m, w1) \<Rightarrow>
          (case dwpald_header_push (snd (wave_ipc_msg_fill_data (Some m) (Some nl_bytes) (length nl_bytes)))
                  \<lparr>h_magic = 0, h_bytes = [DWPALD_CMD, DWPALD_IF_TYPE_KERNEL, 0, 0, 0, 0]\<rparr> of
             (r, _, mp) \<Rightarrow>
               if r \<noteq> 0 then (DWPALD_ERROR, [], w1)
               else (case ipc_send_cmd ipc (the mp) w1 of
                       (WAVE_IPC_SUCCESS, ms, w2) \<Rightarrow> (DWPALD_SUCCESS, ms, w2)
                     | (WAVE_IPC_DISCONNECTED, _, w2) \<Rightarrow> (DWPALD_DISCONNECTED, [], w2)
                     | (_, _, w2) \<Rightarrow> (DWPALD_ERROR, [], w2))))"

text \<open>
  The loop over the messages of a reply: \<open>hdr\<close> is the header variable, \<open>res\<close> what was stored in
  \<open>*cmd_res\<close>.  The byte of the library's return code is read without its sign.
\<close>

type_synonym 'n nl_reply = "dwpald_ret \<times> 'n list \<times> int option"

fun nl_reply_loop ::
  "(wv_ipc_msg \<Rightarrow> 'n option) \<Rightarrow> u8 list \<Rightarrow> wv_ipc_msg list \<Rightarrow> 'n list \<Rightarrow> int option \<Rightarrow> 'n nl_reply option" where
  "nl_reply_loop nl_from hdr [] calls res = Some (if res = None then DWPALD_ERROR else DWPALD_SUCCESS, calls, res)"
| "nl_reply_loop nl_from hdr (m # ms) calls res =
     do { (r, hdr', ms1) \<leftarrow> pop_first hdr [m];
          if r \<noteq> 0 then Some (DWPALD_ERROR, calls, res)
          else if hdr' ! 2 \<noteq> 0
          then (case nl_from (hd ms1) of
                  None \<Rightarrow> Some (DWPALD_ERROR, calls, res)
                | Some nl \<Rightarrow> nl_reply_loop nl_from hdr' ms (calls @ [nl]) res)
          else if hdr' ! 4 \<noteq> 0
          then Some (dwpald_ret_from_dwpal_ret (uint (hdr' ! 4)), calls, res)
          else nl_reply_loop nl_from hdr' ms calls (Some (sint (hdr' ! 3))) }"

definition nl_single_reply ::
  "(wv_ipc_msg \<Rightarrow> 'n option) \<Rightarrow> bool \<Rightarrow> wv_ipc_msg list \<Rightarrow> 'n nl_reply option" where
  "nl_single_reply nl_from cb_given ms =
     do { (_, hdr, ms1) \<leftarrow> pop_first [0, 0, 0, 0, 0, 0] ms;
          if hdr ! 2 = 0
          then Some (if hdr ! 4 \<noteq> 0 then (dwpald_ret_from_dwpal_ret (uint (hdr ! 4)), [], None)
                     else (DWPALD_SUCCESS, [], Some (sint (hdr ! 3))))
          else if \<not> cb_given then Some (DWPALD_ERROR, [], None)
          else (case ms1 of
                  [] \<Rightarrow> Some (DWPALD_ERROR, [], None)
                | m # _ \<Rightarrow>
                    Some (case nl_from m of None \<Rightarrow> (DWPALD_ERROR, [], None) | Some nl \<Rightarrow> (DWPALD_SUCCESS, [nl], Some 0))) }"

definition dwpald_nl80211_cmd_send ::
  "'w ipc_client \<Rightarrow> (wv_ipc_msg \<Rightarrow> 'n option) \<Rightarrow> u8 list option \<Rightarrow> bool \<Rightarrow> bool \<Rightarrow> dwpald_connection option \<Rightarrow> 'w \<Rightarrow>
     ('n nl_reply \<times> 'w) option" where
  "dwpald_nl80211_cmd_send ipc nl_from msg cb_given res_given conn w =
     (case (msg, conn) of
        (Some nl_bytes, Some _) \<Rightarrow>
          if \<not> res_given then Some ((DWPALD_ERROR, [], None), w)
          else (case dwpald_send_nl_command_to_daemon ipc nl_bytes w of
                  (ret, ms, w1) \<Rightarrow>
                    if ret \<noteq> DWPALD_SUCCESS then Some ((ret, [], None), w1)
                    else if length ms > 1
                    then (if \<not> cb_given then Some ((DWPALD_ERROR, [], None), w1)
                          else map_option (\<lambda>res. (res, w1)) (nl_reply_loop nl_from [0, 0, 0, 0, 0, 0] ms [] None))
                    else map_option (\<lambda>res. (res, w1)) (nl_single_reply nl_from cb_given ms))
      | _ \<Rightarrow> Some ((DWPALD_ERROR, [], None), w))"

text \<open>\<open>vendor_data\<close> finds the vendor attribute of the reply; the pop of the header is not checked.\<close>

definition dwpald_drv_get ::
  "'w ipc_client \<Rightarrow> (wv_ipc_msg \<Rightarrow> 'n option) \<Rightarrow> ('n \<Rightarrow> u8 list option) \<Rightarrow> u8 list \<Rightarrow> u8 list option \<Rightarrow> bool \<Rightarrow> nat \<Rightarrow>
     dwpald_connection option \<Rightarrow> 'w \<Rightarrow> (dwpald_ret \<times> int option \<times> u8 list option \<times> 'w) option" where
  "dwpald_drv_get ipc nl_from vendor_data junk built args_given room conn w =
     (case (built, conn) of
        (Some nl_bytes, Some _) \<Rightarrow>
          if \<not> args_given \<or> room = 0 then Some (DWPALD_ERROR, None, None, w)
          else (case dwpald_send_nl_command_to_daemon ipc nl_bytes w of
                  (ret, ms, w1) \<Rightarrow>
                    if ret \<noteq> DWPALD_SUCCESS then Some (ret, None, None, w1)
                    else do {
                      (_, hdr, ms1) \<leftarrow> pop_first junk ms;
                      if hdr ! 2 = 0
                      then Some (if hdr ! 4 \<noteq> 0 then (dwpald_ret_from_dwpal_ret (uint (hdr ! 4)), None, None, w1)
                                 else (DWPALD_SUCCESS, Some (sint (hdr ! 3)), None, w1))
                      else Some (case ms1 of
                          [] \<Rightarrow> (DWPALD_ERROR, Some 0, None, w1)
                        | m # _ \<Rightarrow>
                            (case nl_from m of
                               None \<Rightarrow> (DWPALD_ERROR, Some 0, None, w1)
                             | Some nl \<Rightarrow>
                                 (case vendor_data nl of
                                    None \<Rightarrow> (DWPALD_ERROR, Some 0, None, w1)
                                  | Some dat \<Rightarrow> if length dat > room then (DWPALD_ERROR, Some 0, None, w1)
                                      else (DWPALD_SUCCESS, Some 0, Some dat, w1)))) })
      | _ \<Rightarrow> Some (DWPALD_ERROR, None, None, w))"

definition dwpald_drv_set ::
  "'w ipc_client \<Rightarrow> u8 list \<Rightarrow> u8 list option \<Rightarrow> bool \<Rightarrow> dwpald_connection option \<Rightarrow> 'w \<Rightarrow>
     (dwpald_ret \<times> int option \<times> 'w) option" where
  "dwpald_drv_set ipc junk built args_given conn w =
     (case (built, conn) of
        (Some nl_bytes, Some _) \<Rightarrow>
          if \<not> args_given then Some (DWPALD_ERROR, None, w)
          else (case dwpald_send_nl_command_to_daemon ipc nl_bytes w of
                  (ret, ms, w1) \<Rightarrow>
                    if ret \<noteq> DWPALD_SUCCESS then Some (ret, None, w1)
                    else do {
                      (_, hdr, _) \<leftarrow> pop_first junk ms;
                      Some (if hdr ! 4 \<noteq> 0 then (dwpald_ret_from_dwpal_ret (uint (hdr ! 4)), None, w1)
                            else (DWPALD_SUCCESS, Some (sint (hdr ! 3)), w1)) })
      | _ \<Rightarrow> Some (DWPALD_ERROR, None, w))"

definition dwpald_ieee80211_scan_dump ::
  "'w ipc_client \<Rightarrow> (wv_ipc_msg \<Rightarrow> 'n option) \<Rightarrow> u8 list option \<Rightarrow> bool \<Rightarrow> dwpald_connection option \<Rightarrow> 'w \<Rightarrow>
     ('n nl_reply \<times> 'w) option" where
  "dwpald_ieee80211_scan_dump ipc nl_from built args_given conn w =
     (if conn = None \<or> \<not> args_given \<or> built = None then Some ((DWPALD_ERROR, [], None), w)
      else dwpald_nl80211_cmd_send ipc nl_from built True True conn w)"

text \<open>
  Bytes as hexadecimal numbers between colons.  The buffer for the bytes has half the length of
  the text and 2; the result is None when more bytes than that are written, otherwise the return
  code and the bytes.
\<close>

definition SCAN_PARAM_STRING_LENGTH :: nat where "SCAN_PARAM_STRING_LENGTH = 64"

function hex_list :: "nat \<Rightarrow> cstr \<Rightarrow> u8 list \<Rightarrow> (rc \<times> u8 list) option" where
  "hex_list room s acc =
     (let chunk = takeWhile (\<lambda>c. c \<noteq> 58) s; temp = sint (of_int (strtoul chunk 16) :: u32)
      in if \<not> strtoul_to_end chunk \<or> temp < 0 \<or> temp > 255 then Some (1, [])
         else if length acc \<ge> room then None
         else if 58 \<in> set s then hex_list room (drop (length chunk + 1) s) (acc @ [of_int temp])
         else Some (0, acc @ [of_int temp]))"
  by pat_completeness auto
termination hex_list
  by (relation "measure (\<lambda>(room, s, acc). length s)") (auto dest: length_pos_if_in_set)

declare hex_list.simps [simp del]

definition parse_hex :: "cstr \<Rightarrow> (rc \<times> u8 list) option" where
  "parse_hex hex_str =
     (let s = take (strnlen_s hex_str SCAN_PARAM_STRING_LENGTH) hex_str in hex_list (length s div 2 + 2) s [])"

text \<open>
  The information elements of a scan request: the given ones and the mesh identifier, whose copy
  is given a room of \<open>meshid_len - 2\<close> bytes, a difference of the type \<open>size_t\<close>.  None in place
  of the elements when the given ones cannot be parsed.
\<close>

definition mesh_element :: "cstr \<Rightarrow> u8 list" where
  "mesh_element meshid =
     (let n = strnlen_s meshid SCAN_PARAM_STRING_LENGTH
      in memcpy_s ([114, of_nat n] @ replicate n 0) 2 ((n + 2 ^ 64 - 2) mod 2 ^ 64) (take n meshid))"

definition scan_elements :: "cstr \<Rightarrow> cstr \<Rightarrow> u8 list option option" where
  "scan_elements ies meshid =
     do { (r, bytes) \<leftarrow> (if ies = [] then Some (0, []) else parse_hex ies);
          let n = strnlen_s meshid SCAN_PARAM_STRING_LENGTH;
          Some (if r \<noteq> 0 then None
                else Some (bytes @ (if meshid = [] then [] else take n (mesh_element meshid)))) }"

section \<open>The request of an attachment\<close>

text \<open>The operation codes with the lengths that the requests give for them.\<close>

definition codes_ok :: "dwpald_hostap_event_with_id list \<Rightarrow> bool" where
  "codes_ok es \<longleftrightarrow> (\<forall>e \<in> set es. length (he_code e) = unat (he_code_len e))"

lemma codes_ok_Cons [simp]: "codes_ok (e # es) \<longleftrightarrow> length (he_code e) = unat (he_code_len e) \<and> codes_ok es"
  by (simp add: codes_ok_def)

lemma request_length_enc: "codes_ok es \<Longrightarrow> request_length es = length (hdr_enc (map he_code es))"
  by (induction es) auto

lemma write_codes_eq:
  assumes "codes_ok es" "length pre = written"
  shows "write_codes written es (pre @ replicate (request_length es + 1) 0) = pre @ hdr_enc (map he_code es) @ [0]"
  using assms
proof (induction es arbitrary: pre written)
  case Nil
  then show ?case by simp
next
  case (Cons e es)
  let ?n = "length (he_code e)" and ?z = "replicate (request_length es + 1) (0 :: u8)"
  have code: "of_nat ?n = he_code_len e" "unat (he_code_len e) = ?n" using Cons.prems(1) by auto
  have buf: "pre @ replicate (request_length (e # es) + 1) 0 = pre @ 0 # replicate ?n 0 @ ?z"
    using code(2) by (simp only: append_Cons [symmetric] replicate_Suc [symmetric] replicate_add [symmetric] request_length.simps
        append_assoc [symmetric]) (simp add: add.commute)
  have "splice ((pre @ 0 # replicate ?n 0 @ ?z)[written := he_code_len e]) (written + 1) (he_code e @ [0]) =
      (pre @ he_code_len e # he_code e) @ ?z"
    using Cons.prems(2) by (simp add: splice_def list_update_append)
  moreover have "sprintf_s (length (pre @ 0 # replicate ?n 0 @ ?z) - (written + 1)) (he_code e) = he_code e"
    using Cons.prems(2) by (simp add: sprintf_s_def)
  moreover have "write_codes (written + 1 + ?n) es ((pre @ he_code_len e # he_code e) @ ?z) =
      (pre @ he_code_len e # he_code e) @ hdr_enc (map he_code es) @ [0]"
    using Cons.prems by (intro Cons.IH) auto
  ultimately show ?case unfolding buf write_codes.simps Let_def using code(1) by simp
qed

text \<open>The field of 17 bytes that holds the name.\<close>

definition name_field :: "cstr \<Rightarrow> u8 list" where
  "name_field ifname = take IFNAMSIZ ifname @ replicate (IFNAMSIZ + 1 - length (take IFNAMSIZ ifname)) 0"

lemma name_field_length [simp]: "length (name_field ifname) = IFNAMSIZ + 1"
  by (simp add: name_field_def)

lemma hostap_request_eq:
  assumes "codes_ok es"
  shows "hostap_request ifname es = name_field ifname @ hdr_enc (map he_code es) @ [0]"
proof -
  let ?r = "request_length es + 1"
  have "strncpy_s (IFNAMSIZ + 1 + ?r) ifname IFNAMSIZ = take IFNAMSIZ ifname" by (simp add: strncpy_s_def min_less_iff_disj)
  moreover have "splice (replicate (IFNAMSIZ + 1 + ?r) 0) 0 (take IFNAMSIZ ifname @ [0]) = name_field ifname @ replicate ?r 0"
    by (simp add: splice_def name_field_def min_def flip: replicate_add replicate_Suc)
  ultimately show ?thesis
    using write_codes_eq [OF assms name_field_length] by (simp add: hostap_request_def Let_def)
qed

section \<open>What an event does\<close>

text \<open>
  The delivery of an event as the program sees it, without the layout of the message.
\<close>

definition hostap_delivery ::
  "cstr \<Rightarrow> cstr \<Rightarrow> u8 list option \<Rightarrow> nat \<Rightarrow> dwpald_connection \<Rightarrow> rc \<times> 'n client_call list \<times> dwpald_connection" where
  "hostap_delivery n op msg len c =
     (case find_attachment n (dc_hostap c) of
        None \<Rightarrow> (1, [], c)
      | Some a \<Rightarrow>
          let a1 = (case announced_state op of None \<Rightarrow> a | Some st \<Rightarrow> a\<lparr>ha_state := st\<rparr>);
              found = find (\<lambda>e. strncmp_eq (he_code e) op OPCODE_SIZE) (ha_events a)
          in ((if found = None \<and> announced_state op = None then 1 else 0),
              map (\<lambda>f. HostapClb f n op msg len) (copy_hostap_event a found MAX_NUM_CB_EVENTS),
              c\<lparr>dc_hostap := update_attachment n (\<lambda>_. a1) (dc_hostap c)\<rparr>))"

definition hostap_event_header :: "cstr \<Rightarrow> cstr \<Rightarrow> nat \<Rightarrow> u8 list" where
  "hostap_event_header n op len =
     [DWPALD_EVENT, DWPALD_IF_TYPE_HOSTAP] @
       wv_aligned_16_bit_assign [of_nat (length n), of_nat (length op), 0, 0] 2 (of_nat len)"

lemma low_byte [simp]: "(ucast (v AND 0xFF :: u16) :: u8) = ucast v"
proof -
  have m: "(0xFF :: u16) = mask 8" by (simp add: mask_eq_exp_minus_1)
  show ?thesis unfolding m by (rule bit_word_eqI) (auto simp only: bit_simps; simp)
qed

lemma hostap_event_header_bytes:
  assumes "length n < 256" "length op < 256" "len < 65536"
  shows "length (hostap_event_header n op len) = 6" "hostap_event_header n op len ! 0 = DWPALD_EVENT"
    "hostap_event_header n op len ! 1 = DWPALD_IF_TYPE_HOSTAP" "unat (hostap_event_header n op len ! 2) = length n"
    "unat (hostap_event_header n op len ! 3) = length op" "unat (wv_aligned_16_bit_fetch (hostap_event_header n op len) 4) = len"
  using assms by (simp_all add: hostap_event_header_def wv_aligned_16_bit_assign_def wv_aligned_16_bit_fetch_def
      unat_of_nat_u8 low_byte u16_bytes unat_of_nat_u16)

lemma copy_hostap_event_state [simp]: "copy_hostap_event (a\<lparr>ha_state := st\<rparr>) e k = copy_hostap_event a e k"
  by (cases e) (simp_all add: copy_hostap_event_def)

lemma receive_hostap_payload:
  assumes "length n \<le> IFNAMSIZ" "0 \<notin> set n" "op \<noteq> []" "length op < OPCODE_SIZE" "0 \<notin> set op"
    "msg_bytes m = n @ op @ rest" "length rest < 65536" "unat (m_data_len m) \<le> WAVE_IPC_BUFF_SIZE"
  shows "dwpald_receive_hostap_event m (hostap_event_header n op (length rest)) c =
    hostap_delivery n op (if rest = [] then None else Some rest) (length rest - 1) c"
proof -
  have len: "unat (m_data_len m) = length n + length op + length rest" using arg_cong [OF assms(6), of length] by (simp add: msg_bytes_def)
  have short: "length n < 256" "length op < 256" using assms(1,4) by (simp_all add: IFNAMSIZ_def OPCODE_SIZE_def)
  note h = hostap_event_header_bytes [OF short assms(7)]
  have "0 < unat (m_data_len m)" using len assms(3) by simp
  then have dat: "wave_ipc_msg_get_data (Some m) = Some (n @ op @ rest)" and sz: "wave_ipc_msg_get_size (Some m) = length n + length op + length rest"
    using len assms(6,8) by (auto simp: wave_ipc_msg_get_data_def wave_ipc_msg_get_size_def)
  have op: "length op \<noteq> 0" "\<not> length op > OPCODE_SIZE - 1" using assms(3,4) by auto
  have ev: "ha_events (case announced_state op of None \<Rightarrow> a | Some st \<Rightarrow> a\<lparr>ha_state := st\<rparr>) = ha_events a"
    "copy_hostap_event (case announced_state op of None \<Rightarrow> a | Some st \<Rightarrow> a\<lparr>ha_state := st\<rparr>) e k = copy_hostap_event a e k" for a e k
    by (simp_all split: option.split)
  show ?thesis
    using assms(1,2,5) op
    by (simp add: dwpald_receive_hostap_event_def hostap_delivery_def Let_def h dat sz ev cong: option.case_cong)
qed

end
