(* ===== verification/Client_State.thy ===== *)
theory Client_State
  imports Dwpald_Client
begin

text \<open>
  The state of the client library's connection: what every operation of daemon/dwpald_client.c
  keeps of it, for any behaviour of the daemon, and the library's own properties.
\<close>

section \<open>The header of a reply\<close>

lemma pop_first_with_header:
  assumes "hdr_stack m []" "length h = 6" "length junk = 6"
  shows "pop_first junk (with_dwpald_header h m # ms) = Some (0, h, m # ms)"
  using dwpald_header_roundtrip(1) [OF assms(1,2), of "\<lparr>h_magic = 0, h_bytes = junk\<rparr>"] assms(3) by (simp add: pop_first_def)

section \<open>The state of a connection\<close>

definition client_event_ok :: "dwpald_hostap_event_with_id \<Rightarrow> bool" where
  "client_event_ok e \<longleftrightarrow> he_code_len e \<noteq> 0 \<and> length (he_code e) \<le> unat (he_code_len e) \<and> he_clbs e \<noteq> []"

definition attachment_ok :: "dwpald_hostap_attachment \<Rightarrow> bool" where
  "attachment_ok a \<longleftrightarrow> length (ha_ifname a) \<le> IFNAMSIZ \<and> (\<forall>e \<in> set (ha_events a). client_event_ok e)"

definition drv_nl_ok :: "dwpald_drv_nl_attachment \<Rightarrow> bool" where
  "drv_nl_ok d \<longleftrightarrow> (\<forall>e \<in> set (dna_drv_events d). dn_clbs e \<noteq> [])"

definition conn_ok :: "dwpald_connection \<Rightarrow> bool" where
  "conn_ok c \<longleftrightarrow> distinct (map ha_ifname (dc_hostap c)) \<and> (\<forall>a \<in> set (dc_hostap c). attachment_ok a) \<and>
     (\<forall>d. dc_drv_nl c = Some d \<longrightarrow> drv_nl_ok d) \<and> -1 \<le> dc_nl80211_id c \<and> dc_nl80211_id c \<le> 255"

text \<open>What the program and the IPC client's listener do; the name of an interface has at most 16 characters.\<close>

datatype client_act =
    ConnectAct wv_ipc_ret
  | DisconnectAct
  | StartListenerAct wv_ipc_ret
  | StopListenerAct wv_ipc_ret
  | HostapAttachAct "cstr option" nat "dwpald_hostap_event list option" "nat option" bool u32
  | HostapDetachAct "cstr option" u32
  | NlDrvAttachAct nat "dwpald_driver_nl_event list option" "nat option" u32
  | EventAct "u8 list" wv_ipc_msg
  | ReconnectedAct
  | DisconnectedAct

definition act_allowed :: "client_act \<Rightarrow> bool" where
  "act_allowed act = (case act of HostapAttachAct (Some n) _ _ _ _ _ \<Rightarrow> length n \<le> IFNAMSIZ | _ \<Rightarrow> True)"

definition client_step ::
  "'w ipc_client \<Rightarrow> client_act \<Rightarrow> dwpald_connection option \<times> 'w \<Rightarrow> (dwpald_connection option \<times> 'w) option" where
  "client_step ipc act cw =
     (case cw of (conn, w) \<Rightarrow>
        (case act of
           ConnectAct r \<Rightarrow> Some (snd (dwpald_connect r conn), w)
         | DisconnectAct \<Rightarrow> Some (snd (snd (dwpald_disconnect conn)), w)
         | StartListenerAct r \<Rightarrow> Some (snd (dwpald_start_listener r conn), w)
         | StopListenerAct r \<Rightarrow> Some (snd (dwpald_stop_listener r conn), w)
         | HostapAttachAct n num evs common down i \<Rightarrow>
             map_option snd (dwpald_hostap_attach_ex_with_id ipc n num evs common down i conn w)
         | HostapDetachAct n i \<Rightarrow> map_option snd (dwpald_hostap_detach_with_id ipc n i conn w)
         | NlDrvAttachAct num evs cb i \<Rightarrow> map_option snd (dwpald_nl_drv_attach_with_id ipc num evs cb i conn w)
         | EventAct junk m \<Rightarrow>
             (case conn of
                None \<Rightarrow> Some (conn, w)
              | Some c \<Rightarrow> map_option (\<lambda>r. (Some (snd (snd r)), w)) (dwpald_event (\<lambda>_. None :: nat option) junk m c))
         | ReconnectedAct \<Rightarrow>
             (case conn of
                None \<Rightarrow> Some (conn, w)
              | Some c \<Rightarrow> map_option (\<lambda>r. (Some (fst (snd r)), snd (snd r))) (dwpald_reconnected ipc c w))
         | DisconnectedAct \<Rightarrow>
             (case conn of
                None \<Rightarrow> Some (conn, w)
              | Some c \<Rightarrow> Some (Some (fst (snd (dwpald_disconnected ipc c w))), snd (snd (dwpald_disconnected ipc c w))))))"

inductive client_reach :: "'w ipc_client \<Rightarrow> dwpald_connection option \<times> 'w \<Rightarrow> bool" for ipc where
  start: "client_reach ipc (None, w)"
| step: "client_reach ipc cw \<Longrightarrow> act_allowed act \<Longrightarrow> client_step ipc act cw = Some cw' \<Longrightarrow> client_reach ipc cw'"

lemma ifname_match [simp]:
  "length a \<le> IFNAMSIZ \<Longrightarrow> length b \<le> IFNAMSIZ \<Longrightarrow> strncmp_eq a b (Suc IFNAMSIZ) \<longleftrightarrow> a = b"
  by (rule strncmp_eq_short) simp_all

lemma find_attachment_Some: "find_attachment n as = Some a \<Longrightarrow> a \<in> set as"
  by (induction as) (auto simp: find_attachment_def split: if_splits)

lemma find_attachment_None:
  "find_attachment n as = None \<Longrightarrow> length n \<le> IFNAMSIZ \<Longrightarrow> \<forall>a \<in> set as. length (ha_ifname a) \<le> IFNAMSIZ \<Longrightarrow> n \<notin> ha_ifname ` set as"
  by (auto simp: find_attachment_def find_None_iff)

lemma update_attachment_names [simp]:
  "(\<And>a. ha_ifname (f a) = ha_ifname a) \<Longrightarrow> map ha_ifname (update_attachment n f as) = map ha_ifname as"
  by (induction as) auto

lemma update_attachment_all:
  "\<forall>a \<in> set as. P a \<Longrightarrow> (\<And>a. find_attachment n as = Some a \<Longrightarrow> P (f a)) \<Longrightarrow> a \<in> set (update_attachment n f as) \<Longrightarrow> P a"
  by (induction as) (auto simp: find_attachment_def split: if_splits)

lemma remove_attachment_set: "set (remove_attachment n as) \<subseteq> set as"
  by (induction as) auto

lemma remove_attachment_distinct: "distinct (map ha_ifname as) \<Longrightarrow> distinct (map ha_ifname (remove_attachment n as))"
proof (induction as)
  case (Cons a as)
  then show ?case using remove_attachment_set [of n as] by auto
qed simp

lemma free_events_ok:
  "\<forall>e \<in> set es. client_event_ok e \<Longrightarrow> \<forall>e \<in> set (dwpald_free_hostap_events_with_id es i). client_event_ok e"
  by (auto simp: dwpald_free_hostap_events_with_id_def client_event_ok_def)

lemma copy_events_ok:
  "\<forall>e \<in> set es. client_event_ok e \<Longrightarrow> \<forall>e \<in> set (snd (dwpald_copy_hostap_events es vs i)). client_event_ok e"
proof (induction es vs i rule: dwpald_copy_hostap_events.induct)
  case (2 dst v vs i)
  then show ?case using free_events_ok [of dst i]
    by (auto simp: client_event_ok_def strncpy_s_def dwpald_push_hostap_callback_def split: option.split)
qed simp

lemma add_event_ok:
  "add_to_hostap_event op n clb i fnd es = Some (f, es') \<Longrightarrow> \<forall>e \<in> set es. client_event_ok e \<Longrightarrow> \<forall>e \<in> set es'. client_event_ok e"
proof (induction es arbitrary: es')
  case (Cons e es)
  then show ?case
    by (auto simp: client_event_ok_def dwpald_push_hostap_callback_def Let_def split: if_splits)
qed simp

lemma add_loop_ok:
  "add_hostap_loop fnd es vs i = Some (r, es') \<Longrightarrow> \<forall>e \<in> set es. client_event_ok e \<Longrightarrow> \<forall>e \<in> set es'. client_event_ok e"
proof (induction fnd es vs i arbitrary: es' r rule: add_hostap_loop.induct)
  case (2 fnd es v vs i)
  have copy: "\<forall>e \<in> set (snd (dwpald_copy_hostap_events es [v] i)). client_event_ok e" using copy_events_ok 2 by blast
  show ?case
  proof (cases "add_to_hostap_event (case ev_op_code v of None \<Rightarrow> [] | Some s \<Rightarrow> s) (unat (ev_op_code_len v)) (ev_hapd_clb v) i fnd es")
    case None
    obtain r1 es1 where c: "dwpald_copy_hostap_events es [v] i = (r1, es1)" by fastforce
    have "r1 = 0 \<Longrightarrow> add_hostap_loop fnd es1 vs i = Some (r, es') \<Longrightarrow> \<forall>e \<in> set es'. client_event_ok e"
      using "2.IH"(1) [OF _ None c [symmetric]] "2.prems"(1) copy c by (auto split: if_splits)
    then show ?thesis using "2.prems"(1) copy None c by (simp split: if_splits)
  next
    case (Some fe)
    obtain f es1 where fe: "fe = (f, es1)" by fastforce
    have "\<forall>e \<in> set es1. client_event_ok e" using add_event_ok Some "2.prems"(2) unfolding fe by blast
    then show ?thesis using "2.IH"(2) "2.prems"(1) Some fe by (simp split: if_splits)
  qed
qed simp

lemma conn_ok_hostap:
  "conn_ok c \<Longrightarrow> distinct (map ha_ifname as) \<Longrightarrow> \<forall>a \<in> set as. attachment_ok a \<Longrightarrow> conn_ok (c\<lparr>dc_hostap := as\<rparr>)"
  by (simp add: conn_ok_def)

lemma conn_ok_update:
  assumes "conn_ok c" "\<And>a. ha_ifname (f a) = ha_ifname a" "\<And>a. find_attachment n (dc_hostap c) = Some a \<Longrightarrow> attachment_ok a \<Longrightarrow> attachment_ok (f a)"
  shows "conn_ok (c\<lparr>dc_hostap := update_attachment n f (dc_hostap c)\<rparr>)"
proof -
  have ok: "\<forall>a \<in> set (dc_hostap c). attachment_ok a" using assms(1) by (simp add: conn_ok_def)
  then have "\<forall>a \<in> set (update_attachment n f (dc_hostap c)). attachment_ok a"
    using update_attachment_all [OF ok, of n f] assms(3) find_attachment_Some by blast
  with assms(1,2) show ?thesis by (intro conn_ok_hostap) (simp_all add: conn_ok_def)
qed

lemma update_attachment_const:
  "find_attachment n as = Some b \<Longrightarrow> ha_ifname a = ha_ifname b \<Longrightarrow> map ha_ifname (update_attachment n (\<lambda>_. a) as) = map ha_ifname as"
  by (induction as) (auto simp: find_attachment_def split: if_splits)

lemma conn_ok_update_const:
  assumes "conn_ok c" "find_attachment n (dc_hostap c) = Some b" "ha_ifname a = ha_ifname b" "attachment_ok b \<Longrightarrow> attachment_ok a"
  shows "conn_ok (c\<lparr>dc_hostap := update_attachment n (\<lambda>_. a) (dc_hostap c)\<rparr>)"
proof -
  have ok: "\<forall>a \<in> set (dc_hostap c). attachment_ok a" using assms(1) by (simp add: conn_ok_def)
  then have "attachment_ok a" using assms(2,4) find_attachment_Some by blast
  then have "\<forall>x \<in> set (update_attachment n (\<lambda>_. a) (dc_hostap c)). attachment_ok x"
    using update_attachment_all [OF ok, of n "\<lambda>_. a"] by blast
  with assms(1) update_attachment_const [OF assms(2,3)] show ?thesis by (intro conn_ok_hostap) (simp_all add: conn_ok_def)
qed

lemma send_hostap_attach_name:
  "dwpald_send_hostap_attach ipc a w = Some (ret, a', w') \<Longrightarrow>
     ha_ifname a' = ha_ifname a \<and> ha_events a' = ha_events a \<and> ha_common_event a' = ha_common_event a"
  by (auto simp: dwpald_send_hostap_attach_def bind_eq_Some_conv split: if_splits)

lemma attachment_ok_state [simp]: "attachment_ok (a\<lparr>ha_state := st\<rparr>) \<longleftrightarrow> attachment_ok a"
  by (simp add: attachment_ok_def)

lemma attachment_ok_same: "attachment_ok a \<Longrightarrow> ha_ifname b = ha_ifname a \<Longrightarrow> ha_events b = ha_events a \<Longrightarrow> attachment_ok b"
  by (simp add: attachment_ok_def)

lemma add_to_attachment_ok:
  assumes "add_to_attachment ipc n evs i a c w = Some (ret, c', w')" "conn_ok c" "find_attachment n (dc_hostap c) = Some a"
  shows "conn_ok c'"
proof (cases "i = DEFAULT_ATTACH_ID")
  case True
  with assms show ?thesis by (simp add: add_to_attachment_def Let_def)
next
  case False
  with assms(1) obtain r es where es: "dwpald_add_hostap_events (ha_events a) evs i = Some (r, es)"
    and c': "c' = c\<lparr>dc_hostap := update_attachment n (\<lambda>a. a\<lparr>ha_events := es\<rparr>) (dc_hostap c)\<rparr>"
    by (auto simp: add_to_attachment_def Let_def simp: bind_eq_Some_conv split: if_splits)
  have "attachment_ok a" using assms(2,3) find_attachment_Some by (auto simp: conn_ok_def)
  then have "\<forall>e \<in> set es. client_event_ok e"
    using add_loop_ok [OF es [unfolded dwpald_add_hostap_events_def]] by (simp add: attachment_ok_def)
  then show ?thesis unfolding c' by (intro conn_ok_update [OF assms(2)]) (simp_all add: attachment_ok_def)
qed

lemma new_attachment_ok:
  assumes "new_attachment ipc n evs common down i c w = Some (ret, c', w')" "conn_ok c"
    "find_attachment n (dc_hostap c) = None" "length n \<le> IFNAMSIZ"
  shows "conn_ok c'"
proof -
  obtain r es where es: "dwpald_copy_hostap_events [] evs i = (r, es)" by fastforce
  then have es_ok: "\<forall>e \<in> set es. client_event_ok e" using copy_events_ok [of "[]" evs i] by simp
  have n: "n \<notin> ha_ifname ` set (dc_hostap c)"
    using assms(2-4) by (intro find_attachment_None) (auto simp: conn_ok_def attachment_ok_def)
  let ?a = "\<lparr>ha_ifname = strncpy_s (IFNAMSIZ + 1) n IFNAMSIZ, ha_common_event = common, ha_events = es,
      ha_state = INTERFACE_DWPAL_STATE_DISCONNECTED\<rparr>"
  have "c' = c \<or> (\<exists>a ret1 w1. dwpald_send_hostap_attach ipc ?a w = Some (ret1, a, w1) \<and> c' = c\<lparr>dc_hostap := dc_hostap c @ [a]\<rparr>)"
    using assms(1) by (auto simp: new_attachment_def es Let_def simp: bind_eq_Some_conv split: if_splits)
  then show ?thesis
  proof (elim disjE exE conjE)
    fix a ret1 w1
    assume s: "dwpald_send_hostap_attach ipc ?a w = Some (ret1, a, w1)" and c': "c' = c\<lparr>dc_hostap := dc_hostap c @ [a]\<rparr>"
    have a: "ha_ifname a = n" "ha_events a = es" using send_hostap_attach_name [OF s] assms(4) by simp_all
    then have "attachment_ok a" using es_ok assms(4) by (simp add: attachment_ok_def)
    then show ?thesis unfolding c' using assms(2) n a(1) by (intro conn_ok_hostap) (auto simp: conn_ok_def)
  qed (use assms(2) in simp)
qed

lemma detach_id_ok:
  assumes "detach_id ipc n i c w = Some (ret, c', w')" "conn_ok c"
  shows "conn_ok c'"
proof (cases "find_attachment n (dc_hostap c)")
  case None
  with assms show ?thesis by (simp add: detach_id_def)
next
  case (Some a)
  let ?es = "dwpald_free_hostap_events_with_id (ha_events a) i"
  have "attachment_ok a" using assms(2) Some find_attachment_Some by (auto simp: conn_ok_def)
  then have "\<forall>e \<in> set ?es. client_event_ok e" by (intro free_events_ok) (simp add: attachment_ok_def)
  then have upd: "conn_ok (c\<lparr>dc_hostap := update_attachment n (\<lambda>a. a\<lparr>ha_events := ?es\<rparr>) (dc_hostap c)\<rparr>)"
    using assms(2) by (intro conn_ok_update) (auto simp: attachment_ok_def)
  have rem: "conn_ok (c\<lparr>dc_hostap := remove_attachment n (dc_hostap c)\<rparr>)"
    using assms(2) remove_attachment_set [of n "dc_hostap c"]
    by (intro conn_ok_hostap remove_attachment_distinct) (auto simp: conn_ok_def)
  show ?thesis
    using assms(1) upd rem by (auto simp: detach_id_def Some Let_def simp: bind_eq_Some_conv split: if_splits)
qed

lemma free_driver_events_ok: "\<forall>e \<in> set (dwpald_free_driver_events_with_id es i). dn_clbs e \<noteq> []"
  by (simp add: dwpald_free_driver_events_with_id_def)

lemma copy_driver_events_ok:
  "\<forall>e \<in> set es. dn_clbs e \<noteq> [] \<Longrightarrow> \<forall>e \<in> set (snd (dwpald_copy_driver_events es vs i)). dn_clbs e \<noteq> []"
proof (induction es vs i rule: dwpald_copy_driver_events.induct)
  case (2 dst v vs i)
  then show ?case using free_driver_events_ok [of dst i] by (auto simp: dwpald_push_drv_callback_def)
qed simp

lemma add_driver_event_ok:
  "add_to_driver_event n clb i fnd es = Some (f, es') \<Longrightarrow> \<forall>e \<in> set es. dn_clbs e \<noteq> [] \<Longrightarrow> \<forall>e \<in> set es'. dn_clbs e \<noteq> []"
proof (induction es arbitrary: es')
  case (Cons e es)
  then show ?case by (auto simp: dwpald_push_drv_callback_def Let_def split: if_splits option.splits)
qed simp

lemma add_driver_loop_ok:
  "\<forall>e \<in> set es. dn_clbs e \<noteq> [] \<Longrightarrow> \<forall>e \<in> set (snd (add_driver_loop fnd es vs i)). dn_clbs e \<noteq> []"
proof (induction fnd es vs i rule: add_driver_loop.induct)
  case (2 fnd es v vs i)
  have copy: "\<forall>e \<in> set (snd (dwpald_copy_driver_events es [v] i)). dn_clbs e \<noteq> []" using copy_driver_events_ok "2.prems" by blast
  show ?case
  proof (cases "add_to_driver_event (ev_nl_id v) (ev_drv_clb v) i fnd es")
    case None
    obtain r1 es1 where c: "dwpald_copy_driver_events es [v] i = (r1, es1)" by fastforce
    then show ?thesis using "2.IH"(1) [OF None c [symmetric]] copy None by simp
  next
    case (Some fe)
    obtain f es1 where fe: "fe = (f, es1)" by fastforce
    have "\<forall>e \<in> set es1. dn_clbs e \<noteq> []" using add_driver_event_ok Some "2.prems" unfolding fe by blast
    then show ?thesis using "2.IH"(2) Some fe by simp
  qed
qed simp

lemma send_drv_nl_ok:
  "dwpald_send_drv_nl_attach ipc es c w = Some (ret, c', w') \<Longrightarrow> conn_ok c \<Longrightarrow> conn_ok c' \<and> dc_drv_nl c' = dc_drv_nl c"
  "dwpald_send_drv_nl_update_event ipc es c w = Some (ret, c', w') \<Longrightarrow> conn_ok c \<Longrightarrow> conn_ok c' \<and> dc_drv_nl c' = dc_drv_nl c"
proof -
  have "uint (v :: u8) \<le> 255" "- 1 \<le> uint v" for v using uint_lt2p [of v] order_trans [OF _ uint_ge_0 [of v], of "- 1"] by simp_all
  then show "dwpald_send_drv_nl_attach ipc es c w = Some (ret, c', w') \<Longrightarrow> conn_ok c \<Longrightarrow> conn_ok c' \<and> dc_drv_nl c' = dc_drv_nl c"
    "dwpald_send_drv_nl_update_event ipc es c w = Some (ret, c', w') \<Longrightarrow> conn_ok c \<Longrightarrow> conn_ok c' \<and> dc_drv_nl c' = dc_drv_nl c"
    by (auto simp: dwpald_send_drv_nl_attach_def dwpald_send_drv_nl_update_event_def conn_ok_def simp: bind_eq_Some_conv split: if_splits)
qed

lemma conn_ok_drv: "conn_ok c \<Longrightarrow> drv_nl_ok d \<Longrightarrow> conn_ok (c\<lparr>dc_drv_nl := Some d\<rparr>)"
  by (simp add: conn_ok_def)

lemma new_drv_nl_ok:
  assumes "new_drv_nl ipc evs cb i c w = Some (ret, c', w')" "conn_ok c"
  shows "conn_ok c'"
proof -
  obtain r es where es: "dwpald_copy_driver_events [] evs i = (r, es)" by fastforce
  then have "\<forall>e \<in> set es. dn_clbs e \<noteq> []" using copy_driver_events_ok [of "[]" evs i] by simp
  then have d: "drv_nl_ok \<lparr>dna_drv_events = es, dna_nl_event_cb = l\<rparr>" for l by (simp add: drv_nl_ok_def)
  show ?thesis
    using assms(1) send_drv_nl_ok(1) [OF _ assms(2)] assms(2) conn_ok_drv [OF _ d]
    by (fastforce simp: new_drv_nl_def es bind_eq_Some_conv split: if_splits)
qed

lemma add_to_drv_nl_ok:
  assumes "add_to_drv_nl ipc evs cb i d c w = Some (ret, c', w')" "conn_ok c" "dc_drv_nl c = Some d"
  shows "conn_ok c'"
proof -
  obtain r es where es: "(if evs \<noteq> [] then dwpald_add_driver_events (dna_drv_events d) evs i else (0, dna_drv_events d)) = (r, es)"
    by fastforce
  have "\<forall>e \<in> set (dna_drv_events d). dn_clbs e \<noteq> []" using assms(2,3) by (simp add: conn_ok_def drv_nl_ok_def)
  then have "\<forall>e \<in> set es. dn_clbs e \<noteq> []"
    using es add_driver_loop_ok [of "dna_drv_events d" False evs i] by (auto simp: dwpald_add_driver_events_def split: if_splits)
  then have d: "drv_nl_ok (d\<lparr>dna_drv_events := es\<rparr>)" "drv_nl_ok (d\<lparr>dna_drv_events := es, dna_nl_event_cb := l\<rparr>)" for l
    by (simp_all add: drv_nl_ok_def)
  let ?c1 = "c\<lparr>dc_drv_nl := Some (d\<lparr>dna_drv_events := es\<rparr>)\<rparr>"
  have c1: "conn_ok ?c1" by (rule conn_ok_drv [OF assms(2) d(1)])
  show ?thesis
  proof (cases "i = DEFAULT_ATTACH_ID \<or> r \<noteq> 0")
    case True
    with assms(1,2) c1 show ?thesis by (auto simp: add_to_drv_nl_def es split: if_splits)
  next
    case False
    let ?s = "if length es \<noteq> length (dna_drv_events d) then dwpald_send_drv_nl_update_event ipc es ?c1 w
        else Some (DWPALD_SUCCESS, ?c1, w)"
    obtain ret1 c2 w1 where s: "?s = Some (ret1, c2, w1)"
      using assms(1) False by (cases ?s) (auto simp: add_to_drv_nl_def es)
    have c': "c' = c2 \<or> (\<exists>l. c' = c2\<lparr>dc_drv_nl := Some (d\<lparr>dna_drv_events := es, dna_nl_event_cb := l\<rparr>)\<rparr>)"
      using assms(1) False unfolding add_to_drv_nl_def es Let_def s prod.case bind.bind_lunit
      by (simp split: if_splits option.splits) blast
    have "conn_ok c2" using s c1 send_drv_nl_ok(2) [of ipc es ?c1 w ret1 c2 w1, OF _ c1] by (auto split: if_splits)
    with c' conn_ok_drv [OF this d(2)] show ?thesis by blast
  qed
qed

lemma receive_hostap_ok:
  assumes "conn_ok c"
  shows "conn_ok (snd (snd (dwpald_receive_hostap_event m h c)))"
proof -
  have upd: "find_attachment n (dc_hostap c) = Some a \<Longrightarrow>
      conn_ok (c\<lparr>dc_hostap := update_attachment n (\<lambda>_. case st of None \<Rightarrow> a | Some s \<Rightarrow> a\<lparr>ha_state := s\<rparr>) (dc_hostap c)\<rparr>)" for n a st
    by (cases st) (simp_all add: conn_ok_update_const [OF assms])
  show ?thesis
    using assms upd by (simp add: dwpald_receive_hostap_event_def Let_def split: option.split)
qed

lemma dwpald_event_ok: "dwpald_event nl junk m c = Some (r, cs, c') \<Longrightarrow> conn_ok c \<Longrightarrow> conn_ok c'"
proof -
  assume e: "dwpald_event nl junk m c = Some (r, cs, c')" and c: "conn_ok c"
  have "c' = c \<or> (\<exists>m h. c' = snd (snd (dwpald_receive_hostap_event m h c :: rc \<times> 'a client_call list \<times> dwpald_connection)))"
    using e by (auto simp: dwpald_event_def bind_eq_Some_conv Let_def split: if_splits prod.splits) (metis snd_conv)
  with c receive_hostap_ok show ?thesis by auto
qed

lemma reconnect_loop_ok:
  "reconnect_loop ipc as w = Some (r, as', w') \<Longrightarrow> \<forall>a \<in> set as. attachment_ok a \<Longrightarrow>
     map ha_ifname as' = map ha_ifname as \<and> (\<forall>a \<in> set as'. attachment_ok a)"
proof (induction as arbitrary: w r as' w')
  case (Cons a as)
  obtain ret a1 w1 where s: "dwpald_send_hostap_attach ipc a w = Some (ret, a1, w1)"
    using Cons.prems(1) by (cases "dwpald_send_hostap_attach ipc a w") auto
  have a1: "ha_ifname a1 = ha_ifname a" "attachment_ok a1"
    using send_hostap_attach_name [OF s] attachment_ok_same [of a a1] Cons.prems(2) by auto
  show ?case
  proof (cases "ret = DWPALD_SUCCESS")
    case False
    with Cons.prems s a1 show ?thesis by auto
  next
    case True
    with Cons.prems(1) s obtain w2 as2 where "reconnect_loop ipc as w2 = Some (r, as2, w')" "as' = a1 # as2"
      by (auto simp: bind_eq_Some_conv Let_def)
    with Cons.IH Cons.prems(2) a1 show ?thesis by auto
  qed
qed simp

lemma disconnected_loop_ok:
  "\<forall>a \<in> set as. attachment_ok a \<Longrightarrow> map ha_ifname (fst (disconnected_loop ipc as w)) = map ha_ifname as \<and>
     (\<forall>a \<in> set (fst (disconnected_loop ipc as w)). attachment_ok a)"
  by (induction as arbitrary: w) (auto simp: Let_def case_prod_beta)

lemma dwpald_reconnected_ok:
  assumes "dwpald_reconnected ipc c w = Some (r, c', w')" "conn_ok c"
  shows "conn_ok c'"
proof -
  obtain r1 as w1 where l: "reconnect_loop ipc (dc_hostap c) w = Some (r1, as, w1)"
    using assms(1) by (cases "reconnect_loop ipc (dc_hostap c) w") (auto simp: dwpald_reconnected_def)
  have c1: "conn_ok (c\<lparr>dc_hostap := as\<rparr>)"
    using reconnect_loop_ok [OF l] assms(2) by (intro conn_ok_hostap) (simp_all add: conn_ok_def)
  have w: "dwpald_reconnected ipc c w = (if r1 \<noteq> 0 then Some (1, c\<lparr>dc_hostap := as\<rparr>, w1)
      else case dc_drv_nl c of None \<Rightarrow> Some (0, c\<lparr>dc_hostap := as\<rparr>, w1)
        | Some d \<Rightarrow> do { (ret, c2, w2) \<leftarrow> dwpald_send_drv_nl_attach ipc (dna_drv_events d) (c\<lparr>dc_hostap := as\<rparr>) w1;
                         Some (if ret \<noteq> DWPALD_SUCCESS then 1 else 0, c2, w2) })"
    by (simp add: dwpald_reconnected_def l Let_def)
  show ?thesis
  proof (cases "r1 \<noteq> 0 \<or> dc_drv_nl c = None")
    case True
    with assms(1) c1 show ?thesis unfolding w by (auto split: if_splits)
  next
    case False
    then obtain d where "dc_drv_nl c = Some d" "r1 = 0" by auto
    with assms(1) show ?thesis unfolding w by (auto simp: bind_eq_Some_conv dest: send_drv_nl_ok(1) [OF _ c1])
  qed
qed

lemma dwpald_disconnected_ok: "conn_ok c \<Longrightarrow> conn_ok (fst (snd (dwpald_disconnected ipc c w)))"
  using disconnected_loop_ok [of "dc_hostap c" ipc w]
  by (auto simp: dwpald_disconnected_def case_prod_beta conn_ok_def)

lemma client_step_ok:
  assumes "client_step ipc act (conn, w) = Some (conn', w')" "act_allowed act" "\<forall>c. conn = Some c \<longrightarrow> conn_ok c"
  shows "\<forall>c. conn' = Some c \<longrightarrow> conn_ok c"
proof (cases act)
  case (HostapAttachAct n num evs common down i)
  with assms show ?thesis
    using add_to_attachment_ok new_attachment_ok
    by (fastforce simp: client_step_def act_allowed_def dwpald_hostap_attach_ex_with_id_def bind_eq_Some_conv Let_def split: option.splits if_splits)
next
  case (HostapDetachAct n i)
  with assms show ?thesis
    using detach_id_ok
    by (fastforce simp: client_step_def dwpald_hostap_detach_with_id_def bind_eq_Some_conv split: option.splits if_splits)
next
  case (NlDrvAttachAct num evs cb i)
  with assms show ?thesis
    using add_to_drv_nl_ok new_drv_nl_ok
    by (fastforce simp: client_step_def dwpald_nl_drv_attach_with_id_def bind_eq_Some_conv Let_def split: option.splits if_splits)
next
  case (EventAct junk m)
  with assms show ?thesis
    by (auto simp: client_step_def split: option.splits dest!: dwpald_event_ok)
next
  case ReconnectedAct
  with assms show ?thesis
    by (auto simp: client_step_def split: option.splits dest!: dwpald_reconnected_ok)
next
  case DisconnectedAct
  with assms dwpald_disconnected_ok show ?thesis by (auto simp: client_step_def split: option.splits)
qed (use assms in \<open>auto simp: client_step_def dwpald_connect_def dwpald_disconnect_def dwpald_start_listener_def
    dwpald_stop_listener_def conn_ok_def split: option.splits if_splits\<close>)

section \<open>Properties\<close>

lemma client_reach_ok: "client_reach ipc cw \<Longrightarrow> \<forall>c. fst cw = Some c \<longrightarrow> conn_ok c"
proof (induction rule: client_reach.induct)
  case (step cw act cw')
  then show ?case using client_step_ok [of ipc act "fst cw" "snd cw" "fst cw'" "snd cw'"] by simp
qed simp

text \<open>
  C15. Whatever the daemon answers, the connection stays well formed: at most one attachment for an
  interface, no name longer than 16 characters, no event without a callback, no operation code
  longer than its length says, and the number of nl80211 is -1 or fits in a byte.
\<close>

theorem client_connection_wellformed:
  assumes "client_reach ipc (Some c, w)"
  shows "conn_ok c"
  using client_reach_ok [OF assms] by simp

definition ex_reply :: "u8 list \<Rightarrow> wv_ipc_msg" where
  "ex_reply h = with_dwpald_header h ex_msg"

definition ex_ipc :: "unit ipc_client" where
  "ex_ipc = \<lparr>ipc_alloc = (\<lambda>w. (Some ex_msg, w)),
     ipc_send_cmd = (\<lambda>m w. (WAVE_IPC_SUCCESS,
        [ex_reply [DWPALD_ATTACH_RESP, DWPALD_IF_TYPE_HOSTAP, INTERFACE_DWPAL_STATE_CONNECTED, 0, 0, 0]], w)),
     ipc_emulate = (\<lambda>sync m w. (WAVE_IPC_SUCCESS, w)), ipc_in_event_thread = (\<lambda>w. False)\<rparr>"

definition ex_client_event :: "string \<Rightarrow> nat \<Rightarrow> dwpald_hostap_event" where
  "ex_client_event op f = \<lparr>ev_op_code = Some (cbytes op), ev_op_code_len = of_nat (length op), ev_hapd_clb = Some f\<rparr>"

lemma ex_attach_reply:
  "dwpald_send_hostap_attach ex_ipc a w = Some (DWPALD_SUCCESS, a\<lparr>ha_state := INTERFACE_DWPAL_STATE_CONNECTED\<rparr>, w)"
  by (simp add: dwpald_send_hostap_attach_def dwpald_send_attach_cmd_def send_request_def ex_ipc_def ex_reply_def
      pop_first_with_header [OF ex_msg_stack])

theorem client_connection_wellformed_witness:
  "\<exists>c. client_reach ex_ipc (Some c, ()) \<and> map ha_ifname (dc_hostap c) = [cbytes ''wlan0''] \<and> conn_ok c"
proof -
  let ?act = "HostapAttachAct (Some (cbytes ''wlan0'')) 1 (Some [ex_client_event ''AP-DISABLED'' 5]) None False 3"
  let ?c = "\<lparr>dc_listener_running = False, dc_hostap = [], dc_drv_nl = None, dc_nl80211_id = -1\<rparr>"
  have s: "client_step ex_ipc (ConnectAct WAVE_IPC_SUCCESS) (None, ()) = Some (Some ?c, ())" "act_allowed (ConnectAct WAVE_IPC_SUCCESS)"
    by (simp_all add: client_step_def dwpald_connect_def act_allowed_def)
  have r1: "client_reach ex_ipc (Some ?c, ())" by (rule client_reach.step [OF client_reach.start s(2,1)])
  have "case client_step ex_ipc ?act (Some ?c, ()) of
      Some (Some c', u) \<Rightarrow> map ha_ifname (dc_hostap c') = [cbytes ''wlan0''] | _ \<Rightarrow> False"
    by (simp add: client_step_def dwpald_hostap_attach_ex_with_id_def new_attachment_def find_attachment_def ex_client_event_def
        ex_attach_reply strncpy_s_def cbytes_def IFNAMSIZ_def) (simp add: ex_ipc_def)
  then obtain c' where c': "client_step ex_ipc ?act (Some ?c, ()) = Some (Some c', ())" "map ha_ifname (dc_hostap c') = [cbytes ''wlan0'']"
    by (auto split: option.splits)
  have "act_allowed ?act" by code_simp
  from client_reach.step [OF r1 this c'(1)] have r2: "client_reach ex_ipc (Some c', ())" .
  show ?thesis by (rule exI [of _ c']) (simp only: r2 c'(2) client_connection_wellformed [OF r2])
qed

definition ex_conn :: "dwpald_hostap_clb_id list \<Rightarrow> dwpald_connection" where
  "ex_conn clbs = \<lparr>dc_listener_running = True,
     dc_hostap = [\<lparr>ha_ifname = [119], ha_common_event = None,
                    ha_events = [\<lparr>he_code = [65], he_code_len = 1, he_clbs = clbs\<rparr>],
                    ha_state = INTERFACE_DWPAL_STATE_CONNECTED\<rparr>],
     dc_drv_nl = None, dc_nl80211_id = -1\<rparr>"

definition registered :: "cstr \<Rightarrow> dwpald_hostap_attachment \<Rightarrow> dwpald_hostap_clb_id list" where
  "registered op a = concat (map he_clbs (filter (\<lambda>e. he_code e = op) (ha_events a)))"

lemma registered_free:
  "registered op (a\<lparr>ha_events := dwpald_free_hostap_events_with_id (ha_events a) i\<rparr>) = filter (\<lambda>cb. cb_id cb \<noteq> i) (registered op a)"
proof -
  have "concat (map he_clbs (filter (\<lambda>e. he_code e = op) (dwpald_free_hostap_events_with_id es i))) =
      filter (\<lambda>cb. cb_id cb \<noteq> i) (concat (map he_clbs (filter (\<lambda>e. he_code e = op) es)))" for es
    by (induction es) (auto simp: dwpald_free_hostap_events_with_id_def)
  then show ?thesis by (simp add: registered_def)
qed

lemma attachment_by_name:
  assumes "\<forall>a \<in> set as. length (ha_ifname a) \<le> IFNAMSIZ" "distinct (map ha_ifname as)" "length n \<le> IFNAMSIZ"
  shows "a \<in> set (update_attachment n f as) \<longleftrightarrow>
      (if \<exists>b \<in> set as. ha_ifname b = n \<and> a = f b then True else a \<in> set as \<and> ha_ifname a \<noteq> n)"
    "a \<in> set (remove_attachment n as) \<longleftrightarrow> a \<in> set as \<and> ha_ifname a \<noteq> n"
    "find_attachment n as = Some a \<longleftrightarrow> a \<in> set as \<and> ha_ifname a = n"
  using assms by (induction as) (auto simp: find_attachment_def image_iff)



text \<open>
  The flag that a callback is already registered is not cleared from one event to the next: when
  the first event that a program adds has its callback already, the callback of the second one is
  not registered, and the operation still succeeds.
\<close>

theorem second_callback_dropped:
  assumes "find (\<lambda>e. strncmp_eq (he_code e) op1 (unat n1)) es = Some e1" "\<exists>cb \<in> set (he_clbs e1). cb_fun cb = f1"
    "\<exists>e \<in> set es. strncmp_eq (he_code e) op2 (unat n2)"
  shows "dwpald_add_hostap_events es
      [\<lparr>ev_op_code = Some op1, ev_op_code_len = n1, ev_hapd_clb = f1\<rparr>,
       \<lparr>ev_op_code = Some op2, ev_op_code_len = n2, ev_hapd_clb = f2\<rparr>] i = Some (0, es)"
proof -
  have "find (\<lambda>e. strncmp_eq (he_code e) op n) xs = Some e \<Longrightarrow> fnd \<or> (\<exists>cb \<in> set (he_clbs e). cb_fun cb = f) \<Longrightarrow>
      add_to_hostap_event op n f i fnd xs = Some (True, xs)" for op n xs e f fnd
    by (induction xs) (auto split: if_splits)
  note same = this
  obtain e2 where e2: "find (\<lambda>e. strncmp_eq (he_code e) op2 (unat n2)) es = Some e2"
    using assms(3) by (cases "find (\<lambda>e. strncmp_eq (he_code e) op2 (unat n2)) es") (auto simp: find_None_iff)
  show ?thesis
    using same [OF assms(1), of False f1] same [OF e2, of True f2] assms(2) by (auto simp: dwpald_add_hostap_events_def)
qed

theorem second_callback_dropped_witness:
  "dwpald_add_hostap_events
     [\<lparr>he_code = [65], he_code_len = 1, he_clbs = [\<lparr>cb_fun = Some 7, cb_id = 2\<rparr>]\<rparr>,
      \<lparr>he_code = [66], he_code_len = 1, he_clbs = [\<lparr>cb_fun = Some 7, cb_id = 2\<rparr>]\<rparr>]
     [\<lparr>ev_op_code = Some [65], ev_op_code_len = 1, ev_hapd_clb = Some 7\<rparr>,
      \<lparr>ev_op_code = Some [66], ev_op_code_len = 1, ev_hapd_clb = Some 9\<rparr>] 3 =
   Some (0, [\<lparr>he_code = [65], he_code_len = 1, he_clbs = [\<lparr>cb_fun = Some 7, cb_id = 2\<rparr>]\<rparr>,
      \<lparr>he_code = [66], he_code_len = 1, he_clbs = [\<lparr>cb_fun = Some 7, cb_id = 2\<rparr>]\<rparr>])"
  by (rule second_callback_dropped [where ?e1.0 = "\<lparr>he_code = [65], he_code_len = 1, he_clbs = [\<lparr>cb_fun = Some 7, cb_id = 2\<rparr>]\<rparr>"])
    (simp_all add: strncmp_eq_def)

text \<open>
  C40. The buffer for the parsed bytes has room for half as many bytes as the text has characters, and
  two more, but every colon ends one, empty ones too: three colons or more overflow it.
\<close>

theorem parse_hex_overflows:
  assumes "3 \<le> n" "n \<le> SCAN_PARAM_STRING_LENGTH"
  shows "parse_hex (replicate n 58) = None"
proof -
  have chunk: "takeWhile (\<lambda>c. c \<noteq> 58) (replicate k (58 :: u8)) = []" for k by (cases k) simp_all
  have zero: "strtoul [] 16 = 0" "strtoul_to_end []"
    by (simp_all add: strtoul_def strto_def number_value_def digits_value_def hex_prefixed_def strtoul_to_end_def)
  have "length acc \<le> room \<Longrightarrow> room \<le> length acc + k \<Longrightarrow> hex_list room (replicate k 58) acc = None" for room k and acc :: "u8 list"
  proof (induction k arbitrary: acc)
    case 0
    then show ?case by (subst hex_list.simps) (simp add: zero)
  next
    case (Suc k)
    have "hex_list room (replicate k 58) (acc @ [0]) = None" if "length acc < room"
      using Suc.IH [of "acc @ [0]"] Suc.prems that by simp
    then show ?case using chunk [of "Suc k"] by (subst hex_list.simps) (simp add: zero Let_def)
  qed
  then have "hex_list (n div 2 + 2) (replicate n 58) [] = None" using assms(1) by simp
  then show ?thesis using assms(2) by (simp add: parse_hex_def strnlen_s_def min_absorb1)
qed

theorem parse_hex_overflows_witness: "parse_hex [58, 58, 58] = None"
proof -
  have "parse_hex (replicate 3 58) = None" by (rule parse_hex_overflows) (simp_all add: SCAN_PARAM_STRING_LENGTH_def)
  then show ?thesis by (simp add: numeral_3_eq_3)
qed

end
