(* ===== verification/Ipc_Client.thy ===== *)
theory Ipc_Client
  imports Ipc_Msg
begin

text \<open>
  The client of wv_ipc/wave_ipc_client.c: the commands it sends and waits for, with a listener
  thread or without one, the dispatch of what the server sends, the loss of the connection and
  its return.  What the operating system answers is an argument; a wait is the list of the
  answers it gets, and None when they are used up before it ends.  A reply of several messages
  is the list of its messages, as \<open>wave_ipc_multi_msg_append\<close> links them.
\<close>

section \<open>Data\<close>

record ipcc_response =
  rp_handle :: nat
  rp_seq_num :: u8
  rp_status :: cmd_response_status
  rp_response :: "wv_ipc_msg list"

text \<open>\<open>li_events_serializer\<close> and the flags for the callbacks tell whether the pointers are given.\<close>

record listener_thread_data =
  li_terminate :: bool
  li_cmd_clb :: bool
  li_reconnect_clb :: bool
  li_events_serializer :: bool
  li_resp_list :: "ipcc_response list"

record wv_ipclient =
  ic_socket :: "nat option"
  ic_is_connected :: bool
  ic_is_after_reconnect :: bool
  ic_cmd_seq_num :: u8
  ic_disconnect_clb :: bool
  ic_listener :: "listener_thread_data option"
  ic_queued_msgs :: "wv_ipc_msg list"

text \<open>
  What the code does besides changing its state: it gives messages back to the pool, hands them to
  the serializer of the events or to a callback, calls the other callbacks, and writes to the socket.
  A message that nothing refers to any more is lost.
\<close>

datatype ipcc_call =
    GiveBack wv_ipc_msg
  | PushEvent wv_ipc_msg
  | CallEvent wv_ipc_msg
  | CallCmd u8 wv_ipc_msg
  | CallDisconnect
  | CallReconnect
  | Write "u8 list"
  | Lose wv_ipc_msg

definition WAVE_IPC_EVENT_TAKE_OWNERSHIP :: int where "WAVE_IPC_EVENT_TAKE_OWNERSHIP = 0x8000"

section \<open>The connection\<close>

text \<open>\<open>connect\<close> succeeds, finds nobody who listens, or fails.\<close>

datatype connect_answer = Connected | Refused | ConnectError

definition wave_ipcc_connection_attempt :: "connect_answer \<Rightarrow> wv_ipclient \<Rightarrow> wv_ipc_ret \<times> wv_ipclient" where
  "wave_ipcc_connection_attempt ans c =
     (case ans of
        Connected \<Rightarrow> (WAVE_IPC_SUCCESS, c\<lparr>ic_is_connected := True\<rparr>)
      | Refused \<Rightarrow> (WAVE_IPC_DISCONNECTED, c)
      | ConnectError \<Rightarrow> (WAVE_IPC_ERROR, c))"

text \<open>\<open>wave_ipcc_socket_init\<close> closes the socket; \<open>sock\<close> is the new one, None when there is none.\<close>

definition wave_ipcc_socket_init :: "nat option \<Rightarrow> wv_ipclient \<Rightarrow> wv_ipc_ret \<times> wv_ipclient" where
  "wave_ipcc_socket_init sock c =
     (if sock = None then WAVE_IPC_ERROR else WAVE_IPC_SUCCESS, c\<lparr>ic_socket := sock\<rparr>)"

definition wave_ipcc_connect ::
  "bool \<Rightarrow> bool \<Rightarrow> nat option \<Rightarrow> connect_answer \<Rightarrow> wv_ipc_ret \<times> wv_ipclient option" where
  "wave_ipcc_connect handle_null names_given sock ans =
     (if \<not> handle_null \<or> \<not> names_given then (WAVE_IPC_ERROR, None)
      else let c = \<lparr>ic_socket = None, ic_is_connected = False, ic_is_after_reconnect = False, ic_cmd_seq_num = 0,
                     ic_disconnect_clb = False, ic_listener = None, ic_queued_msgs = []\<rparr>;
               (r1, c1) = wave_ipcc_socket_init sock c;
               (r2, c2) = wave_ipcc_connection_attempt ans c1
           in if r1 \<noteq> WAVE_IPC_SUCCESS \<or> r2 = WAVE_IPC_ERROR then (WAVE_IPC_ERROR, None)
              else (r2, Some (if r2 = WAVE_IPC_SUCCESS then c2\<lparr>ic_is_after_reconnect := True\<rparr> else c2)))"

definition wave_ipcc_disconnect ::
  "wv_ipc_ret \<Rightarrow> wv_ipclient option \<Rightarrow> wv_ipc_ret \<times> ipcc_call list \<times> wv_ipclient option" where
  "wave_ipcc_disconnect deinit_ret handle =
     (case handle of
        None \<Rightarrow> (WAVE_IPC_ERROR, [], None)
      | Some c \<Rightarrow> (deinit_ret, map GiveBack (ic_queued_msgs c), None))"

section \<open>Waiting for a message\<close>

text \<open>
  One round of the loop of \<open>ipcc_wait_for_message\<close>: the answer to a connection attempt, or what
  \<open>select\<close> reports and, when the socket is readable, what \<open>wave_ipc_recv_msg\<close> returns and the
  socket made after an error.
\<close>

datatype wait_answer =
    Attempt connect_answer
  | SelectEintr
  | SelectError
  | SelectTimeout
  | SelectPipe
  | SelectSocket wv_ipc_ret "wv_ipc_msg option" "nat option"

datatype wait_result = WaitAgain | WaitFailed | WaitGot "wv_ipc_msg option"

definition wait_step ::
  "bool \<Rightarrow> wait_answer \<Rightarrow> wv_ipclient \<Rightarrow> wait_result \<times> ipcc_call list \<times> wv_ipclient" where
  "wait_step reconnect_clb ans c =
     (if \<not> ic_is_connected c
      then (case ans of
              Attempt a \<Rightarrow>
                (case wave_ipcc_connection_attempt a c of
                   (WAVE_IPC_ERROR, c1) \<Rightarrow> (WaitFailed, [], c1)
                 | (WAVE_IPC_SUCCESS, c1) \<Rightarrow>
                     (WaitAgain, if reconnect_clb then [CallReconnect] else [], c1\<lparr>ic_is_after_reconnect := True\<rparr>)
                 | (_, c1) \<Rightarrow> (WaitAgain, [], c1))
            | _ \<Rightarrow> (WaitAgain, [], c))
      else (case ans of
              SelectError \<Rightarrow> (WaitFailed, [], c)
            | SelectSocket r mp sock \<Rightarrow>
                if r \<noteq> WAVE_IPC_SUCCESS
                then (let c1 = c\<lparr>ic_is_connected := False, ic_is_after_reconnect := False\<rparr>;
                          (r2, c2) = wave_ipcc_socket_init sock c1
                      in if r2 \<noteq> WAVE_IPC_SUCCESS then (WaitFailed, [], c2)
                         else (WaitAgain, if ic_disconnect_clb c then [CallDisconnect] else [], c2))
                else (WaitGot mp, [], c)
            | SelectPipe \<Rightarrow>
                (case ic_listener c of
                   Some l \<Rightarrow> if \<not> li_terminate l then (WaitAgain, [], c) else (WaitFailed, [], c)
                 | None \<Rightarrow> (WaitFailed, [], c))
            | _ \<Rightarrow> (WaitAgain, [], c)))"

text \<open>Every answer comes with the value of \<open>term_cond\<close> and of the listener's flag in that round.\<close>

definition waits_on :: "bool \<Rightarrow> wv_ipclient \<Rightarrow> bool" where
  "waits_on stop c \<longleftrightarrow> (case ic_listener c of None \<Rightarrow> \<not> stop | Some l \<Rightarrow> \<not> li_terminate l)"

fun ipcc_wait_for_message ::
  "bool \<Rightarrow> (bool \<times> wait_answer) list \<Rightarrow> wv_ipclient \<Rightarrow>
     (wv_ipc_ret \<times> wv_ipc_msg option \<times> ipcc_call list \<times> wv_ipclient) option" where
  "ipcc_wait_for_message reconnect_clb [] c = None"
| "ipcc_wait_for_message reconnect_clb ((stop, ans) # as) c =
     (if \<not> waits_on stop c then Some (WAVE_IPC_ERROR, None, [], c)
      else (case wait_step reconnect_clb ans c of
              (WaitAgain, cs, c1) \<Rightarrow>
                map_option (\<lambda>(r, m, cs', c2). (r, m, cs @ cs', c2)) (ipcc_wait_for_message reconnect_clb as c1)
            | (WaitFailed, cs, c1) \<Rightarrow> Some (WAVE_IPC_ERROR, None, cs, c1)
            | (WaitGot m, cs, c1) \<Rightarrow> Some (WAVE_IPC_SUCCESS, m, cs, c1)))"

section \<open>Responses\<close>

text \<open>
  The response to a waiting command: the listener, whether the waiting threads are woken, and the
  messages that are given back.
\<close>

fun add_response :: "u8 list \<Rightarrow> wv_ipc_msg \<Rightarrow> ipcc_response list \<Rightarrow> (ipcc_response list \<times> wv_ipc_msg list) option" where
  "add_response h resp [] = None"
| "add_response h resp (p # ps) =
     (if rp_seq_num p = h ! 1
      then Some (if h ! 0 = type_code WAVE_IPC_MSG_RESP
                 then (p\<lparr>rp_status := (if h ! 2 = 0 then RESP_SUCCESS else rp_status p),
                         rp_response := rp_response p @ [resp]\<rparr> # ps, [])
                 else (p\<lparr>rp_status := RESP_FAILURE, rp_response := [resp]\<rparr> # ps, rp_response p))
      else map_option (\<lambda>(ps', back). (p # ps', back)) (add_response h resp ps))"

definition ipcc_handle_response_from_listener_ctx ::
  "wv_ipc_msg \<Rightarrow> u8 list \<Rightarrow> listener_thread_data \<Rightarrow> bool \<times> ipcc_call list \<times> listener_thread_data" where
  "ipcc_handle_response_from_listener_ctx resp h l =
     (case add_response h resp (li_resp_list l) of
        None \<Rightarrow> (False, [GiveBack resp], l)
      | Some (ps, back) \<Rightarrow>
          (\<not> (h ! 0 = type_code WAVE_IPC_MSG_RESP \<and> h ! 2 \<noteq> 0), map GiveBack back, l\<lparr>li_resp_list := ps\<rparr>))"

section \<open>What a client sends besides commands\<close>

definition wave_ipcc_send_response ::
  "send_result \<Rightarrow> u8 \<Rightarrow> wv_ipc_msg option \<Rightarrow> u8 \<Rightarrow> wv_ipclient option \<Rightarrow> wv_ipc_ret \<times> ipcc_call list" where
  "wave_ipcc_send_response res sq reply has_more handle =
     (case (handle, reply) of
        (Some c, Some m) \<Rightarrow>
          if ic_socket c = None then (WAVE_IPC_ERROR, [])
          else (case ipc_header_push (Some m) \<lparr>h_magic = 0, h_bytes = [type_code WAVE_IPC_MSG_RESP, sq, has_more, 0]\<rparr> of
                  (r, _, mp) \<Rightarrow>
                    if r \<noteq> 0 then (WAVE_IPC_ERROR, [])
                    else (case wave_ipc_send_msg res True mp of (ret, bytes) \<Rightarrow> (ret, [Write bytes])))
      | _ \<Rightarrow> (WAVE_IPC_ERROR, []))"

definition wave_ipcc_send_req_failed ::
  "send_result \<Rightarrow> wv_ipc_msg option \<Rightarrow> u8 \<Rightarrow> wv_ipclient option \<Rightarrow> wv_ipc_ret \<times> ipcc_call list" where
  "wave_ipcc_send_req_failed res fresh sq handle =
     (case handle of
        None \<Rightarrow> (WAVE_IPC_ERROR, [])
      | Some c \<Rightarrow>
          if ic_socket c = None then (WAVE_IPC_ERROR, [])
          else (case fresh of
                  None \<Rightarrow> (WAVE_IPC_ERROR, [])
                | Some m \<Rightarrow>
                    (case ipc_header_push (Some m) \<lparr>h_magic = 0, h_bytes = [type_code WAVE_IPC_MSG_REQ_FAIL, sq, 0, 0]\<rparr> of
                       (r, _, mp) \<Rightarrow>
                         if r \<noteq> 0 then (WAVE_IPC_ERROR, [GiveBack m])
                         else (case wave_ipc_send_msg res True mp of
                                 (ret, bytes) \<Rightarrow> (ret, [Write bytes, GiveBack (the mp)])))))"

section \<open>Dispatch\<close>

text \<open>
  What the callbacks and the serializer answer: the results of the event callback and of the
  command callback, whether the serializer takes the event, and what sending a failure meets.
\<close>

record dispatch_answers =
  da_event_ret :: int
  da_cmd_ret :: int
  da_push_ok :: bool
  da_send :: send_result
  da_fresh :: "wv_ipc_msg option"

definition run_cmd_clb :: "dispatch_answers \<Rightarrow> wv_ipclient \<Rightarrow> u8 \<Rightarrow> wv_ipc_msg \<Rightarrow> ipcc_call list" where
  "run_cmd_clb d c sq msg =
     (if da_cmd_ret d = WAVE_IPC_EVENT_TAKE_OWNERSHIP then [CallCmd sq msg]
      else [CallCmd sq msg] @
           (if da_cmd_ret d \<noteq> 0 then snd (wave_ipcc_send_req_failed (da_send d) (da_fresh d) sq (Some c)) else []) @
           [GiveBack msg])"

text \<open>
  The body of \<open>ipcc_listener\<close> for a message, from the server or from the queue, whose header is
  popped into \<open>junk\<close>.  None when the pop does not return.
\<close>

definition listener_dispatch ::
  "dispatch_answers \<Rightarrow> u8 list \<Rightarrow> wv_ipc_msg \<Rightarrow> listener_thread_data \<Rightarrow> wv_ipclient \<Rightarrow>
     (ipcc_call list \<times> wv_ipclient) option" where
  "listener_dispatch d junk msg l c =
     do { (r, hdr, mp) \<leftarrow> ipc_header_pop (Some msg) \<lparr>h_magic = 0, h_bytes = junk\<rparr>;
          m \<leftarrow> mp;
          let h = h_bytes hdr;
          if r \<noteq> 0 then Some ([GiveBack m], c)
          else if h ! 0 = type_code WAVE_IPC_MSG_EVENT
          then Some (if li_events_serializer l
                     then (if da_push_ok d then [PushEvent m] else [GiveBack m])
                     else [CallEvent m] @ (if da_event_ret d \<noteq> WAVE_IPC_EVENT_TAKE_OWNERSHIP then [GiveBack m] else []), c)
          else if h ! 0 = type_code WAVE_IPC_MSG_REQ_FAIL \<or> h ! 0 = type_code WAVE_IPC_MSG_RESP
          then (case ipcc_handle_response_from_listener_ctx m h l of
                  (_, cs, l1) \<Rightarrow> Some (cs, c\<lparr>ic_listener := Some l1\<rparr>))
          else if h ! 0 = type_code WAVE_IPC_MSG_CMD
          then Some (if \<not> li_cmd_clb l then [GiveBack m] else run_cmd_clb d c (h ! 1) m, c)
          else Some ([GiveBack m], c) }"

text \<open>The same for \<open>wave_ipcc_blocked_event_listener\<close>, which has no listener and expects no responses.\<close>

definition blocked_dispatch ::
  "dispatch_answers \<Rightarrow> u8 list \<Rightarrow> wv_ipc_msg \<Rightarrow> bool \<Rightarrow> wv_ipclient \<Rightarrow> ipcc_call list option" where
  "blocked_dispatch d junk msg cmd_clb c =
     do { (r, hdr, mp) \<leftarrow> ipc_header_pop (Some msg) \<lparr>h_magic = 0, h_bytes = junk\<rparr>;
          m \<leftarrow> mp;
          let h = h_bytes hdr;
          if r \<noteq> 0 then Some [GiveBack m]
          else if h ! 0 = type_code WAVE_IPC_MSG_EVENT
          then Some ([CallEvent m] @ (if da_event_ret d \<noteq> WAVE_IPC_EVENT_TAKE_OWNERSHIP then [GiveBack m] else []))
          else if h ! 0 = type_code WAVE_IPC_MSG_CMD
          then Some (if \<not> cmd_clb then [GiveBack m] else run_cmd_clb d c (h ! 1) m)
          else Some [GiveBack m] }"

text \<open>
  One turn of the two loops: a queued message first, then what arrives.  The flag tells whether the
  loop goes on.
\<close>

definition next_message ::
  "bool \<Rightarrow> (bool \<times> wait_answer) list \<Rightarrow> wv_ipclient \<Rightarrow>
     (wv_ipc_ret \<times> wv_ipc_msg option \<times> ipcc_call list \<times> wv_ipclient) option" where
  "next_message reconnect_clb answers c =
     (case ic_queued_msgs c of
        m # ms \<Rightarrow> Some (WAVE_IPC_SUCCESS, Some m, [], c\<lparr>ic_queued_msgs := ms\<rparr>)
      | [] \<Rightarrow> ipcc_wait_for_message reconnect_clb answers c)"

definition ipcc_listener ::
  "dispatch_answers \<Rightarrow> u8 list \<Rightarrow> (bool \<times> wait_answer) list \<Rightarrow> wv_ipclient \<Rightarrow>
     (bool \<times> ipcc_call list \<times> wv_ipclient) option" where
  "ipcc_listener d junk answers c =
     (case ic_listener c of
        None \<Rightarrow> None
      | Some l \<Rightarrow>
          if li_terminate l then Some (False, [], c\<lparr>ic_disconnect_clb := False\<rparr>)
          else do {
            (r, mp, cs, c1) \<leftarrow> next_message (li_reconnect_clb l) answers c;
            if r = WAVE_IPC_ERROR then Some (False, cs, c1\<lparr>ic_disconnect_clb := False\<rparr>)
            else do { m \<leftarrow> mp; l1 \<leftarrow> ic_listener c1;
                      (cs', c2) \<leftarrow> listener_dispatch d junk m l1 c1;
                      Some (True, cs @ cs', c2) } })"

definition wave_ipcc_blocked_event_listener ::
  "dispatch_answers \<Rightarrow> u8 list \<Rightarrow> bool \<Rightarrow> (bool \<times> wait_answer) list \<Rightarrow> bool \<Rightarrow> bool \<Rightarrow> wv_ipclient \<Rightarrow>
     (wv_ipc_ret option \<times> ipcc_call list \<times> wv_ipclient) option" where
  "wave_ipcc_blocked_event_listener d junk stop answers cmd_clb reconnect_clb c =
     (if stop then Some (Some WAVE_IPC_SUCCESS, [], c\<lparr>ic_disconnect_clb := False\<rparr>)
      else do {
        (r, mp, cs, c1) \<leftarrow> next_message reconnect_clb answers c;
        if r = WAVE_IPC_ERROR then Some (Some r, cs, c1)
        else do { m \<leftarrow> mp; cs' \<leftarrow> blocked_dispatch d junk m cmd_clb c1; Some (None, cs @ cs', c1) } })"

definition wave_ipcc_emulate_event ::
  "dispatch_answers \<Rightarrow> wv_ipclient option \<Rightarrow> bool \<Rightarrow> wv_ipc_msg option \<Rightarrow> wv_ipc_ret \<times> ipcc_call list" where
  "wave_ipcc_emulate_event d handle sync msg =
     (case msg of
        None \<Rightarrow> (WAVE_IPC_ERROR, [])
      | Some m \<Rightarrow>
          (case handle \<bind> ic_listener of
             None \<Rightarrow> (WAVE_IPC_ERROR, [GiveBack m])
           | Some l \<Rightarrow>
               if li_events_serializer l
               then (if da_push_ok d then (WAVE_IPC_SUCCESS, [PushEvent m]) else (WAVE_IPC_ERROR, [GiveBack m]))
               else if \<not> sync then (WAVE_IPC_ERROR, [GiveBack m])
               else (WAVE_IPC_SUCCESS,
                     [CallEvent m] @ (if da_event_ret d \<noteq> WAVE_IPC_EVENT_TAKE_OWNERSHIP then [GiveBack m] else []))))"

section \<open>The listener thread\<close>

definition wave_ipcc_start_listener ::
  "bool \<Rightarrow> bool \<Rightarrow> bool \<Rightarrow> bool \<Rightarrow> bool \<Rightarrow> bool \<Rightarrow> bool \<Rightarrow> wv_ipclient option \<Rightarrow> wv_ipc_ret \<times> wv_ipclient option" where
  "wave_ipcc_start_listener event_clb cmd_clb disc_clb reconnect_clb use_events_thread mem_ok thread_ok handle =
     (case handle of
        None \<Rightarrow> (WAVE_IPC_ERROR, None)
      | Some c \<Rightarrow>
          if \<not> event_clb \<or> ic_listener c \<noteq> None \<or> \<not> mem_ok then (WAVE_IPC_ERROR, handle)
          else (let c1 = c\<lparr>ic_disconnect_clb := disc_clb\<rparr>
                in if \<not> thread_ok then (WAVE_IPC_ERROR, Some c1)
                   else (WAVE_IPC_SUCCESS,
                         Some (c1\<lparr>ic_listener := Some \<lparr>li_terminate = False, li_cmd_clb = cmd_clb,
                                    li_reconnect_clb = reconnect_clb, li_events_serializer = use_events_thread,
                                    li_resp_list = []\<rparr>\<rparr>))))"

definition ipcc_terminate :: "wv_ipclient \<Rightarrow> wv_ipclient" where
  "ipcc_terminate c = c\<lparr>ic_listener := map_option (\<lambda>l. l\<lparr>li_terminate := True\<rparr>) (ic_listener c)\<rparr>"

definition wave_ipcc_stop_listener :: "bool \<Rightarrow> wv_ipclient option \<Rightarrow> wv_ipc_ret \<times> wv_ipclient option" where
  "wave_ipcc_stop_listener join_ok handle =
     (case handle of
        None \<Rightarrow> (WAVE_IPC_ERROR, None)
      | Some c \<Rightarrow>
          if ic_listener c = None then (WAVE_IPC_ERROR, handle)
          else if \<not> join_ok then (WAVE_IPC_ERROR, Some (ipcc_terminate c))
          else (WAVE_IPC_SUCCESS, Some ((ipcc_terminate c)\<lparr>ic_listener := None, ic_disconnect_clb := False\<rparr>)))"

definition wv_ipcc_is_event_thread :: "bool \<Rightarrow> wv_ipclient option \<Rightarrow> bool" where
  "wv_ipcc_is_event_thread in_serializer handle =
     (case handle \<bind> ic_listener of None \<Rightarrow> False | Some l \<Rightarrow> li_events_serializer l \<and> in_serializer)"

section \<open>Commands\<close>

text \<open>
  With a listener, a command puts a handle in front of the list, writes the message and waits; the
  result of this step is the return code, or the handle that the thread waits with.  \<open>h\<close> is the
  address of the handle, and the connection is the one after the attempts to see it up.
\<close>

datatype cmd_wait = CmdOver wv_ipc_ret | CmdWaits nat

definition set_listener :: "listener_thread_data \<Rightarrow> wv_ipclient \<Rightarrow> wv_ipclient" where
  "set_listener l c = c\<lparr>ic_listener := Some l\<rparr>"

definition remove_handle :: "nat \<Rightarrow> ipcc_response list \<Rightarrow> ipcc_response list" where
  "remove_handle h ps = filter (\<lambda>p. rp_handle p \<noteq> h) ps"

definition send_cmd_listener_begin ::
  "nat option \<Rightarrow> send_result \<Rightarrow> u8 \<Rightarrow> wv_ipc_msg \<Rightarrow> listener_thread_data \<Rightarrow> wv_ipclient \<Rightarrow>
     cmd_wait \<times> ipcc_call list \<times> wv_ipclient" where
  "send_cmd_listener_begin hp res sq cmd l c =
     (if \<not> ic_is_connected c \<or> ic_socket c = None then (CmdOver WAVE_IPC_DISCONNECTED, [], c)
      else case hp of
        None \<Rightarrow> (CmdOver WAVE_IPC_ERROR, [], c)
      | Some h \<Rightarrow>
          let p = \<lparr>rp_handle = h, rp_seq_num = sq, rp_status = RESP_NONE, rp_response = []\<rparr>;
              l1 = l\<lparr>li_resp_list := p # li_resp_list l\<rparr>
          in (case wave_ipc_send_msg res True (Some cmd) of
                (ret, bytes) \<Rightarrow>
                  if ret \<noteq> WAVE_IPC_SUCCESS
                  then (CmdOver ret, [Write bytes], set_listener (l1\<lparr>li_resp_list := remove_handle h (li_resp_list l1)\<rparr>) c)
                  else (CmdWaits h, [Write bytes], set_listener l1 c)))"

text \<open>
  The end of the wait, because the status changed or because the time is over.  A handle that got
  some messages of a response but not the last one is given up with the messages.
\<close>

definition send_cmd_listener_end ::
  "nat \<Rightarrow> listener_thread_data \<Rightarrow> wv_ipclient \<Rightarrow> ((wv_ipc_ret \<times> wv_ipc_msg list) \<times> ipcc_call list \<times> wv_ipclient) option" where
  "send_cmd_listener_end h l c =
     do { p \<leftarrow> find (\<lambda>p. rp_handle p = h) (li_resp_list l);
          let c1 = set_listener (l\<lparr>li_resp_list := remove_handle h (li_resp_list l)\<rparr>) c;
          Some (case rp_status p of
                  RESP_NONE \<Rightarrow> ((WAVE_IPC_ERROR, []), map Lose (rp_response p), c1)
                | RESP_FAILURE \<Rightarrow> ((WAVE_IPC_CMD_FAILED, rp_response p), [], c1)
                | RESP_SUCCESS \<Rightarrow> ((WAVE_IPC_SUCCESS, rp_response p), [], c1)) }"

text \<open>
  Without a listener, or in the listener's own thread, the command is followed by the loop that
  reads messages until the response is complete.  \<open>out\<close> are the messages of the response so far.
\<close>

datatype cmd_input =
    CmdEintr
  | CmdSelectError "nat option"
  | CmdTimeout
  | CmdRecv wv_ipc_ret "wv_ipc_msg option" "nat option"

definition drop_connection :: "nat option \<Rightarrow> wv_ipc_msg list \<Rightarrow> wv_ipclient \<Rightarrow>
    (wv_ipc_ret \<times> wv_ipc_msg list) \<times> ipcc_call list \<times> wv_ipclient" where
  "drop_connection sock out c =
     ((WAVE_IPC_DISCONNECTED, []), map Lose out @ (if ic_disconnect_clb c then [CallDisconnect] else []),
      (snd (wave_ipcc_socket_init sock c))\<lparr>ic_is_connected := False\<rparr>)"

fun no_listener_loop ::
  "u8 list \<Rightarrow> u8 \<Rightarrow> cmd_input list \<Rightarrow> wv_ipc_msg list \<Rightarrow> wv_ipclient \<Rightarrow>
     ((wv_ipc_ret \<times> wv_ipc_msg list) \<times> ipcc_call list \<times> wv_ipclient) option" where
  "no_listener_loop junk sq [] out c = None"
| "no_listener_loop junk sq (CmdEintr # is) out c = no_listener_loop junk sq is out c"
| "no_listener_loop junk sq (CmdSelectError sock # is) out c = Some (drop_connection sock out c)"
| "no_listener_loop junk sq (CmdTimeout # is) out c = Some ((WAVE_IPC_ERROR, []), map Lose out, c)"
| "no_listener_loop junk sq (CmdRecv ret mp sock # is) out c =
     (let and_then = (\<lambda>cs. map_option (\<lambda>(r, cs', c2). (r, cs @ cs', c2)))
      in if ret \<noteq> WAVE_IPC_SUCCESS then Some (drop_connection sock out c)
         else do {
           (r, hdr, mp1) \<leftarrow> ipc_header_pop mp \<lparr>h_magic = 0, h_bytes = junk\<rparr>;
           m \<leftarrow> mp1;
           let h = h_bytes hdr;
           let is_fail = (h ! 0 = type_code WAVE_IPC_MSG_REQ_FAIL);
           if r \<noteq> 0 then (case drop_connection sock out c of (a, cs, c1) \<Rightarrow> Some (a, GiveBack m # cs, c1))
           else if h ! 0 = type_code WAVE_IPC_MSG_RESP \<or> is_fail
           then (if h ! 1 = sq
                 then (if is_fail then Some ((WAVE_IPC_CMD_FAILED, [m]), map GiveBack out, c)
                       else if h ! 2 = 0 then Some ((WAVE_IPC_SUCCESS, out @ [m]), [], c)
                       else no_listener_loop junk sq is (out @ [m]) c)
                 else (case ic_listener c of
                         Some l \<Rightarrow>
                           (case ipcc_handle_response_from_listener_ctx m h l of
                              (_, cs, l1) \<Rightarrow> and_then cs (no_listener_loop junk sq is out (set_listener l1 c)))
                       | None \<Rightarrow> and_then [GiveBack m] (no_listener_loop junk sq is out c)))
           else if h ! 0 = type_code WAVE_IPC_MSG_EVENT \<or> h ! 0 = type_code WAVE_IPC_MSG_CMD
           then (let m1 = the (snd (snd (ipc_header_push (Some m) hdr)))
                 in no_listener_loop junk sq is out (c\<lparr>ic_queued_msgs := ic_queued_msgs c @ [m1]\<rparr>))
           else and_then [GiveBack m] (no_listener_loop junk sq is out c) })"

definition wave_ipcc_send_cmd_no_listener ::
  "connect_answer \<Rightarrow> send_result \<Rightarrow> u8 list \<Rightarrow> u8 \<Rightarrow> wv_ipc_msg \<Rightarrow> cmd_input list \<Rightarrow> wv_ipclient \<Rightarrow>
     ((wv_ipc_ret \<times> wv_ipc_msg list) \<times> ipcc_call list \<times> wv_ipclient) option" where
  "wave_ipcc_send_cmd_no_listener ans res junk sq cmd is c =
     (if ic_socket c = None then Some ((WAVE_IPC_ERROR, []), [], c)
      else let c1 = (if ic_listener c = None \<and> \<not> ic_is_connected c then snd (wave_ipcc_connection_attempt ans c) else c)
           in if \<not> ic_is_connected c1 then Some ((WAVE_IPC_DISCONNECTED, []), [], c1)
              else (case wave_ipc_send_msg res True (Some cmd) of
                      (ret, bytes) \<Rightarrow>
                        if ret \<noteq> WAVE_IPC_SUCCESS then Some ((ret, []), [Write bytes], c1)
                        else map_option (\<lambda>(r, cs, c2). (r, Write bytes # cs, c2)) (no_listener_loop junk sq is [] c1)))"

text \<open>
  Both ways number their commands modulo 256, starting with 1, and push the IPC header.
\<close>

definition cmd_with_header :: "wv_ipc_msg \<Rightarrow> wv_ipclient \<Rightarrow> rc \<times> wv_ipc_msg option \<times> u8 \<times> wv_ipclient" where
  "cmd_with_header cmd c =
     (let sq = ic_cmd_seq_num c + 1
      in case ipc_header_push (Some cmd) \<lparr>h_magic = 0, h_bytes = [type_code WAVE_IPC_MSG_CMD, sq, 0, 0]\<rparr> of
           (r, _, mp) \<Rightarrow> (r, mp, sq, c\<lparr>ic_cmd_seq_num := sq\<rparr>))"

definition wave_ipcc_send_cmd_ex ::
  "connect_answer \<Rightarrow> nat option \<Rightarrow> send_result \<Rightarrow> u8 list \<Rightarrow> bool \<Rightarrow> bool \<Rightarrow> cmd_input list \<Rightarrow> wv_ipc_msg option \<Rightarrow>
     wv_ipclient option \<Rightarrow>
     ((wv_ipc_ret \<times> wv_ipc_msg list) option \<times> nat option \<times> ipcc_call list \<times> wv_ipclient option) option" where
  "wave_ipcc_send_cmd_ex ans hp res junk in_listener reply_given is cmd handle =
     (case (cmd, handle) of
        (Some m, Some c) \<Rightarrow>
          if \<not> reply_given then Some (Some (WAVE_IPC_ERROR, []), None, [], handle)
          else (case cmd_with_header m c of
                  (r, mp, sq, c1) \<Rightarrow>
                    if r \<noteq> 0 then Some (Some (WAVE_IPC_ERROR, []), None, [], Some c1)
                    else (case (ic_listener c1, in_listener) of
                            (Some l, False) \<Rightarrow>
                              (case send_cmd_listener_begin hp res sq (the mp) l c1 of
                                 (CmdOver ret, cs, c2) \<Rightarrow> Some (Some (ret, []), None, cs, Some c2)
                               | (CmdWaits h, cs, c2) \<Rightarrow> Some (None, Some h, cs, Some c2))
                          | _ \<Rightarrow> map_option (\<lambda>(ret, cs, c2). (Some ret, None, cs, Some c2))
                                   (wave_ipcc_send_cmd_no_listener ans res junk sq (the mp) is c1)))
      | _ \<Rightarrow> Some (Some (WAVE_IPC_ERROR, []), None, [], handle))"

section \<open>Frames\<close>

text \<open>What the server sends, as its kind, its number, whether more follow, and the message without the header.\<close>

record frame =
  fr_kind :: msg_type
  fr_seq :: u8
  fr_more :: u8
  fr_msg :: wv_ipc_msg

definition frame_header :: "frame \<Rightarrow> u8 list" where
  "frame_header f = [type_code (fr_kind f), fr_seq f, fr_more f, 0]"

definition on_wire :: "frame \<Rightarrow> wv_ipc_msg" where
  "on_wire f = with_ipc_header (frame_header f) (fr_msg f)"

lemma type_code_inject [simp]: "type_code a = type_code b \<longleftrightarrow> a = b"
  by (cases a; cases b) simp_all

definition frame_ok :: "frame \<Rightarrow> bool" where
  "frame_ok f \<longleftrightarrow> ipc_room (fr_msg f)"

definition arrives :: "frame \<Rightarrow> cmd_input" where
  "arrives f = CmdRecv WAVE_IPC_SUCCESS (Some (on_wire f)) None"

text \<open>The messages of the response to the command \<open>sq\<close>, and those that are kept for later.\<close>

definition mine :: "u8 \<Rightarrow> frame \<Rightarrow> bool" where
  "mine sq f \<longleftrightarrow> fr_kind f = WAVE_IPC_MSG_RESP \<and> fr_seq f = sq"

definition for_later :: "frame \<Rightarrow> bool" where
  "for_later f \<longleftrightarrow> fr_kind f = WAVE_IPC_MSG_EVENT \<or> fr_kind f = WAVE_IPC_MSG_CMD"

definition still_open :: "u8 \<Rightarrow> frame \<Rightarrow> bool" where
  "still_open sq f \<longleftrightarrow> fr_seq f = sq \<longrightarrow> fr_kind f \<noteq> WAVE_IPC_MSG_REQ_FAIL \<and> (fr_kind f = WAVE_IPC_MSG_RESP \<longrightarrow> fr_more f \<noteq> 0)"

lemma loop_step:
  assumes "frame_ok f" "length junk = 4" "ic_listener c = None"
  shows "still_open sq f \<Longrightarrow> no_listener_loop junk sq (arrives f # is) out c =
    map_option (\<lambda>(r, cs, c2). (r, (if mine sq f \<or> for_later f then [] else [GiveBack (fr_msg f)]) @ cs, c2))
      (no_listener_loop junk sq is (if mine sq f then out @ [fr_msg f] else out)
        (if for_later f then c\<lparr>ic_queued_msgs := ic_queued_msgs c @ [on_wire f]\<rparr> else c))"
    "mine sq f \<Longrightarrow> fr_more f = 0 \<Longrightarrow> no_listener_loop junk sq (arrives f # is) out c =
      Some ((WAVE_IPC_SUCCESS, out @ [fr_msg f]), [], c)"
proof -
  have room: "ipc_room (fr_msg f)" using assms(1) by (simp add: frame_ok_def)
  have pop: "ipc_header_pop (Some (on_wire f)) \<lparr>h_magic = 0, h_bytes = junk\<rparr> =
      Some (0, \<lparr>h_magic = IPC_HDR_MAGIC, h_bytes = frame_header f\<rparr>, Some (fr_msg f))"
    unfolding on_wire_def by (rule ipc_header_roundtrip(1) [OF room _ assms(2)]) (simp add: frame_header_def)
  have push: "the (snd (snd (ipc_header_push (Some (fr_msg f)) \<lparr>h_magic = IPC_HDR_MAGIC, h_bytes = frame_header f\<rparr>))) = on_wire f"
    using ipc_header_roundtrip(2) [OF room _ assms(2), of "frame_header f"] by (simp add: on_wire_def frame_header_def)
  have same: "map_option (\<lambda>(r, cs, c2). (r, [] @ cs, c2)) x = x" for x :: "('x \<times> ipcc_call list \<times> 'y) option"
    by (cases x) auto
  have h: "frame_header f ! 0 = type_code (fr_kind f)" "frame_header f ! Suc 0 = fr_seq f" "frame_header f ! 2 = fr_more f"
    by (simp_all add: frame_header_def)
  show "still_open sq f \<Longrightarrow> no_listener_loop junk sq (arrives f # is) out c =
    map_option (\<lambda>(r, cs, c2). (r, (if mine sq f \<or> for_later f then [] else [GiveBack (fr_msg f)]) @ cs, c2))
      (no_listener_loop junk sq is (if mine sq f then out @ [fr_msg f] else out)
        (if for_later f then c\<lparr>ic_queued_msgs := ic_queued_msgs c @ [on_wire f]\<rparr> else c))"
    by (cases "fr_kind f") (auto simp: arrives_def still_open_def mine_def for_later_def pop push h assms(3) Let_def same [simplified])
  show "mine sq f \<Longrightarrow> fr_more f = 0 \<Longrightarrow> no_listener_loop junk sq (arrives f # is) out c =
      Some ((WAVE_IPC_SUCCESS, out @ [fr_msg f]), [], c)"
    by (simp add: arrives_def mine_def pop h Let_def)
qed

lemma loop_reads:
  assumes "\<forall>f \<in> set fs. frame_ok f \<and> still_open sq f" "frame_ok g" "mine sq g" "fr_more g = 0" "length junk = 4" "ic_listener c = None"
  shows "no_listener_loop junk sq (map arrives (fs @ [g])) out c =
    Some ((WAVE_IPC_SUCCESS, out @ map fr_msg (filter (mine sq) (fs @ [g]))),
      map (GiveBack \<circ> fr_msg) (filter (\<lambda>f. \<not> mine sq f \<and> \<not> for_later f) fs),
      c\<lparr>ic_queued_msgs := ic_queued_msgs c @ map on_wire (filter for_later fs)\<rparr>)"
  using assms(1,6)
proof (induction fs arbitrary: out c)
  case Nil
  then show ?case using loop_step(2) [OF assms(2,5) Nil(2) assms(3,4)] assms(3) by simp
next
  case (Cons f fs)
  have disj: "mine sq f \<Longrightarrow> \<not> for_later f" by (auto simp: mine_def for_later_def)
  let ?c = "if for_later f then c\<lparr>ic_queued_msgs := ic_queued_msgs c @ [on_wire f]\<rparr> else c"
  have "ic_listener ?c = None" using Cons.prems(2) by simp
  note IH = Cons.IH [OF _ this, of "if mine sq f then out @ [fr_msg f] else out"]
  show ?case
    using Cons.prems(1) IH disj loop_step(1) [of f junk c sq "map arrives (fs @ [g])" out, OF _ assms(5) Cons.prems(2)]
    by simp
qed

section \<open>Properties\<close>

text \<open>
  C12. A command without a listener reads until its response is complete.  It returns exactly the
  messages of the response, in the order in which they came; events and commands of the server
  that came in between are kept, in order and as they were received; the rest, such as the
  response to a command that was given up, is given back.
\<close>

theorem command_reads_its_response:
  assumes "\<forall>f \<in> set fs. frame_ok f \<and> still_open sq f" "frame_ok g" "mine sq g" "fr_more g = 0" "length junk = 4" "ic_listener c = None"
  shows "no_listener_loop junk sq (map arrives (fs @ [g])) [] c =
    Some ((WAVE_IPC_SUCCESS, map fr_msg (filter (mine sq) (fs @ [g]))),
      map (GiveBack \<circ> fr_msg) (filter (\<lambda>f. \<not> mine sq f \<and> \<not> for_later f) fs),
      c\<lparr>ic_queued_msgs := ic_queued_msgs c @ map on_wire (filter for_later fs)\<rparr>)"
  using loop_reads [OF assms, of "[]"] by simp

definition ex_client :: "listener_thread_data option \<Rightarrow> wv_ipclient" where
  "ex_client l = \<lparr>ic_socket = Some 5, ic_is_connected = True, ic_is_after_reconnect = True, ic_cmd_seq_num = 3,
     ic_disconnect_clb = False, ic_listener = l, ic_queued_msgs = []\<rparr>"

definition ex_frame :: "msg_type \<Rightarrow> u8 \<Rightarrow> u8 \<Rightarrow> u16 \<Rightarrow> frame" where
  "ex_frame k sq follow len = \<lparr>fr_kind = k, fr_seq = sq, fr_more = follow, fr_msg = ex_msg\<lparr>m_data_len := len\<rparr>\<rparr>"

lemma ex_frame_ok: "frame_ok (ex_frame k sq follow len)"
proof -
  have "hdr_stack (ex_msg\<lparr>m_data_len := len\<rparr>) []" using ex_msg_stack by (simp add: hdr_stack_def)
  then show ?thesis unfolding frame_ok_def ipc_room_def ex_frame_def by (intro exI [of _ "[]"]) (simp add: IPC_MSG_HDR_SIZE_def)
qed

theorem command_reads_its_response_witness:
  "no_listener_loop [0, 0, 0, 0] 4
     (map arrives ([ex_frame WAVE_IPC_MSG_RESP 4 1 10, ex_frame WAVE_IPC_MSG_EVENT 0 0 11, ex_frame WAVE_IPC_MSG_RESP 3 0 12] @
        [ex_frame WAVE_IPC_MSG_RESP 4 0 13])) [] (ex_client None) =
   Some ((WAVE_IPC_SUCCESS, [ex_msg\<lparr>m_data_len := 10\<rparr>, ex_msg\<lparr>m_data_len := 13\<rparr>]), [GiveBack (ex_msg\<lparr>m_data_len := 12\<rparr>)],
     (ex_client None)\<lparr>ic_queued_msgs := [on_wire (ex_frame WAVE_IPC_MSG_EVENT 0 0 11)]\<rparr>)"
proof -
  have k: "fr_kind (ex_frame k sq follow len) = k" "fr_seq (ex_frame k sq follow len) = sq" "fr_more (ex_frame k sq follow len) = follow"
    "fr_msg (ex_frame k sq follow len) = ex_msg\<lparr>m_data_len := len\<rparr>" for k sq follow len by (simp_all add: ex_frame_def)
  show ?thesis
    by (subst command_reads_its_response) (simp_all add: ex_frame_ok still_open_def mine_def for_later_def k ex_client_def)
qed

text \<open>What the listener does with the responses in \<open>fs\<close>, one after the other.\<close>

fun handle_all :: "frame list \<Rightarrow> listener_thread_data \<Rightarrow> ipcc_call list \<times> listener_thread_data" where
  "handle_all [] l = ([], l)"
| "handle_all (f # fs) l =
     (case ipcc_handle_response_from_listener_ctx (fr_msg f) (frame_header f) l of
        (_, cs, l1) \<Rightarrow> (case handle_all fs l1 of (cs', l2) \<Rightarrow> (cs @ cs', l2)))"

definition received :: "frame list \<Rightarrow> ipcc_response \<Rightarrow> ipcc_response" where
  "received fs p =
     p\<lparr>rp_status := (if \<exists>f \<in> set fs. mine (rp_seq_num p) f \<and> fr_more f = 0 then RESP_SUCCESS else rp_status p),
       rp_response := rp_response p @ map fr_msg (filter (mine (rp_seq_num p)) fs)\<rparr>"

lemma received_seq [simp]: "rp_seq_num (received fs p) = rp_seq_num p"
  by (simp add: received_def)

lemma received_Nil [simp]: "received [] p = p"
  by (simp add: received_def)

lemma received_Cons: "received fs (received [f] p) = received (f # fs) p"
  by (cases p) (auto simp: received_def)

lemma add_response_resp:
  assumes "fr_kind f = WAVE_IPC_MSG_RESP" "distinct (map rp_seq_num ps)"
  shows "add_response (frame_header f) (fr_msg f) ps =
    (if fr_seq f \<in> rp_seq_num ` set ps then Some (map (received [f]) ps, []) else None)"
  using assms(2)
proof (induction ps)
  case (Cons p ps)
  have "received [f] q = q" if "rp_seq_num q \<noteq> fr_seq f" for q using that by (simp add: received_def mine_def)
  moreover have "q \<in> set ps \<Longrightarrow> rp_seq_num p = fr_seq f \<Longrightarrow> rp_seq_num q \<noteq> fr_seq f" for q using Cons.prems by (auto simp: image_iff)
  ultimately have "rp_seq_num p = fr_seq f \<Longrightarrow> map (received [f]) ps = ps" by (intro map_idI) blast
  moreover have "p\<lparr>rp_status := (if fr_more f = 0 then RESP_SUCCESS else rp_status p),
      rp_response := rp_response p @ [fr_msg f]\<rparr> = received [f] p" if "rp_seq_num p = fr_seq f"
    using that assms(1) by (simp add: received_def mine_def)
  moreover have "rp_seq_num p \<noteq> fr_seq f \<Longrightarrow> received [f] p = p" by (simp add: received_def mine_def)
  ultimately show ?case using Cons assms(1) by (auto simp: frame_header_def)
qed simp

text \<open>
  C5. However the responses to several commands are interleaved, each waiting command gets exactly
  the messages with its number, in order, and is complete as soon as its last one came; a
  response that no command waits for is given back.
\<close>

theorem interleaved_responses_sorted:
  assumes "\<forall>f \<in> set fs. fr_kind f = WAVE_IPC_MSG_RESP" "distinct (map rp_seq_num (li_resp_list l))"
  shows "handle_all fs l =
    (map (GiveBack \<circ> fr_msg) (filter (\<lambda>f. fr_seq f \<notin> rp_seq_num ` set (li_resp_list l)) fs),
     l\<lparr>li_resp_list := map (received fs) (li_resp_list l)\<rparr>)"
  using assms
proof (induction fs arbitrary: l)
  case Nil
  then show ?case by simp
next
  case (Cons f fs)
  let ?l = "if fr_seq f \<in> rp_seq_num ` set (li_resp_list l) then l\<lparr>li_resp_list := map (received [f]) (li_resp_list l)\<rparr> else l"
  have all: "\<forall>f \<in> set fs. fr_kind f = WAVE_IPC_MSG_RESP" using Cons.prems(1) by simp
  let ?h = "ipcc_handle_response_from_listener_ctx (fr_msg f) (frame_header f) l"
  have "snd ?h = (if fr_seq f \<in> rp_seq_num ` set (li_resp_list l) then [] else [GiveBack (fr_msg f)], ?l)"
    using add_response_resp [of f "li_resp_list l"] Cons.prems by (simp add: ipcc_handle_response_from_listener_ctx_def)
  then obtain b where step: "?h = (b, if fr_seq f \<in> rp_seq_num ` set (li_resp_list l) then [] else [GiveBack (fr_msg f)], ?l)"
    by (cases ?h) auto
  have "map rp_seq_num (li_resp_list ?l) = map rp_seq_num (li_resp_list l)" by (simp add: comp_def)
  then have seqs: "distinct (map rp_seq_num (li_resp_list ?l))" "rp_seq_num ` set (li_resp_list ?l) = rp_seq_num ` set (li_resp_list l)"
    using Cons.prems(2) by (simp_all flip: set_map)
  have "fr_seq f \<notin> rp_seq_num ` set (li_resp_list l) \<Longrightarrow> p \<in> set (li_resp_list l) \<Longrightarrow> received (f # fs) p = received fs p" for p
    by (auto simp: received_def mine_def)
  then have "l\<lparr>li_resp_list := map (received (f # fs)) (li_resp_list l)\<rparr> = ?l\<lparr>li_resp_list := map (received fs) (li_resp_list ?l)\<rparr>"
    by (cases l) (simp add: received_Cons comp_def)
  then have IH: "handle_all fs ?l = (map (GiveBack \<circ> fr_msg) (filter (\<lambda>f. fr_seq f \<notin> rp_seq_num ` set (li_resp_list l)) fs),
      l\<lparr>li_resp_list := map (received (f # fs)) (li_resp_list l)\<rparr>)"
    by (subst Cons.IH [OF all seqs(1)]) (simp only: seqs(2))
  show ?case by (simp add: step IH del: if_split)
qed

theorem interleaved_responses_sorted_witness:
  "handle_all [ex_frame WAVE_IPC_MSG_RESP 4 1 10, ex_frame WAVE_IPC_MSG_RESP 7 0 11, ex_frame WAVE_IPC_MSG_RESP 9 0 12,
      ex_frame WAVE_IPC_MSG_RESP 4 0 13]
     \<lparr>li_terminate = False, li_cmd_clb = False, li_reconnect_clb = True, li_events_serializer = True,
      li_resp_list = [\<lparr>rp_handle = 1, rp_seq_num = 7, rp_status = RESP_NONE, rp_response = []\<rparr>,
                      \<lparr>rp_handle = 2, rp_seq_num = 4, rp_status = RESP_NONE, rp_response = []\<rparr>]\<rparr> =
   ([GiveBack (ex_msg\<lparr>m_data_len := 12\<rparr>)],
    \<lparr>li_terminate = False, li_cmd_clb = False, li_reconnect_clb = True, li_events_serializer = True,
      li_resp_list = [\<lparr>rp_handle = 1, rp_seq_num = 7, rp_status = RESP_SUCCESS, rp_response = [ex_msg\<lparr>m_data_len := 11\<rparr>]\<rparr>,
                      \<lparr>rp_handle = 2, rp_seq_num = 4, rp_status = RESP_SUCCESS,
                       rp_response = [ex_msg\<lparr>m_data_len := 10\<rparr>, ex_msg\<lparr>m_data_len := 13\<rparr>]\<rparr>]\<rparr>)"
  by (subst interleaved_responses_sorted) (simp_all add: ex_frame_def received_def mine_def)

end
