(* ===== verification/End_To_End.thy ===== *)
theory End_To_End
  imports Dwpal_Daemon Client_State Ipc_Client
begin

text \<open>
  The parts put together: a request of the client library travels under the header of the IPC
  client over the socket to the daemon's callback, becomes a work of the interface manager, and
  the response travels back; an event of hostapd travels from the daemon's callback to the
  callbacks of the program.
\<close>

section \<open>The way of a message\<close>

text \<open>
  A message that is written to the socket as it is and read into the message \<open>r\<close> from the pool,
  and one that travels under an IPC header, which the receiver pops.
\<close>

definition over_socket :: "wv_ipc_msg \<Rightarrow> wv_ipc_msg \<Rightarrow> wv_ipc_msg option" where
  "over_socket r m =
     (case wave_ipc_send_msg SendOk True (Some m) of
        (WAVE_IPC_SUCCESS, bs) \<Rightarrow>
          snd (wave_ipc_recv_msg True (Some r) (Received (take info_size bs)) (Received (drop info_size bs)))
      | _ \<Rightarrow> None)"

definition travels :: "wv_ipc_msg \<Rightarrow> u8 list \<Rightarrow> wv_ipc_msg \<Rightarrow> (u8 list \<times> wv_ipc_msg) option" where
  "travels r bs m =
     do { m1 \<leftarrow> over_socket r (with_ipc_header bs m);
          (rc, hdr, mp) \<leftarrow> ipc_header_pop (Some m1) \<lparr>h_magic = 0, h_bytes = [0, 0, 0, 0]\<rparr>;
          m2 \<leftarrow> mp;
          if rc = 0 then Some (h_bytes hdr, m2) else None }"

lemma over_socket_same:
  assumes "length (m_hdr m) = IPC_MSG_HDR_SIZE" "unat (m_data_len m) \<le> WAVE_IPC_BUFF_SIZE"
  shows "\<exists>m'. over_socket r m = Some m' \<and> m_hdr m' = m_hdr m \<and> m_data_len m' = m_data_len m \<and> msg_bytes m' = msg_bytes m"
  using socket_transfer [OF assms, of r] by (auto simp: over_socket_def)

lemma socket_header:
  assumes m: "hdr_stack m []" "length h = 6" and bs: "length bs = 4" and fits: "unat (m_data_len m) \<le> WAVE_IPC_BUFF_SIZE"
  shows "\<exists>e m'. over_socket r (with_ipc_header bs (with_dwpald_header h m)) = Some e \<and>
    (\<forall>junk. length junk = 4 \<longrightarrow> ipc_header_pop (Some e) \<lparr>h_magic = 0, h_bytes = junk\<rparr> =
       Some (0, \<lparr>h_magic = IPC_HDR_MAGIC, h_bytes = bs\<rparr>, Some (with_dwpald_header h m'))) \<and>
    hdr_stack m' [] \<and> m_data_len m' = m_data_len m \<and> msg_bytes m' = msg_bytes m"
proof -
  let ?D = "DWPALD_HDR_MAGIC # h" and ?I = "IPC_HDR_MAGIC # bs"
  have fit: "hdr_fits ([?D] @ [?I])" using m(2) bs by (simp add: hdr_fits_def IPC_MSG_HDR_SIZE_def)
  note w = with_dwpald_header_stack [OF m]
  have w2: "with_ipc_header bs (with_dwpald_header h m) = m\<lparr>m_hdr := hdr_area ([?D] @ [?I])\<rparr>"
    using ipc_push_ok [OF w(2), of "\<lparr>h_magic = 0, h_bytes = bs\<rparr>"] bs fit w(1) by (simp add: with_ipc_header_def)
  obtain e where e: "over_socket r (m\<lparr>m_hdr := hdr_area ([?D] @ [?I])\<rparr>) = Some e" "m_hdr e = hdr_area ([?D] @ [?I])"
    "m_data_len e = m_data_len m" "msg_bytes e = msg_bytes m"
    using over_socket_same [of "m\<lparr>m_hdr := hdr_area ([?D] @ [?I])\<rparr>" r] fit fits by (auto simp: msg_bytes_def)
  have stack: "hdr_stack e ([?D] @ [?I])" using e(2) fit by (simp add: hdr_stack_def)
  define m' where "m' = e\<lparr>m_hdr := hdr_area []\<rparr>"
  have m': "hdr_stack m' []" using hdr_stack_upd [of "[]" e] by (simp add: m'_def)
  have "with_dwpald_header h m' = e\<lparr>m_hdr := hdr_area [?D]\<rparr>" using with_dwpald_header_stack(1) [OF m' m(2)] by (simp add: m'_def)
  then have "\<forall>junk. length junk = 4 \<longrightarrow> ipc_header_pop (Some e) \<lparr>h_magic = 0, h_bytes = junk\<rparr> =
      Some (0, \<lparr>h_magic = IPC_HDR_MAGIC, h_bytes = bs\<rparr>, Some (with_dwpald_header h m'))"
    using ipc_pop_ok [OF stack bs] by simp
  moreover have "m_data_len m' = m_data_len m" "msg_bytes m' = msg_bytes m" using e(3,4) by (simp_all add: m'_def msg_bytes_def)
  ultimately show ?thesis using e(1) m' w2 by metis
qed

lemma travels_header:
  assumes m: "hdr_stack m []" "length h = 6" and bs: "length bs = 4" and fits: "unat (m_data_len m) \<le> WAVE_IPC_BUFF_SIZE"
  shows "\<exists>m'. travels r bs (with_dwpald_header h m) = Some (bs, with_dwpald_header h m') \<and> hdr_stack m' [] \<and>
    m_data_len m' = m_data_len m \<and> msg_bytes m' = msg_bytes m"
proof -
  obtain e m' where e: "over_socket r (with_ipc_header bs (with_dwpald_header h m)) = Some e"
    "\<forall>junk. length junk = 4 \<longrightarrow> ipc_header_pop (Some e) \<lparr>h_magic = 0, h_bytes = junk\<rparr> =
       Some (0, \<lparr>h_magic = IPC_HDR_MAGIC, h_bytes = bs\<rparr>, Some (with_dwpald_header h m'))"
    "hdr_stack m' []" "m_data_len m' = m_data_len m" "msg_bytes m' = msg_bytes m"
    using socket_header [OF assms, of r] by blast
  then show ?thesis by (intro exI [of _ m']) (simp add: travels_def)
qed

section \<open>Messages that are filled\<close>

lemma strip_header:
  assumes "m_hdr x = hdr_area [DWPALD_HDR_MAGIC # h]" "length h = 6"
  shows "\<exists>m. x = with_dwpald_header h m \<and> hdr_stack m [] \<and> msg_bytes m = msg_bytes x \<and> m_data_len m = m_data_len x"
proof (intro exI conjI)
  let ?m = "x\<lparr>m_hdr := hdr_area []\<rparr>"
  show m: "hdr_stack ?m []" using hdr_stack_upd [of "[]" x] by simp
  show "x = with_dwpald_header h ?m" using with_dwpald_header_stack(1) [OF m assms(2)] assms(1) by simp
qed (simp_all add: msg_bytes_def)

lemma fill_ok:
  assumes "m_data_len m = 0" "len \<le> length dat" "len \<le> WAVE_IPC_BUFF_SIZE"
  shows "\<exists>m'. wave_ipc_msg_fill_data (Some m) (Some dat) len = (WAVE_IPC_SUCCESS, Some m') \<and> m_hdr m' = m_hdr m \<and>
    msg_bytes m' = take len dat \<and> unat (m_data_len m') = len"
proof -
  have l: "unat (of_nat len :: u16) = len" using assms(3) by (intro unat_of_nat_u16) (simp add: WAVE_IPC_BUFF_SIZE_def)
  then show ?thesis using assms map_write_at [of "m_data m" 0 "take len dat"]
    by (simp add: wave_ipc_msg_fill_data_def msg_bytes_def min_absorb2)
qed

lemma append_ok:
  assumes "0 < len" "len \<le> length dat" "unat (m_data_len m) + len \<le> WAVE_IPC_BUFF_SIZE"
  shows "\<exists>m'. wave_ipc_msg_append_data (Some m) (Some dat) len = (WAVE_IPC_SUCCESS, Some m') \<and> m_hdr m' = m_hdr m \<and>
    msg_bytes m' = msg_bytes m @ take len dat \<and> unat (m_data_len m') = unat (m_data_len m) + len"
proof -
  have l: "unat (m_data_len m + of_nat len) = unat (m_data_len m) + len"
    using assms(3) unat_of_nat_u16 [of "unat (m_data_len m) + len"] by (simp add: WAVE_IPC_BUFF_SIZE_def)
  have "size_add len (unat (m_data_len m)) = len + unat (m_data_len m)"
    using assms(3) by (simp add: size_add_def WAVE_IPC_BUFF_SIZE_def)
  moreover have "len \<le> WAVE_IPC_BUFF_SIZE - unat (m_data_len m)" using assms(3) by simp
  ultimately show ?thesis using assms l map_write_at [of "m_data m" "unat (m_data_len m)" "take len dat"]
    by (simp add: wave_ipc_msg_append_data_def msg_bytes_def min_absorb2 Let_def)
qed

text \<open>A message from the pool.\<close>

definition from_pool :: "wv_ipc_msg \<Rightarrow> bool" where
  "from_pool m \<longleftrightarrow> hdr_stack m [] \<and> m_data_len m = 0"

lemma filled_msg_eq:
  assumes "from_pool m" "length h = 6" "length dat \<le> WAVE_IPC_BUFF_SIZE"
  shows "\<exists>m'. filled_msg h dat m = with_dwpald_header h m' \<and> hdr_stack m' [] \<and> msg_bytes m' = dat \<and>
    unat (m_data_len m') = length dat"
proof -
  have w: "with_dwpald_header h m = m\<lparr>m_hdr := hdr_area [DWPALD_HDR_MAGIC # h]\<rparr>"
    using assms by (intro with_dwpald_header_stack(1)) (simp_all add: from_pool_def)
  obtain x where x: "wave_ipc_msg_fill_data (Some (with_dwpald_header h m)) (Some dat) (length dat) = (WAVE_IPC_SUCCESS, Some x)"
    "m_hdr x = hdr_area [DWPALD_HDR_MAGIC # h]" "msg_bytes x = dat" "unat (m_data_len x) = length dat"
    using fill_ok [of "with_dwpald_header h m" "length dat" dat] assms(1,3) by (auto simp: w from_pool_def)
  with strip_header [OF x(2) assms(2)] show ?thesis by (auto simp: filled_msg_def)
qed

lemma hostap_cmd_msg_eq:
  assumes "from_pool m" "name \<noteq> []" "length name \<le> IFNAMSIZ" "0 < len" "len \<le> length cmd"
    "length name + len + 1 \<le> WAVE_IPC_BUFF_SIZE"
  shows "\<exists>m' nul. hostap_cmd_msg name cmd len m =
      with_dwpald_header [DWPALD_CMD, DWPALD_IF_TYPE_HOSTAP, of_nat (length name), 0, 0, 0] m' \<and> hdr_stack m' [] \<and>
    msg_bytes m' = name @ take len cmd @ nul \<and> cstr_of (take len cmd @ nul) = cstr_of (take len cmd) \<and>
    unat (m_data_len m') = length name + len + length nul \<and> length nul \<le> 1"
proof -
  let ?h = "[DWPALD_CMD, DWPALD_IF_TYPE_HOSTAP, of_nat (length name), 0, 0, 0] :: u8 list"
  let ?area = "hdr_area [DWPALD_HDR_MAGIC # ?h]"
  have n: "strnlen_s name IFNAMSIZ = length name" "unat (of_nat (length name) :: u8) = length name"
    using assms(3) by (simp_all add: strnlen_s_def IFNAMSIZ_def unat_of_nat_u8)
  have w: "with_dwpald_header ?h m = m\<lparr>m_hdr := ?area\<rparr>"
    using assms(1) by (intro with_dwpald_header_stack(1)) (simp_all add: from_pool_def)
  obtain m2 where m2: "wave_ipc_msg_fill_data (Some (with_dwpald_header ?h m)) (Some name) (length name) = (WAVE_IPC_SUCCESS, Some m2)"
    "m_hdr m2 = ?area" "msg_bytes m2 = name" "unat (m_data_len m2) = length name"
    using fill_ok [of "with_dwpald_header ?h m" "length name" name] assms(1,6) by (auto simp: w from_pool_def)
  obtain m3 where m3: "wave_ipc_msg_append_data (Some m2) (Some cmd) len = (WAVE_IPC_SUCCESS, Some m3)" "m_hdr m3 = ?area"
    "msg_bytes m3 = name @ take len cmd" "unat (m_data_len m3) = length name + len"
    using append_ok [of len cmd m2] assms(4,5,6) m2 by auto
  show ?thesis
  proof (cases "cmd ! (len - 1) = 0")
    case True
    then have "hostap_cmd_msg name cmd len m = m3" using m2(1) m3(1) by (simp add: hostap_cmd_msg_def Let_def n)
    with strip_header [OF m3(2)] m3 show ?thesis by (auto intro!: exI [of _ "[]"])
  next
    case False
    obtain m4 where m4: "wave_ipc_msg_append_data (Some m3) (Some [0]) 1 = (WAVE_IPC_SUCCESS, Some m4)" "m_hdr m4 = ?area"
      "msg_bytes m4 = name @ take len cmd @ [0]" "unat (m_data_len m4) = length name + len + 1"
      using append_ok [of 1 "[0]" m3] assms(6) m3 by auto
    have "hostap_cmd_msg name cmd len m = m4" using m2(1) m3(1) m4(1) False by (simp add: hostap_cmd_msg_def Let_def n)
    moreover have "cstr_of (take len cmd @ [0]) = cstr_of (take len cmd)"
      by (simp add: cstr_of_def takeWhile_tail)
    ultimately show ?thesis using strip_header [OF m4(2)] m4(3,4) by (auto intro!: exI [of _ "[0]"])
  qed
qed

section \<open>A client of the daemon\<close>

text \<open>
  The daemon's surroundings: the functions of the hostapd manager with their answers, what hostapd
  answers to a command, and the messages that the two pools hand out.
\<close>

record surroundings =
  env_apis :: "(hostap_event, hostap_extra_info) manager_apis"
  env_hostapd :: "cstr \<Rightarrow> cstr \<Rightarrow> DWPAL_Ret \<times> u8 list"
  env_daemon_msg :: wv_ipc_msg
  env_client_msg :: wv_ipc_msg

text \<open>What the serializer of the hostapd manager makes of a request, and the message of the response if there is one.\<close>

definition serve ::
  "surroundings \<Rightarrow> hostap_extra_info mgr_work \<Rightarrow> hostap_event iface_manager \<Rightarrow> wv_ipc_msg option \<times> hostap_event iface_manager" where
  "serve env w m =
     (case w of
        CmdWork cw \<Rightarrow>
          (case hostap_execute_command (env_hostapd env) (Some (env_daemon_msg env)) True [0, 0, 0, 0, 0, 0] (cw_cmd cw) of
             Some (r, PassedOn resp) \<Rightarrow> (if r = 0 then Some resp else None, m)
           | _ \<Rightarrow> (None, m))
      | _ \<Rightarrow>
          (case mgr_step (env_apis env) (RunWork w True True) m of
             (_, m', [Respond _ _ h]) \<Rightarrow> (Some (with_dwpald_header h (env_daemon_msg env)), m')
           | (_, m', _) \<Rightarrow> (None, m')))"

text \<open>
  A command of the station \<open>s\<close> when no other work waits: it travels to the daemon with its
  number, is dispatched and served, and the response travels back with the same number.
\<close>

definition daemon_request ::
  "surroundings \<Rightarrow> nat \<Rightarrow> u8 \<Rightarrow> wv_ipc_msg \<Rightarrow> dwpal_daemon \<Rightarrow> (wv_ipc_ret \<times> wv_ipc_msg list \<times> dwpal_daemon) option" where
  "daemon_request env s sq m d =
     do { (h, cmd) \<leftarrow> travels (env_daemon_msg env) [type_code WAVE_IPC_MSG_CMD, sq, 0, 0] m;
          (r, _, d1) \<leftarrow> dwpald_cmd_async True True s (h ! 1) cmd d;
          rm \<leftarrow> dd_hap_man d1;
          (case rm_works rm of
             [w] \<Rightarrow>
               (case serve env w (rm_state rm) of
                  (resp, m') \<Rightarrow>
                    let d2 = clean_work w (d1\<lparr>dd_hap_man := Some \<lparr>rm_state = m', rm_works = []\<rparr>\<rparr>)
                    in (case resp of
                          None \<Rightarrow> Some (WAVE_IPC_CMD_FAILED, [], d2)
                        | Some resp_msg \<Rightarrow> do {
                            (h', reply) \<leftarrow> travels (env_client_msg env) [type_code WAVE_IPC_MSG_RESP, h ! 1, 0, 0] resp_msg;
                            if h' ! 1 = sq then Some (WAVE_IPC_SUCCESS, [reply], d2) else None }))
           | _ \<Rightarrow> None) }"

text \<open>The client library's view of it; what cannot happen is an error.\<close>

definition daemon_client :: "surroundings \<Rightarrow> nat \<Rightarrow> u8 \<Rightarrow> dwpal_daemon ipc_client" where
  "daemon_client env s sq =
     \<lparr>ipc_alloc = (\<lambda>d. (Some (env_client_msg env), d)),
      ipc_send_cmd = (\<lambda>m d. case daemon_request env s sq m d of None \<Rightarrow> (WAVE_IPC_ERROR, [], d) | Some res \<Rightarrow> res),
      ipc_emulate = (\<lambda>_ _ d. (WAVE_IPC_ERROR, d)),
      ipc_in_event_thread = (\<lambda>_. False)\<rparr>"

definition quiet :: "hostap_event iface_manager \<Rightarrow> dwpal_daemon \<Rightarrow> bool" where
  "quiet m d \<longleftrightarrow> dd_hap_man d = Some \<lparr>rm_state = m, rm_works = []\<rparr>"

definition with_manager :: "hostap_event iface_manager \<Rightarrow> dwpal_daemon \<Rightarrow> dwpal_daemon" where
  "with_manager m d = d\<lparr>dd_hap_man := Some \<lparr>rm_state = m, rm_works = []\<rparr>\<rparr>"

lemma daemon_request_eq:
  assumes m: "hdr_stack m []" "length h = 6" "unat (m_data_len m) \<le> WAVE_IPC_BUFF_SIZE"
    and kind: "h ! 0 \<in> {DWPALD_CMD, DWPALD_ATTACH_REQ, DWPALD_UPDATE_EVENT_REQ}" "h ! 1 = DWPALD_IF_TYPE_HOSTAP"
    and d: "quiet mg d"
    and serves: "\<And>m'. hdr_stack m' [] \<Longrightarrow> m_data_len m' = m_data_len m \<Longrightarrow> msg_bytes m' = msg_bytes m \<Longrightarrow>
      \<exists>rm mg'. serve env (cmd_becomes (h ! 0) s sq (with_dwpald_header h m')) mg = (Some (with_dwpald_header rh rm), mg') \<and>
        hdr_stack rm [] \<and> length rh = 6 \<and> unat (m_data_len rm) \<le> WAVE_IPC_BUFF_SIZE \<and> msg_bytes rm = reply \<and> Q mg'"
  shows "\<exists>m'' mg'. ipc_send_cmd (daemon_client env s sq) (with_dwpald_header h m) d =
    (WAVE_IPC_SUCCESS, [with_dwpald_header rh m''], with_manager mg' d) \<and> hdr_stack m'' [] \<and> length rh = 6 \<and>
    msg_bytes m'' = reply \<and> unat (m_data_len m'') = length reply \<and> length reply \<le> WAVE_IPC_BUFF_SIZE \<and> Q mg'"
proof -
  obtain m' where m': "travels (env_daemon_msg env) [type_code WAVE_IPC_MSG_CMD, sq, 0, 0] (with_dwpald_header h m) =
      Some ([type_code WAVE_IPC_MSG_CMD, sq, 0, 0], with_dwpald_header h m')" "hdr_stack m' []"
    "m_data_len m' = m_data_len m" "msg_bytes m' = msg_bytes m"
    using travels_header [OF m(1,2) _ m(3), of "[type_code WAVE_IPC_MSG_CMD, sq, 0, 0]"] by auto
  let ?cmd = "with_dwpald_header h m'" and ?w = "cmd_becomes (h ! 0) s sq (with_dwpald_header h m') :: hostap_extra_info mgr_work"
  obtain rm mg' where rm: "serve env ?w mg = (Some (with_dwpald_header rh rm), mg')" "hdr_stack rm []" "length rh = 6"
    "unat (m_data_len rm) \<le> WAVE_IPC_BUFF_SIZE" "msg_bytes rm = reply" "Q mg'" using serves [OF m'(2-4)] by blast
  obtain m'' where m'': "travels (env_client_msg env) [type_code WAVE_IPC_MSG_RESP, sq, 0, 0] (with_dwpald_header rh rm) =
      Some ([type_code WAVE_IPC_MSG_RESP, sq, 0, 0], with_dwpald_header rh m'')" "hdr_stack m'' []"
    "m_data_len m'' = m_data_len rm" "msg_bytes m'' = msg_bytes rm"
    using travels_header [OF rm(2,3) _ rm(4), of "[type_code WAVE_IPC_MSG_RESP, sq, 0, 0]"] by auto
  have async: "dwpald_cmd_async True True s sq ?cmd d =
      Some (0, PassedOn ?cmd, add_refs s 1 (d\<lparr>dd_hap_man := Some \<lparr>rm_state = mg, rm_works = [?w]\<rparr>\<rparr>))"
    using kind d by (subst cmd_async_eq(1) [OF m'(2) m(2) refl]) (auto simp: quiet_def)
  have w: "work_sta ?w = Some s" using kind(1) by (auto simp: cmd_becomes_def Let_def)
  have home: "clean_work ?w (add_refs s 1 d\<lparr>dd_hap_man := Some \<lparr>rm_state = mg', rm_works = []\<rparr>\<rparr>) = with_manager mg' d"
    by (cases d) (simp add: clean_work_def w add_refs_def with_manager_def)
  have "daemon_request env s sq (with_dwpald_header h m) d =
      Some (WAVE_IPC_SUCCESS, [with_dwpald_header rh m''], with_manager mg' d)"
    using m'(1) async rm(1) m''(1) home by (simp add: daemon_request_def Let_def add_refs_def)
  moreover have "unat (m_data_len m'') = length (msg_bytes m'')" by (simp add: msg_bytes_def)
  ultimately show ?thesis using m'' rm by (intro exI [of _ m''] exI [of _ mg']) (simp add: daemon_client_def)
qed

section \<open>A command of hostapd\<close>

lemma with_header_data [simp]:
  assumes "hdr_stack m []" "length h = 6"
  shows "m_data_len (with_dwpald_header h m) = m_data_len m" "msg_bytes (with_dwpald_header h m) = msg_bytes m"
    "m_data (with_dwpald_header h m) = m_data m"
  using with_dwpald_header_stack(1) [OF assms] by (simp_all add: msg_bytes_def)

lemma data_of:
  assumes "unat (m_data_len m) \<le> WAVE_IPC_BUFF_SIZE"
  shows "wave_ipc_msg_get_size (Some m) = length (msg_bytes m)"
    "msg_bytes m \<noteq> [] \<Longrightarrow> wave_ipc_msg_get_data (Some m) = Some (msg_bytes m)"
proof -
  have "length (msg_bytes m) = unat (m_data_len m)" by (simp add: msg_bytes_def)
  with assms show "wave_ipc_msg_get_size (Some m) = length (msg_bytes m)"
    "msg_bytes m \<noteq> [] \<Longrightarrow> wave_ipc_msg_get_data (Some m) = Some (msg_bytes m)"
    by (auto simp: wave_ipc_msg_get_size_def wave_ipc_msg_get_data_def)
qed

lemma execute_reply:
  assumes "from_pool fresh" "hdr_stack m []" "unat (m_data_len m) \<le> WAVE_IPC_BUFF_SIZE" "msg_bytes m = name @ cmd"
    "name \<noteq> []" "length name \<le> IFNAMSIZ" "0 \<notin> set name"
    "send name (cstr_of cmd) = (DWPAL_SUCCESS, reply)" "length reply \<le> HOSTAP_REPLY_LEN"
  shows "\<exists>resp. hostap_execute_command send (Some fresh) True [0, 0, 0, 0, 0, 0]
      (with_dwpald_header [DWPALD_CMD, DWPALD_IF_TYPE_HOSTAP, of_nat (length name), 0, 0, 0] m) =
      Some (0, PassedOn (with_dwpald_header [DWPALD_CMD_RESP, DWPALD_IF_TYPE_HOSTAP, 0, 0, 0, 0] resp)) \<and>
    hdr_stack resp [] \<and> unat (m_data_len resp) = length reply + 1 \<and> msg_bytes resp = reply @ [0]"
proof -
  let ?h = "[DWPALD_CMD, DWPALD_IF_TYPE_HOSTAP, of_nat (length name), 0, 0, 0] :: u8 list"
  let ?cmd = "with_dwpald_header ?h m"
  have n: "unat (of_nat (length name) :: u8) = length name" using assms(6) by (simp add: IFNAMSIZ_def unat_of_nat_u8)
  have pop: "dwpald_header_pop (Some ?cmd) \<lparr>h_magic = 0, h_bytes = [0, 0, 0, 0, 0, 0]\<rparr> =
      Some (0, \<lparr>h_magic = DWPALD_HDR_MAGIC, h_bytes = ?h\<rparr>, Some m)"
    using assms(2) by (intro dwpald_header_roundtrip(1)) simp_all
  have dat: "wave_ipc_msg_get_data (Some ?cmd) = Some (name @ cmd)" "wave_ipc_msg_get_size (Some ?cmd) = length name + length cmd"
    using data_of [of ?cmd] assms(2-5) by simp_all
  let ?resp = "fresh\<lparr>m_data_len := of_nat (length reply + 1), m_data := write_at (m_data fresh) 0 (reply @ [0])\<rparr>"
  have u: "unat (of_nat (length reply + 1) :: u16) = length reply + 1"
    using assms(9) by (intro unat_of_nat_u16) (simp add: HOSTAP_REPLY_LEN_def)
  have reserve: "wave_ipc_msg_reserve_data (Some fresh) (HOSTAP_REPLY_LEN + 1) =
      (WAVE_IPC_SUCCESS, Some (fresh\<lparr>m_data_len := of_nat (HOSTAP_REPLY_LEN + 1)\<rparr>))"
    using assms(1) by (simp add: wave_ipc_msg_reserve_data_def from_pool_def HOSTAP_REPLY_LEN_def WAVE_IPC_BUFF_SIZE_def)
  have "unat (of_nat (HOSTAP_REPLY_LEN + 1) :: u16) = HOSTAP_REPLY_LEN + 1" by (intro unat_of_nat_u16) (simp add: HOSTAP_REPLY_LEN_def)
  then have shrink: "wave_ipc_msg_shrink_data (Some (fresh\<lparr>m_data_len := of_nat (HOSTAP_REPLY_LEN + 1)\<rparr>)) (length reply + 1) =
      (WAVE_IPC_SUCCESS, Some (fresh\<lparr>m_data_len := of_nat (length reply + 1)\<rparr>))"
    using assms(9) by (simp add: wave_ipc_msg_shrink_data_def)
  have stack: "hdr_stack ?resp []" using assms(1) by (simp add: from_pool_def hdr_stack_def)
  have bytes: "msg_bytes ?resp = reply @ [0]"
    using u map_write_at [of "m_data fresh" 0 "reply @ [0]"] by (simp add: msg_bytes_def)
  have "hostap_execute_command send (Some fresh) True [0, 0, 0, 0, 0, 0] ?cmd =
      Some (0, PassedOn (with_dwpald_header [DWPALD_CMD_RESP, DWPALD_IF_TYPE_HOSTAP, 0, 0, 0, 0] ?resp))"
    unfolding hostap_execute_command_def pop
    using assms(5-8) n dat reserve shrink by (simp add: Let_def del: of_nat_Suc of_nat_add)
  with stack bytes u show ?thesis by (intro exI [of _ ?resp]) simp
qed


section \<open>An attachment to hostapd\<close>

lemma find_update:
  assumes "\<And>b. ai_ifname (f b) = ai_ifname b"
  shows "find_iface n (update_iface n f ifs) = map_option f (find_iface n ifs)"
  using assms by (induction ifs) (auto simp: find_iface_def)

lemma update_keeps_others: "b \<in> set ifs \<Longrightarrow> \<not> strncmp_eq (ai_ifname b) n (IFNAMSIZ + 1) \<Longrightarrow> b \<in> set (update_iface n f ifs)"
  by (induction ifs) auto

lemma find_iface_snoc: "find_iface n ifs = None \<Longrightarrow> ai_ifname a = n \<Longrightarrow> find_iface n (ifs @ [a]) = Some a"
  by (induction ifs) (auto simp: find_iface_def strncmp_eq_def split: if_splits)

definition events_on :: "cstr \<Rightarrow> 'e iface_manager \<Rightarrow> 'e list" where
  "events_on n m = (case find_iface n (im_ifaces m) of None \<Rightarrow> [] | Some a \<Rightarrow> ai_events a)"

lemma attach_result:
  fixes m :: "'e iface_manager"
  assumes "\<not> cmd_too_short (cw_cmd cw)" "n = cmd_ifname (cw_cmd cw)" "cmd_request (cw_cmd cw) = (rd, len)" "len \<noteq> 0"
    "\<And>st0. api_attach apis n st0 = (0, st)" "api_register apis (cw_ipsta cw) rd len (events_on n m) = (0, es)"
  shows "\<exists>m' a. iface_attach_work apis True True cw m =
      (0, m', [Respond (cw_ipsta cw) (cw_seq_num cw) [DWPALD_ATTACH_RESP, im_iftype m, st, 0, 0, 0]]) \<and>
    find_iface n (im_ifaces m') = Some a \<and> cw_ipsta cw \<in> set (ai_clients a) \<and> ai_state a = st \<and> ai_events a = es \<and>
    (\<forall>b \<in> set (im_ifaces m). \<not> strncmp_eq (ai_ifname b) n (IFNAMSIZ + 1) \<longrightarrow> b \<in> set (im_ifaces m'))"
proof -
  let ?s = "cw_ipsta cw"
  define new where "new = \<lparr>ai_ifname = n, ai_state = st, ai_events = [] :: 'e list, ai_clients = [], ai_keep = False\<rparr>"
  define join where "join = (\<lambda>b :: 'e attached_interface. b\<lparr>ai_clients := remove1 ?s (ai_clients b) @ [?s]\<rparr>)"
  define ifs where "ifs = (case find_iface n (im_ifaces m) of None \<Rightarrow> im_ifaces m @ [new]
    | Some _ \<Rightarrow> update_iface n (\<lambda>a. a\<lparr>ai_state := st\<rparr>) (im_ifaces m))"
  obtain a1 where a1: "find_iface n ifs = Some a1" "ai_state a1 = st" "ai_events a1 = events_on n m"
  proof (cases "find_iface n (im_ifaces m)")
    case None
    then have "find_iface n ifs = Some new" by (simp add: ifs_def find_iface_snoc new_def)
    then show ?thesis using None by (intro that [of new]) (simp_all add: new_def events_on_def)
  next
    case (Some a)
    then have "find_iface n ifs = Some (a\<lparr>ai_state := st\<rparr>)" by (simp add: ifs_def find_update)
    then show ?thesis using Some by (intro that [of "a\<lparr>ai_state := st\<rparr>"]) (simp_all add: events_on_def)
  qed
  let ?m' = "m\<lparr>im_ifaces := update_iface n (\<lambda>b. b\<lparr>ai_events := es\<rparr>) (update_iface n join ifs)\<rparr>"
  have m1: "(case find_iface n (im_ifaces m) of
        None \<Rightarrow> m\<lparr>im_ifaces := im_ifaces m @ [new]\<rparr>
      | Some _ \<Rightarrow> m\<lparr>im_ifaces := update_iface n (\<lambda>a. a\<lparr>ai_state := st\<rparr>) (im_ifaces m)\<rparr>) = m\<lparr>im_ifaces := ifs\<rparr>"
    by (simp add: ifs_def split: option.split)
  have joined: "find_iface n (update_iface n join ifs) = Some (join a1)" using a1(1) by (simp add: find_update join_def)
  have client: "attach_client apis ?s n (rd, len) (m\<lparr>im_ifaces := ifs\<rparr>) = (0, ?m')"
    using joined a1(3) assms(4,6) by (simp add: attach_client_def Let_def join_def)
  have work: "iface_attach_work apis True True cw m =
      (0, ?m', [Respond ?s (cw_seq_num cw) [DWPALD_ATTACH_RESP, im_iftype m, st, 0, 0, 0]])"
    unfolding iface_attach_work_def Let_def assms(2) [symmetric] assms(3,5) case_prod_conv m1 [unfolded new_def] client
    using assms(1) by simp
  have found: "find_iface n (im_ifaces ?m') = Some ((join a1)\<lparr>ai_events := es\<rparr>)" using joined by (simp add: find_update)
  have others: "b \<in> set (im_ifaces ?m')" if "b \<in> set (im_ifaces m)" "\<not> strncmp_eq (ai_ifname b) n (IFNAMSIZ + 1)" for b
  proof -
    have "b \<in> set ifs" using that update_keeps_others by (auto simp: ifs_def split: option.split)
    with that(2) show ?thesis by (simp add: update_keeps_others)
  qed
  show ?thesis
    using work found others a1(2) by (intro exI [of _ ?m'] exI [of _ "(join a1)\<lparr>ai_events := es\<rparr>"]) (simp add: join_def)
qed

lemma name_field_string: "length n \<le> IFNAMSIZ \<Longrightarrow> 0 \<notin> set n \<Longrightarrow> cstr_of (name_field n @ bs) = n"
proof -
  assume n: "length n \<le> IFNAMSIZ" "0 \<notin> set n"
  then obtain k where "name_field n = n @ 0 # replicate k 0"
    by (metis (no_types) Suc_diff_le Suc_eq_plus1 name_field_def replicate_Suc take_all)
  with n(2) show ?thesis by simp
qed

text \<open>The request of an attachment as the daemon reads it.\<close>

lemma read_request:
  assumes "msg_bytes m = name_field n @ req" "unat (m_data_len m) \<le> WAVE_IPC_BUFF_SIZE" "length n \<le> IFNAMSIZ" "0 \<notin> set n"
  shows "\<not> cmd_too_short m" "cmd_ifname m = n" "snd (cmd_request m) = length req"
    "\<forall>k < length req. fst (cmd_request m) k = req ! k"
proof -
  have len: "unat (m_data_len m) = IFNAMSIZ + 1 + length req" using arg_cong [OF assms(1), of length] by (simp add: msg_bytes_def)
  have size: "wave_ipc_msg_get_size (Some m) = IFNAMSIZ + 1 + length req" using data_of(1) [OF assms(2)] assms(1) by simp
  have nonempty: "msg_bytes m \<noteq> []" using assms(1) len by (auto simp: msg_bytes_def)
  show "\<not> cmd_too_short m" using size data_of(2) [OF assms(2) nonempty] by (simp add: cmd_too_short_def)
  show "cmd_ifname m = n" using assms(1,3,4) by (simp add: cmd_ifname_def name_field_string name_copy_take)
  show "snd (cmd_request m) = length req" using size by (simp add: cmd_request_def)
  show "\<forall>k < length req. fst (cmd_request m) k = req ! k"
  proof (intro allI impI)
    fix k
    assume k: "k < length req"
    have "m_data m (IFNAMSIZ + 1 + k) = msg_bytes m ! (IFNAMSIZ + 1 + k)" using k len by (simp add: msg_bytes_def del: upt_Suc)
    also have "\<dots> = req ! k" unfolding assms(1) by (simp add: nth_append)
    finally show "fst (cmd_request m) k = req ! k" by (simp add: cmd_request_def)
  qed
qed

lemma serve_attach:
  fixes env :: surroundings
  assumes pool: "from_pool (env_daemon_msg env)" and mg: "mgr_ok hostap_registry_ok mg" "im_iftype mg = DWPALD_IF_TYPE_HOSTAP"
    and apis: "env_apis env = hostap_man_apis execute attach (\<lambda>_. True) (\<lambda>_. True)" "attach name \<noteq> DWPAL_FAILURE"
    and name: "length name \<le> IFNAMSIZ" "0 \<notin> set name" and ops: "request_ok ops"
    and m: "hdr_stack m []" "length h = 6" "unat (m_data_len m) \<le> WAVE_IPC_BUFF_SIZE" "msg_bytes m = name_field name @ hdr_enc ops @ [0]"
    and st: "st = (if attach name = DWPAL_SUCCESS then INTERFACE_DWPAL_STATE_CONNECTED else INTERFACE_DWPAL_STATE_DISCONNECTED)"
  shows "\<exists>forced mg' a. set forced = {n \<in> set g_intf_events. \<not> names_intf ops n} \<and>
    serve env (cmd_becomes DWPALD_ATTACH_REQ s sq (with_dwpald_header h m)) mg =
      (Some (with_dwpald_header [DWPALD_ATTACH_RESP, DWPALD_IF_TYPE_HOSTAP, st, 0, 0, 0] (env_daemon_msg env)), mg') \<and>
    mgr_ok hostap_registry_ok mg' \<and> find_iface name (im_ifaces mg') = Some a \<and> s \<in> set (ai_clients a) \<and> ai_state a = st \<and>
    ai_events a = hr.reg_all s (ops @ forced) (events_on name mg) \<and>
    (\<forall>b \<in> set (im_ifaces mg). ai_ifname b \<noteq> name \<longrightarrow> b \<in> set (im_ifaces mg'))"
proof -
  let ?cmd = "with_dwpald_header h m" and ?es = "events_on name mg"
  let ?cw = "\<lparr>cw_cmd = ?cmd, cw_seq_num = sq, cw_ipsta = s\<rparr>"
  have dat: "msg_bytes ?cmd = name_field name @ (hdr_enc ops @ [0])" "unat (m_data_len ?cmd) \<le> WAVE_IPC_BUFF_SIZE"
    using m by simp_all
  note rr = read_request [OF dat name]
  obtain rd len where req: "cmd_request ?cmd = (rd, len)" by (meson surj_pair)
  obtain forced where f: "set forced = {n \<in> set g_intf_events. \<not> names_intf ops n}"
    "hostap_register_sta_to_events (\<lambda>_. True) (\<lambda>_. True) s rd len ?es = (0, hr.reg_all s (ops @ forced) ?es)"
    using register_request_eq [OF ops, of rd len s ?es] rr(3,4) req by auto
  have att: "api_attach (env_apis env) name st0 = (0, st)" for st0
    using apis st by (simp add: hostap_man_apis_def hostap_iface_attach_def)
  obtain mg' a where w: "iface_attach_work (env_apis env) True True ?cw mg = (0, mg', [Respond s sq [DWPALD_ATTACH_RESP, im_iftype mg, st, 0, 0, 0]])"
    "find_iface name (im_ifaces mg') = Some a" "s \<in> set (ai_clients a)" "ai_state a = st"
    "ai_events a = hr.reg_all s (ops @ forced) ?es"
    "\<forall>b \<in> set (im_ifaces mg). \<not> strncmp_eq (ai_ifname b) name (IFNAMSIZ + 1) \<longrightarrow> b \<in> set (im_ifaces mg')"
    using attach_result [of ?cw name rd len "env_apis env" st mg "hr.reg_all s (ops @ forced) ?es"] rr(1-3) req att f(2) apis(1)
    by (auto simp: hostap_man_apis_def)
  have "mgr_ok hostap_registry_ok mg'" using hm.attach_ok [OF mg(1), of execute attach "\<lambda>_. True" "\<lambda>_. True" True True ?cw] w(1) apis(1) by simp
  moreover have "serve env (cmd_becomes DWPALD_ATTACH_REQ s sq ?cmd) mg =
      (Some (with_dwpald_header [DWPALD_ATTACH_RESP, DWPALD_IF_TYPE_HOSTAP, st, 0, 0, 0] (env_daemon_msg env)), mg')"
    using w(1) mg(2) by (simp add: serve_def cmd_becomes_def Let_def)
  moreover have "\<forall>b \<in> set (im_ifaces mg). ai_ifname b \<noteq> name \<longrightarrow> b \<in> set (im_ifaces mg')"
    using w(6) mgr_okE(2) [OF mg(1)] name(1) by (simp add: less_Suc_eq_le)
  ultimately show ?thesis using f(1) w(2-5) by blast
qed


section \<open>An event of hostapd\<close>

text \<open>What is left of the message of an event behind the operation code.\<close>

definition event_rest :: "u8 list option \<Rightarrow> nat \<Rightarrow> u8 list" where
  "event_rest msg len = (case msg of None \<Rightarrow> [] | Some bs \<Rightarrow> if len = 0 then [] else take len bs @ [0])"

definition event_ok :: "cstr \<Rightarrow> cstr \<Rightarrow> u8 list option \<Rightarrow> nat \<Rightarrow> bool" where
  "event_ok v op msg len \<longleftrightarrow> length v \<le> IFNAMSIZ \<and> 0 \<notin> set v \<and> op \<noteq> [] \<and> length op < OPCODE_SIZE \<and> 0 \<notin> set op \<and>
     (msg = None \<longrightarrow> len = 0) \<and> (\<forall>bs. msg = Some bs \<longrightarrow> len \<le> length bs) \<and>
     length v + length op + len + 1 \<le> WAVE_IPC_BUFF_SIZE"

lemma event_message:
  assumes ok: "event_ok v op msg len" and fresh: "from_pool fresh"
  shows "\<exists>m. (with_dwpald_header (hostap_event_header v op (length (event_rest msg len))) fresh)
      \<lparr>m_data_len := of_nat (length v + length op + length (event_rest msg len)),
       m_data := event_payload (of_nat (length v)) (of_nat (length op)) (of_nat (length (event_rest msg len))) v op msg dat\<rparr> =
    with_dwpald_header (hostap_event_header v op (length (event_rest msg len))) m \<and>
    hdr_stack m [] \<and> msg_bytes m = v @ op @ event_rest msg len \<and> unat (m_data_len m) \<le> WAVE_IPC_BUFF_SIZE"
proof -
  let ?n = "length (event_rest msg len)" and ?h = "hostap_event_header v op (length (event_rest msg len))"
  have n: "?n \<le> len + 1" "?n < 65536" using ok by (auto simp: event_ok_def event_rest_def WAVE_IPC_BUFF_SIZE_def split: option.split)
  have short: "length v < 256" "length op < 256" using ok by (simp_all add: event_ok_def IFNAMSIZ_def OPCODE_SIZE_def)
  have h: "length ?h = 6" using hostap_event_header_bytes(1) [OF short n(2)] .
  let ?m = "(with_dwpald_header ?h fresh)\<lparr>m_data_len := of_nat (length v + length op + ?n),
       m_data := event_payload (of_nat (length v)) (of_nat (length op)) (of_nat ?n) v op msg dat\<rparr>"
  have total: "length v + length op + ?n \<le> WAVE_IPC_BUFF_SIZE" using ok n(1) by (simp add: event_ok_def)
  then have u: "unat (of_nat (length v + length op + ?n) :: u16) = length v + length op + ?n"
    by (intro unat_of_nat_u16) (simp add: WAVE_IPC_BUFF_SIZE_def)
  have n16: "unat (of_nat ?n :: u16) = ?n" using n(2) by (rule unat_of_nat_u16)
  have zero: "(of_nat ?n :: u16) = 0 \<longleftrightarrow> ?n = 0" using n16 unat_gt_0 [of "of_nat ?n :: u16"] by auto
  have "msg_bytes ?m = v @ op @ (case msg of None \<Rightarrow> [] | Some bs \<Rightarrow>
      if (of_nat ?n :: u16) = 0 then [] else take (unat (of_nat ?n :: u16) - 1) bs @ [0])"
    using ok u n16 short zero by (intro event_payload_bytes [where mlen = "of_nat ?n" and dat = dat])
      (auto simp: event_rest_def event_ok_def split: option.splits if_splits)
  also have "\<dots> = v @ op @ event_rest msg len"
    using ok n16 zero by (auto simp: event_rest_def event_ok_def split: option.splits if_splits)
  finally have bytes: "msg_bytes ?m = v @ op @ event_rest msg len" .
  have "m_hdr ?m = hdr_area [DWPALD_HDR_MAGIC # ?h]"
    using with_dwpald_header_stack(1) [OF _ h, of fresh] fresh by (simp add: from_pool_def)
  from strip_header [OF this h] bytes u total show ?thesis by auto
qed

lemma event_arrives:
  assumes ok: "event_ok v op msg len" and m: "hdr_stack m []" "msg_bytes m = v @ op @ event_rest msg len"
    "unat (m_data_len m) \<le> WAVE_IPC_BUFF_SIZE" "length junk = 6"
  shows "dwpald_event nl junk (with_dwpald_header (hostap_event_header v op (length (event_rest msg len))) m) c =
    Some (hostap_delivery v op (if event_rest msg len = [] then None else Some (event_rest msg len)) len c)"
proof -
  let ?n = "length (event_rest msg len)" and ?h = "hostap_event_header v op (length (event_rest msg len))"
  have n: "?n < 65536" using ok by (auto simp: event_ok_def event_rest_def WAVE_IPC_BUFF_SIZE_def split: option.split)
  have len: "?n - 1 = len"
    using ok by (auto simp: event_ok_def event_rest_def split: option.split)
  have short: "length v < 256" "length op < 256" using ok by (simp_all add: event_ok_def IFNAMSIZ_def OPCODE_SIZE_def)
  note h = hostap_event_header_bytes [OF short n]
  have pop: "dwpald_header_pop (Some (with_dwpald_header ?h m)) \<lparr>h_magic = 0, h_bytes = junk\<rparr> =
      Some (0, \<lparr>h_magic = DWPALD_HDR_MAGIC, h_bytes = ?h\<rparr>, Some m)"
    using m(1,4) h(1) by (intro dwpald_header_roundtrip(1)) simp_all
  have recv: "dwpald_receive_hostap_event m ?h c = hostap_delivery v op (if event_rest msg len = [] then None else Some (event_rest msg len)) (?n - 1) c"
    by (rule receive_hostap_payload [OF _ _ _ _ _ m(2) n m(3)]) (use ok in \<open>simp_all add: event_ok_def\<close>)
  show ?thesis using h(2,3) by (simp add: dwpald_event_def pop Let_def recv [unfolded len])
qed


text \<open>
  C29. An event that the program emulates does what the same event of hostapd does: the message that
  \<open>dwpald_emulate_event\<close> makes is handed to the serializer of the events as it is, and has the
  effect of the one that the daemon would have sent.
\<close>

theorem emulated_event_equals_event:
  assumes "event_ok v op msg len" "from_pool fresh" "ipc_alloc ipc w = (Some fresh, w1)"
    "\<forall>e. ipc_emulate ipc sync e w1 = (WAVE_IPC_SUCCESS, w2)" "ic_listener ic = Some l" "li_events_serializer l" "da_push_ok da"
    "length junk = 6"
  shows "\<exists>e. dwpald_emulate_event ipc sync (Some v) (Some op) msg len w = (0, PassedOn e, w2) \<and>
    wave_ipcc_emulate_event da (Some ic) sync (Some e) = (WAVE_IPC_SUCCESS, [PushEvent e]) \<and>
    dwpald_event nl junk e c =
      Some (hostap_delivery v op (if event_rest msg len = [] then None else Some (event_rest msg len)) len c)"
proof -
  let ?n = "length (event_rest msg len)" and ?h = "hostap_event_header v op (length (event_rest msg len))"
  have n: "?n \<le> len + 1" "?n < 65536" using assms(1) by (auto simp: event_ok_def event_rest_def WAVE_IPC_BUFF_SIZE_def split: option.split)
  have short: "length v < 256" "length op < 256" using assms(1) by (simp_all add: event_ok_def IFNAMSIZ_def OPCODE_SIZE_def)
  have h: "length ?h = 6" using hostap_event_header_bytes(1) [OF short n(2)] .
  have u: "unat (of_nat (length v) :: u8) = length v" "unat (of_nat (length op) :: u8) = length op" "unat (of_nat ?n :: u16) = ?n"
    using short n(2) by (simp_all add: unat_of_nat_u8 unat_of_nat_u16)
  have sl: "strnlen_s v IFNAMSIZ = length v" "strnlen_s op OPCODE_SIZE = length op"
    using assms(1) by (simp_all add: event_ok_def strnlen_s_def)
  have len1: "(if msg \<noteq> None \<and> len \<noteq> 0 then size_add len 1 else len) = ?n"
    using assms(1) by (auto simp: event_ok_def event_rest_def size_add_def WAVE_IPC_BUFF_SIZE_def split: option.split)
  have wf: "m_data_len (with_dwpald_header ?h fresh) = 0" "m_data (with_dwpald_header ?h fresh) = m_data fresh"
    using assms(2) h by (simp_all add: from_pool_def)
  let ?total = "length v + length op + ?n"
  have total: "?total \<noteq> 0" "?total \<le> WAVE_IPC_BUFF_SIZE" using assms(1) n(1) by (auto simp: event_ok_def)
  have reserve: "wave_ipc_msg_reserve_data (Some (with_dwpald_header ?h fresh)) ?total =
      (WAVE_IPC_SUCCESS, Some ((with_dwpald_header ?h fresh)\<lparr>m_data_len := of_nat ?total\<rparr>))"
    unfolding wave_ipc_msg_reserve_data_def using total wf(1) by auto
  have hdr: "[DWPALD_EVENT, DWPALD_IF_TYPE_HOSTAP] @ wv_aligned_16_bit_assign [of_nat (length v), of_nat (length op), 0, 0] 2 (of_nat ?n) = ?h"
    by (simp add: hostap_event_header_def)
  have given: "(msg = None \<and> len \<noteq> 0) = False" using assms(1) by (cases msg) (simp_all add: event_ok_def)
  obtain m where m: "(with_dwpald_header ?h fresh)\<lparr>m_data_len := of_nat ?total,
       m_data := event_payload (of_nat (length v)) (of_nat (length op)) (of_nat ?n) v op msg (m_data fresh)\<rparr> = with_dwpald_header ?h m"
    "hdr_stack m []" "msg_bytes m = v @ op @ event_rest msg len" "unat (m_data_len m) \<le> WAVE_IPC_BUFF_SIZE"
    using event_message [OF assms(1,2), of "m_data fresh"] by blast
  have "unat (of_nat ?total :: u16) = ?total" using total(2) by (intro unat_of_nat_u16) (simp add: WAVE_IPC_BUFF_SIZE_def)
  then have dat: "wave_ipc_msg_get_data (Some ((with_dwpald_header ?h fresh)\<lparr>m_data_len := of_nat ?total\<rparr>)) \<noteq> None"
    using total by (auto simp: wave_ipc_msg_get_data_def simp del: of_nat_add)
  have "dwpald_emulate_event ipc sync (Some v) (Some op) msg len w = (0, PassedOn (with_dwpald_header ?h m), w2)"
    unfolding dwpald_emulate_event_def option.case prod.case given if_False assms(3) Let_def len1 sl u hdr reserve
    using m(1) wf(2) dat assms(4) by simp
  moreover have "wave_ipcc_emulate_event da (Some ic) sync (Some (with_dwpald_header ?h m)) = (WAVE_IPC_SUCCESS, [PushEvent (with_dwpald_header ?h m)])"
    using assms(5-7) by (simp add: wave_ipcc_emulate_event_def)
  moreover note event_arrives [OF assms(1) m(2-4) assms(8)]
  ultimately show ?thesis by blast
qed

section \<open>Witnesses\<close>

text \<open>The station 7 of a daemon without interfaces, and hostapd, which answers PONG.\<close>

definition ex_env :: surroundings where
  "ex_env = \<lparr>env_apis = ex_apis, env_hostapd = (\<lambda>_ _. (DWPAL_SUCCESS, cbytes ''PONG'')), env_daemon_msg = ex_msg, env_client_msg = ex_msg\<rparr>"

lemma ex_msg_pool: "from_pool ex_msg"
  using ex_msg_stack by (simp add: from_pool_def ex_msg_def)

lemma ex_quiet: "quiet no_ifaces (ex_daemon [7] no_ifaces [] [] 1)"
  by (simp add: quiet_def ex_daemon_def)


definition ex_attachment :: "dwpald_hostap_clb_id list \<Rightarrow> dwpald_hostap_attachment" where
  "ex_attachment clbs = \<lparr>ha_ifname = [119], ha_common_event = None, ha_events = [\<lparr>he_code = [65], he_code_len = 1, he_clbs = clbs\<rparr>], ha_state = 0\<rparr>"


lemma ex_event_ok: "event_ok (cbytes ''wlan0'') (cbytes ''AP-DISABLED'') (Some [72, 105, 0]) 2"
  by (simp add: event_ok_def cbytes_def IFNAMSIZ_def OPCODE_SIZE_def WAVE_IPC_BUFF_SIZE_def)

definition ex_listener :: listener_thread_data where
  "ex_listener = \<lparr>li_terminate = False, li_cmd_clb = False, li_reconnect_clb = True, li_events_serializer = True, li_resp_list = []\<rparr>"

definition ex_answers :: dispatch_answers where
  "ex_answers = \<lparr>da_event_ret = 0, da_cmd_ret = 0, da_push_ok = True, da_send = SendOk, da_fresh = None\<rparr>"


definition ex_pool_ipc :: "unit ipc_client" where
  "ex_pool_ipc = \<lparr>ipc_alloc = (\<lambda>w. (Some ex_msg, w)), ipc_send_cmd = (\<lambda>_ w. (WAVE_IPC_ERROR, [], w)),
     ipc_emulate = (\<lambda>_ _ w. (WAVE_IPC_SUCCESS, w)), ipc_in_event_thread = (\<lambda>_. False)\<rparr>"

theorem emulated_event_equals_event_witness:
  "\<exists>e. dwpald_emulate_event ex_pool_ipc False (Some (cbytes ''wlan0'')) (Some (cbytes ''AP-DISABLED'')) (Some [72, 105, 0]) 2 () = (0, PassedOn e, ()) \<and>
    wave_ipcc_emulate_event ex_answers (Some (ex_client (Some ex_listener))) False (Some e) = (WAVE_IPC_SUCCESS, [PushEvent e]) \<and>
    dwpald_event (\<lambda>_. None :: nat option) [0, 0, 0, 0, 0, 0] e (ex_conn []) =
      Some (hostap_delivery (cbytes ''wlan0'') (cbytes ''AP-DISABLED'') (Some [72, 105, 0]) 2 (ex_conn []))"
  using emulated_event_equals_event [OF ex_event_ok ex_msg_pool, of ex_pool_ipc "()" "()" False "()" "ex_client (Some ex_listener)" ex_listener ex_answers
      "[0, 0, 0, 0, 0, 0]" "\<lambda>_. None :: nat option" "ex_conn []"]
  by (simp add: ex_listener_def ex_answers_def ex_pool_ipc_def ex_client_def event_rest_def)

end
