(* ===== verification/Dwpal_Lib.thy ===== *)
theory Dwpal_Lib
  imports Hostap_Parse
begin

text \<open>
  The access to hostapd and to the driver in dwpal.c: a context with its two control sockets or
  its two netlink sockets, opened by an attachment and closed by a detachment, the commands to
  hostapd and their replies, and the events.  wpa_ctrl.c and libnl are arguments, as the answers
  of their functions; which sockets are open is part of the state.  The result is None where the
  code uses a socket that is not open, takes a context for one of the other kind, reads an
  uninitialised pointer or writes beyond a buffer.
\<close>

section \<open>Sockets\<close>

text \<open>Open sockets by the address of their structure, an address being used once.\<close>

record sockets =
  sk_next :: nat
  sk_open :: "nat list"

definition sock_open :: "bool \<Rightarrow> sockets \<Rightarrow> nat option \<times> sockets" where
  "sock_open ok w =
     (if ok then (Some (sk_next w), w\<lparr>sk_next := Suc (sk_next w), sk_open := sk_next w # sk_open w\<rparr>) else (None, w))"

definition sock_close :: "nat \<Rightarrow> sockets \<Rightarrow> sockets option" where
  "sock_close a w = (if a \<in> set (sk_open w) then Some (w\<lparr>sk_open := remove1 a (sk_open w)\<rparr>) else None)"

definition sock_use :: "nat \<Rightarrow> sockets \<Rightarrow> unit option" where
  "sock_use a w = (if a \<in> set (sk_open w) then Some () else None)"

section \<open>Contexts\<close>

definition DWPAL_VAP_NAME_STRING_LENGTH :: nat where "DWPAL_VAP_NAME_STRING_LENGTH = 16"
definition DWPAL_WPA_CTRL_STRING_LENGTH :: nat where "DWPAL_WPA_CTRL_STRING_LENGTH = 32"
definition DWPAL_OPCODE_STRING_LENGTH :: nat where "DWPAL_OPCODE_STRING_LENGTH = 64"
definition DWPAL_TO_HOSTAPD_MSG_LENGTH_INTERNAL :: nat where "DWPAL_TO_HOSTAPD_MSG_LENGTH_INTERNAL = 3 * 1024"

text \<open>\<open>hc_two_way\<close> tells whether \<open>wpaCtrlEventCallback\<close> is given.\<close>

record hostap_context =
  hc_vap :: cstr
  hc_mode :: cstr
  hc_ctrl_name :: cstr
  hc_ctrl :: "nat option"
  hc_listener :: "nat option"
  hc_fd :: int
  hc_two_way :: bool

record driver_context =
  dc_event :: "nat option"
  dc_cmd :: "nat option"
  dc_fd :: int
  dc_fd_cmd :: int
  dc_nl80211_id :: int

datatype DWPAL_Context = HostapContext hostap_context | DriverContext driver_context

section \<open>Attaching to hostapd\<close>

text \<open>
  The answers to an attachment: \<open>malloc\<close>, whether a path exists, the two \<open>wpa_ctrl_open\<close>,
  \<open>wpa_ctrl_attach\<close> and \<open>wpa_ctrl_get_fd\<close>.
\<close>

record attach_answers =
  aa_mem :: bool
  aa_exists :: "cstr \<Rightarrow> bool"
  aa_open :: bool
  aa_open_listener :: bool
  aa_attach :: bool
  aa_fd :: int

text \<open>
  The two-way connection is refused before anything is done.  The name of the control socket
  may not fit its buffer, with the directory of hostapd or that of the supplicant.
\<close>

definition wpa_ctrl_name :: "attach_answers \<Rightarrow> cstr \<Rightarrow> (cstr \<times> cstr) option" where
  "wpa_ctrl_name ans name =
     (let ap = sprintf_s DWPAL_WPA_CTRL_STRING_LENGTH (cbytes ''/var/run/hostapd/'' @ name);
          sta = sprintf_s DWPAL_WPA_CTRL_STRING_LENGTH (cbytes ''/var/run/wpa_supplicant/'' @ name)
      in if ap = [] then None
         else if aa_exists ans ap then Some (cbytes ''AP'', ap)
         else if sta = [] then None
         else if aa_exists ans sta then Some (cbytes ''STA'', sta)
         else None)"

definition dwpal_hostap_interface_attach ::
  "attach_answers \<Rightarrow> cstr option \<Rightarrow> bool \<Rightarrow> sockets \<Rightarrow> (DWPAL_Ret \<times> DWPAL_Context option \<times> sockets) option" where
  "dwpal_hostap_interface_attach ans vap two_way w =
     (case vap of
        None \<Rightarrow> Some (DWPAL_FAILURE, None, w)
      | Some v \<Rightarrow>
          if two_way \<or> \<not> aa_mem ans then Some (DWPAL_FAILURE, None, w)
          else (let name = strncpy_s DWPAL_VAP_NAME_STRING_LENGTH v (strnlen_s v DWPAL_VAP_NAME_STRING_LENGTH)
                in case wpa_ctrl_name ans name of
                     None \<Rightarrow> Some (DWPAL_FAILURE, None, w)
                   | Some (mode, path) \<Rightarrow>
                       (case sock_open (aa_open ans) w of
                          (None, w1) \<Rightarrow> Some (DWPAL_FAILURE, None, w1)
                        | (Some c, w1) \<Rightarrow>
                            (case sock_open (aa_open_listener ans) w1 of
                               (None, w2) \<Rightarrow> do { w3 \<leftarrow> sock_close c w2; Some (DWPAL_FAILURE, None, w3) }
                             | (Some l, w2) \<Rightarrow>
                                 if \<not> aa_attach ans
                                 then do { w3 \<leftarrow> sock_close c w2; w4 \<leftarrow> sock_close l w3; Some (DWPAL_FAILURE, None, w4) }
                                 else Some (DWPAL_SUCCESS,
                                            Some (HostapContext \<lparr>hc_vap = name, hc_mode = mode, hc_ctrl_name = path,
                                              hc_ctrl = Some c, hc_listener = Some l, hc_fd = aa_fd ans,
                                              hc_two_way = False\<rparr>), w2)))))"

definition dwpal_hostap_interface_detach ::
  "DWPAL_Context option \<Rightarrow> sockets \<Rightarrow> (DWPAL_Ret \<times> DWPAL_Context option \<times> sockets) option" where
  "dwpal_hostap_interface_detach ctx w =
     (case ctx of
        None \<Rightarrow> Some (DWPAL_FAILURE, ctx, w)
      | Some (DriverContext d) \<Rightarrow> None
      | Some (HostapContext h) \<Rightarrow>
          (case (hc_ctrl h, hc_listener h) of
             (None, _) \<Rightarrow> Some (DWPAL_FAILURE, ctx, w)
           | (Some c, lp) \<Rightarrow>
               if hc_two_way h
               then do { sock_use c w; w1 \<leftarrow> sock_close c w; Some (DWPAL_SUCCESS, None, w1) }
               else (case lp of
                       None \<Rightarrow> Some (DWPAL_FAILURE, ctx, w)
                     | Some l \<Rightarrow> do { sock_use l w; w1 \<leftarrow> sock_close l w; w2 \<leftarrow> sock_close c w1;
                                     Some (DWPAL_SUCCESS, None, w2) })))"

definition dwpal_hostap_socket_close ::
  "DWPAL_Context option \<Rightarrow> sockets \<Rightarrow> (DWPAL_Ret \<times> DWPAL_Context option \<times> sockets) option" where
  "dwpal_hostap_socket_close ctx w =
     (case ctx of
        None \<Rightarrow> Some (DWPAL_FAILURE, ctx, w)
      | Some (DriverContext d) \<Rightarrow> None
      | Some (HostapContext h) \<Rightarrow>
          (case hc_ctrl h of
             None \<Rightarrow> Some (DWPAL_FAILURE, ctx, w)
           | Some c \<Rightarrow> do {
               w1 \<leftarrow> sock_close c w;
               if hc_two_way h then Some (DWPAL_SUCCESS, None, w1)
               else (case hc_listener h of
                       None \<Rightarrow> Some (DWPAL_FAILURE, ctx, w1)
                     | Some l \<Rightarrow> do { sock_use l w1; w2 \<leftarrow> sock_close l w1; Some (DWPAL_SUCCESS, None, w2) }) }))"

section \<open>Commands\<close>

datatype ParamParsingType = DWPAL_STR_PARAM | DWPAL_STR_ARRAY_PARAM | DWPAL_CHAR_PARAM | DWPAL_UNSIGNED_CHAR_PARAM
  | DWPAL_SHORT_INT_PARAM | DWPAL_INT_PARAM | DWPAL_UNSIGNED_INT_PARAM | DWPAL_LONG_LONG_INT_PARAM
  | DWPAL_UNSIGNED_LONG_LONG_INT_PARAM | DWPAL_INT_ARRAY_PARAM | DWPAL_INT_HEX_PARAM | DWPAL_INT_HEX_ARRAY_PARAM
  | DWPAL_INT64_HEX_PARAM | DWPAL_BOOL_PARAM | DWPAL_DUMMY_PARAM | DWPAL_NUM_OF_PARSING_TYPES

text \<open>\<open>cf_given\<close> tells whether \<open>field\<close> is not NULL; it points to a string or to an integer.\<close>

record FieldsToCmdParse =
  cf_given :: bool
  cf_str :: cstr
  cf_num :: u32
  cf_type :: ParamParsingType
  cf_prefix :: "cstr option"

definition cmd_field :: "FieldsToCmdParse \<Rightarrow> cstr \<Rightarrow> cstr option" where
  "cmd_field p cmd =
     (let append = (\<lambda>t. let cmd' = sprintf_s DWPAL_TO_HOSTAPD_MSG_LENGTH_INTERNAL
                                      (cmd @ [32] @ (case cf_prefix p of None \<Rightarrow> [] | Some pre \<Rightarrow> pre) @ t)
                        in if cmd' = [] then None else Some cmd')
      in if \<not> cf_given p then Some cmd
         else (case cf_type p of
                 DWPAL_STR_PARAM \<Rightarrow> append (cf_str p)
               | DWPAL_INT_PARAM \<Rightarrow> append (print_int (sint (cf_num p)))
               | DWPAL_UNSIGNED_INT_PARAM \<Rightarrow> append (print_int (uint (cf_num p)))
               | DWPAL_INT_HEX_PARAM \<Rightarrow> None
               | _ \<Rightarrow> Some cmd))"

fun cmd_fields :: "FieldsToCmdParse list \<Rightarrow> cstr \<Rightarrow> cstr option" where
  "cmd_fields [] cmd = Some cmd"
| "cmd_fields (p # ps) cmd =
     (if cf_type p = DWPAL_NUM_OF_PARSING_TYPES then Some cmd
      else (case cmd_field p cmd of None \<Rightarrow> None | Some cmd' \<Rightarrow> cmd_fields ps cmd'))"

text \<open>
  What meets a command: for every message that is still in the socket, whether a buffer can be
  allocated and the message received, then the result of \<open>wpa_ctrl_request\<close> and the reply.
\<close>

record cmd_answers =
  ca_stuck :: "(bool \<times> bool) list"
  ca_ret :: int
  ca_reply :: "u8 list"

fun clear_stuck :: "(bool \<times> bool) list \<Rightarrow> DWPAL_Ret" where
  "clear_stuck [] = DWPAL_SUCCESS"
| "clear_stuck ((mem_ok, recv_ok) # as) =
     (if \<not> mem_ok then DWPAL_FAILURE else if \<not> recv_ok then DWPAL_SOCKET_FAILURE else clear_stuck as)"

text \<open>
  The result is the code, the command that is written to hostapd, if any, the bytes of the reply
  and their number, which the caller gives as the size of its buffer.
\<close>

definition dwpal_hostap_cmd_send ::
  "cmd_answers \<Rightarrow> DWPAL_Context option \<Rightarrow> cstr option \<Rightarrow> FieldsToCmdParse list \<Rightarrow> bool \<Rightarrow> nat \<Rightarrow> sockets \<Rightarrow>
     (DWPAL_Ret \<times> cstr option \<times> u8 list \<times> nat) option" where
  "dwpal_hostap_cmd_send ans ctx header params reply_given len w =
     (case (ctx, header) of
        (Some c, Some hdr) \<Rightarrow>
          if \<not> reply_given \<or> len = 0 then Some (DWPAL_FAILURE, None, [], len)
          else (case c of
                  DriverContext d \<Rightarrow> None
                | HostapContext h \<Rightarrow>
                    (case hc_ctrl h of
                       None \<Rightarrow> Some (DWPAL_FAILURE, None, [], 0)
                     | Some sk \<Rightarrow>
                         (let cmd0 = sprintf_s DWPAL_TO_HOSTAPD_MSG_LENGTH_INTERNAL hdr
                          in case (if cmd0 = [] then None else cmd_fields params cmd0) of
                               None \<Rightarrow> Some (DWPAL_FAILURE, None, [], 0)
                             | Some cmd \<Rightarrow> do {
                                 sock_use sk w;
                                 let stuck = (if hc_two_way h then DWPAL_SUCCESS else clear_stuck (ca_stuck ans));
                                 if stuck \<noteq> DWPAL_SUCCESS then Some (stuck, None, [], len)
                                 else if len = 1 then Some (DWPAL_SUCCESS, None, [], 0)
                                 else if ca_ret ans < 0 then Some (DWPAL_SOCKET_FAILURE, Some cmd, [], 0)
                                 else (let bs = take (len - 1) (ca_reply ans)
                                       in Some (DWPAL_SUCCESS, Some cmd, bs,
                                                if bs = [] \<or> bs ! 0 = 0 then 0 else length bs)) })))
      | _ \<Rightarrow> Some (DWPAL_FAILURE, None, [], len))"

definition dwpal_hostap_is_socket_alive ::
  "cmd_answers \<Rightarrow> DWPAL_Context option \<Rightarrow> bool \<Rightarrow> sockets \<Rightarrow> (DWPAL_Ret \<times> bool option) option" where
  "dwpal_hostap_is_socket_alive ans ctx given w =
     (case ctx of
        None \<Rightarrow> Some (DWPAL_FAILURE, None)
      | Some (DriverContext d) \<Rightarrow> None
      | Some (HostapContext h) \<Rightarrow>
          if \<not> given then Some (DWPAL_FAILURE, None)
          else if hc_vap h = [] then Some (DWPAL_FAILURE, Some False)
          else do { (r, _) \<leftarrow> dwpal_hostap_cmd_send ans ctx (Some (cbytes ''PING'')) [] True 63 w;
                    Some (DWPAL_SUCCESS, Some (r = DWPAL_SUCCESS)) })"

section \<open>Events\<close>

definition dwpal_hostap_event_fd_get :: "DWPAL_Context option \<Rightarrow> bool \<Rightarrow> (DWPAL_Ret \<times> int option) option" where
  "dwpal_hostap_event_fd_get ctx given =
     (case ctx of
        None \<Rightarrow> Some (DWPAL_FAILURE, None)
      | Some (DriverContext d) \<Rightarrow> None
      | Some (HostapContext h) \<Rightarrow>
          if \<not> given then Some (DWPAL_FAILURE, None)
          else Some (if hc_fd h = -1 then DWPAL_FAILURE else DWPAL_SUCCESS, Some (hc_fd h)))"

text \<open>
  The operation code of an event of \<open>n\<close> bytes: the word behind the first \<open>>\<close>, empty when there is
  none.  The second call of \<open>strtok_s\<close> uses a pointer that the first has not set when it found no
  token, and the copy writes a byte behind the buffer for a word of 64 characters or more.
\<close>

definition event_op_code :: "u8 list \<Rightarrow> nat \<Rightarrow> cstr option" where
  "event_op_code msg n =
     do { (_, rest, dmax) \<leftarrow> strtok_s 62 (cstr_of (take n msg)) n;
          (case strtok_s 32 rest dmax of
             None \<Rightarrow> Some []
           | Some (op, _) \<Rightarrow> if length op < DWPAL_OPCODE_STRING_LENGTH then Some op else None) }"

text \<open>
  The answers of \<open>wpa_ctrl_pending\<close> and \<open>wpa_ctrl_recv\<close>, None for an error of the latter.  The
  result tells, besides the code, the message and the operation code, whether the lock is released.
\<close>

definition dwpal_hostap_event_get ::
  "int \<Rightarrow> u8 list option \<Rightarrow> bool \<Rightarrow> DWPAL_Context option \<Rightarrow> bool \<Rightarrow> nat \<Rightarrow> sockets \<Rightarrow>
     (DWPAL_Ret \<times> u8 list \<times> cstr \<times> bool) option" where
  "dwpal_hostap_event_get pending recv dup_ok ctx given size_max w =
     (case ctx of
        None \<Rightarrow> Some (DWPAL_SUCCESS, [], [], True)
      | Some (DriverContext d) \<Rightarrow> None
      | Some (HostapContext h) \<Rightarrow>
          if \<not> given then Some (DWPAL_SUCCESS, [], [], True)
          else (case (if hc_two_way h then hc_ctrl h else hc_listener h) of
                  None \<Rightarrow> Some (DWPAL_FAILURE, [], [], True)
                | Some sk \<Rightarrow> do {
                    sock_use sk w;
                    if pending = 0 then Some (DWPAL_NO_PENDING_MESSAGES, [], [], True)
                    else if pending \<noteq> 1 then Some (DWPAL_FAILURE, [], [], True)
                    else (case recv of
                            None \<Rightarrow> Some (DWPAL_FAILURE, [], [], True)
                          | Some bs0 \<Rightarrow>
                              (let bs = take size_max bs0
                               in if length bs \<le> 5 then Some (DWPAL_FAILURE, bs, [], True)
                                  else if \<not> dup_ok then Some (DWPAL_FAILURE, bs, [], False)
                                  else do { op \<leftarrow> event_op_code bs (length bs); Some (DWPAL_SUCCESS, bs, op, True) })) }))"

section \<open>The driver\<close>

text \<open>\<open>up\<close> answers \<open>genl_connect\<close>, the buffer size and the file descriptor.\<close>

definition nlSocketCreate :: "bool \<Rightarrow> bool \<Rightarrow> sockets \<Rightarrow> (nat option \<times> sockets) option" where
  "nlSocketCreate alloc_ok up w =
     (case sock_open alloc_ok w of
        (None, w1) \<Rightarrow> Some (None, w1)
      | (Some a, w1) \<Rightarrow> if up then Some (Some a, w1) else do { w2 \<leftarrow> sock_close a w1; Some (None, w2) })"

text \<open>The answers to an attachment to the driver; \<open>na_members\<close> are those of \<open>nl_socket_add_membership\<close>.\<close>

record nl_attach_answers =
  na_mem :: bool
  na_event_alloc :: bool
  na_event_up :: bool
  na_members :: "bool list"
  na_cmd_alloc :: bool
  na_cmd_up :: bool
  na_fd :: int
  na_fd_cmd :: int
  na_id :: int

definition dwpal_driver_nl_attach ::
  "nl_attach_answers \<Rightarrow> sockets \<Rightarrow> (DWPAL_Ret \<times> DWPAL_Context option \<times> sockets) option" where
  "dwpal_driver_nl_attach ans w =
     (if \<not> na_mem ans then Some (DWPAL_FAILURE, None, w)
      else do {
        (ep, w1) \<leftarrow> nlSocketCreate (na_event_alloc ans) (na_event_up ans) w;
        (case ep of
           None \<Rightarrow> Some (DWPAL_FAILURE, None, w1)
         | Some e \<Rightarrow>
             if False \<in> set (na_members ans) then Some (DWPAL_FAILURE, None, w1)
             else do {
               (cp, w2) \<leftarrow> nlSocketCreate (na_cmd_alloc ans) (na_cmd_up ans) w1;
               (case cp of
                  None \<Rightarrow> Some (DWPAL_FAILURE, None, w2)
                | Some c \<Rightarrow>
                    if na_id ans < 0
                    then do { w3 \<leftarrow> sock_close e w2; w4 \<leftarrow> sock_close c w3; Some (DWPAL_FAILURE, None, w4) }
                    else Some (DWPAL_SUCCESS,
                               Some (DriverContext \<lparr>dc_event = Some e, dc_cmd = Some c, dc_fd = na_fd ans,
                                 dc_fd_cmd = na_fd_cmd ans, dc_nl80211_id = na_id ans\<rparr>), w2)) }) })"

definition dwpal_driver_nl_detach ::
  "DWPAL_Context option \<Rightarrow> sockets \<Rightarrow> (DWPAL_Ret \<times> DWPAL_Context option \<times> sockets) option" where
  "dwpal_driver_nl_detach ctx w =
     (case ctx of
        None \<Rightarrow> Some (DWPAL_FAILURE, ctx, w)
      | Some (HostapContext h) \<Rightarrow> None
      | Some (DriverContext d) \<Rightarrow>
          (case dc_event d of
             None \<Rightarrow> Some (DWPAL_FAILURE, ctx, w)
           | Some e \<Rightarrow> do {
               w1 \<leftarrow> sock_close e w;
               w2 \<leftarrow> (case dc_cmd d of None \<Rightarrow> Some w1 | Some c \<Rightarrow> sock_close c w1);
               Some (DWPAL_SUCCESS, None, w2) }))"

definition dwpal_driver_nl_fd_get :: "DWPAL_Context option \<Rightarrow> (DWPAL_Ret \<times> int option \<times> int option) option" where
  "dwpal_driver_nl_fd_get ctx =
     (case ctx of
        None \<Rightarrow> Some (DWPAL_FAILURE, None, None)
      | Some (HostapContext h) \<Rightarrow> None
      | Some (DriverContext d) \<Rightarrow>
          if dc_fd d = -1 then Some (DWPAL_FAILURE, Some (dc_fd d), None)
          else if dc_fd_cmd d = -1 then Some (DWPAL_FAILURE, Some (dc_fd d), Some (dc_fd_cmd d))
          else Some (DWPAL_SUCCESS, Some (dc_fd d), Some (dc_fd_cmd d)))"

definition dwpal_nl80211_id_get :: "DWPAL_Context option \<Rightarrow> bool \<Rightarrow> (DWPAL_Ret \<times> int option) option" where
  "dwpal_nl80211_id_get ctx given =
     (if \<not> given then Some (DWPAL_FAILURE, None)
      else case ctx of
        None \<Rightarrow> Some (DWPAL_FAILURE, None)
      | Some (HostapContext h) \<Rightarrow> None
      | Some (DriverContext d) \<Rightarrow>
          Some (if dc_nl80211_id d < 0 then DWPAL_FAILURE else DWPAL_SUCCESS, Some (dc_nl80211_id d)))"

text \<open>
  A netlink command: what the loop that empties the socket meets (\<open>select\<close> is interrupted, fails
  or reports a message, for which callbacks are allocated), whether the command is sent, and what
  the loop that waits meets.  The handlers leave a new \<open>cmd_res\<close>; \<open>nl_recvmsgs\<close> may report an
  interrupted dump.
\<close>

datatype nl_clean = CleanEintr | CleanError | CleanMessage bool

datatype nl_wait = NlEintr | NlSelectError | NlTimeout | NlMessages int | NlDumpInterrupted

record nl_answers =
  nl_cb_ok :: bool
  nl_cleanup :: "nl_clean list"
  nl_send_ok :: bool
  nl_waits :: "nl_wait list"

fun clean_nl_socket :: "nl_clean list \<Rightarrow> bool" where
  "clean_nl_socket [] = True"
| "clean_nl_socket (CleanEintr # as) = clean_nl_socket as"
| "clean_nl_socket (CleanError # as) = False"
| "clean_nl_socket (CleanMessage cb_ok # as) = (cb_ok \<and> clean_nl_socket as)"

definition EAGAIN :: int where "EAGAIN = 11"
definition ENOENT :: int where "ENOENT = 2"

fun nl_receive :: "nl_wait list \<Rightarrow> int \<Rightarrow> (bool \<times> int) option" where
  "nl_receive as cmd_res =
     (if cmd_res \<le> 0 then Some (True, cmd_res)
      else case as of
        [] \<Rightarrow> None
      | NlEintr # as' \<Rightarrow> nl_receive as' cmd_res
      | NlSelectError # as' \<Rightarrow> Some (False, cmd_res)
      | NlTimeout # as' \<Rightarrow> Some (False, cmd_res)
      | NlMessages r # as' \<Rightarrow> nl_receive as' r
      | NlDumpInterrupted # as' \<Rightarrow> Some (True, - EAGAIN))"

text \<open>
  The message is freed on every way out, but not when it is NULL or \<open>cmd_res\<close> is; \<open>live\<close> tells
  whether it is allocated, before and after.  The message and the socket are used after they
  have been checked.
\<close>

definition dwpal_nl80211_cmd_send ::
  "nl_answers \<Rightarrow> DWPAL_Context option \<Rightarrow> bool option \<Rightarrow> int option \<Rightarrow> sockets \<Rightarrow>
     (DWPAL_Ret \<times> int option \<times> bool option) option" where
  "dwpal_nl80211_cmd_send ans ctx msg cmd_res w =
     (case (msg, cmd_res) of
        (Some live, Some old) \<Rightarrow>
          (let finish = (\<lambda>r res. if live then Some (r, Some res, Some False) else None)
           in case ctx of
                None \<Rightarrow> finish DWPAL_FAILURE old
              | Some (HostapContext h) \<Rightarrow> None
              | Some (DriverContext d) \<Rightarrow>
                  (case dc_cmd d of
                     None \<Rightarrow> finish DWPAL_FAILURE old
                   | Some c \<Rightarrow>
                       if \<not> nl_cb_ok ans \<or> dc_fd_cmd d = -1 then finish DWPAL_FAILURE old
                       else do {
                         sock_use c w;
                         if \<not> clean_nl_socket (nl_cleanup ans) then finish DWPAL_FAILURE old
                         else if \<not> live then None
                         else if \<not> nl_send_ok ans then finish DWPAL_FAILURE old
                         else do { (ok, res) \<leftarrow> nl_receive (nl_waits ans) 1;
                                   finish (if ok then DWPAL_SUCCESS else DWPAL_FAILURE) res } }))
      | _ \<Rightarrow> Some (DWPAL_FAILURE, cmd_res, msg))"

fun dwpal_ret_to_string :: "DWPAL_Ret \<Rightarrow> string" where
  "dwpal_ret_to_string DWPAL_SOCKET_FAILURE = ''DWPAL_SOCKET_FAILURE''"
| "dwpal_ret_to_string DWPAL_FAILURE = ''DWPAL_FAILURE''"
| "dwpal_ret_to_string DWPAL_SUCCESS = ''DWPAL_SUCCESS''"
| "dwpal_ret_to_string DWPAL_NO_PENDING_MESSAGES = ''DWPAL_NO_PENDING_MESSAGES''"
| "dwpal_ret_to_string DWPAL_MISSING_PARAM = ''DWPAL_MISSING_PARAM''"
| "dwpal_ret_to_string DWPAL_INTERFACE_IS_DOWN = ''DWPAL_INTERFACE_IS_DOWN''"
| "dwpal_ret_to_string DWPAL_INTERFACE_ALREADY_UP = ''UNKNOWN''"

section \<open>What an attachment owns\<close>

text \<open>The sockets of a context, and contexts of either kind as an attachment makes them.\<close>

fun socks_of :: "DWPAL_Context option \<Rightarrow> nat multiset" where
  "socks_of None = {#}"
| "socks_of (Some (HostapContext h)) = mset_set (set_option (hc_ctrl h)) + mset_set (set_option (hc_listener h))"
| "socks_of (Some (DriverContext d)) = mset_set (set_option (dc_event d)) + mset_set (set_option (dc_cmd d))"

fun hostap_kind :: "DWPAL_Context \<Rightarrow> bool" where
  "hostap_kind (HostapContext h) \<longleftrightarrow> hc_ctrl h \<noteq> None \<and> hc_listener h \<noteq> None \<and> \<not> hc_two_way h"
| "hostap_kind (DriverContext d) \<longleftrightarrow> False"

fun driver_kind :: "DWPAL_Context \<Rightarrow> bool" where
  "driver_kind (HostapContext h) \<longleftrightarrow> False"
| "driver_kind (DriverContext d) \<longleftrightarrow> dc_event d \<noteq> None \<and> dc_cmd d \<noteq> None"

definition sock_ok :: "sockets \<Rightarrow> bool" where
  "sock_ok w \<longleftrightarrow> distinct (sk_open w) \<and> (\<forall>a \<in> set (sk_open w). a < sk_next w)"

lemma sock_open_law:
  assumes "sock_ok w"
  obtains ap w' where "sock_open ok w = (ap, w')" "sock_ok w'" "mset (sk_open w') = mset (sk_open w) + mset_set (set_option ap)"
    "ap = None \<longleftrightarrow> \<not> ok"
  using assms by (cases ok) (fastforce simp: sock_open_def sock_ok_def)+

lemma sock_close_law:
  assumes "sock_ok w" "a \<in># mset (sk_open w)"
  obtains w' where "sock_close a w = Some w'" "sock_ok w'" "mset (sk_open w') = mset (sk_open w) - {#a#}"
  using assms by (auto simp: sock_close_def sock_ok_def dest: notin_set_remove1)

text \<open>
  The interface that the services of dwpal_ext.c use: an attachment opens the sockets of the context
  that it returns and no others, a detachment closes exactly those.  An attachment to the
  driver keeps this only when its answers are \<open>clean\<close>.
\<close>

locale socket_owner =
  fixes attach :: "'a \<Rightarrow> sockets \<Rightarrow> (DWPAL_Ret \<times> DWPAL_Context option \<times> sockets) option"
    and detach :: "DWPAL_Context option \<Rightarrow> sockets \<Rightarrow> (DWPAL_Ret \<times> DWPAL_Context option \<times> sockets) option"
    and kind :: "DWPAL_Context \<Rightarrow> bool"
    and clean :: "'a \<Rightarrow> bool"
  assumes attach_law: "sock_ok w \<Longrightarrow> clean a \<Longrightarrow>
      \<exists>r cp w'. attach a w = Some (r, cp, w') \<and> sock_ok w' \<and> mset (sk_open w') = mset (sk_open w) + socks_of cp \<and>
        (r = DWPAL_SUCCESS \<and> (\<exists>c. cp = Some c \<and> kind c) \<or> r = DWPAL_FAILURE \<and> cp = None)"
    and detach_law: "sock_ok w \<Longrightarrow> kind c \<Longrightarrow> socks_of (Some c) \<subseteq># mset (sk_open w) \<Longrightarrow>
      \<exists>w'. detach (Some c) w = Some (DWPAL_SUCCESS, None, w') \<and> sock_ok w' \<and>
        mset (sk_open w') = mset (sk_open w) - socks_of (Some c)"
begin

text \<open>Attaching again, as after a loss: the old context's sockets make way for the new one's.\<close>

lemma reattach_law:
  assumes "sock_ok w" "clean a" "\<forall>c. old = Some c \<longrightarrow> kind c" "socks_of old \<subseteq># mset (sk_open w)"
  shows "\<exists>r cp w1 w2. (if old = None then Some (None, w) else map_option snd (detach old w)) = Some (None, w1) \<and>
    attach a w1 = Some (r, cp, w2) \<and> sock_ok w2 \<and> mset (sk_open w2) = mset (sk_open w) - socks_of old + socks_of cp \<and>
    (r = DWPAL_SUCCESS \<and> (\<exists>c. cp = Some c \<and> kind c) \<or> r = DWPAL_FAILURE \<and> cp = None)"
proof (cases old)
  case None
  with attach_law [OF assms(1,2)] show ?thesis by simp
next
  case (Some c)
  from detach_law [OF assms(1), of c] assms(3,4) Some obtain w1 where w1: "detach (Some c) w = Some (DWPAL_SUCCESS, None, w1)"
    "sock_ok w1" "mset (sk_open w1) = mset (sk_open w) - socks_of (Some c)" by auto
  from attach_law [OF w1(2) assms(2)] w1 Some show ?thesis by simp
qed

end

lemma mset_set_option [simp]: "mset_set (set_option (Some a)) = {#a#}"
  by simp

lemma close_two:
  assumes w: "sock_ok w" and sub: "{#a, b#} \<subseteq># mset (sk_open w)"
  shows "\<exists>w1 w2. sock_close a w = Some w1 \<and> sock_close b w1 = Some w2 \<and> sock_ok w2 \<and>
    mset (sk_open w2) = mset (sk_open w) - {#a, b#}"
proof -
  from sub have a: "a \<in># mset (sk_open w)" by (meson insert_subset_eq_iff)
  obtain w1 where w1: "sock_close a w = Some w1" "sock_ok w1" "mset (sk_open w1) = mset (sk_open w) - {#a#}"
    using sock_close_law [OF w a] by blast
  from sub have b: "b \<in># mset (sk_open w1)" using w1(3) by (simp add: insert_subset_eq_iff)
  obtain w2 where "sock_close b w1 = Some w2" "sock_ok w2" "mset (sk_open w2) = mset (sk_open w1) - {#b#}"
    using sock_close_law [OF w1(2) b] by blast
  with w1 show ?thesis by (auto simp: diff_diff_add_mset add_mset_commute)
qed

lemma hostap_attach_law:
  assumes w: "sock_ok w"
  shows "\<exists>r cp w'. dwpal_hostap_interface_attach ans vap two_way w = Some (r, cp, w') \<and> sock_ok w' \<and>
    mset (sk_open w') = mset (sk_open w) + socks_of cp \<and>
    (r = DWPAL_SUCCESS \<and> (\<exists>c. cp = Some c \<and> hostap_kind c) \<or> r = DWPAL_FAILURE \<and> cp = None)"
proof -
  obtain p w1 where o1: "sock_open (aa_open ans) w = (p, w1)" "sock_ok w1"
    "mset (sk_open w1) = mset (sk_open w) + mset_set (set_option p)" using sock_open_law [OF w] by metis
  obtain q w2 where o2: "sock_open (aa_open_listener ans) w1 = (q, w2)" "sock_ok w2"
    "mset (sk_open w2) = mset (sk_open w1) + mset_set (set_option q)" using sock_open_law [OF o1(2)] by metis
  show ?thesis
  proof (cases "(\<exists>v x. vap = Some v \<and> wpa_ctrl_name ans (strncpy_s DWPAL_VAP_NAME_STRING_LENGTH v
      (strnlen_s v DWPAL_VAP_NAME_STRING_LENGTH)) = Some x) \<and> \<not> two_way \<and> aa_mem ans")
    case False
    with w show ?thesis by (auto simp: dwpal_hostap_interface_attach_def Let_def split: option.split)
  next
    case True
    then obtain v mode path where v: "vap = Some v" "\<not> two_way" "aa_mem ans"
      "wpa_ctrl_name ans (strncpy_s DWPAL_VAP_NAME_STRING_LENGTH v (strnlen_s v DWPAL_VAP_NAME_STRING_LENGTH)) = Some (mode, path)"
      by auto
    show ?thesis
    proof (cases p)
      case None
      with v o1 show ?thesis by (simp add: dwpal_hostap_interface_attach_def Let_def)
    next
      case (Some c)
      note p = Some
      show ?thesis
      proof (cases q)
        case None
        have "c \<in># mset (sk_open w2)" using o1(3) o2(3) p None by simp
        from sock_close_law [OF o2(2) this] obtain w3 where "sock_close c w2 = Some w3" "sock_ok w3"
          "mset (sk_open w3) = mset (sk_open w2) - {#c#}" .
        with v o1 o2 p None show ?thesis by (simp add: dwpal_hostap_interface_attach_def Let_def)
      next
        case (Some l)
        have "{#c, l#} \<subseteq># mset (sk_open w2)" using o1(3) o2(3) p Some by simp
        from close_two [OF o2(2) this] obtain w3 w4 where "sock_close c w2 = Some w3" "sock_close l w3 = Some w4"
          "sock_ok w4" "mset (sk_open w4) = mset (sk_open w2) - {#c, l#}" by blast
        with v o1 o2 p Some show ?thesis by (simp add: dwpal_hostap_interface_attach_def Let_def)
      qed
    qed
  qed
qed

lemma sock_use_open: "a \<in># mset (sk_open w) \<Longrightarrow> sock_use a w = Some ()"
  by (simp add: sock_use_def)

lemma hostap_kindE:
  assumes "hostap_kind c"
  obtains h a b where "c = HostapContext h" "hc_ctrl h = Some a" "hc_listener h = Some b" "\<not> hc_two_way h"
    "socks_of (Some c) = {#a, b#}"
  using assms by (cases c) auto

lemma driver_kindE:
  assumes "driver_kind c"
  obtains h a b where "c = DriverContext h" "dc_event h = Some a" "dc_cmd h = Some b" "socks_of (Some c) = {#a, b#}"
  using assms by (cases c) auto

lemma hostap_detach_law:
  assumes "sock_ok w" "hostap_kind c" "socks_of (Some c) \<subseteq># mset (sk_open w)"
  shows "\<exists>w'. dwpal_hostap_interface_detach (Some c) w = Some (DWPAL_SUCCESS, None, w') \<and> sock_ok w' \<and>
    mset (sk_open w') = mset (sk_open w) - socks_of (Some c)"
proof -
  obtain h a b where h: "c = HostapContext h" "hc_ctrl h = Some a" "hc_listener h = Some b" "\<not> hc_two_way h"
    "socks_of (Some c) = {#a, b#}" using hostap_kindE [OF assms(2)] .
  have sub: "{#b, a#} \<subseteq># mset (sk_open w)" using assms(3) h(5) by (simp add: add_mset_commute)
  from close_two [OF assms(1) sub] obtain w1 w2 where w2: "sock_close b w = Some w1" "sock_close a w1 = Some w2" "sock_ok w2"
    "mset (sk_open w2) = mset (sk_open w) - {#b, a#}" by blast
  have "sock_use b w = Some ()" using sub by (auto intro: sock_use_open dest: mset_subset_eqD)
  with h w2 show ?thesis by (simp add: dwpal_hostap_interface_detach_def add_mset_commute)
qed

lemma hostap_close_law:
  assumes "sock_ok w" "hostap_kind c" "socks_of (Some c) \<subseteq># mset (sk_open w)"
  shows "\<exists>w'. dwpal_hostap_socket_close (Some c) w = Some (DWPAL_SUCCESS, None, w') \<and> sock_ok w' \<and>
    mset (sk_open w') = mset (sk_open w) - socks_of (Some c)"
proof -
  obtain h a b where h: "c = HostapContext h" "hc_ctrl h = Some a" "hc_listener h = Some b" "\<not> hc_two_way h"
    "socks_of (Some c) = {#a, b#}" using hostap_kindE [OF assms(2)] .
  have sub: "{#a, b#} \<subseteq># mset (sk_open w)" using assms(3) h(5) by simp
  from close_two [OF assms(1) sub] obtain w1 w2 where w2: "sock_close a w = Some w1" "sock_close b w1 = Some w2" "sock_ok w2"
    "mset (sk_open w2) = mset (sk_open w) - {#a, b#}" by blast
  have "sock_use b w1 = Some ()" using w2(2) by (auto simp: sock_use_def sock_close_def split: if_splits)
  with h w2 show ?thesis by (simp add: dwpal_hostap_socket_close_def add_mset_commute)
qed

interpretation hs_link: socket_owner "\<lambda>(ans, vap). dwpal_hostap_interface_attach ans vap False"
  dwpal_hostap_interface_detach hostap_kind "\<lambda>_. True"
  using hostap_attach_law hostap_detach_law by unfold_locales auto

text \<open>The answers with which a failing attachment to the driver loses no socket.\<close>

definition nl_clean_attach :: "nl_attach_answers \<Rightarrow> bool" where
  "nl_clean_attach ans \<longleftrightarrow> (na_mem ans \<and> na_event_alloc ans \<and> na_event_up ans \<longrightarrow>
     False \<notin> set (na_members ans) \<and> na_cmd_alloc ans \<and> na_cmd_up ans)"

lemma nl_socket_law:
  assumes "sock_ok w"
  shows "\<exists>ap w'. nlSocketCreate alloc_ok up w = Some (ap, w') \<and> sock_ok w' \<and>
    mset (sk_open w') = mset (sk_open w) + mset_set (set_option ap) \<and> (ap = None \<longleftrightarrow> \<not> (alloc_ok \<and> up))"
proof -
  obtain ap w1 where o: "sock_open alloc_ok w = (ap, w1)" "sock_ok w1" "mset (sk_open w1) = mset (sk_open w) + mset_set (set_option ap)"
    "ap = None \<longleftrightarrow> \<not> alloc_ok" using sock_open_law [OF assms] by metis
  show ?thesis
  proof (cases ap)
    case None
    with o show ?thesis by (simp add: nlSocketCreate_def)
  next
    case (Some a)
    have "a \<in># mset (sk_open w1)" using o(3) Some by simp
    from sock_close_law [OF o(2) this] obtain w2 where "sock_close a w1 = Some w2" "sock_ok w2" "mset (sk_open w2) = mset (sk_open w1) - {#a#}" .
    with o Some show ?thesis by (simp add: nlSocketCreate_def)
  qed
qed

lemma nl_attach_law:
  assumes w: "sock_ok w" and clean: "nl_clean_attach ans"
  shows "\<exists>r cp w'. dwpal_driver_nl_attach ans w = Some (r, cp, w') \<and> sock_ok w' \<and>
    mset (sk_open w') = mset (sk_open w) + socks_of cp \<and>
    (r = DWPAL_SUCCESS \<and> (\<exists>c. cp = Some c \<and> driver_kind c) \<or> r = DWPAL_FAILURE \<and> cp = None)"
proof -
  obtain ep w1 where e: "nlSocketCreate (na_event_alloc ans) (na_event_up ans) w = Some (ep, w1)" "sock_ok w1"
    "mset (sk_open w1) = mset (sk_open w) + mset_set (set_option ep)" "ep = None \<longleftrightarrow> \<not> (na_event_alloc ans \<and> na_event_up ans)"
    using nl_socket_law [OF w, of "na_event_alloc ans" "na_event_up ans"] by (elim exE conjE) metis
  obtain cp w2 where c: "nlSocketCreate (na_cmd_alloc ans) (na_cmd_up ans) w1 = Some (cp, w2)" "sock_ok w2"
    "mset (sk_open w2) = mset (sk_open w1) + mset_set (set_option cp)" "cp = None \<longleftrightarrow> \<not> (na_cmd_alloc ans \<and> na_cmd_up ans)"
    using nl_socket_law [OF e(2), of "na_cmd_alloc ans" "na_cmd_up ans"] by (elim exE conjE) metis
  show ?thesis
  proof (cases "na_mem ans \<and> ep \<noteq> None")
    case False
    with w e show ?thesis by (auto simp: dwpal_driver_nl_attach_def)
  next
    case True
    then obtain a where a: "na_mem ans" "ep = Some a" by auto
    with clean e(4) c(4) obtain b where b: "cp = Some b" "False \<notin> set (na_members ans)" by (auto simp: nl_clean_attach_def)
    have "{#a, b#} \<subseteq># mset (sk_open w2)" using e(3) c(3) a b by simp
    from close_two [OF c(2) this] obtain w3 w4 where "sock_close a w2 = Some w3" "sock_close b w3 = Some w4"
      "sock_ok w4" "mset (sk_open w4) = mset (sk_open w2) - {#a, b#}" by blast
    with a b e c show ?thesis by (simp add: dwpal_driver_nl_attach_def)
  qed
qed

lemma nl_detach_law:
  assumes "sock_ok w" "driver_kind c" "socks_of (Some c) \<subseteq># mset (sk_open w)"
  shows "\<exists>w'. dwpal_driver_nl_detach (Some c) w = Some (DWPAL_SUCCESS, None, w') \<and> sock_ok w' \<and>
    mset (sk_open w') = mset (sk_open w) - socks_of (Some c)"
proof -
  obtain h a b where h: "c = DriverContext h" "dc_event h = Some a" "dc_cmd h = Some b" "socks_of (Some c) = {#a, b#}"
    using driver_kindE [OF assms(2)] .
  have sub: "{#a, b#} \<subseteq># mset (sk_open w)" using assms(3) h(4) by simp
  from close_two [OF assms(1) sub] obtain w1 w2 where "sock_close a w = Some w1" "sock_close b w1 = Some w2" "sock_ok w2"
    "mset (sk_open w2) = mset (sk_open w) - {#a, b#}" by blast
  with h show ?thesis by (simp add: dwpal_driver_nl_detach_def add_mset_commute)
qed

interpretation nl_link: socket_owner dwpal_driver_nl_attach dwpal_driver_nl_detach driver_kind nl_clean_attach
  using nl_attach_law nl_detach_law by unfold_locales auto

end
