(* ===== verification/Dwpal_Ext.thy ===== *)
theory Dwpal_Ext
  imports Dwpal_Lib
begin

text \<open>
  The interface services of dwpal_ext.c: the table of the interfaces that a program has attached
  to, each with its context in dwpal.c, the listener thread that takes events, the monitor thread
  that finds lost interfaces and attaches to them again, and the commands.  A slot of the table is
  its index; a step is the code that a mutex makes atomic, or the visit of one slot by a thread.
  Callbacks of the program return and call nothing of the library.
\<close>

section \<open>Data\<close>

definition NUM_OF_SUPPORTED_VAPS :: nat where "NUM_OF_SUPPORTED_VAPS = 4 * 16"
definition NUM_SERVICES :: nat where "NUM_SERVICES = NUM_OF_SUPPORTED_VAPS + 1"
definition PING_CHECK_TIME :: int where "PING_CHECK_TIME = 3"
definition RECOVERY_RETRY_TIME :: int where "RECOVERY_RETRY_TIME = 1"

datatype DwpalConnectionType = DWPAL_CONN_TYPE_HOSTAP | DWPAL_CONN_TYPE_DRIVER

text \<open>\<open>ds_clb\<close> and \<open>ds_nl_clb\<close> tell whether the callbacks for hostapd and for the driver are given.\<close>

record dwpal_service =
  ds_type :: DwpalConnectionType
  ds_vap :: cstr
  ds_fd :: int
  ds_fd_cmd :: int
  ds_connect_needed :: bool
  ds_reconnect_needed :: bool
  ds_clb :: bool
  ds_nl_clb :: bool

record thread_data =
  td_running :: bool
  td_stop :: bool

text \<open>The commands written to hostapd for a slot and the events given to the program, in order.\<close>

datatype ext_call = SendCmd nat cstr | CallEvent cstr cstr cstr nat

record dwpal_ext =
  dx_service :: "nat \<Rightarrow> dwpal_service option"
  dx_context :: "nat \<Rightarrow> DWPAL_Context option"
  dx_listener :: thread_data
  dx_monitor :: thread_data
  dx_socks :: sockets
  dx_trace :: "ext_call list"

datatype ext_thread = ListenerThread | MonitorThread | OtherThread

definition set_service :: "nat \<Rightarrow> dwpal_service option \<Rightarrow> dwpal_ext \<Rightarrow> dwpal_ext" where
  "set_service i sp d = d\<lparr>dx_service := (dx_service d)(i := sp)\<rparr>"

definition set_link :: "nat \<Rightarrow> DWPAL_Context option \<Rightarrow> sockets \<Rightarrow> dwpal_ext \<Rightarrow> dwpal_ext" where
  "set_link i cp w d = d\<lparr>dx_context := (dx_context d)(i := cp), dx_socks := w\<rparr>"

definition log_call :: "ext_call \<Rightarrow> dwpal_ext \<Rightarrow> dwpal_ext" where
  "log_call c d = d\<lparr>dx_trace := dx_trace d @ [c]\<rparr>"

definition strcpy_s :: "nat \<Rightarrow> cstr \<Rightarrow> cstr" where
  "strcpy_s dmax src = (if length src < dmax then src else [])"

definition strcat_s :: "nat \<Rightarrow> cstr \<Rightarrow> cstr \<Rightarrow> cstr" where
  "strcat_s dmax dest src = (if length dest + length src < dmax then dest @ src else [])"

section \<open>The table\<close>

fun connectionTypeToStr :: "DwpalConnectionType \<Rightarrow> string" where
  "connectionTypeToStr DWPAL_CONN_TYPE_HOSTAP = ''hostap''"
| "connectionTypeToStr DWPAL_CONN_TYPE_DRIVER = ''driver''"

definition interfaceIndexGet :: "DwpalConnectionType \<Rightarrow> cstr \<Rightarrow> dwpal_ext \<Rightarrow> nat option" where
  "interfaceIndexGet t v d =
     find (\<lambda>i. case dx_service d i of
                 None \<Rightarrow> False
               | Some s \<Rightarrow> t = ds_type s \<and> strncmp_eq v (ds_vap s) DWPAL_VAP_NAME_STRING_LENGTH) [0..<NUM_SERVICES]"

text \<open>The index is 0 when there is neither the interface nor room or memory for it.\<close>

definition interfaceIndexCreate ::
  "bool \<Rightarrow> DwpalConnectionType \<Rightarrow> cstr \<Rightarrow> dwpal_ext \<Rightarrow> DWPAL_Ret \<times> nat \<times> dwpal_ext" where
  "interfaceIndexCreate mem_ok t v d =
     (case interfaceIndexGet t v d of
        Some i \<Rightarrow> (if dx_context d i = None then DWPAL_SUCCESS else DWPAL_INTERFACE_ALREADY_UP, i, d)
      | None \<Rightarrow>
          (case find (\<lambda>i. dx_service d i = None) [0..<NUM_SERVICES] of
             None \<Rightarrow> (DWPAL_FAILURE, 0, d)
           | Some i \<Rightarrow>
               if \<not> mem_ok then (DWPAL_FAILURE, 0, d)
               else (DWPAL_SUCCESS, i,
                     set_service i (Some \<lparr>ds_type = t, ds_vap = strcpy_s DWPAL_VAP_NAME_STRING_LENGTH v, ds_fd = 0,
                       ds_fd_cmd = 0, ds_connect_needed = False, ds_reconnect_needed = False, ds_clb = False,
                       ds_nl_clb = False\<rparr>) d)))"

definition isAnyInterfaceActive :: "dwpal_ext \<Rightarrow> bool" where
  "isAnyInterfaceActive d \<longleftrightarrow> (\<exists>i \<in> set [0..<NUM_SERVICES]. dx_service d i \<noteq> None)"

section \<open>Threads\<close>

definition threadCreate :: "bool \<Rightarrow> thread_data \<Rightarrow> thread_data" where
  "threadCreate ok t = \<lparr>td_running = ok, td_stop = False\<rparr>"

definition thread_create :: "bool \<Rightarrow> thread_data \<Rightarrow> thread_data" where
  "thread_create ok t = (if td_running t then t else threadCreate ok t)"

definition thread_cancel :: "bool \<Rightarrow> thread_data \<Rightarrow> thread_data" where
  "thread_cancel is_self t = (if td_running t \<and> \<not> is_self then \<lparr>td_running = False, td_stop = False\<rparr> else t)"

text \<open>What the threads see while a cancellation waits for one of them to end.\<close>

definition thread_ask :: "bool \<Rightarrow> thread_data \<Rightarrow> thread_data" where
  "thread_ask is_self t = (if td_running t \<and> \<not> is_self then t\<lparr>td_stop := True\<rparr> else t)"

definition cancel_threads :: "ext_thread \<Rightarrow> dwpal_ext \<Rightarrow> dwpal_ext" where
  "cancel_threads self d =
     d\<lparr>dx_listener := thread_cancel (self = ListenerThread) (dx_listener d),
       dx_monitor := thread_cancel (self = MonitorThread) (dx_monitor d)\<rparr>"

definition create_threads :: "bool \<Rightarrow> bool \<Rightarrow> dwpal_ext \<Rightarrow> dwpal_ext" where
  "create_threads listener_ok monitor_ok d =
     (if isAnyInterfaceActive d
      then d\<lparr>dx_listener := thread_create listener_ok (dx_listener d),
             dx_monitor := thread_create monitor_ok (dx_monitor d)\<rparr>
      else d)"

definition cancel_listener :: "ext_thread \<Rightarrow> dwpal_ext \<Rightarrow> dwpal_ext" where
  "cancel_listener self d = d\<lparr>dx_listener := thread_cancel (self = ListenerThread) (dx_listener d)\<rparr>"

definition create_listener :: "bool \<Rightarrow> dwpal_ext \<Rightarrow> dwpal_ext" where
  "create_listener ok d =
     (if isAnyInterfaceActive d then d\<lparr>dx_listener := thread_create ok (dx_listener d)\<rparr> else d)"

definition dwpal_ext_is_events_thread_context :: "ext_thread \<Rightarrow> bool" where
  "dwpal_ext_is_events_thread_context self \<longleftrightarrow> self = ListenerThread"

section \<open>Events to the program\<close>

definition interfaceEventSend :: "nat \<Rightarrow> cstr \<Rightarrow> cstr \<Rightarrow> nat \<Rightarrow> dwpal_ext \<Rightarrow> dwpal_ext option" where
  "interfaceEventSend i op_code msg len d =
     do { s \<leftarrow> dx_service d i;
          Some (if ds_clb s then log_call (CallEvent (ds_vap s) op_code msg len) d else d) }"

definition interfaceDisconnectedSend :: "nat \<Rightarrow> dwpal_ext \<Rightarrow> dwpal_ext option" where
  "interfaceDisconnectedSend i d = interfaceEventSend i (cbytes ''INTERFACE_DISCONNECTED'') [] 0 d"

section \<open>Commands\<close>

text \<open>
  After a failure the sockets are closed and the interface waits to be attached again.  The result
  is the code, the reply with its length, and the state.
\<close>

definition drop_interface :: "bool \<Rightarrow> nat \<Rightarrow> dwpal_ext \<Rightarrow> dwpal_ext option" where
  "drop_interface socket_failed i d =
     do { s \<leftarrow> dx_service d i;
          (_, cp, w) \<leftarrow> (if socket_failed then dwpal_hostap_socket_close (dx_context d i) (dx_socks d)
                         else dwpal_hostap_interface_detach (dx_context d i) (dx_socks d));
          Some (set_link i cp w (set_service i (Some (s\<lparr>ds_connect_needed := True\<rparr>)) d)) }"

definition log_sent :: "nat \<Rightarrow> cstr option \<Rightarrow> dwpal_ext \<Rightarrow> dwpal_ext" where
  "log_sent i sent d = (case sent of None \<Rightarrow> d | Some c \<Rightarrow> log_call (SendCmd i c) d)"

definition dwpal_ext_hostap_cmd_send ::
  "cmd_answers \<Rightarrow> ext_thread \<Rightarrow> cstr option \<Rightarrow> cstr option \<Rightarrow> FieldsToCmdParse list \<Rightarrow> bool \<Rightarrow> nat \<Rightarrow> dwpal_ext \<Rightarrow>
     (DWPAL_Ret \<times> u8 list \<times> nat \<times> dwpal_ext) option" where
  "dwpal_ext_hostap_cmd_send ans self vap header params reply_given len d =
     (case (vap, header) of
        (Some v, Some hdr) \<Rightarrow>
          if \<not> reply_given then Some (DWPAL_FAILURE, [], len, d)
          else if self = ListenerThread \<and> td_stop (dx_listener d) \<or> self = MonitorThread \<and> td_stop (dx_monitor d)
          then Some (DWPAL_FAILURE, [], len, d)
          else (case interfaceIndexGet DWPAL_CONN_TYPE_HOSTAP v d of
                  None \<Rightarrow> Some (DWPAL_INTERFACE_IS_DOWN, [], 0, d)
                | Some i \<Rightarrow> do {
                    s \<leftarrow> dx_service d i;
                    if ds_connect_needed s then Some (DWPAL_INTERFACE_IS_DOWN, [], 0, d)
                    else if dx_context d i = None then Some (DWPAL_FAILURE, [], 0, d)
                    else do {
                      (r, sent, reply, n) \<leftarrow> dwpal_hostap_cmd_send ans (dx_context d i) header params True len (dx_socks d);
                      let d1 = log_sent i sent d;
                      if r = DWPAL_SOCKET_FAILURE \<or> r = DWPAL_FAILURE
                      then do { d2 \<leftarrow> drop_interface (r = DWPAL_SOCKET_FAILURE) i d1;
                                d3 \<leftarrow> interfaceDisconnectedSend i d2;
                                Some (DWPAL_FAILURE, reply, 0, d3) }
                      else Some (DWPAL_SUCCESS, reply, n, d1) } })
      | _ \<Rightarrow> Some (DWPAL_FAILURE, [], len, d))"

text \<open>
  The names of the virtual interfaces, from the reply to STATUS.  \<open>bss reply j\<close> is what
  \<open>dwpal_string_to_struct_parse\<close> finds for the field \<open>bss[j]=\<close>: its code and, if it is there, the
  name, of at most 16 characters as the caller's buffer has room for.
\<close>

type_synonym bss_parse = "u8 list \<Rightarrow> nat \<Rightarrow> DWPAL_Ret \<times> cstr option"

definition VAPS_SIZE :: nat where "VAPS_SIZE = NUM_OF_SUPPORTED_VAPS * (DWPAL_VAP_NAME_STRING_LENGTH + 1) + 6"

fun collect_vaps :: "(nat \<Rightarrow> DWPAL_Ret \<times> cstr option) \<Rightarrow> nat \<Rightarrow> nat list \<Rightarrow> cstr \<Rightarrow> cstr" where
  "collect_vaps bss size_max [] vaps = vaps"
| "collect_vaps bss size_max (j # js) vaps =
     (case bss j of
        (DWPAL_SUCCESS, Some name) \<Rightarrow>
          (let v1 = (if vaps = [] then strncpy_s size_max (cbytes ''vaps='') 5 else vaps);
               v2 = strcat_s size_max v1 [32]
           in collect_vaps bss size_max js (strcat_s size_max v2 (take DWPAL_VAP_NAME_STRING_LENGTH name)))
      | _ \<Rightarrow> vaps)"

definition activeVapsGet ::
  "cmd_answers \<Rightarrow> bss_parse \<Rightarrow> ext_thread \<Rightarrow> bool \<Rightarrow> cstr \<Rightarrow> dwpal_ext \<Rightarrow> (DWPAL_Ret \<times> cstr \<times> dwpal_ext) option" where
  "activeVapsGet ans bss self mem_ok vap d =
     (if \<not> mem_ok then Some (DWPAL_FAILURE, [], d)
      else do {
        (r, reply, n, d1) \<leftarrow> dwpal_ext_hostap_cmd_send ans self (Some vap) (Some (cbytes ''STATUS'')) [] True
                               (HOSTAPD_TO_DWPAL_MSG_LENGTH - 1) d;
        if r = DWPAL_SUCCESS
        then Some (DWPAL_SUCCESS, collect_vaps (bss (take n reply)) VAPS_SIZE [0..<NUM_OF_SUPPORTED_VAPS] [], d1)
        else Some (DWPAL_FAILURE, [], d1) })"

definition vaps_event ::
  "cstr \<Rightarrow> cmd_answers \<Rightarrow> bss_parse \<Rightarrow> ext_thread \<Rightarrow> bool \<Rightarrow> nat \<Rightarrow> dwpal_ext \<Rightarrow> (DWPAL_Ret \<times> dwpal_ext) option" where
  "vaps_event op_code ans bss self mem_ok i d =
     do { s \<leftarrow> dx_service d i;
          (r, vaps, d1) \<leftarrow> activeVapsGet ans bss self mem_ok (ds_vap s) d;
          if r = DWPAL_FAILURE then Some (DWPAL_FAILURE, d1)
          else do { d2 \<leftarrow> interfaceEventSend i op_code vaps (strnlen_s vaps (VAPS_SIZE - 1)) d1;
                    Some (DWPAL_SUCCESS, d2) } }"

definition interfaceConnectedOkSend ::
  "cmd_answers \<Rightarrow> bss_parse \<Rightarrow> ext_thread \<Rightarrow> bool \<Rightarrow> nat \<Rightarrow> dwpal_ext \<Rightarrow> (DWPAL_Ret \<times> dwpal_ext) option" where
  "interfaceConnectedOkSend = vaps_event (cbytes ''INTERFACE_CONNECTED_OK'')"

definition interfaceReconnectedOkSent ::
  "cmd_answers \<Rightarrow> bss_parse \<Rightarrow> ext_thread \<Rightarrow> bool \<Rightarrow> nat \<Rightarrow> dwpal_ext \<Rightarrow> (DWPAL_Ret \<times> dwpal_ext) option" where
  "interfaceReconnectedOkSent = vaps_event (cbytes ''INTERFACE_RECONNECTED_OK'')"

section \<open>Finding and recovering lost interfaces\<close>

text \<open>One slot of the loop of \<open>interfacesRecoverIfNeeded\<close>: the part under the lock, then the event.\<close>

definition reattach_slot :: "attach_answers \<Rightarrow> nat \<Rightarrow> dwpal_ext \<Rightarrow> dwpal_ext option" where
  "reattach_slot att i d =
     do { s \<leftarrow> dx_service d i;
          if \<not> ds_connect_needed s then Some d
          else do {
            (cp, w) \<leftarrow> (if dx_context d i = None then Some (None, dx_socks d)
                      else map_option snd (dwpal_hostap_interface_detach (dx_context d i) (dx_socks d)));
            (r, cp1, w1) \<leftarrow> dwpal_hostap_interface_attach att (Some (ds_vap s)) False w;
            let d1 = set_link i cp1 w1 d;
            Some (if r = DWPAL_SUCCESS
                  then set_service i (Some (s\<lparr>ds_connect_needed := False, ds_reconnect_needed := True\<rparr>)) d1
                  else d1) } }"

definition report_slot ::
  "cmd_answers \<Rightarrow> bss_parse \<Rightarrow> ext_thread \<Rightarrow> bool \<Rightarrow> nat \<Rightarrow> dwpal_ext \<Rightarrow> dwpal_ext option" where
  "report_slot ans bss self mem_ok i d =
     do { s \<leftarrow> dx_service d i;
          if \<not> ds_reconnect_needed s then Some d
          else do { (r, d1) \<leftarrow> interfaceReconnectedOkSent ans bss self mem_ok i d;
                    s1 \<leftarrow> dx_service d1 i;
                    Some (if r = DWPAL_SUCCESS then set_service i (Some (s1\<lparr>ds_reconnect_needed := False\<rparr>)) d1
                          else d1) } }"

definition recover_slot ::
  "attach_answers \<Rightarrow> cmd_answers \<Rightarrow> bss_parse \<Rightarrow> ext_thread \<Rightarrow> bool \<Rightarrow> nat \<Rightarrow> dwpal_ext \<Rightarrow> dwpal_ext option" where
  "recover_slot att ans bss self mem_ok i d =
     (case dx_service d i of
        None \<Rightarrow> Some d
      | Some s \<Rightarrow>
          if ds_type s \<noteq> DWPAL_CONN_TYPE_HOSTAP then Some d
          else do { d1 \<leftarrow> reattach_slot att i d; report_slot ans bss self mem_ok i d1 })"

fun each_slot :: "(nat \<Rightarrow> dwpal_ext \<Rightarrow> dwpal_ext option) \<Rightarrow> nat list \<Rightarrow> dwpal_ext \<Rightarrow> dwpal_ext option" where
  "each_slot f [] d = Some d"
| "each_slot f (i # is) d = do { d1 \<leftarrow> f i d; each_slot f is d1 }"

definition interfacesRecoverIfNeeded ::
  "(nat \<Rightarrow> attach_answers) \<Rightarrow> (nat \<Rightarrow> cmd_answers) \<Rightarrow> bss_parse \<Rightarrow> ext_thread \<Rightarrow> bool \<Rightarrow> dwpal_ext \<Rightarrow> dwpal_ext option" where
  "interfacesRecoverIfNeeded att ans bss self mem_ok d =
     each_slot (\<lambda>i. recover_slot (att i) (ans i) bss self mem_ok i) [0..<NUM_SERVICES] d"

text \<open>
  One slot of the loop of \<open>interfacesPingCheck\<close>.  The command gives the interface up itself when
  it fails; the rest is for the other reasons for which it returns a failure.
\<close>

definition ping_slot :: "cmd_answers \<Rightarrow> ext_thread \<Rightarrow> nat \<Rightarrow> dwpal_ext \<Rightarrow> dwpal_ext option" where
  "ping_slot ans self i d =
     (if dx_context d i = None then Some d
      else do {
        s \<leftarrow> dx_service d i;
        if ds_type s \<noteq> DWPAL_CONN_TYPE_HOSTAP \<or> ds_fd s \<le> 0 then Some d
        else do {
          (r, _, _, d1) \<leftarrow> dwpal_ext_hostap_cmd_send ans self (Some (ds_vap s)) (Some (cbytes ''PING'')) [] True 63 d;
          if r \<noteq> DWPAL_FAILURE then Some d1
          else do {
            s1 \<leftarrow> dx_service d1 i;
            let s2 = s1\<lparr>ds_fd := -1\<rparr>;
            let d2 = set_service i (Some s2) d1;
            if ds_connect_needed s2 then Some d2
            else do {
              (cp, w) \<leftarrow> (if dx_context d2 i = None then Some (None, dx_socks d2)
                        else map_option snd (dwpal_hostap_interface_detach (dx_context d2 i) (dx_socks d2)));
              interfaceDisconnectedSend i
                (set_link i cp w (set_service i (Some (s2\<lparr>ds_connect_needed := True\<rparr>)) d2)) } } } })"

definition interfacesPingCheck :: "(nat \<Rightarrow> cmd_answers) \<Rightarrow> ext_thread \<Rightarrow> dwpal_ext \<Rightarrow> dwpal_ext option" where
  "interfacesPingCheck ans self d = each_slot (\<lambda>i. ping_slot (ans i) self i) [0..<NUM_SERVICES] d"

section \<open>The listener thread\<close>

text \<open>Before it waits the thread reads the file descriptors of all slots.\<close>

definition refresh_fd :: "nat \<Rightarrow> dwpal_ext \<Rightarrow> dwpal_ext option" where
  "refresh_fd i d =
     (case (dx_context d i, dx_service d i) of
        (Some c, Some s) \<Rightarrow>
          (if ds_type s = DWPAL_CONN_TYPE_HOSTAP
           then do { (_, fd) \<leftarrow> dwpal_hostap_event_fd_get (Some c) True;
                     Some (case fd of None \<Rightarrow> d | Some x \<Rightarrow> set_service i (Some (s\<lparr>ds_fd := x\<rparr>)) d) }
           else do { (_, fd, fd_cmd) \<leftarrow> dwpal_driver_nl_fd_get (Some c);
                     let s1 = (case fd of None \<Rightarrow> s | Some x \<Rightarrow> s\<lparr>ds_fd := x\<rparr>);
                     Some (set_service i (Some (case fd_cmd of None \<Rightarrow> s1 | Some x \<Rightarrow> s1\<lparr>ds_fd_cmd := x\<rparr>)) d) })
      | _ \<Rightarrow> Some d)"

text \<open>
  A slot whose socket is readable, for an interface of hostapd.  The flags tell whether the
  monitor thread is asked to check the interfaces and whether the lock of dwpal.c is released.
\<close>

record event_answers =
  ev_mem :: bool
  ev_pending :: int
  ev_recv :: "u8 list option"
  ev_dup :: bool

definition listener_event :: "event_answers \<Rightarrow> nat \<Rightarrow> dwpal_ext \<Rightarrow> (bool \<times> bool \<times> dwpal_ext) option" where
  "listener_event ans i d =
     (case (dx_context d i, dx_service d i) of
        (Some c, Some s) \<Rightarrow>
          if ds_type s \<noteq> DWPAL_CONN_TYPE_HOSTAP \<or> ds_fd s \<le> 0 \<or> \<not> ev_mem ans then Some (False, True, d)
          else do {
            (r, msg, op_code, released) \<leftarrow> dwpal_hostap_event_get (ev_pending ans) (ev_recv ans) (ev_dup ans) (Some c) True
                                            (HOSTAPD_TO_DWPAL_MSG_LENGTH - 1) (dx_socks d);
            if r = DWPAL_FAILURE then Some (True, released, d)
            else if td_stop (dx_listener d) \<or> op_code = [] then Some (False, released, d)
            else do { d1 \<leftarrow> interfaceEventSend i op_code (cstr_of msg) (strnlen_s (cstr_of msg) HOSTAPD_TO_DWPAL_MSG_LENGTH) d;
                      Some (False, released, d1) } }
      | _ \<Rightarrow> Some (False, True, d))"

section \<open>The monitor thread\<close>

text \<open>
  One turn of the loop of \<open>monitorThreadStart\<close>: \<open>select\<close> fails, or reports the pipe or not; what
  is read from the pipe, None for an error; and the time.  The result is None when the thread
  ends, otherwise the new state, whether the interfaces are checked and whether they are recovered.
\<close>

record monitor_state =
  mo_ping :: bool
  mo_last_ping :: int
  mo_last_recovery :: int

record monitor_input =
  mi_select_ok :: bool
  mi_pipe :: bool
  mi_read :: "u8 list option"
  mi_now :: int

definition monitor_round :: "monitor_input \<Rightarrow> monitor_state \<Rightarrow> (monitor_state \<times> bool \<times> bool) option" where
  "monitor_round inp ms =
     (if \<not> mi_select_ok inp then Some (ms, False, False)
      else do {
        ms1 \<leftarrow> (if \<not> mi_pipe inp then Some ms
                else case mi_read inp of
                  None \<Rightarrow> None
                | Some bs \<Rightarrow> if bs \<noteq> [] \<and> bs ! 0 = 82 then Some (ms\<lparr>mo_ping := True\<rparr>) else None);
        let ping = (mo_ping ms1 \<or> mi_now inp - mo_last_ping ms1 \<ge> PING_CHECK_TIME);
        let ms2 = (if ping then ms1\<lparr>mo_last_ping := mi_now inp\<rparr> else ms1);
        let recover = (mi_now inp - mo_last_recovery ms2 \<ge> RECOVERY_RETRY_TIME);
        Some (if recover then ms2\<lparr>mo_last_recovery := mi_now inp\<rparr> else ms2, ping, recover) })"

section \<open>Attaching and detaching\<close>

definition dwpal_ext_hostap_interface_attach ::
  "attach_answers \<Rightarrow> cmd_answers \<Rightarrow> bss_parse \<Rightarrow> ext_thread \<Rightarrow> bool \<Rightarrow> bool \<Rightarrow> bool \<Rightarrow> bool \<Rightarrow> cstr option \<Rightarrow> bool \<Rightarrow>
     dwpal_ext \<Rightarrow> (DWPAL_Ret \<times> dwpal_ext) option" where
  "dwpal_ext_hostap_interface_attach att ans bss self mem_ok reply_mem listener_ok monitor_ok vap clb d =
     (case vap of
        None \<Rightarrow> Some (DWPAL_FAILURE, d)
      | Some v \<Rightarrow>
          if \<not> clb \<or> self = ListenerThread then Some (DWPAL_FAILURE, d)
          else if (\<exists>i. interfaceIndexGet DWPAL_CONN_TYPE_HOSTAP v d = Some i \<and> dx_context d i \<noteq> None)
          then Some (DWPAL_SUCCESS, d)
          else (let d1 = cancel_threads self d; restart = create_threads listener_ok monitor_ok
                in case interfaceIndexCreate mem_ok DWPAL_CONN_TYPE_HOSTAP v d1 of
                     (r, i, d2) \<Rightarrow>
                       if r = DWPAL_FAILURE then Some (DWPAL_FAILURE, restart d2)
                       else if r = DWPAL_INTERFACE_ALREADY_UP then Some (DWPAL_SUCCESS, restart d2)
                       else do {
                         s \<leftarrow> dx_service d2 i;
                         (r1, cp, w) \<leftarrow> (if dx_context d2 i = None
                                        then dwpal_hostap_interface_attach att vap False (dx_socks d2)
                                        else Some (DWPAL_SUCCESS, dx_context d2 i, dx_socks d2));
                         let up = (r1 = DWPAL_SUCCESS);
                         let d3 = set_service i (Some (s\<lparr>ds_connect_needed := \<not> up, ds_clb := True\<rparr>)) (set_link i cp w d2);
                         if up
                         then do { (_, d4) \<leftarrow> interfaceConnectedOkSend ans bss self reply_mem i d3;
                                   Some (DWPAL_SUCCESS, restart d4) }
                         else Some (DWPAL_INTERFACE_IS_DOWN, restart d3) }))"

definition dwpal_ext_hostap_interface_detach ::
  "ext_thread \<Rightarrow> bool \<Rightarrow> bool \<Rightarrow> cstr option \<Rightarrow> dwpal_ext \<Rightarrow> (DWPAL_Ret \<times> dwpal_ext) option" where
  "dwpal_ext_hostap_interface_detach self listener_ok monitor_ok vap d =
     (case vap of
        None \<Rightarrow> Some (DWPAL_FAILURE, d)
      | Some v \<Rightarrow>
          if self = ListenerThread then Some (DWPAL_FAILURE, d)
          else (case interfaceIndexGet DWPAL_CONN_TYPE_HOSTAP v d of
                  None \<Rightarrow> Some (DWPAL_INTERFACE_IS_DOWN, d)
                | Some i \<Rightarrow>
                    (let d1 = set_service i None (cancel_threads self d)
                     in do {
                       (r, cp, w) \<leftarrow> (if dx_context d1 i = None then Some (DWPAL_SUCCESS, None, dx_socks d1)
                                     else dwpal_hostap_interface_detach (dx_context d1 i) (dx_socks d1));
                       Some (r, create_threads listener_ok monitor_ok (set_link i cp w d1)) })))"

definition ALL_DRIVERS :: cstr where "ALL_DRIVERS = cbytes ''ALL''"

text \<open>
  The attachment to the driver ends, on a failure, by freeing the service at \<open>idx\<close>, which is 0
  when no service could be created for it.
\<close>

definition dwpal_ext_driver_nl_attach ::
  "nl_attach_answers \<Rightarrow> ext_thread \<Rightarrow> bool \<Rightarrow> bool \<Rightarrow> bool \<Rightarrow> dwpal_ext \<Rightarrow> (DWPAL_Ret \<times> dwpal_ext) option" where
  "dwpal_ext_driver_nl_attach ans self mem_ok listener_ok clb d =
     (if self = ListenerThread then Some (DWPAL_FAILURE, d)
      else if (\<exists>i. interfaceIndexGet DWPAL_CONN_TYPE_DRIVER ALL_DRIVERS d = Some i \<and> dx_context d i \<noteq> None)
      then Some (DWPAL_SUCCESS, d)
      else (let d1 = cancel_listener self d; restart = create_listener listener_ok
            in case interfaceIndexCreate mem_ok DWPAL_CONN_TYPE_DRIVER ALL_DRIVERS d1 of
                 (r, i, d2) \<Rightarrow>
                   if r = DWPAL_FAILURE then Some (DWPAL_FAILURE, restart (set_service i None d2))
                   else if r = DWPAL_INTERFACE_ALREADY_UP then Some (DWPAL_SUCCESS, restart d2)
                   else do {
                     (r1, cp, w) \<leftarrow> dwpal_driver_nl_attach ans (dx_socks d2);
                     let d3 = set_link i cp w d2;
                     if r1 = DWPAL_FAILURE then Some (DWPAL_FAILURE, restart (set_service i None d3))
                     else do { s \<leftarrow> dx_service d3 i;
                               Some (DWPAL_SUCCESS, restart (set_service i (Some (s\<lparr>ds_nl_clb := clb\<rparr>)) d3)) } }))"

definition dwpal_ext_driver_nl_detach ::
  "ext_thread \<Rightarrow> bool \<Rightarrow> dwpal_ext \<Rightarrow> (DWPAL_Ret \<times> dwpal_ext) option" where
  "dwpal_ext_driver_nl_detach self listener_ok d =
     (if self = ListenerThread then Some (DWPAL_FAILURE, d)
      else case interfaceIndexGet DWPAL_CONN_TYPE_DRIVER ALL_DRIVERS d of
        None \<Rightarrow> Some (DWPAL_INTERFACE_IS_DOWN, d)
      | Some i \<Rightarrow>
          (let d1 = set_service i None (cancel_listener self d)
           in do { (r, cp, w) \<leftarrow> dwpal_driver_nl_detach (dx_context d1 i) (dx_socks d1);
                   Some (r, create_listener listener_ok (set_link i cp w d1)) }))"

section \<open>Netlink commands\<close>

text \<open>
  A command that the kernel answers with ENOENT is tried again over a new attachment.  \<open>live\<close>
  tells whether the message is allocated.
\<close>

definition nlRecoveryNeeded ::
  "nl_attach_answers \<Rightarrow> nat \<Rightarrow> DWPAL_Ret \<Rightarrow> int \<Rightarrow> nat \<Rightarrow> dwpal_ext \<Rightarrow> (bool \<times> dwpal_ext) option" where
  "nlRecoveryNeeded att i ret cmd_res tries d =
     (if ret \<noteq> DWPAL_SUCCESS \<or> cmd_res \<noteq> - ENOENT \<or> tries - 1 = 0 then Some (False, d)
      else do {
        (cp, w) \<leftarrow> (if dx_context d i = None then Some (None, dx_socks d)
                  else map_option snd (dwpal_driver_nl_detach (dx_context d i) (dx_socks d)));
        (r, cp1, w1) \<leftarrow> dwpal_driver_nl_attach att w;
        Some (r = DWPAL_SUCCESS, set_link i cp1 w1 d) })"

fun nl_cmd_loop ::
  "nat \<Rightarrow> nat \<Rightarrow> (nl_answers \<times> nl_attach_answers) list \<Rightarrow> bool option \<Rightarrow> int option \<Rightarrow> dwpal_ext \<Rightarrow>
     (DWPAL_Ret \<times> int option \<times> dwpal_ext) option" where
  "nl_cmd_loop i tries [] msg cmd_res d = None"
| "nl_cmd_loop i tries ((ans, att) # as) msg cmd_res d =
     do { (r, res, msg1) \<leftarrow> dwpal_nl80211_cmd_send ans (dx_context d i) msg cmd_res (dx_socks d);
          (again, d1) \<leftarrow> nlRecoveryNeeded att i r (case res of None \<Rightarrow> 0 | Some x \<Rightarrow> x) tries d;
          if again then nl_cmd_loop i (tries - 1) as msg1 res d1 else Some (r, res, d1) }"

definition dwpal_ext_nl80211_cmd_send ::
  "(nl_answers \<times> nl_attach_answers) list \<Rightarrow> bool option \<Rightarrow> int option \<Rightarrow> dwpal_ext \<Rightarrow>
     (DWPAL_Ret \<times> int option \<times> dwpal_ext) option" where
  "dwpal_ext_nl80211_cmd_send as msg cmd_res d =
     (if msg = None \<or> cmd_res = None then Some (DWPAL_FAILURE, cmd_res, d)
      else case interfaceIndexGet DWPAL_CONN_TYPE_DRIVER ALL_DRIVERS d of
        None \<Rightarrow> if msg = Some False then None else Some (DWPAL_INTERFACE_IS_DOWN, cmd_res, d)
      | Some i \<Rightarrow> nl_cmd_loop i 2 as msg cmd_res d)"

definition dwpal_ext_nl80211_id_get :: "bool \<Rightarrow> dwpal_ext \<Rightarrow> (DWPAL_Ret \<times> int option) option" where
  "dwpal_ext_nl80211_id_get given d =
     (if \<not> given then Some (DWPAL_FAILURE, None)
      else case interfaceIndexGet DWPAL_CONN_TYPE_DRIVER ALL_DRIVERS d of
        None \<Rightarrow> Some (DWPAL_INTERFACE_IS_DOWN, None)
      | Some i \<Rightarrow> dwpal_nl80211_id_get (dx_context d i) True)"

end
