(* ===== verification/Ext_State.thy ===== *)
theory Ext_State
  imports Dwpal_Ext
begin

text \<open>
  The state of the interface services: what every operation of dwpal_ext.c keeps of the table, its
  contexts and the open sockets, for any behaviour of hostapd and of the kernel, and the
  properties of the services.
\<close>

section \<open>A consistent state\<close>

fun kind_of :: "DwpalConnectionType \<Rightarrow> DWPAL_Context \<Rightarrow> bool" where
  "kind_of DWPAL_CONN_TYPE_HOSTAP = hostap_kind"
| "kind_of DWPAL_CONN_TYPE_DRIVER = driver_kind"

text \<open>
  A slot: a context belongs to a service of its kind, and an interface of hostapd waits for its
  connection exactly when it has no context.
\<close>

definition slot_ok :: "dwpal_service option \<Rightarrow> DWPAL_Context option \<Rightarrow> bool" where
  "slot_ok sp cp \<longleftrightarrow>
     (case sp of
        None \<Rightarrow> cp = None
      | Some s \<Rightarrow> (\<forall>c. cp = Some c \<longrightarrow> kind_of (ds_type s) c) \<and> length (ds_vap s) < DWPAL_VAP_NAME_STRING_LENGTH \<and>
          (ds_type s = DWPAL_CONN_TYPE_HOSTAP \<longrightarrow> (ds_connect_needed s \<longleftrightarrow> cp = None) \<and> ds_clb s))"

definition slot_id :: "dwpal_service \<Rightarrow> DwpalConnectionType \<times> cstr" where
  "slot_id s = (ds_type s, ds_vap s)"

definition unique_ids :: "(nat \<Rightarrow> dwpal_service option) \<Rightarrow> bool" where
  "unique_ids f \<longleftrightarrow> (\<forall>i j s t. f i = Some s \<and> f j = Some t \<and> slot_id s = slot_id t \<longrightarrow> i = j)"

text \<open>The open sockets are exactly those of the contexts, each open once.\<close>

definition accounts :: "(nat \<Rightarrow> DWPAL_Context option) \<Rightarrow> sockets \<Rightarrow> bool" where
  "accounts f w \<longleftrightarrow> sock_ok w \<and> mset (sk_open w) = (\<Sum>i<NUM_SERVICES. socks_of (f i))"

definition ext_ok :: "dwpal_ext \<Rightarrow> bool" where
  "ext_ok d \<longleftrightarrow> (\<forall>i. slot_ok (dx_service d i) (dx_context d i)) \<and> (\<forall>i \<ge> NUM_SERVICES. dx_service d i = None) \<and>
     unique_ids (dx_service d) \<and> accounts (dx_context d) (dx_socks d)"

lemma ext_slot: "ext_ok d \<Longrightarrow> dx_service d i = Some s \<Longrightarrow> slot_ok (Some s) (dx_context d i) \<and> i < NUM_SERVICES"
proof -
  assume d: "ext_ok d" and s: "dx_service d i = Some s"
  from d have "slot_ok (dx_service d i) (dx_context d i)" and "i \<ge> NUM_SERVICES \<longrightarrow> dx_service d i = None"
    by (simp_all add: ext_ok_def)
  with s show ?thesis by (simp add: not_le [symmetric])
qed

lemma ext_none: "ext_ok d \<Longrightarrow> dx_service d i = None \<Longrightarrow> dx_context d i = None"
proof -
  assume d: "ext_ok d" and s: "dx_service d i = None"
  from d have "slot_ok (dx_service d i) (dx_context d i)" by (simp add: ext_ok_def)
  with s show ?thesis by (simp add: slot_ok_def)
qed

lemma ext_context:
  assumes "ext_ok d" "dx_context d i = Some c"
  obtains s where "dx_service d i = Some s" "kind_of (ds_type s) c"
proof (cases "dx_service d i")
  case None
  with ext_none [OF assms(1)] assms(2) show ?thesis by simp
next
  case (Some s)
  with ext_slot [OF assms(1) Some] assms(2) that show ?thesis by (simp add: slot_ok_def)
qed

lemma ext_hostap:
  assumes "ext_ok d" "dx_service d i = Some s" "ds_type s = DWPAL_CONN_TYPE_HOSTAP"
  shows "ds_connect_needed s \<longleftrightarrow> dx_context d i = None" "ds_clb s" "dx_context d i = Some c \<Longrightarrow> hostap_kind c"
  using ext_slot [OF assms(1,2)] assms(3) by (simp_all add: slot_ok_def)

lemma ext_name: "ext_ok d \<Longrightarrow> dx_service d i = Some s \<Longrightarrow> length (ds_vap s) < DWPAL_VAP_NAME_STRING_LENGTH"
  using ext_slot [of d i s] by (simp add: slot_ok_def)

lemma ext_sock_ok: "ext_ok d \<Longrightarrow> sock_ok (dx_socks d)"
  by (simp add: ext_ok_def accounts_def)

lemma ext_owned: "ext_ok d \<Longrightarrow> socks_of (dx_context d i) \<subseteq># mset (sk_open (dx_socks d))"
proof (cases "i < NUM_SERVICES")
  case True
  assume "ext_ok d"
  then have "mset (sk_open (dx_socks d)) = socks_of (dx_context d i) + (\<Sum>j \<in> {..<NUM_SERVICES} - {i}. socks_of (dx_context d j))"
    using True by (simp add: ext_ok_def accounts_def sum.remove)
  then show ?thesis by simp
next
  case False
  assume "ext_ok d"
  with False have "dx_context d i = None" by (simp add: ext_none ext_ok_def)
  then show ?thesis by simp
qed

lemma sum_update:
  fixes f :: "nat \<Rightarrow> DWPAL_Context option"
  assumes "i < n"
  shows "(\<Sum>j<n. socks_of ((f(i := cp)) j)) = (\<Sum>j<n. socks_of (f j)) - socks_of (f i) + socks_of cp"
proof -
  have "(\<Sum>j<n. socks_of ((f(i := cp)) j)) = socks_of cp + (\<Sum>j \<in> {..<n} - {i}. socks_of ((f(i := cp)) j))"
    using assms by (simp add: sum.remove)
  also have "(\<Sum>j \<in> {..<n} - {i}. socks_of ((f(i := cp)) j)) = (\<Sum>j \<in> {..<n} - {i}. socks_of (f j))"
    by (rule sum.cong) auto
  finally show ?thesis using assms by (simp add: sum.remove add.commute)
qed

lemma set_simps [simp]:
  "dx_service (set_service i sp d) = (dx_service d)(i := sp)" "dx_context (set_service i sp d) = dx_context d"
  "dx_socks (set_service i sp d) = dx_socks d" "dx_listener (set_service i sp d) = dx_listener d"
  "dx_monitor (set_service i sp d) = dx_monitor d" "dx_trace (set_service i sp d) = dx_trace d"
  "dx_service (set_link i cp w d) = dx_service d" "dx_context (set_link i cp w d) = (dx_context d)(i := cp)"
  "dx_socks (set_link i cp w d) = w" "dx_listener (set_link i cp w d) = dx_listener d"
  "dx_monitor (set_link i cp w d) = dx_monitor d" "dx_trace (set_link i cp w d) = dx_trace d"
  "dx_service (log_call c d) = dx_service d" "dx_context (log_call c d) = dx_context d"
  "dx_socks (log_call c d) = dx_socks d" "dx_listener (log_call c d) = dx_listener d"
  "dx_monitor (log_call c d) = dx_monitor d" "dx_trace (log_call c d) = dx_trace d @ [c]"
  by (simp_all add: set_service_def set_link_def log_call_def)

text \<open>One slot changes: its service, its context and the sockets of the context.\<close>

lemma ext_ok_slot:
  assumes d: "ext_ok d" and i: "i < NUM_SERVICES" and slot: "slot_ok sp cp"
    and uniq: "\<And>s j t. sp = Some s \<Longrightarrow> j \<noteq> i \<Longrightarrow> dx_service d j = Some t \<Longrightarrow> slot_id s \<noteq> slot_id t"
    and w: "sock_ok w" "mset (sk_open w) = mset (sk_open (dx_socks d)) - socks_of (dx_context d i) + socks_of cp"
    and d': "dx_service d' = (dx_service d)(i := sp)" "dx_context d' = (dx_context d)(i := cp)" "dx_socks d' = w"
  shows "ext_ok d'"
proof -
  have "accounts (dx_context d') w"
    using d w unfolding d' ext_ok_def accounts_def sum_update [OF i] by simp
  moreover have "unique_ids (dx_service d')"
    unfolding unique_ids_def d' using uniq uniq [THEN not_sym] d by (auto simp: ext_ok_def unique_ids_def)
  ultimately show ?thesis using d slot i by (auto simp: ext_ok_def d')
qed

lemma ext_ok_same:
  "ext_ok d \<Longrightarrow> dx_service d' = dx_service d \<Longrightarrow> dx_context d' = dx_context d \<Longrightarrow> dx_socks d' = dx_socks d \<Longrightarrow> ext_ok d'"
  by (simp add: ext_ok_def)

lemma ext_ok_log [simp]: "ext_ok (log_call c d) = ext_ok d"
  by (auto intro: ext_ok_same)

text \<open>The same services sit in the same slots.\<close>

definition same_slots :: "dwpal_ext \<Rightarrow> dwpal_ext \<Rightarrow> bool" where
  "same_slots d d' \<longleftrightarrow> (\<forall>i. map_option slot_id (dx_service d' i) = map_option slot_id (dx_service d i))"

lemma same_slotsD: "same_slots d d' \<Longrightarrow> dx_service d i = Some s \<Longrightarrow> \<exists>s'. dx_service d' i = Some s' \<and> slot_id s' = slot_id s"
  unfolding same_slots_def by (metis (mono_tags) option.map_disc_iff option.simps(9) option.distinct(1) not_None_eq option.inject)

lemma same_slots_refl [simp]: "same_slots d d"
  by (simp add: same_slots_def)

lemma same_slots_trans: "same_slots a b \<Longrightarrow> same_slots b c \<Longrightarrow> same_slots a c"
  by (simp add: same_slots_def)

lemma same_slots_log [simp]: "same_slots (log_call c d) d' = same_slots d d'" "same_slots d (log_call c d') = same_slots d d'"
  by (simp_all add: same_slots_def)

lemma other_id:
  "ext_ok d \<Longrightarrow> dx_service d i = Some s \<Longrightarrow> slot_id s' = slot_id s \<Longrightarrow> j \<noteq> i \<Longrightarrow> dx_service d j = Some t \<Longrightarrow>
     slot_id s' \<noteq> slot_id t"
  by (auto simp: ext_ok_def unique_ids_def)

text \<open>A service changes without its name, its context being kept, closed or replaced.\<close>

lemma ext_ok_change:
  assumes "ext_ok d" "dx_service d i = Some s" "slot_id s' = slot_id s" "slot_ok (Some s') cp" "sock_ok w"
    "mset (sk_open w) = mset (sk_open (dx_socks d)) - socks_of (dx_context d i) + socks_of cp"
    "dx_service d' = (dx_service d)(i := Some s')" "dx_context d' = (dx_context d)(i := cp)" "dx_socks d' = w"
  shows "ext_ok d'" "same_slots d d'"
proof -
  show "ext_ok d'" using ext_ok_slot [OF assms(1) _ assms(4) _ assms(5-9)] ext_slot [OF assms(1,2)] other_id [OF assms(1,2)] assms(3)
    by blast
  show "same_slots d d'" using assms(2,3,7) by (simp add: same_slots_def)
qed

lemma ext_ok_keep:
  assumes "ext_ok d" "dx_service d i = Some s" "slot_id s' = slot_id s" "slot_ok (Some s') (dx_context d i)"
    "dx_service d' = (dx_service d)(i := Some s')" "dx_context d' = dx_context d" "dx_socks d' = dx_socks d"
  shows "ext_ok d'" "same_slots d d'"
  using ext_ok_change [OF assms(1-4) ext_sock_ok [OF assms(1)] _ assms(5) _ assms(7)] assms(6) ext_owned [OF assms(1)]
  by (simp_all add: subset_mset.diff_add)


section \<open>Finding a service\<close>

lemma find_first: "find P xs = Some x \<Longrightarrow> P x \<and> x \<in> set xs"
  by (auto simp: find_Some_iff)

lemma index_get:
  assumes "interfaceIndexGet t v d = Some i"
  obtains s where "dx_service d i = Some s" "ds_type s = t" "strncmp_eq v (ds_vap s) DWPAL_VAP_NAME_STRING_LENGTH" "i < NUM_SERVICES"
  using find_first [OF assms [unfolded interfaceIndexGet_def]] that by (cases "dx_service d i") auto

lemma index_none:
  "interfaceIndexGet t v d = None \<Longrightarrow> i < NUM_SERVICES \<Longrightarrow> dx_service d i = Some s \<Longrightarrow> ds_type s = t \<Longrightarrow>
     \<not> strncmp_eq v (ds_vap s) DWPAL_VAP_NAME_STRING_LENGTH"
  by (fastforce simp: interfaceIndexGet_def find_None_iff)

lemma index_slot:
  assumes d: "ext_ok d" and s: "dx_service d i = Some s"
  shows "interfaceIndexGet (ds_type s) (ds_vap s) d = Some i"
proof (cases "interfaceIndexGet (ds_type s) (ds_vap s) d")
  case None
  with index_none [OF None _ s] ext_slot [OF d s] show ?thesis by (simp add: strncmp_eq_def)
next
  case (Some j)
  obtain t where t: "dx_service d j = Some t" "ds_type t = ds_type s"
    "strncmp_eq (ds_vap s) (ds_vap t) DWPAL_VAP_NAME_STRING_LENGTH" using index_get [OF Some] .
  then have "slot_id t = slot_id s"
    using ext_name [OF d s] ext_name [OF d t(1)] by (simp add: slot_id_def strncmp_eq_short)
  with other_id [OF d s, of t] t(1) Some show ?thesis by metis
qed

section \<open>Commands\<close>

text \<open>Only one slot changes, and it keeps its service.\<close>

definition only_slot :: "nat \<Rightarrow> dwpal_ext \<Rightarrow> dwpal_ext \<Rightarrow> bool" where
  "only_slot i d d' \<longleftrightarrow> same_slots d d' \<and> (\<forall>j. j \<noteq> i \<longrightarrow> dx_service d' j = dx_service d j \<and> dx_context d' j = dx_context d j) \<and>
     dx_listener d' = dx_listener d \<and> dx_monitor d' = dx_monitor d"

lemma only_slot_refl [simp]: "only_slot i d d"
  by (simp add: only_slot_def)

lemma only_slot_trans: "only_slot i a b \<Longrightarrow> only_slot i b c \<Longrightarrow> only_slot i a c"
  unfolding only_slot_def using same_slots_trans by (intro conjI allI impI) (simp_all, blast)

lemma only_slot_log [simp]: "only_slot i d (log_call c d') = only_slot i d d'" "only_slot i (log_call c d) d' = only_slot i d d'"
  by (simp_all add: only_slot_def)

lemma only_slot_set:
  "same_slots d d' \<Longrightarrow> dx_service d' = (dx_service d)(i := sp) \<Longrightarrow> dx_context d' = (dx_context d)(i := cp) \<Longrightarrow>
     dx_listener d' = dx_listener d \<Longrightarrow> dx_monitor d' = dx_monitor d \<Longrightarrow> only_slot i d d'"
  by (simp add: only_slot_def)

lemma log_sent_simps [simp]:
  "dx_service (log_sent i c d) = dx_service d" "dx_context (log_sent i c d) = dx_context d" "dx_socks (log_sent i c d) = dx_socks d"
  "dx_listener (log_sent i c d) = dx_listener d" "dx_monitor (log_sent i c d) = dx_monitor d"
  "ext_ok (log_sent i c d) = ext_ok d" "only_slot i d' (log_sent i c d) = only_slot i d' d"
  "dx_trace (log_sent i c d) = dx_trace d @ (case c of None \<Rightarrow> [] | Some x \<Rightarrow> [SendCmd i x])"
  by (cases c; simp add: log_sent_def)+

lemma cmd_send_law:
  assumes "hostap_kind c" "socks_of (Some c) \<subseteq># mset (sk_open w)"
  shows "\<exists>r sent reply n. dwpal_hostap_cmd_send ans (Some c) (Some hdr) params True len w = Some (r, sent, reply, n) \<and>
    r \<in> {DWPAL_SUCCESS, DWPAL_FAILURE, DWPAL_SOCKET_FAILURE}"
proof -
  obtain h a b where h: "c = HostapContext h" "hc_ctrl h = Some a" "\<not> hc_two_way h" "socks_of (Some c) = {#a, b#}"
    using hostap_kindE [OF assms(1)] .
  have "sock_use a w = Some ()" using assms(2) h(4) by (auto intro: sock_use_open simp: insert_subset_eq_iff)
  moreover have "clear_stuck as \<in> {DWPAL_SUCCESS, DWPAL_FAILURE, DWPAL_SOCKET_FAILURE}" for as by (induction as) auto
  ultimately show ?thesis using h
    by (auto simp: dwpal_hostap_cmd_send_def Let_def split: option.split if_splits)
qed

lemma drop_law:
  assumes d: "ext_ok d" and s: "dx_service d i = Some s" "ds_type s = DWPAL_CONN_TYPE_HOSTAP" and c: "dx_context d i = Some c"
  shows "\<exists>w d'. drop_interface b i d = Some d' \<and> d' = set_link i None w (set_service i (Some (s\<lparr>ds_connect_needed := True\<rparr>)) d) \<and>
    ext_ok d' \<and> only_slot i d d' \<and> mset (sk_open w) = mset (sk_open (dx_socks d)) - socks_of (Some c)"
proof -
  have sub: "socks_of (Some c) \<subseteq># mset (sk_open (dx_socks d))" using ext_owned [OF d, of i] c by simp
  note k = ext_sock_ok [OF d] ext_hostap(3) [OF d s c] sub
  obtain w where w: "(if b then dwpal_hostap_socket_close (Some c) (dx_socks d) else dwpal_hostap_interface_detach (Some c) (dx_socks d)) =
      Some (DWPAL_SUCCESS, None, w)" "sock_ok w" "mset (sk_open w) = mset (sk_open (dx_socks d)) - socks_of (dx_context d i) + socks_of None"
    using hostap_close_law [OF k] hostap_detach_law [OF k] c by (cases b) auto
  let ?s = "s\<lparr>ds_connect_needed := True\<rparr>"
  have slot: "slot_ok (Some ?s) None" using ext_slot [OF d s(1)] by (simp add: slot_ok_def)
  define d' where "d' = set_link i None w (set_service i (Some ?s) d)"
  have "drop_interface b i d = Some d'" using w(1) s c by (cases b) (simp_all add: drop_interface_def d'_def)
  moreover have ok: "ext_ok d'" "same_slots d d'"
    using ext_ok_change [OF d s(1) _ slot w(2,3), of d'] by (simp_all add: slot_id_def d'_def)
  moreover have "only_slot i d d'" by (rule only_slot_set [OF ok(2)]) (simp_all add: d'_def)
  moreover have "mset (sk_open w) = mset (sk_open (dx_socks d)) - socks_of (Some c)" using w(3) c by simp
  ultimately show ?thesis using d'_def by blast
qed

definition slot_of :: "cstr option \<Rightarrow> dwpal_ext \<Rightarrow> nat" where
  "slot_of vap d = (case vap of None \<Rightarrow> 0 | Some v \<Rightarrow>
     (case interfaceIndexGet DWPAL_CONN_TYPE_HOSTAP v d of None \<Rightarrow> 0 | Some i \<Rightarrow> i))"

lemma event_law:
  "dx_service d i = Some s \<Longrightarrow> interfaceEventSend i op_code msg len d =
     Some (if ds_clb s then log_call (CallEvent (ds_vap s) op_code msg len) d else d)"
  by (simp add: interfaceEventSend_def)

lemma disconnected_law:
  "dx_service d i = Some s \<Longrightarrow> interfaceDisconnectedSend i d =
     Some (if ds_clb s then log_call (CallEvent (ds_vap s) (cbytes ''INTERFACE_DISCONNECTED'') [] 0) d else d)"
  by (simp add: interfaceDisconnectedSend_def event_law)

definition thread_stopped :: "ext_thread \<Rightarrow> dwpal_ext \<Rightarrow> bool" where
  "thread_stopped self d \<longleftrightarrow> self = ListenerThread \<and> td_stop (dx_listener d) \<or> self = MonitorThread \<and> td_stop (dx_monitor d)"

text \<open>A command to an interface that is up, and what a failure of hostapd leaves.\<close>

lemma ext_cmd_run:
  assumes "vap = Some v" "hdr = Some h" "given" "\<not> thread_stopped self d"
    "interfaceIndexGet DWPAL_CONN_TYPE_HOSTAP v d = Some i" "dx_service d i = Some s" "\<not> ds_connect_needed s"
    "dx_context d i = Some c" "dwpal_hostap_cmd_send ans (Some c) (Some h) params True len (dx_socks d) = Some (r, sent, reply, n)"
  shows "dwpal_ext_hostap_cmd_send ans self vap hdr params given len d =
      (if r = DWPAL_SOCKET_FAILURE \<or> r = DWPAL_FAILURE
       then do { d2 \<leftarrow> drop_interface (r = DWPAL_SOCKET_FAILURE) i (log_sent i sent d); d3 \<leftarrow> interfaceDisconnectedSend i d2;
                 Some (DWPAL_FAILURE, reply, 0, d3) }
       else Some (DWPAL_SUCCESS, reply, n, log_sent i sent d))"
  using assms by (cases self) (simp_all add: dwpal_ext_hostap_cmd_send_def thread_stopped_def Let_def)

lemma ext_cmd_dropped:
  assumes d: "ext_ok d" and s: "dx_service d i = Some s" "ds_type s = DWPAL_CONN_TYPE_HOSTAP" and c: "dx_context d i = Some c"
  shows "\<exists>w d'. do { d2 \<leftarrow> drop_interface b i (log_sent i sent d); interfaceDisconnectedSend i d2 } = Some d' \<and> ext_ok d' \<and>
    only_slot i d d' \<and> dx_service d' i = Some (s\<lparr>ds_connect_needed := True\<rparr>) \<and> dx_context d' i = None \<and>
    dx_trace d' = dx_trace d @ (case sent of None \<Rightarrow> [] | Some x \<Rightarrow> [SendCmd i x]) @
      [CallEvent (ds_vap s) (cbytes ''INTERFACE_DISCONNECTED'') [] 0] \<and> dx_socks d' = w \<and>
    mset (sk_open w) = mset (sk_open (dx_socks d)) - socks_of (Some c)"
proof -
  let ?d1 = "log_sent i sent d"
  have d1: "ext_ok ?d1" "dx_service ?d1 i = Some s" "dx_context ?d1 i = Some c" using d s c by simp_all
  obtain w d2 where w: "drop_interface b i ?d1 = Some d2" "d2 = set_link i None w (set_service i (Some (s\<lparr>ds_connect_needed := True\<rparr>)) ?d1)"
    "ext_ok d2" "only_slot i ?d1 d2" "mset (sk_open w) = mset (sk_open (dx_socks ?d1)) - socks_of (Some c)"
    using drop_law [OF d1(1,2) s(2) d1(3)] by blast
  have only: "only_slot i d d2" using only_slot_trans [of i d ?d1 d2] w(4) by simp
  have s2: "dx_service d2 i = Some (s\<lparr>ds_connect_needed := True\<rparr>)" using w(2) by simp
  show ?thesis
    by (rule exI [of _ w], rule exI [of _ "log_call (CallEvent (ds_vap s) (cbytes ''INTERFACE_DISCONNECTED'') [] 0) d2"])
      (use w(1,3,5) only s2 ext_hostap(2) [OF d s] disconnected_law [OF s2] in \<open>simp add: w(2)\<close>)
qed

text \<open>A command always has a result, keeps the state consistent and changes its own slot only.\<close>

lemma ext_cmd_law:
  assumes d: "ext_ok d"
  shows "\<exists>r reply n d'. dwpal_ext_hostap_cmd_send ans self vap hdr params given len d = Some (r, reply, n, d') \<and>
    ext_ok d' \<and> only_slot (slot_of vap d) d d'"
proof (cases "\<exists>v h i s c. vap = Some v \<and> hdr = Some h \<and> given \<and>
    \<not> thread_stopped self d \<and> interfaceIndexGet DWPAL_CONN_TYPE_HOSTAP v d = Some i \<and> dx_service d i = Some s \<and> dx_context d i = Some c")
  case True
  then obtain v h i s c where v: "vap = Some v" "hdr = Some h" "given"
    "\<not> thread_stopped self d" "interfaceIndexGet DWPAL_CONN_TYPE_HOSTAP v d = Some i" "dx_service d i = Some s" "dx_context d i = Some c" by blast
  have t: "ds_type s = DWPAL_CONN_TYPE_HOSTAP" using index_get [OF v(5)] v(6) by force
  have up: "\<not> ds_connect_needed s" using ext_hostap(1) [OF d v(6) t] v(7) by simp
  have sub: "socks_of (Some c) \<subseteq># mset (sk_open (dx_socks d))" using ext_owned [OF d, of i] v(7) by simp
  obtain r sent reply n where r: "dwpal_hostap_cmd_send ans (Some c) (Some h) params True len (dx_socks d) = Some (r, sent, reply, n)"
    using cmd_send_law [OF ext_hostap(3) [OF d v(6) t v(7)] sub] by blast
  note run = ext_cmd_run [OF v(1-6) up v(7) r]
  have i: "slot_of vap d = i" using v by (simp add: slot_of_def)
  show ?thesis
  proof (cases "r = DWPAL_SOCKET_FAILURE \<or> r = DWPAL_FAILURE")
    case False
    with run d i show ?thesis by simp
  next
    case True
    from ext_cmd_dropped [OF d v(6) t v(7), of "r = DWPAL_SOCKET_FAILURE" sent]
    obtain d' where d': "do { d2 \<leftarrow> drop_interface (r = DWPAL_SOCKET_FAILURE) i (log_sent i sent d); interfaceDisconnectedSend i d2 } = Some d'"
      "ext_ok d'" "only_slot i d d'" by (elim exE conjE)
    then have "dwpal_ext_hostap_cmd_send ans self vap hdr params given len d = Some (DWPAL_FAILURE, reply, 0, d')"
      unfolding run using True by (auto simp: bind_eq_Some_conv)
    with d'(2,3) i show ?thesis by simp
  qed
next
  case False
  have "dwpal_ext_hostap_cmd_send ans self vap hdr params given len d \<in> {Some (DWPAL_FAILURE, [], len, d), Some (DWPAL_FAILURE, [], 0, d),
    Some (DWPAL_INTERFACE_IS_DOWN, [], 0, d)}"
  proof (cases "\<exists>v i. vap = Some v \<and> interfaceIndexGet DWPAL_CONN_TYPE_HOSTAP v d = Some i")
    case True
    then obtain v i where v: "vap = Some v" "interfaceIndexGet DWPAL_CONN_TYPE_HOSTAP v d = Some i" by blast
    obtain s where s: "dx_service d i = Some s" using index_get [OF v(2)] by blast
    show ?thesis using False v s by (cases "dx_context d i") (auto simp: dwpal_ext_hostap_cmd_send_def thread_stopped_def split: option.split)
  next
    case False
    then show ?thesis by (auto simp: dwpal_ext_hostap_cmd_send_def split: option.split)
  qed
  with d show ?thesis by auto
qed


section \<open>Recovery\<close>

lemma slot_of_service:
  "ext_ok d \<Longrightarrow> dx_service d i = Some s \<Longrightarrow> ds_type s = DWPAL_CONN_TYPE_HOSTAP \<Longrightarrow> slot_of (Some (ds_vap s)) d = i"
  using index_slot [of d i s] by (simp add: slot_of_def)

lemma only_slot_service: "only_slot i d d' \<Longrightarrow> dx_service d i = Some s \<Longrightarrow> \<exists>s'. dx_service d' i = Some s' \<and> slot_id s' = slot_id s"
  by (auto simp: only_slot_def dest: same_slotsD)

lemma vaps_law:
  assumes d: "ext_ok d" and s: "dx_service d i = Some s" "ds_type s = DWPAL_CONN_TYPE_HOSTAP"
  shows "\<exists>r d'. vaps_event op_code ans bss self mem_ok i d = Some (r, d') \<and> ext_ok d' \<and> only_slot i d d'"
proof -
  obtain r reply n d1 where c: "dwpal_ext_hostap_cmd_send ans self (Some (ds_vap s)) (Some (cbytes ''STATUS'')) [] True
      (HOSTAPD_TO_DWPAL_MSG_LENGTH - 1) d = Some (r, reply, n, d1)" "ext_ok d1" "only_slot i d d1"
    using ext_cmd_law [OF d, of ans self "Some (ds_vap s)" "Some (cbytes ''STATUS'')" "[]" True "HOSTAPD_TO_DWPAL_MSG_LENGTH - 1"]
      slot_of_service [OF d s] by auto
  obtain s1 where s1: "dx_service d1 i = Some s1" using only_slot_service [OF c(3) s(1)] by blast
  show ?thesis
    using c s s1 d by (auto simp: vaps_event_def activeVapsGet_def event_law)
qed

lemma keep_law:
  assumes "ext_ok d" "dx_service d i = Some s" "ds_type s' = ds_type s" "ds_vap s' = ds_vap s"
    "ds_connect_needed s' = ds_connect_needed s" "ds_clb s' = ds_clb s"
  shows "ext_ok (set_service i (Some s') d)" "only_slot i d (set_service i (Some s') d)"
proof -
  have slot: "slot_ok (Some s') (dx_context d i)" using ext_slot [OF assms(1,2)] assms(3-6) by (simp add: slot_ok_def)
  have ok: "ext_ok (set_service i (Some s') d)" "same_slots d (set_service i (Some s') d)"
    using ext_ok_keep [OF assms(1,2) _ slot] assms(3,4) by (simp_all add: slot_id_def)
  then show "ext_ok (set_service i (Some s') d)" "only_slot i d (set_service i (Some s') d)" by (simp_all add: only_slot_def)
qed

lemma report_law:
  assumes d: "ext_ok d" and s: "dx_service d i = Some s" "ds_type s = DWPAL_CONN_TYPE_HOSTAP"
  shows "\<exists>d'. report_slot ans bss self mem_ok i d = Some d' \<and> ext_ok d' \<and> only_slot i d d'"
proof (cases "ds_reconnect_needed s")
  case True
  obtain r d1 where c: "interfaceReconnectedOkSent ans bss self mem_ok i d = Some (r, d1)" "ext_ok d1" "only_slot i d d1"
    unfolding interfaceReconnectedOkSent_def using vaps_law [OF d s] by blast
  obtain s1 where s1: "dx_service d1 i = Some s1" using only_slot_service [OF c(3) s(1)] by blast
  let ?d = "set_service i (Some (s1\<lparr>ds_reconnect_needed := False\<rparr>)) d1"
  have k: "ext_ok ?d" "only_slot i d1 ?d" using keep_law [OF c(2) s1] by simp_all
  have "only_slot i d ?d" by (rule only_slot_trans [OF c(3) k(2)])
  then show ?thesis using True s(1) c s1 k(1) by (simp add: report_slot_def)
next
  case False
  with d s show ?thesis by (simp add: report_slot_def)
qed

lemma reattach_slot_law:
  assumes d: "ext_ok d" and s: "dx_service d i = Some s" "ds_type s = DWPAL_CONN_TYPE_HOSTAP" and lost: "ds_connect_needed s"
  shows "\<exists>r cp w d'. dwpal_hostap_interface_attach att (Some (ds_vap s)) False (dx_socks d) = Some (r, cp, w) \<and>
    reattach_slot att i d = Some d' \<and> d' = (if r = DWPAL_SUCCESS
      then set_service i (Some (s\<lparr>ds_connect_needed := False, ds_reconnect_needed := True\<rparr>)) (set_link i cp w d)
      else set_link i None w d) \<and> ext_ok d' \<and> only_slot i d d' \<and> (r = DWPAL_SUCCESS \<longleftrightarrow> cp \<noteq> None)"
proof -
  have down: "dx_context d i = None" using ext_hostap(1) [OF d s] lost by simp
  obtain r cp w where a: "dwpal_hostap_interface_attach att (Some (ds_vap s)) False (dx_socks d) = Some (r, cp, w)" "sock_ok w"
    "mset (sk_open w) = mset (sk_open (dx_socks d)) + socks_of cp"
    "r = DWPAL_SUCCESS \<and> (\<exists>c. cp = Some c \<and> hostap_kind c) \<or> r = DWPAL_FAILURE \<and> cp = None"
    using hs_link.attach_law [OF ext_sock_ok [OF d] TrueI, of "(att, Some (ds_vap s))", unfolded prod.case] by (elim exE conjE)
  have w: "mset (sk_open w) = mset (sk_open (dx_socks d)) - socks_of (dx_context d i) + socks_of cp" using a(3) down by simp
  note sl = ext_slot [OF d s(1)]
  show ?thesis
  proof (cases "r = DWPAL_SUCCESS")
    case True
    let ?s = "s\<lparr>ds_connect_needed := False, ds_reconnect_needed := True\<rparr>"
    let ?d = "set_service i (Some ?s) (set_link i cp w d)"
    have slot: "slot_ok (Some ?s) cp" using sl a(4) True s(2) by (auto simp: slot_ok_def)
    have ok: "ext_ok ?d" "same_slots d ?d" using ext_ok_change [OF d s(1) _ slot a(2) w] by (simp_all add: slot_id_def)
    have "only_slot i d ?d" by (rule only_slot_set [OF ok(2)]) simp_all
    with True a(1,4) ok s lost down show ?thesis by (auto simp: reattach_slot_def)
  next
    case False
    let ?d = "set_link i None w d"
    have cp: "cp = None" using a(4) False by auto
    have slot: "slot_ok (Some s) None" using sl down by simp
    have ok: "ext_ok ?d" "same_slots d ?d"
      using ext_ok_change [OF d s(1) refl slot a(2)] w s(1) cp by (simp_all add: fun_upd_idem)
    have "only_slot i d ?d" using ok(2) by (simp add: only_slot_def)
    with False a(1) cp ok s lost down show ?thesis by (simp add: reattach_slot_def)
  qed
qed

lemma recover_law:
  assumes d: "ext_ok d"
  shows "\<exists>d'. recover_slot att ans bss self mem_ok i d = Some d' \<and> ext_ok d' \<and> only_slot i d d'"
proof (cases "\<exists>s. dx_service d i = Some s \<and> ds_type s = DWPAL_CONN_TYPE_HOSTAP")
  case True
  then obtain s where s: "dx_service d i = Some s" "ds_type s = DWPAL_CONN_TYPE_HOSTAP" by blast
  have "\<exists>d1. reattach_slot att i d = Some d1 \<and> ext_ok d1 \<and> only_slot i d d1"
  proof (cases "ds_connect_needed s")
    case True
    from reattach_slot_law [OF d s True, of att] show ?thesis by (elim exE conjE) blast
  next
    case False
    with d s show ?thesis by (simp add: reattach_slot_def)
  qed
  then obtain d1 where d1: "reattach_slot att i d = Some d1" "ext_ok d1" "only_slot i d d1" by blast
  obtain s1 where s1: "dx_service d1 i = Some s1" "ds_type s1 = DWPAL_CONN_TYPE_HOSTAP"
    using only_slot_service [OF d1(3) s(1)] s(2) by (auto simp: slot_id_def)
  from report_law [OF d1(2) s1] obtain d2 where d2: "report_slot ans bss self mem_ok i d1 = Some d2" "ext_ok d2" "only_slot i d1 d2" by blast
  with d1 s only_slot_trans [OF d1(3) d2(3)] show ?thesis by (simp add: recover_slot_def)
next
  case False
  with d show ?thesis by (auto simp: recover_slot_def split: option.split)
qed


section \<open>Checking the interfaces\<close>

text \<open>A detachment by \<open>interfacesPingCheck\<close>, also of an interface that answers.\<close>

lemma detach_slot_law:
  assumes d: "ext_ok d" and s: "dx_service d i = Some s" "ds_type s = DWPAL_CONN_TYPE_HOSTAP"
    and s': "ds_type s' = ds_type s" "ds_vap s' = ds_vap s" "ds_connect_needed s'" "ds_clb s' = ds_clb s"
  shows "\<exists>w d'. (if dx_context d i = None then Some (None, dx_socks d)
      else map_option snd (dwpal_hostap_interface_detach (dx_context d i) (dx_socks d))) = Some (None, w) \<and>
    d' = set_link i None w (set_service i (Some s') d) \<and> ext_ok d' \<and> only_slot i d d' \<and>
    mset (sk_open w) = mset (sk_open (dx_socks d)) - socks_of (dx_context d i)"
proof -
  have sub: "socks_of (dx_context d i) \<subseteq># mset (sk_open (dx_socks d))" using ext_owned [OF d] .
  obtain w where w: "(if dx_context d i = None then Some (None, dx_socks d)
      else map_option snd (dwpal_hostap_interface_detach (dx_context d i) (dx_socks d))) = Some (None, w)" "sock_ok w"
    "mset (sk_open w) = mset (sk_open (dx_socks d)) - socks_of (dx_context d i)"
  proof (cases "dx_context d i")
    case None
    with ext_sock_ok [OF d] that show ?thesis by simp
  next
    case (Some c)
    with hs_link.detach_law [OF ext_sock_ok [OF d] ext_hostap(3) [OF d s Some]] sub that show ?thesis by auto
  qed
  have slot: "slot_ok (Some s') None" using ext_slot [OF d s(1)] s' s by (simp add: slot_ok_def)
  define d' where "d' = set_link i None w (set_service i (Some s') d)"
  have ok: "ext_ok d'" "same_slots d d'"
    using ext_ok_change [OF d s(1) _ slot w(2), of d'] s' w(3) by (simp_all add: slot_id_def d'_def)
  have "only_slot i d d'" by (rule only_slot_set [OF ok(2)]) (simp_all add: d'_def)
  with ok(1) w d'_def show ?thesis by blast
qed

lemma ping_law:
  assumes d: "ext_ok d"
  shows "\<exists>d'. ping_slot ans self i d = Some d' \<and> ext_ok d' \<and> only_slot i d d'"
proof (cases "\<exists>c s. dx_context d i = Some c \<and> dx_service d i = Some s \<and> ds_type s = DWPAL_CONN_TYPE_HOSTAP \<and> 0 < ds_fd s")
  case False
  show ?thesis
  proof (cases "dx_context d i")
    case None
    with d show ?thesis by (simp add: ping_slot_def)
  next
    case (Some c)
    then obtain s where "dx_service d i = Some s" by (rule ext_context [OF d])
    with False Some d show ?thesis by (auto simp: ping_slot_def)
  qed
next
  case True
  then obtain c s where s: "dx_context d i = Some c" "dx_service d i = Some s" "ds_type s = DWPAL_CONN_TYPE_HOSTAP" "0 < ds_fd s" by blast
  obtain r reply n d1 where c: "dwpal_ext_hostap_cmd_send ans self (Some (ds_vap s)) (Some (cbytes ''PING'')) [] True 63 d =
      Some (r, reply, n, d1)" "ext_ok d1" "only_slot i d d1"
    using ext_cmd_law [OF d, of ans self "Some (ds_vap s)" "Some (cbytes ''PING'')" "[]" True 63] slot_of_service [OF d s(2,3)] by auto
  obtain s1 where s1: "dx_service d1 i = Some s1" "slot_id s1 = slot_id s" using only_slot_service [OF c(3) s(2)] by blast
  have t1: "ds_type s1 = DWPAL_CONN_TYPE_HOSTAP" using s1(2) s(3) by (simp add: slot_id_def)
  define d2 where "d2 = set_service i (Some (s1\<lparr>ds_fd := -1\<rparr>)) d1"
  have d2: "ext_ok d2" "only_slot i d1 d2" "dx_service d2 i = Some (s1\<lparr>ds_fd := -1\<rparr>)"
    using keep_law [OF c(2) s1(1), of "s1\<lparr>ds_fd := -1\<rparr>"] by (simp_all add: d2_def)
  have o2: "only_slot i d d2" by (rule only_slot_trans [OF c(3) d2(2)])
  show ?thesis
  proof (cases "r \<noteq> DWPAL_FAILURE \<or> ds_connect_needed s1")
    case True
    with s c s1 d2 o2 show ?thesis by (auto simp: ping_slot_def Let_def d2_def)
  next
    case False
    let ?s = "s1\<lparr>ds_fd := -1, ds_connect_needed := True\<rparr>"
    from detach_slot_law [OF d2(1,3), of ?s] t1
    obtain w d3 where w: "(if dx_context d2 i = None then Some (None, dx_socks d2)
        else map_option snd (dwpal_hostap_interface_detach (dx_context d2 i) (dx_socks d2))) = Some (None, w)"
      "d3 = set_link i None w (set_service i (Some ?s) d2)" "ext_ok d3" "only_slot i d2 d3" by simp blast
    have o3: "only_slot i d d3" by (rule only_slot_trans [OF o2 w(4)])
    have "dx_service d3 i = Some ?s" using w(2) by simp
    note send = disconnected_law [OF this]
    have "ping_slot ans self i d = interfaceDisconnectedSend i d3"
      using s c(1) s1 False w(1)
      by (cases "dx_context d2 i") (auto simp: ping_slot_def Let_def d2_def [symmetric] w(2))
    with send w(3) o3 show ?thesis by simp
  qed
qed

lemma refresh_law:
  assumes d: "ext_ok d"
  shows "\<exists>d'. refresh_fd i d = Some d' \<and> ext_ok d' \<and> only_slot i d d'"
proof (cases "dx_context d i")
  case None
  with d show ?thesis by (simp add: refresh_fd_def)
next
  case (Some c)
  then obtain s where s: "dx_service d i = Some s" "kind_of (ds_type s) c" by (rule ext_context [OF d])
  show ?thesis
  proof (cases "ds_type s")
    case DWPAL_CONN_TYPE_HOSTAP
    with s(2) obtain h a b where "c = HostapContext h" by (auto elim: hostap_kindE)
    with Some s(1) DWPAL_CONN_TYPE_HOSTAP keep_law [OF d s(1)] show ?thesis
      by (simp add: refresh_fd_def dwpal_hostap_event_fd_get_def)
  next
    case DWPAL_CONN_TYPE_DRIVER
    with s(2) obtain h a b where "c = DriverContext h" by (auto elim: driver_kindE)
    with Some s(1) DWPAL_CONN_TYPE_DRIVER keep_law [OF d s(1)] show ?thesis
      by (auto simp: refresh_fd_def dwpal_driver_nl_fd_get_def split: option.split)
  qed
qed


section \<open>Attaching and detaching\<close>

lemma threads_simps [simp]:
  "dx_service (cancel_threads self d) = dx_service d" "dx_context (cancel_threads self d) = dx_context d"
  "dx_socks (cancel_threads self d) = dx_socks d" "dx_trace (cancel_threads self d) = dx_trace d"
  "dx_service (create_threads lk mk d) = dx_service d" "dx_context (create_threads lk mk d) = dx_context d"
  "dx_socks (create_threads lk mk d) = dx_socks d" "dx_trace (create_threads lk mk d) = dx_trace d"
  "dx_service (cancel_listener self d) = dx_service d" "dx_context (cancel_listener self d) = dx_context d"
  "dx_socks (cancel_listener self d) = dx_socks d" "dx_trace (cancel_listener self d) = dx_trace d"
  "dx_service (create_listener lk d) = dx_service d" "dx_context (create_listener lk d) = dx_context d"
  "dx_socks (create_listener lk d) = dx_socks d" "dx_trace (create_listener lk d) = dx_trace d"
  by (simp_all add: cancel_threads_def create_threads_def cancel_listener_def create_listener_def)

lemma ext_ok_threads [simp]:
  "ext_ok (cancel_threads self d) = ext_ok d" "ext_ok (create_threads lk mk d) = ext_ok d"
  "ext_ok (cancel_listener self d) = ext_ok d" "ext_ok (create_listener lk d) = ext_ok d"
  by (auto intro: ext_ok_same)

lemma create_law:
  assumes d: "ext_ok d" and v: "length v < DWPAL_VAP_NAME_STRING_LENGTH"
  shows "interfaceIndexCreate mem_ok t v d = (DWPAL_FAILURE, 0, d) \<and> interfaceIndexGet t v d = None \<and>
      (mem_ok \<longrightarrow> (\<forall>i < NUM_SERVICES. dx_service d i \<noteq> None)) \<or>
    (\<exists>r i s d2. interfaceIndexCreate mem_ok t v d = (r, i, d2) \<and> i < NUM_SERVICES \<and> slot_id s = (t, v) \<and>
       dx_service d2 = (dx_service d)(i := Some s) \<and> dx_context d2 = dx_context d \<and> dx_socks d2 = dx_socks d \<and>
       (r = DWPAL_SUCCESS \<and> dx_context d i = None \<or> r = DWPAL_INTERFACE_ALREADY_UP \<and> dx_context d i \<noteq> None \<and> d2 = d) \<and>
       (dx_service d i = Some s \<and> d2 = d \<or> dx_service d i = None) \<and>
       (\<forall>j u. j \<noteq> i \<longrightarrow> dx_service d j = Some u \<longrightarrow> slot_id u \<noteq> (t, v)))"
proof (cases "interfaceIndexGet t v d")
  case (Some i)
  obtain s where s: "dx_service d i = Some s" "ds_type s = t" "strncmp_eq v (ds_vap s) DWPAL_VAP_NAME_STRING_LENGTH" "i < NUM_SERVICES"
    using index_get [OF Some] .
  have "slot_id s = (t, v)" using s v ext_name [OF d s(1)] by (simp add: slot_id_def strncmp_eq_short)
  with Some s other_id [OF d s(1) refl] show ?thesis
    by (cases "dx_context d i") (fastforce simp: interfaceIndexCreate_def fun_upd_idem)+
next
  case None
  have fresh: "slot_id u \<noteq> (t, v)" if u: "dx_service d j = Some u" for j u
    using index_none [OF None _ u] ext_slot [OF d u] by (auto simp: slot_id_def strncmp_eq_def)
  show ?thesis
  proof (cases "mem_ok \<and> (\<exists>i < NUM_SERVICES. dx_service d i = None)")
    case False
    then have "mem_ok \<longrightarrow> find (\<lambda>i. dx_service d i = None) [0..<NUM_SERVICES] = None" by (simp add: find_None_iff)
    with None False show ?thesis by (cases mem_ok) (auto simp: interfaceIndexCreate_def split: option.split)
  next
    case True
    then obtain i where i: "find (\<lambda>i. dx_service d i = None) [0..<NUM_SERVICES] = Some i"
      by (cases "find (\<lambda>i. dx_service d i = None) [0..<NUM_SERVICES]") (auto simp: find_None_iff)
    with find_first [OF i] have free: "dx_service d i = None" "i < NUM_SERVICES" by auto
    define s where "s = \<lparr>ds_type = t, ds_vap = strcpy_s DWPAL_VAP_NAME_STRING_LENGTH v, ds_fd = 0, ds_fd_cmd = 0,
      ds_connect_needed = False, ds_reconnect_needed = False, ds_clb = False, ds_nl_clb = False\<rparr>"
    have create: "interfaceIndexCreate mem_ok t v d = (DWPAL_SUCCESS, i, set_service i (Some s) d)"
      using None i True by (simp add: interfaceIndexCreate_def s_def)
    have "slot_id s = (t, v)" using v by (simp add: slot_id_def s_def strcpy_s_def)
    with create free fresh ext_none [OF d free(1)] show ?thesis by auto
  qed
qed

lemma connected_law:
  assumes "ext_ok d" "dx_service d i = Some s" "ds_type s = DWPAL_CONN_TYPE_HOSTAP"
  shows "\<exists>r d'. interfaceConnectedOkSend ans bss self mem_ok i d = Some (r, d') \<and> ext_ok d'"
  unfolding interfaceConnectedOkSend_def using vaps_law [OF assms] by blast

lemma ext_attach_law:
  assumes d: "ext_ok d" and v: "\<And>v. vap = Some v \<Longrightarrow> length v < DWPAL_VAP_NAME_STRING_LENGTH"
  shows "\<exists>r d'. dwpal_ext_hostap_interface_attach att ans bss self mem_ok reply_mem lk mk vap clb d = Some (r, d') \<and> ext_ok d'"
proof (cases "\<exists>v. vap = Some v \<and> clb \<and> self \<noteq> ListenerThread \<and>
    \<not> (\<exists>i. interfaceIndexGet DWPAL_CONN_TYPE_HOSTAP v d = Some i \<and> dx_context d i \<noteq> None)")
  case False
  with d show ?thesis by (auto simp: dwpal_ext_hostap_interface_attach_def split: option.split)
next
  case True
  then obtain v' where v': "vap = Some v'" "clb" "self \<noteq> ListenerThread"
    "\<not> (\<exists>i. interfaceIndexGet DWPAL_CONN_TYPE_HOSTAP v' d = Some i \<and> dx_context d i \<noteq> None)" by blast
  let ?d1 = "cancel_threads self d"
  have d1: "ext_ok ?d1" using d by simp
  note start = v'(1-3) if_not_P [OF v'(4)]
  show ?thesis
  proof (cases "fst (interfaceIndexCreate mem_ok DWPAL_CONN_TYPE_HOSTAP v' ?d1) = DWPAL_SUCCESS")
    case False
    from create_law [OF d1 v [OF v'(1)], of mem_ok DWPAL_CONN_TYPE_HOSTAP] False
    obtain r i where "interfaceIndexCreate mem_ok DWPAL_CONN_TYPE_HOSTAP v' ?d1 = (r, i, ?d1)"
      "r = DWPAL_FAILURE \<or> r = DWPAL_INTERFACE_ALREADY_UP" by fastforce
    with d v' show ?thesis by (auto simp: dwpal_ext_hostap_interface_attach_def Let_def)
  next
    case True
    from create_law [OF d1 v [OF v'(1)], of mem_ok DWPAL_CONN_TYPE_HOSTAP] True
    obtain i s d2 where c: "interfaceIndexCreate mem_ok DWPAL_CONN_TYPE_HOSTAP v' ?d1 = (DWPAL_SUCCESS, i, d2)" "i < NUM_SERVICES"
      "slot_id s = (DWPAL_CONN_TYPE_HOSTAP, v')" "dx_service d2 = (dx_service d)(i := Some s)" "dx_context d2 = dx_context d"
      "dx_socks d2 = dx_socks d" "dx_context d i = None"
      "\<forall>j u. j \<noteq> i \<longrightarrow> dx_service d j = Some u \<longrightarrow> slot_id u \<noteq> (DWPAL_CONN_TYPE_HOSTAP, v')" by fastforce
    obtain r cp w where a: "dwpal_hostap_interface_attach att (Some v') False (dx_socks d) = Some (r, cp, w)" "sock_ok w"
      "mset (sk_open w) = mset (sk_open (dx_socks d)) + socks_of cp"
      "r = DWPAL_SUCCESS \<and> (\<exists>c. cp = Some c \<and> hostap_kind c) \<or> r = DWPAL_FAILURE \<and> cp = None"
      using hs_link.attach_law [OF ext_sock_ok [OF d] TrueI, of "(att, Some v')", unfolded prod.case] by (elim exE conjE)
    let ?s = "s\<lparr>ds_connect_needed := \<not> (r = DWPAL_SUCCESS), ds_clb := True\<rparr>"
    define d3 where "d3 = set_service i (Some ?s) (set_link i cp w d2)"
    have t: "ds_type s = DWPAL_CONN_TYPE_HOSTAP" "ds_vap s = v'" using c(3) by (simp_all add: slot_id_def)
    have id: "slot_id ?s = (DWPAL_CONN_TYPE_HOSTAP, v')" using t by (simp add: slot_id_def)
    have slot: "slot_ok (Some ?s) cp" using t a(4) v [OF v'(1)] by (auto simp: slot_ok_def)
    have ok: "ext_ok d3"
    proof (rule ext_ok_slot [OF d c(2) slot])
      show "slot_id sa \<noteq> slot_id u" if "Some ?s = Some sa" "j \<noteq> i" "dx_service d j = Some u" for sa j u
        using that c(8) id by auto
      show "mset (sk_open w) = mset (sk_open (dx_socks d)) - socks_of (dx_context d i) + socks_of cp" using a(3) c(7) by simp
    qed (use a(2) c(4,5) in \<open>simp_all add: d3_def\<close>)
    have s3: "dx_service d3 i = Some ?s" by (simp add: d3_def)
    have t3: "ds_type ?s = DWPAL_CONN_TYPE_HOSTAP" using t by simp
    obtain q d4 where q: "interfaceConnectedOkSend ans bss self reply_mem i d3 = Some (q, d4)" "ext_ok d4"
      using connected_law [OF ok s3 t3] by blast
    have "dwpal_ext_hostap_interface_attach att ans bss self mem_ok reply_mem lk mk vap clb d =
        (if r = DWPAL_SUCCESS then Some (DWPAL_SUCCESS, create_threads lk mk d4)
         else Some (DWPAL_INTERFACE_IS_DOWN, create_threads lk mk d3))"
      using v' c(1,4-7) a(1) q(1) unfolding d3_def
      by (cases "r = DWPAL_SUCCESS") (auto simp: dwpal_ext_hostap_interface_attach_def Let_def)
    with ok q(2) show ?thesis by simp
  qed
qed


lemma free_law:
  assumes d: "ext_ok d" and i: "i < NUM_SERVICES"
    and w: "sock_ok w" "mset (sk_open w) = mset (sk_open (dx_socks d)) - socks_of (dx_context d i)"
    and d': "dx_service d' = (dx_service d)(i := None)" "dx_context d' = (dx_context d)(i := None)" "dx_socks d' = w"
  shows "ext_ok d'"
  by (rule ext_ok_slot [OF d i _ _ w(1) _ d']) (use w(2) in \<open>simp_all add: slot_ok_def\<close>)

lemma ext_detach_law:
  assumes d: "ext_ok d"
  shows "\<exists>r d'. dwpal_ext_hostap_interface_detach self lk mk vap d = Some (r, d') \<and> ext_ok d'"
proof (cases "\<exists>v i. vap = Some v \<and> self \<noteq> ListenerThread \<and> interfaceIndexGet DWPAL_CONN_TYPE_HOSTAP v d = Some i")
  case False
  with d show ?thesis by (auto simp: dwpal_ext_hostap_interface_detach_def split: option.split)
next
  case True
  then obtain v i where v: "vap = Some v" "self \<noteq> ListenerThread" "interfaceIndexGet DWPAL_CONN_TYPE_HOSTAP v d = Some i" by blast
  obtain s where s: "dx_service d i = Some s" "ds_type s = DWPAL_CONN_TYPE_HOSTAP" "i < NUM_SERVICES" using index_get [OF v(3)] .
  show ?thesis
  proof (cases "dx_context d i")
    case None
    let ?d = "set_link i None (dx_socks d) (set_service i None (cancel_threads self d))"
    have "ext_ok ?d" by (rule free_law [OF d s(3)]) (use None ext_sock_ok [OF d] in simp_all)
    with v None show ?thesis by (simp add: dwpal_ext_hostap_interface_detach_def Let_def)
  next
    case (Some c)
    have sub: "socks_of (Some c) \<subseteq># mset (sk_open (dx_socks d))" using ext_owned [OF d, of i] Some by simp
    obtain w where w: "dwpal_hostap_interface_detach (Some c) (dx_socks d) = Some (DWPAL_SUCCESS, None, w)" "sock_ok w"
      "mset (sk_open w) = mset (sk_open (dx_socks d)) - socks_of (Some c)"
      using hs_link.detach_law [OF ext_sock_ok [OF d] ext_hostap(3) [OF d s(1,2) Some] sub] by blast
    let ?d = "set_link i None w (set_service i None (cancel_threads self d))"
    have "ext_ok ?d" by (rule free_law [OF d s(3) w(2)]) (use Some w(3) in simp_all)
    with v Some w(1) show ?thesis by (simp add: dwpal_ext_hostap_interface_detach_def Let_def)
  qed
qed

lemma ext_driver:
  assumes "ext_ok d" "dx_service d i = Some s" "ds_type s = DWPAL_CONN_TYPE_DRIVER" "dx_context d i = Some c"
  shows "driver_kind c"
  using ext_slot [OF assms(1,2)] assms(3,4) by (simp add: slot_ok_def)

lemma all_drivers_short: "length ALL_DRIVERS < DWPAL_VAP_NAME_STRING_LENGTH"
  by (simp add: ALL_DRIVERS_def cbytes_def DWPAL_VAP_NAME_STRING_LENGTH_def)

text \<open>There is a service for the driver, or room and memory for one.\<close>

definition driver_room :: "bool \<Rightarrow> dwpal_ext \<Rightarrow> bool" where
  "driver_room mem_ok d \<longleftrightarrow> interfaceIndexGet DWPAL_CONN_TYPE_DRIVER ALL_DRIVERS d \<noteq> None \<or>
     mem_ok \<and> (\<exists>i < NUM_SERVICES. dx_service d i = None)"

lemma index_threads [simp]:
  "interfaceIndexGet t v (cancel_listener self d) = interfaceIndexGet t v d"
  "interfaceIndexGet t v (cancel_threads self d) = interfaceIndexGet t v d"
  by (simp_all add: interfaceIndexGet_def)

lemma driver_attach_law:
  assumes d: "ext_ok d" and clean: "nl_clean_attach ans" and room: "driver_room mem_ok d"
  shows "\<exists>r d'. dwpal_ext_driver_nl_attach ans self mem_ok lk clb d = Some (r, d') \<and> ext_ok d'"
proof (cases "self \<noteq> ListenerThread \<and>
    \<not> (\<exists>i. interfaceIndexGet DWPAL_CONN_TYPE_DRIVER ALL_DRIVERS d = Some i \<and> dx_context d i \<noteq> None)")
  case False
  with d show ?thesis by (auto simp: dwpal_ext_driver_nl_attach_def)
next
  case True
  let ?d1 = "cancel_listener self d"
  have d1: "ext_ok ?d1" using d by simp
  show ?thesis
  proof (cases "fst (interfaceIndexCreate mem_ok DWPAL_CONN_TYPE_DRIVER ALL_DRIVERS ?d1) = DWPAL_SUCCESS")
    case False
    from create_law [OF d1 all_drivers_short, of mem_ok DWPAL_CONN_TYPE_DRIVER] False room
    obtain i where "interfaceIndexCreate mem_ok DWPAL_CONN_TYPE_DRIVER ALL_DRIVERS ?d1 = (DWPAL_INTERFACE_ALREADY_UP, i, ?d1)"
      by (fastforce simp: driver_room_def)
    with d True show ?thesis by (auto simp: dwpal_ext_driver_nl_attach_def Let_def)
  next
    case s0: True
    from create_law [OF d1 all_drivers_short, of mem_ok DWPAL_CONN_TYPE_DRIVER] s0
    obtain i s d2 where c: "interfaceIndexCreate mem_ok DWPAL_CONN_TYPE_DRIVER ALL_DRIVERS ?d1 = (DWPAL_SUCCESS, i, d2)" "i < NUM_SERVICES"
      "slot_id s = (DWPAL_CONN_TYPE_DRIVER, ALL_DRIVERS)" "dx_service d2 = (dx_service d)(i := Some s)" "dx_context d2 = dx_context d"
      "dx_socks d2 = dx_socks d" "dx_context d i = None"
      "\<forall>j u. j \<noteq> i \<longrightarrow> dx_service d j = Some u \<longrightarrow> slot_id u \<noteq> (DWPAL_CONN_TYPE_DRIVER, ALL_DRIVERS)" by fastforce
    obtain r cp w where a: "dwpal_driver_nl_attach ans (dx_socks d) = Some (r, cp, w)" "sock_ok w"
      "mset (sk_open w) = mset (sk_open (dx_socks d)) + socks_of cp"
      "r = DWPAL_SUCCESS \<and> (\<exists>c. cp = Some c \<and> driver_kind c) \<or> r = DWPAL_FAILURE \<and> cp = None"
      using nl_link.attach_law [OF ext_sock_ok [OF d] clean] by (elim exE conjE)
    show ?thesis
    proof (cases "r = DWPAL_SUCCESS")
      case False
      let ?d = "set_service i None (set_link i cp w d2)"
      have "ext_ok ?d" by (rule free_law [OF d c(2) a(2)]) (use a(3,4) c(4,5,7) False in \<open>auto\<close>)
      with True c a(1,4) False show ?thesis by (auto simp: dwpal_ext_driver_nl_attach_def Let_def)
    next
      case up: True
      let ?s = "s\<lparr>ds_nl_clb := clb\<rparr>"
      let ?d = "set_service i (Some ?s) (set_link i cp w d2)"
      have id: "slot_id ?s = (DWPAL_CONN_TYPE_DRIVER, ALL_DRIVERS)" using c(3) by (simp add: slot_id_def)
      have slot: "slot_ok (Some ?s) cp" using c(3) a(4) up all_drivers_short by (auto simp: slot_ok_def slot_id_def)
      have "ext_ok ?d"
      proof (rule ext_ok_slot [OF d c(2) slot])
        show "slot_id sa \<noteq> slot_id u" if "Some ?s = Some sa" "j \<noteq> i" "dx_service d j = Some u" for sa j u
          using that c(8) id by auto
        show "mset (sk_open w) = mset (sk_open (dx_socks d)) - socks_of (dx_context d i) + socks_of cp" using a(3) c(7) by simp
      qed (use a(2) c(4,5) in simp_all)
      with True c a(1) up show ?thesis by (auto simp: dwpal_ext_driver_nl_attach_def Let_def)
    qed
  qed
qed

lemma driver_detach_law:
  assumes d: "ext_ok d"
  shows "\<exists>r d'. dwpal_ext_driver_nl_detach self lk d = Some (r, d') \<and> ext_ok d'"
proof (cases "\<exists>i. self \<noteq> ListenerThread \<and> interfaceIndexGet DWPAL_CONN_TYPE_DRIVER ALL_DRIVERS d = Some i")
  case False
  with d show ?thesis by (auto simp: dwpal_ext_driver_nl_detach_def split: option.split)
next
  case True
  then obtain i where v: "self \<noteq> ListenerThread" "interfaceIndexGet DWPAL_CONN_TYPE_DRIVER ALL_DRIVERS d = Some i" by blast
  obtain s where s: "dx_service d i = Some s" "ds_type s = DWPAL_CONN_TYPE_DRIVER" "i < NUM_SERVICES" using index_get [OF v(2)] .
  show ?thesis
  proof (cases "dx_context d i")
    case None
    let ?d = "set_link i None (dx_socks d) (set_service i None (cancel_listener self d))"
    have "ext_ok ?d" by (rule free_law [OF d s(3)]) (use None ext_sock_ok [OF d] in simp_all)
    with v None show ?thesis by (simp add: dwpal_ext_driver_nl_detach_def dwpal_driver_nl_detach_def Let_def)
  next
    case (Some c)
    have sub: "socks_of (Some c) \<subseteq># mset (sk_open (dx_socks d))" using ext_owned [OF d, of i] Some by simp
    obtain w where w: "dwpal_driver_nl_detach (Some c) (dx_socks d) = Some (DWPAL_SUCCESS, None, w)" "sock_ok w"
      "mset (sk_open w) = mset (sk_open (dx_socks d)) - socks_of (Some c)"
      using nl_link.detach_law [OF ext_sock_ok [OF d] ext_driver [OF d s(1,2) Some] sub] by blast
    let ?d = "set_link i None w (set_service i None (cancel_listener self d))"
    have "ext_ok ?d" by (rule free_law [OF d s(3) w(2)]) (use Some w(3) in simp_all)
    with v Some w(1) show ?thesis by (simp add: dwpal_ext_driver_nl_detach_def Let_def)
  qed
qed

end
