(* ===== verification/Ext_Services.thy ===== *)
theory Ext_Services
  imports Ext_State
begin

text \<open>
  The interface services as a whole: the actions of the program, of the listener thread and of the
  monitor thread in any order, the states they reach, and the properties of dwpal_ext.c and dwpal.c.
\<close>

section \<open>Netlink commands\<close>

lemma nl_reattach_law:
  assumes d: "ext_ok d" and s: "dx_service d i = Some s" "ds_type s = DWPAL_CONN_TYPE_DRIVER" and clean: "nl_clean_attach att"
  shows "\<exists>again d'. nlRecoveryNeeded att i ret res tries d = Some (again, d') \<and> ext_ok d' \<and> only_slot i d d'"
proof (cases "ret \<noteq> DWPAL_SUCCESS \<or> res \<noteq> - ENOENT \<or> tries - 1 = 0")
  case True
  with d show ?thesis by (auto simp: nlRecoveryNeeded_def)
next
  case False
  have k: "\<forall>c. dx_context d i = Some c \<longrightarrow> driver_kind c" using ext_driver [OF d s] by simp
  obtain r cp w1 w2 where w: "(if dx_context d i = None then Some (None, dx_socks d)
      else map_option snd (dwpal_driver_nl_detach (dx_context d i) (dx_socks d))) = Some (None, w1)"
    "dwpal_driver_nl_attach att w1 = Some (r, cp, w2)" "sock_ok w2"
    "mset (sk_open w2) = mset (sk_open (dx_socks d)) - socks_of (dx_context d i) + socks_of cp"
    "r = DWPAL_SUCCESS \<and> (\<exists>c. cp = Some c \<and> driver_kind c) \<or> r = DWPAL_FAILURE \<and> cp = None"
    using nl_link.reattach_law [OF ext_sock_ok [OF d] clean k ext_owned [OF d]] by (elim exE conjE)
  have slot: "slot_ok (Some s) cp" using ext_slot [OF d s(1)] w(5) s(2) by (auto simp: slot_ok_def)
  let ?d = "set_link i cp w2 d"
  have ok: "ext_ok ?d" "same_slots d ?d"
    using ext_ok_change [OF d s(1) refl slot w(3,4)] s(1) by (simp_all add: fun_upd_idem)
  have "only_slot i d ?d" using ok(2) by (simp add: only_slot_def)
  with ok False w(1,2) show ?thesis by (cases "dx_context d i") (auto simp: nlRecoveryNeeded_def)
qed

lemma nl_loop_keeps:
  assumes "ext_ok d" "dx_service d i = Some s" "ds_type s = DWPAL_CONN_TYPE_DRIVER" "\<forall>(a, att) \<in> set as. nl_clean_attach att"
    "nl_cmd_loop i tries as msg res d = Some (r, res', d')"
  shows "ext_ok d'"
  using assms
proof (induction as arbitrary: tries msg res d s)
  case Nil
  then show ?case by simp
next
  case (Cons a as)
  obtain ans att where a: "a = (ans, att)" by force
  from Cons.prems(5) a obtain r1 res1 msg1 where first: "dwpal_nl80211_cmd_send ans (dx_context d i) msg res (dx_socks d) = Some (r1, res1, msg1)"
    by (cases "dwpal_nl80211_cmd_send ans (dx_context d i) msg res (dx_socks d)") auto
  with Cons.prems(5) a obtain again d1 where run: "nlRecoveryNeeded att i r1 (case res1 of None \<Rightarrow> 0 | Some x \<Rightarrow> x) tries d = Some (again, d1)"
    "(if again then nl_cmd_loop i (tries - 1) as msg1 res1 d1 else Some (r1, res1, d1)) = Some (r, res', d')"
    by (cases "nlRecoveryNeeded att i r1 (case res1 of None \<Rightarrow> 0 | Some x \<Rightarrow> x) tries d") auto
  have "nl_clean_attach att" using Cons.prems(4) a by auto
  from nl_reattach_law [OF Cons.prems(1-3) this] run(1) have d1: "ext_ok d1" "only_slot i d d1" by (metis option.inject prod.inject)+
  obtain s1 where "dx_service d1 i = Some s1" "ds_type s1 = DWPAL_CONN_TYPE_DRIVER"
    using only_slot_service [OF d1(2) Cons.prems(2)] Cons.prems(3) by (auto simp: slot_id_def)
  with Cons.IH [OF d1(1)] Cons.prems(4) run(2) d1(1) show ?case by (cases again) auto
qed

lemma nl_command_keeps:
  assumes d: "ext_ok d" and clean: "\<forall>(a, att) \<in> set as. nl_clean_attach att"
    and run: "dwpal_ext_nl80211_cmd_send as msg res d = Some (r, res', d')"
  shows "ext_ok d'"
proof (cases "msg = None \<or> res = None \<or> interfaceIndexGet DWPAL_CONN_TYPE_DRIVER ALL_DRIVERS d = None")
  case True
  with d run show ?thesis by (auto simp: dwpal_ext_nl80211_cmd_send_def split: if_splits)
next
  case False
  then obtain i where i: "interfaceIndexGet DWPAL_CONN_TYPE_DRIVER ALL_DRIVERS d = Some i" by blast
  obtain s where s: "dx_service d i = Some s" "ds_type s = DWPAL_CONN_TYPE_DRIVER" using index_get [OF i] by blast
  have "nl_cmd_loop i 2 as msg res d = Some (r, res', d')" using run False i by (auto simp: dwpal_ext_nl80211_cmd_send_def)
  from nl_loop_keeps [OF d s clean this] show ?thesis .
qed


section \<open>All operations\<close>

text \<open>
  The operations with the answers of hostapd and of the kernel that they meet: those of the
  program, and the visits of a slot by the threads.  \<open>AskStop\<close> is the time in which a cancellation
  waits for a thread to end.
\<close>

datatype ext_action =
    Attach attach_answers cmd_answers bss_parse ext_thread bool bool bool bool "cstr option" bool
  | Detach ext_thread bool bool "cstr option"
  | DriverAttach nl_attach_answers ext_thread bool bool bool
  | DriverDetach ext_thread bool
  | Command cmd_answers ext_thread "cstr option" "cstr option" "FieldsToCmdParse list" bool nat
  | NlCommand "(nl_answers \<times> nl_attach_answers) list" "bool option" "int option"
  | AskStop bool bool
  | Recover attach_answers cmd_answers bss_parse ext_thread bool nat
  | Ping cmd_answers ext_thread nat
  | RefreshFd nat
  | Event event_answers nat

fun ext_run :: "ext_action \<Rightarrow> dwpal_ext \<Rightarrow> dwpal_ext option" where
  "ext_run (Attach att ans bss self mem_ok reply_mem lk mk vap clb) d =
     map_option snd (dwpal_ext_hostap_interface_attach att ans bss self mem_ok reply_mem lk mk vap clb d)"
| "ext_run (Detach self lk mk vap) d = map_option snd (dwpal_ext_hostap_interface_detach self lk mk vap d)"
| "ext_run (DriverAttach ans self mem_ok lk clb) d = map_option snd (dwpal_ext_driver_nl_attach ans self mem_ok lk clb d)"
| "ext_run (DriverDetach self lk) d = map_option snd (dwpal_ext_driver_nl_detach self lk d)"
| "ext_run (Command ans self vap header params given len) d =
     map_option (\<lambda>(r, reply, n, d1). d1) (dwpal_ext_hostap_cmd_send ans self vap header params given len d)"
| "ext_run (NlCommand as msg res) d = map_option (\<lambda>(r, res1, d1). d1) (dwpal_ext_nl80211_cmd_send as msg res d)"
| "ext_run (AskStop listener monitor) d =
     Some (d\<lparr>dx_listener := thread_ask (\<not> listener) (dx_listener d), dx_monitor := thread_ask (\<not> monitor) (dx_monitor d)\<rparr>)"
| "ext_run (Recover att ans bss self mem_ok i) d = recover_slot att ans bss self mem_ok i d"
| "ext_run (Ping ans self i) d = ping_slot ans self i d"
| "ext_run (RefreshFd i) d = refresh_fd i d"
| "ext_run (Event ans i) d = map_option (\<lambda>(ping, released, d1). d1) (listener_event ans i d)"

text \<open>
  The hypotheses: names fit their buffer, an attachment to the driver loses no socket when it
  fails and finds a slot.
\<close>

fun action_fine :: "ext_action \<Rightarrow> dwpal_ext \<Rightarrow> bool" where
  "action_fine (Attach att ans bss self mem_ok reply_mem lk mk vap clb) d \<longleftrightarrow>
     (case vap of None \<Rightarrow> True | Some v \<Rightarrow> length v < DWPAL_VAP_NAME_STRING_LENGTH)"
| "action_fine (DriverAttach ans self mem_ok lk clb) d \<longleftrightarrow> nl_clean_attach ans \<and> driver_room mem_ok d"
| "action_fine (NlCommand as msg res) d \<longleftrightarrow> list_all (\<lambda>(a, att). nl_clean_attach att) as"
| "action_fine a d \<longleftrightarrow> True"

text \<open>The operations that have a result whatever they meet, but for the content of an event.\<close>

fun action_total :: "ext_action \<Rightarrow> bool" where
  "action_total (NlCommand as msg res) \<longleftrightarrow> False"
| "action_total (Event ans i) \<longleftrightarrow>
     (case ev_recv ans of None \<Rightarrow> True
      | Some bs \<Rightarrow> (let m = take (HOSTAPD_TO_DWPAL_MSG_LENGTH - 1) bs in event_op_code m (length m) \<noteq> None))"
| "action_total a \<longleftrightarrow> True"

inductive ext_reach :: "dwpal_ext \<Rightarrow> bool" where
  ext_init: "dx_service d = (\<lambda>i. None) \<Longrightarrow> dx_context d = (\<lambda>i. None) \<Longrightarrow> sk_open (dx_socks d) = [] \<Longrightarrow> ext_reach d"
| ext_step: "ext_reach d \<Longrightarrow> action_fine a d \<Longrightarrow> ext_run a d = Some d' \<Longrightarrow> ext_reach d'"

lemma event_run:
  assumes d: "ext_ok d"
  shows "ext_run (Event ans i) d = Some d' \<Longrightarrow> ext_ok d'" "action_total (Event ans i) \<Longrightarrow> ext_run (Event ans i) d \<noteq> None"
proof -
  show "ext_ok d'" if "ext_run (Event ans i) d = Some d'"
    using that d by (auto simp: listener_event_def interfaceEventSend_def bind_eq_Some_conv split: option.splits if_splits)
next
  assume total: "action_total (Event ans i)"
  show "ext_run (Event ans i) d \<noteq> None"
  proof (cases "\<exists>c s. dx_context d i = Some c \<and> dx_service d i = Some s \<and> ds_type s = DWPAL_CONN_TYPE_HOSTAP")
    case False
    then show ?thesis by (auto simp: listener_event_def split: option.split)
  next
    case True
    then obtain c s where s: "dx_context d i = Some c" "dx_service d i = Some s" "ds_type s = DWPAL_CONN_TYPE_HOSTAP" by blast
    obtain h a b where h: "c = HostapContext h" "hc_listener h = Some b" "\<not> hc_two_way h" "socks_of (Some c) = {#a, b#}"
      using hostap_kindE [OF ext_hostap(3) [OF d s(2,3,1)]] .
    have "socks_of (Some c) \<subseteq># mset (sk_open (dx_socks d))" using ext_owned [OF d, of i] s(1) by simp
    then have "b \<in># mset (sk_open (dx_socks d))" using h(4) by (auto simp: insert_subset_eq_iff dest: in_diffD)
    then have "sock_use b (dx_socks d) = Some ()" by (rule sock_use_open)
    then have "dwpal_hostap_event_get (ev_pending ans) (ev_recv ans) (ev_dup ans) (Some c) True
        (HOSTAPD_TO_DWPAL_MSG_LENGTH - 1) (dx_socks d) \<noteq> None"
      using h total by (auto simp: dwpal_hostap_event_get_def Let_def split: option.splits)
    with s show ?thesis by (auto simp: listener_event_def interfaceEventSend_def)
  qed
qed

lemma run_law:
  assumes d: "ext_ok d" and fine: "action_fine a d"
  shows "(\<forall>d'. ext_run a d = Some d' \<longrightarrow> ext_ok d') \<and> (action_total a \<longrightarrow> ext_run a d \<noteq> None)"
proof (cases a)
  case (Attach att ans bss self mem_ok reply_mem lk mk vap clb)
  have "length v < DWPAL_VAP_NAME_STRING_LENGTH" if "vap = Some v" for v using fine Attach that by simp
  from ext_attach_law [where vap = vap and att = att and ans = ans and bss = bss and self = self and mem_ok = mem_ok and
      reply_mem = reply_mem and lk = lk and mk = mk and clb = clb, OF d this] Attach show ?thesis by auto
next
  case (Detach self lk mk vap)
  from ext_detach_law [OF d, of self lk mk vap] Detach show ?thesis by auto
next
  case (DriverAttach ans self mem_ok lk clb)
  with fine have "nl_clean_attach ans" "driver_room mem_ok d" by simp_all
  from driver_attach_law [OF d this, of self lk clb] DriverAttach show ?thesis by auto
next
  case (DriverDetach self lk)
  from driver_detach_law [OF d, of self lk] DriverDetach show ?thesis by auto
next
  case (Command ans self vap header params given len)
  from ext_cmd_law [OF d, of ans self vap header params given len] Command show ?thesis by auto
next
  case (NlCommand as msg res)
  with fine have clean: "\<forall>(a, att) \<in> set as. nl_clean_attach att" by (simp add: list_all_iff)
  have "ext_ok d'" if "ext_run a d = Some d'" for d'
    using that nl_command_keeps [OF d clean, of msg res] NlCommand by auto
  with NlCommand show ?thesis by simp
next
  case (AskStop listener monitor)
  have "ext_ok (d\<lparr>dx_listener := thread_ask (\<not> listener) (dx_listener d), dx_monitor := thread_ask (\<not> monitor) (dx_monitor d)\<rparr>)"
    by (rule ext_ok_same [OF d]) simp_all
  with AskStop show ?thesis by simp
next
  case (Recover att ans bss self mem_ok i)
  from recover_law [OF d, of att ans bss self mem_ok i] Recover show ?thesis by auto
next
  case (Ping ans self i)
  from ping_law [OF d, of ans self i] Ping show ?thesis by auto
next
  case (RefreshFd i)
  from refresh_law [OF d, of i] RefreshFd show ?thesis by auto
next
  case (Event ans i)
  with event_run [OF d] show ?thesis by blast
qed

lemma reach_ok: "ext_reach d \<Longrightarrow> ext_ok d"
proof (induction rule: ext_reach.induct)
  case (ext_init d)
  then show ?case by (simp add: ext_ok_def slot_ok_def unique_ids_def accounts_def sock_ok_def)
next
  case (ext_step d a d')
  with run_law show ?case by blast
qed



section \<open>What commands meet\<close>

lemma sprintf_fits [simp]: "length t < n \<Longrightarrow> sprintf_s n t = t" "n \<le> length t \<Longrightarrow> sprintf_s n t = []"
  by (simp_all add: sprintf_s_def)

text \<open>A command without parameters to an interface that is up.\<close>

lemma plain_command:
  assumes "hostap_kind c" "socks_of (Some c) \<subseteq># mset (sk_open w)" "hdr \<noteq> []" "1 < len"
  shows "dwpal_hostap_cmd_send ans (Some c) (Some hdr) [] True len w =
    Some (if DWPAL_TO_HOSTAPD_MSG_LENGTH_INTERNAL \<le> length hdr then (DWPAL_FAILURE, None, [], 0)
      else if clear_stuck (ca_stuck ans) \<noteq> DWPAL_SUCCESS then (clear_stuck (ca_stuck ans), None, [], len)
      else if ca_ret ans < 0 then (DWPAL_SOCKET_FAILURE, Some hdr, [], 0)
      else (let bs = take (len - 1) (ca_reply ans)
            in (DWPAL_SUCCESS, Some hdr, bs, if bs = [] \<or> bs ! 0 = 0 then 0 else length bs)))"
proof -
  obtain h a b where h: "c = HostapContext h" "hc_ctrl h = Some a" "\<not> hc_two_way h" "socks_of (Some c) = {#a, b#}"
    using hostap_kindE [OF assms(1)] .
  have "sock_use a w = Some ()" using assms(2) h(4) by (auto intro: sock_use_open simp: insert_subset_eq_iff)
  with h(1-3) assms(3,4) show ?thesis by (simp add: dwpal_hostap_cmd_send_def Let_def)
qed

lemma ext_plain_command:
  assumes d: "ext_ok d" and s: "dx_service d i = Some s" "ds_type s = DWPAL_CONN_TYPE_HOSTAP" and c: "dx_context d i = Some c"
    and run: "\<not> thread_stopped self d" "dwpal_hostap_cmd_send ans (Some c) (Some hdr) params True len (dx_socks d) = Some (r, sent, reply, n)"
  shows "dwpal_ext_hostap_cmd_send ans self (Some (ds_vap s)) (Some hdr) params True len d =
      (if r = DWPAL_SOCKET_FAILURE \<or> r = DWPAL_FAILURE
       then do { d2 \<leftarrow> drop_interface (r = DWPAL_SOCKET_FAILURE) i (log_sent i sent d); d3 \<leftarrow> interfaceDisconnectedSend i d2;
                 Some (DWPAL_FAILURE, reply, 0, d3) }
       else Some (DWPAL_SUCCESS, reply, n, log_sent i sent d))"
proof (rule ext_cmd_run [OF refl refl TrueI run(1) _ s(1) _ c run(2)])
  show "interfaceIndexGet DWPAL_CONN_TYPE_HOSTAP (ds_vap s) d = Some i" using index_slot [OF d s(1)] s(2) by simp
  show "\<not> ds_connect_needed s" using ext_hostap(1) [OF d s] c by simp
qed

lemma ext_down_command:
  assumes "ext_ok d" "dx_service d i = Some s" "ds_type s = DWPAL_CONN_TYPE_HOSTAP" "ds_connect_needed s" "\<not> thread_stopped self d"
  shows "dwpal_ext_hostap_cmd_send ans self (Some (ds_vap s)) (Some hdr) params True len d = Some (DWPAL_INTERFACE_IS_DOWN, [], 0, d)"
  using assms index_slot [OF assms(1,2)] by (cases self) (simp_all add: dwpal_ext_hostap_cmd_send_def thread_stopped_def)

text \<open>C16. A command that hostapd does not answer gives the interface up: it fails with an empty reply,
  closes both sockets of the interface, tells the program once that it is disconnected, and every later
  command finds the interface down and does nothing.  The same befalls an interface that answers
  when the command is too long for the buffer of dwpal.c: nothing is sent and the interface is given up.\<close>

theorem failed_command_drops_interface:
  assumes reach: "ext_reach d" and s: "dx_service d i = Some s" "ds_type s = DWPAL_CONN_TYPE_HOSTAP" "dx_context d i = Some c"
    and cmd: "\<not> thread_stopped self d" "hdr \<noteq> []" "1 < len"
    and fails: "DWPAL_TO_HOSTAPD_MSG_LENGTH_INTERNAL \<le> length hdr \<or> clear_stuck (ca_stuck ans) = DWPAL_SUCCESS \<and> ca_ret ans < 0"
  shows "\<exists>d'. dwpal_ext_hostap_cmd_send ans self (Some (ds_vap s)) (Some hdr) [] True len d = Some (DWPAL_FAILURE, [], 0, d') \<and>
    dx_service d' i = Some (s\<lparr>ds_connect_needed := True\<rparr>) \<and> dx_context d' i = None \<and>
    mset (sk_open (dx_socks d')) = mset (sk_open (dx_socks d)) - socks_of (Some c) \<and>
    dx_trace d' = dx_trace d @ (if DWPAL_TO_HOSTAPD_MSG_LENGTH_INTERNAL \<le> length hdr then [] else [SendCmd i hdr]) @
      [CallEvent (ds_vap s) (cbytes ''INTERFACE_DISCONNECTED'') [] 0] \<and>
    (\<forall>ans' hdr' params' len'. dwpal_ext_hostap_cmd_send ans' self (Some (ds_vap s)) (Some hdr') params' True len' d' =
      Some (DWPAL_INTERFACE_IS_DOWN, [], 0, d'))"
proof -
  note d = reach_ok [OF reach]
  let ?long = "DWPAL_TO_HOSTAPD_MSG_LENGTH_INTERNAL \<le> length hdr"
  let ?sent = "if ?long then None else Some hdr"
  have "socks_of (Some c) \<subseteq># mset (sk_open (dx_socks d))" using ext_owned [OF d, of i] s(3) by simp
  note send = plain_command [OF ext_hostap(3) [OF d s] this cmd(2,3)]
  have "dwpal_hostap_cmd_send ans (Some c) (Some hdr) [] True len (dx_socks d) =
      Some (if ?long then DWPAL_FAILURE else DWPAL_SOCKET_FAILURE, ?sent, [], 0)" using fails send by auto
  note run = ext_plain_command [OF d s(1-3) cmd(1) this]
  obtain w d' where d': "do { d2 \<leftarrow> drop_interface (\<not> ?long) i (log_sent i ?sent d); interfaceDisconnectedSend i d2 } = Some d'"
    "ext_ok d'" "only_slot i d d'" "dx_service d' i = Some (s\<lparr>ds_connect_needed := True\<rparr>)" "dx_context d' i = None"
    "dx_trace d' = dx_trace d @ (case ?sent of None \<Rightarrow> [] | Some x \<Rightarrow> [SendCmd i x]) @
      [CallEvent (ds_vap s) (cbytes ''INTERFACE_DISCONNECTED'') [] 0]" "dx_socks d' = w"
    "mset (sk_open w) = mset (sk_open (dx_socks d)) - socks_of (Some c)"
    using ext_cmd_dropped [OF d s, of "\<not> ?long" ?sent] by (elim exE conjE)
  have "dwpal_ext_hostap_cmd_send ans self (Some (ds_vap s)) (Some hdr) [] True len d = Some (DWPAL_FAILURE, [], 0, d')"
    unfolding run using d'(1) by (auto simp: bind_eq_Some_conv)
  moreover have "\<not> thread_stopped self d'" using cmd(1) d'(3) by (simp add: thread_stopped_def only_slot_def)
  then have "dwpal_ext_hostap_cmd_send ans' self (Some (ds_vap s)) (Some hdr') params' True len' d' =
      Some (DWPAL_INTERFACE_IS_DOWN, [], 0, d')" for ans' hdr' params' len'
    using ext_down_command [OF d'(2,4), of self] s(2) by simp
  ultimately show ?thesis using d'(4-8) by auto
qed


section \<open>The list of virtual interfaces\<close>

text \<open>The names that the reply gives, up to the first that is missing, and the text that lists them.\<close>

definition vap_names :: "(nat \<Rightarrow> DWPAL_Ret \<times> cstr option) \<Rightarrow> nat list \<Rightarrow> cstr list" where
  "vap_names bss js = map (\<lambda>j. take DWPAL_VAP_NAME_STRING_LENGTH (case snd (bss j) of None \<Rightarrow> [] | Some n \<Rightarrow> n))
     (takeWhile (\<lambda>j. fst (bss j) = DWPAL_SUCCESS \<and> snd (bss j) \<noteq> None) js)"

definition vaps_text :: "cstr list \<Rightarrow> cstr" where
  "vaps_text ns = (if ns = [] then [] else cbytes ''vaps='' @ concat (map (\<lambda>n. 32 # n) ns))"

lemma vaps_text_length:
  "\<forall>n \<in> set ns. length n \<le> DWPAL_VAP_NAME_STRING_LENGTH \<Longrightarrow>
     length (vaps_text ns) \<le> 5 + length ns * (DWPAL_VAP_NAME_STRING_LENGTH + 1)"
proof -
  assume "\<forall>n \<in> set ns. length n \<le> DWPAL_VAP_NAME_STRING_LENGTH"
  then have "length (concat (map (\<lambda>n. 32 # n) ns)) \<le> length ns * (DWPAL_VAP_NAME_STRING_LENGTH + 1)"
    by (induction ns) auto
  then show ?thesis by (simp add: vaps_text_def cbytes_def)
qed

lemma strcat_two: "length (a @ b @ c) < n \<Longrightarrow> strcat_s n (strcat_s n a b) c = a @ b @ c"
  by (simp add: strcat_s_def)

lemma collect_vaps_text:
  assumes "length ns + length js \<le> NUM_OF_SUPPORTED_VAPS" "\<forall>n \<in> set ns. length n \<le> DWPAL_VAP_NAME_STRING_LENGTH"
  shows "collect_vaps bss VAPS_SIZE js (vaps_text ns) = vaps_text (ns @ vap_names bss js)"
  using assms
proof (induction js arbitrary: ns)
  case Nil
  then show ?case by (simp add: vap_names_def)
next
  case (Cons j js)
  show ?case
  proof (cases "fst (bss j) = DWPAL_SUCCESS \<and> snd (bss j) \<noteq> None")
    case False
    then show ?thesis by (cases "bss j") (auto simp: vap_names_def split: DWPAL_Ret.split)
  next
    case True
    then obtain name where name: "bss j = (DWPAL_SUCCESS, Some name)" by (cases "bss j") auto
    let ?n = "take DWPAL_VAP_NAME_STRING_LENGTH name"
    have short: "\<forall>n \<in> set (ns @ [?n]). length n \<le> DWPAL_VAP_NAME_STRING_LENGTH" using Cons.prems(2) by simp
    have "length (vaps_text (ns @ [?n])) \<le> 5 + length (ns @ [?n]) * (DWPAL_VAP_NAME_STRING_LENGTH + 1)"
      using vaps_text_length [OF short] .
    also have "\<dots> \<le> 5 + NUM_OF_SUPPORTED_VAPS * (DWPAL_VAP_NAME_STRING_LENGTH + 1)"
      using Cons.prems(1) by (intro add_left_mono mult_le_mono1) simp
    finally have fits: "length (vaps_text (ns @ [?n])) < VAPS_SIZE" by (simp add: VAPS_SIZE_def)
    have v1: "(if vaps_text ns = [] then strncpy_s VAPS_SIZE (cbytes ''vaps='') 5 else vaps_text ns) @ 32 # ?n = vaps_text (ns @ [?n])"
      by (simp add: vaps_text_def cbytes_def strncpy_s_def VAPS_SIZE_def)
    let ?v = "if vaps_text ns = [] then strncpy_s VAPS_SIZE (cbytes ''vaps='') 5 else vaps_text ns"
    have "strcat_s VAPS_SIZE (strcat_s VAPS_SIZE ?v [32]) ?n = vaps_text (ns @ [?n])"
      using strcat_two [of ?v "[32]" ?n VAPS_SIZE] fits unfolding append_Cons append_Nil v1 by simp
    then have "collect_vaps bss VAPS_SIZE (j # js) (vaps_text ns) = collect_vaps bss VAPS_SIZE js (vaps_text (ns @ [?n]))"
      by (simp add: name Let_def)
    also have "\<dots> = vaps_text ((ns @ [?n]) @ vap_names bss js)" by (rule Cons.IH) (use Cons.prems short in simp_all)
    finally show ?thesis by (simp add: vap_names_def name)
  qed
qed

lemma vaps_fit: "length (vaps_text (vap_names bss [0..<NUM_OF_SUPPORTED_VAPS])) < VAPS_SIZE"
proof -
  let ?ns = "vap_names bss [0..<NUM_OF_SUPPORTED_VAPS]"
  have "length ?ns \<le> NUM_OF_SUPPORTED_VAPS" unfolding vap_names_def length_map
    using length_takeWhile_le [of _ "[0..<NUM_OF_SUPPORTED_VAPS]"] by simp
  then have "length ?ns * (DWPAL_VAP_NAME_STRING_LENGTH + 1) \<le> NUM_OF_SUPPORTED_VAPS * (DWPAL_VAP_NAME_STRING_LENGTH + 1)"
    by (rule mult_le_mono1)
  moreover have "\<forall>n \<in> set ?ns. length n \<le> DWPAL_VAP_NAME_STRING_LENGTH" by (auto simp: vap_names_def)
  ultimately show ?thesis using vaps_text_length [of ?ns] by (simp add: VAPS_SIZE_def)
qed

lemma collect_all_vaps:
  "collect_vaps bss VAPS_SIZE [0..<NUM_OF_SUPPORTED_VAPS] [] = vaps_text (vap_names bss [0..<NUM_OF_SUPPORTED_VAPS])"
  using collect_vaps_text [of "[]" "[0..<NUM_OF_SUPPORTED_VAPS]" bss] by (simp add: vaps_text_def)

text \<open>C30. The list of the virtual interfaces that \<open>activeVapsGet\<close> makes from a reply is the text with all
  the names, in their order and up to the first that is missing, whatever the reply says: even 64
  names of 16 characters fit the buffer, so that no name is lost and the list is never emptied.\<close>

theorem vaps_list_complete:
  "collect_vaps bss VAPS_SIZE [0..<NUM_OF_SUPPORTED_VAPS] [] =
     (let ns = map (\<lambda>j. take DWPAL_VAP_NAME_STRING_LENGTH (case snd (bss j) of None \<Rightarrow> [] | Some n \<Rightarrow> n))
                 (takeWhile (\<lambda>j. fst (bss j) = DWPAL_SUCCESS \<and> snd (bss j) \<noteq> None) [0..<NUM_OF_SUPPORTED_VAPS])
      in if ns = [] then [] else cbytes ''vaps='' @ concat (map (\<lambda>n. 32 # n) ns)) \<and>
   length (collect_vaps bss VAPS_SIZE [0..<NUM_OF_SUPPORTED_VAPS] []) < VAPS_SIZE"
  using vaps_fit [of bss] by (simp add: collect_all_vaps vaps_text_def vap_names_def Let_def)


section \<open>Recovery\<close>

lemma short_name: "length v < DWPAL_VAP_NAME_STRING_LENGTH \<Longrightarrow>
  strncpy_s DWPAL_VAP_NAME_STRING_LENGTH v (strnlen_s v DWPAL_VAP_NAME_STRING_LENGTH) = v"
  by (simp add: strnlen_s_def)

lemma attach_up:
  assumes "aa_mem att" "aa_open att" "aa_open_listener att" "aa_attach att" "aa_exists att (cbytes ''/var/run/hostapd/'' @ v)"
    "length v < 15"
  shows "\<exists>c l w'. dwpal_hostap_interface_attach att (Some v) False w = Some (DWPAL_SUCCESS, Some (HostapContext \<lparr>hc_vap = v,
    hc_mode = cbytes ''AP'', hc_ctrl_name = cbytes ''/var/run/hostapd/'' @ v, hc_ctrl = Some c, hc_listener = Some l,
    hc_fd = aa_fd att, hc_two_way = False\<rparr>), w')"
proof -
  have "length (cbytes ''/var/run/hostapd/'' @ v) < DWPAL_WPA_CTRL_STRING_LENGTH"
    using assms(6) by (simp add: cbytes_def DWPAL_WPA_CTRL_STRING_LENGTH_def)
  then have "wpa_ctrl_name att v = Some (cbytes ''AP'', cbytes ''/var/run/hostapd/'' @ v)"
    using assms(5) by (simp add: wpa_ctrl_name_def Let_def cbytes_def)
  moreover have "length v < DWPAL_VAP_NAME_STRING_LENGTH" using assms(6) by (simp add: DWPAL_VAP_NAME_STRING_LENGTH_def)
  ultimately show ?thesis using assms(1-4) short_name [of v]
    by (simp add: dwpal_hostap_interface_attach_def Let_def sock_open_def)
qed

text \<open>STATUS over an interface that is up, and the event with the names that follows.\<close>

lemma vaps_event_up:
  assumes d: "ext_ok d" and s: "dx_service d i = Some s" "ds_type s = DWPAL_CONN_TYPE_HOSTAP" "dx_context d i = Some c"
    and ok: "\<not> thread_stopped self d" "clear_stuck (ca_stuck ans) = DWPAL_SUCCESS" "0 \<le> ca_ret ans"
  shows "\<exists>ns. vaps_event op_code ans bss self True i d = Some (DWPAL_SUCCESS,
    log_call (CallEvent (ds_vap s) op_code (vaps_text ns) (length (vaps_text ns))) (log_call (SendCmd i (cbytes ''STATUS'')) d))"
proof -
  have len: "1 < HOSTAPD_TO_DWPAL_MSG_LENGTH - 1" by (simp add: HOSTAPD_TO_DWPAL_MSG_LENGTH_def)
  have st: "cbytes ''STATUS'' \<noteq> []" "\<not> DWPAL_TO_HOSTAPD_MSG_LENGTH_INTERNAL \<le> length (cbytes ''STATUS'')"
    by (simp_all add: cbytes_def DWPAL_TO_HOSTAPD_MSG_LENGTH_INTERNAL_def)
  have "socks_of (Some c) \<subseteq># mset (sk_open (dx_socks d))" using ext_owned [OF d, of i] s(3) by simp
  from plain_command [OF ext_hostap(3) [OF d s] this st(1) len, of ans] ok(2,3) st(2)
  obtain reply n where send: "dwpal_hostap_cmd_send ans (Some c) (Some (cbytes ''STATUS'')) [] True
      (HOSTAPD_TO_DWPAL_MSG_LENGTH - 1) (dx_socks d) = Some (DWPAL_SUCCESS, Some (cbytes ''STATUS''), reply, n)"
    by (auto simp: Let_def)
  let ?d = "log_call (SendCmd i (cbytes ''STATUS'')) d"
  have cmd: "dwpal_ext_hostap_cmd_send ans self (Some (ds_vap s)) (Some (cbytes ''STATUS'')) [] True
      (HOSTAPD_TO_DWPAL_MSG_LENGTH - 1) d = Some (DWPAL_SUCCESS, reply, n, ?d)"
    using ext_plain_command [OF d s ok(1) send] by (simp add: log_sent_def)
  let ?v = "vaps_text (vap_names (bss (take n reply)) [0..<NUM_OF_SUPPORTED_VAPS])"
  have "activeVapsGet ans bss self True (ds_vap s) d = Some (DWPAL_SUCCESS, ?v, ?d)"
    using cmd by (simp add: activeVapsGet_def collect_all_vaps)
  moreover have "strnlen_s ?v (VAPS_SIZE - 1) = length ?v" using vaps_fit [of "bss (take n reply)"] by (simp add: strnlen_s_def)
  ultimately have "vaps_event op_code ans bss self True i d = Some (DWPAL_SUCCESS,
      log_call (CallEvent (ds_vap s) op_code ?v (length ?v)) ?d)"
    using s(1) event_law [of ?d i s op_code ?v] ext_hostap(2) [OF d s(1,2)] by (simp add: vaps_event_def)
  then show ?thesis by blast
qed


end
