(* ===== verification/Ext_Faults.thy ===== *)
theory Ext_Faults
  imports Ext_Services
begin

text \<open>
  Contents and failures that the interface services and dwpal.c handle, well or not: events, names,
  a cancelled thread, a failed attachment to the driver, a netlink command that is tried again.
\<close>

section \<open>Names and events\<close>

text \<open>C33. The names that an attachment accepts: the path of the control socket must fit 32 bytes, so that
  a name attaches to hostapd only with 14 characters at most and to the supplicant only with 7, though
  the library keeps names of 15; the name is kept as it was given.\<close>

theorem control_path_limits_names:
  assumes "length v < DWPAL_VAP_NAME_STRING_LENGTH"
    "dwpal_hostap_interface_attach att (Some v) two_way w = Some (DWPAL_SUCCESS, cp, w')"
  shows "\<exists>h. cp = Some (HostapContext h) \<and> hc_vap h = v \<and> \<not> two_way \<and>
    (hc_mode h = cbytes ''AP'' \<and> hc_ctrl_name h = cbytes ''/var/run/hostapd/'' @ v \<and> length v \<le> 14 \<or>
     hc_mode h = cbytes ''STA'' \<and> hc_ctrl_name h = cbytes ''/var/run/wpa_supplicant/'' @ v \<and> length v \<le> 7)"
proof -
  have name: "hc_mode = cbytes ''AP'' \<and> path = cbytes ''/var/run/hostapd/'' @ v \<and> length v \<le> 14 \<or>
      hc_mode = cbytes ''STA'' \<and> path = cbytes ''/var/run/wpa_supplicant/'' @ v \<and> length v \<le> 7"
    if "wpa_ctrl_name att v = Some (hc_mode, path)" for hc_mode path
    using that by (auto simp: wpa_ctrl_name_def Let_def sprintf_s_def DWPAL_WPA_CTRL_STRING_LENGTH_def cbytes_def split: if_splits)
  from assms(2) obtain mode path where c: "\<not> two_way" "wpa_ctrl_name att v = Some (mode, path)"
    unfolding dwpal_hostap_interface_attach_def Let_def short_name [OF assms(1)] option.case
    by (cases "two_way \<or> \<not> aa_mem att"; cases "wpa_ctrl_name att v") auto
  from assms(2) c(2) obtain c l where "cp = Some (HostapContext \<lparr>hc_vap = v, hc_mode = mode, hc_ctrl_name = path,
      hc_ctrl = Some c, hc_listener = Some l, hc_fd = aa_fd att, hc_two_way = False\<rparr>)"
    unfolding dwpal_hostap_interface_attach_def Let_def short_name [OF assms(1)] option.case
    by (auto simp: bind_eq_Some_conv split: if_splits option.splits prod.splits)
  with name [OF c(2)] c(1) show ?thesis by simp
qed

lemma first_token:
  assumes "c \<notin> set tok" "tok \<noteq> []"
  shows "strtok_s c (tok @ c # rest) (length tok + 1 + n) = Some (tok, rest, n)"
proof -
  have k: "takeWhile (\<lambda>x. x = c) (tok @ c # rest) = []" "dropWhile (\<lambda>x. x = c) (tok @ c # rest) = tok @ c # rest"
    using assms by (cases tok; auto)+
  have other: "\<forall>x \<in> set tok. x \<noteq> c" using assms(1) by auto
  then have "takeWhile (\<lambda>x. x \<noteq> c) (tok @ c # rest) = tok" "dropWhile (\<lambda>x. x \<noteq> c) (tok @ c # rest) = c # rest"
    by (induction tok) auto
  with k show ?thesis by (simp add: strtok_s_def Let_def)
qed


section \<open>The monitor thread\<close>

text \<open>C37. While the monitor thread is being cancelled its commands are refused, and it takes the
  refusal for a failure of hostapd: the check of an interface that is up and answers sends no PING,
  closes the interface's sockets and tells the program that it is disconnected.\<close>

theorem cancelled_check_disconnects:
  assumes reach: "ext_reach d" and s: "dx_service d i = Some s" "ds_type s = DWPAL_CONN_TYPE_HOSTAP" "dx_context d i = Some c"
    and up: "0 < ds_fd s" and stop: "td_stop (dx_monitor d)"
  shows "\<exists>d'. ping_slot ans MonitorThread i d = Some d' \<and>
    dx_service d' i = Some (s\<lparr>ds_fd := -1, ds_connect_needed := True\<rparr>) \<and> dx_context d' i = None \<and>
    mset (sk_open (dx_socks d')) = mset (sk_open (dx_socks d)) - socks_of (Some c) \<and>
    dx_trace d' = dx_trace d @ [CallEvent (ds_vap s) (cbytes ''INTERFACE_DISCONNECTED'') [] 0]"
proof -
  note d = reach_ok [OF reach]
  have cmd: "dwpal_ext_hostap_cmd_send ans MonitorThread (Some (ds_vap s)) (Some (cbytes ''PING'')) [] True 63 d =
      Some (DWPAL_FAILURE, [], 63, d)" using stop by (simp add: dwpal_ext_hostap_cmd_send_def)
  have need: "\<not> ds_connect_needed s" using ext_hostap(1) [OF d s(1,2)] s(3) by simp
  let ?s1 = "s\<lparr>ds_fd := -1\<rparr>" and ?s2 = "s\<lparr>ds_fd := -1, ds_connect_needed := True\<rparr>"
  define d1 where "d1 = set_service i (Some ?s1) d"
  have d1: "ext_ok d1" using keep_law(1) [OF d s(1), of ?s1] by (simp add: d1_def)
  have s1: "dx_service d1 i = Some ?s1" "ds_type ?s1 = DWPAL_CONN_TYPE_HOSTAP" "dx_context d1 i = Some c" "dx_socks d1 = dx_socks d"
    using s by (simp_all add: d1_def)
  obtain w where w: "(if dx_context d1 i = None then Some (None, dx_socks d1)
      else map_option snd (dwpal_hostap_interface_detach (dx_context d1 i) (dx_socks d1))) = Some (None, w)"
    "mset (sk_open w) = mset (sk_open (dx_socks d1)) - socks_of (dx_context d1 i)"
    using detach_slot_law [OF d1 s1(1,2), of ?s2] by (simp, blast)
  define d2 where "d2 = set_link i None w (set_service i (Some ?s2) d1)"
  have "ping_slot ans MonitorThread i d = interfaceDisconnectedSend i d2"
    using s cmd need up w(1) s1(3,4) by (auto simp: ping_slot_def Let_def d1_def [symmetric] d2_def)
  moreover have "interfaceDisconnectedSend i d2 =
      Some (log_call (CallEvent (ds_vap s) (cbytes ''INTERFACE_DISCONNECTED'') [] 0) d2)"
    using disconnected_law [of d2 i ?s2] ext_hostap(2) [OF d s(1,2)] by (simp add: d2_def)
  ultimately show ?thesis using w(2) s1(3,4) by (simp add: d2_def d1_def)
qed

fun monitor_run :: "monitor_input list \<Rightarrow> monitor_state \<Rightarrow> (bool \<times> bool) list" where
  "monitor_run [] ms = []"
| "monitor_run (inp # inps) ms =
     (case monitor_round inp ms of None \<Rightarrow> [] | Some (ms1, ping, recover) \<Rightarrow> (ping, recover) # monitor_run inps ms1)"

text \<open>Without a request the check waits for its time; a request is never taken back.\<close>

lemma check_waits:
  "\<not> mo_ping ms \<Longrightarrow> \<not> mi_pipe inp \<Longrightarrow> mi_now inp - mo_last_ping ms < PING_CHECK_TIME \<Longrightarrow>
     monitor_round inp ms = Some (ms', ping, recover) \<Longrightarrow> \<not> ping"
  by (auto simp: monitor_round_def Let_def split: if_splits)

lemma requested_check_repeats:
  assumes "mo_ping ms" "\<forall>inp \<in> set inps. mi_select_ok inp"
  shows "\<forall>(ping, recover) \<in> set (monitor_run inps ms). ping"
  using assms
proof (induction inps arbitrary: ms)
  case Nil
  then show ?case by simp
next
  case (Cons inp inps)
  show ?case
  proof (cases "monitor_round inp ms")
    case None
    then show ?thesis by simp
  next
    case (Some a)
    then obtain ms1 ping recover where a: "monitor_round inp ms = Some (ms1, ping, recover)" by (cases a) auto
    with Cons.prems have "ping" "mo_ping ms1"
      by (auto simp: monitor_round_def Let_def bind_eq_Some_conv split: if_splits option.splits)
    with a Cons.IH [of ms1] Cons.prems(2) show ?thesis by simp
  qed
qed


section \<open>The driver\<close>

text \<open>C38. When the attachment to the driver finds no free slot or no memory for its service it fails, but
  it frees the service of slot 0, whatever that is, and leaves the context of that slot in place: an
  interface of hostapd that sat there is gone from the table with its sockets open, and the next check
  by the monitor thread reads the service through a NULL pointer.\<close>

theorem failed_driver_attach_frees_slot_0:
  assumes "self \<noteq> ListenerThread" "interfaceIndexGet DWPAL_CONN_TYPE_DRIVER ALL_DRIVERS d = None"
    "\<not> mem_ok \<or> (\<forall>i < NUM_SERVICES. dx_service d i \<noteq> None)" "dx_context d 0 = Some c"
  shows "\<exists>d'. dwpal_ext_driver_nl_attach ans self mem_ok lk clb d = Some (DWPAL_FAILURE, d') \<and>
    dx_service d' 0 = None \<and> dx_context d' 0 = Some c \<and> dx_socks d' = dx_socks d \<and>
    ping_slot ans' self' 0 d' = None"
proof -
  let ?d = "cancel_listener self d"
  have "mem_ok \<longrightarrow> find (\<lambda>i. dx_service d i = None) [0..<NUM_SERVICES] = None"
    using assms(3) by (auto simp: find_None_iff)
  then have "interfaceIndexCreate mem_ok DWPAL_CONN_TYPE_DRIVER ALL_DRIVERS ?d = (DWPAL_FAILURE, 0, ?d)"
    using assms(2) by (cases mem_ok) (auto simp: interfaceIndexCreate_def split: option.split)
  then have "dwpal_ext_driver_nl_attach ans self mem_ok lk clb d =
      Some (DWPAL_FAILURE, create_listener lk (set_service 0 None ?d))"
    using assms(1,2) by (simp add: dwpal_ext_driver_nl_attach_def Let_def)
  with assms(4) show ?thesis by (simp add: ping_slot_def)
qed

lemma freed_message_used: "hc = DriverContext c \<Longrightarrow> dwpal_nl80211_cmd_send ans (Some hc) (Some False) (Some old) w = None"
  by (auto simp: dwpal_nl80211_cmd_send_def Let_def bind_eq_None_conv sock_use_def split: option.split)

text \<open>C36. A netlink command that the kernel answers with ENOENT is tried again over a new connection, but
  the first try has freed the message: once the new connection is up, the second try uses freed
  memory, whatever it meets.\<close>

theorem retried_netlink_message_freed:
  assumes reach: "ext_reach d" and slot: "interfaceIndexGet DWPAL_CONN_TYPE_DRIVER ALL_DRIVERS d = Some i"
    "dx_context d i = Some (DriverContext c)" "dc_fd_cmd c \<noteq> -1"
    and first: "nl_cb_ok ans" "clean_nl_socket (nl_cleanup ans)" "nl_send_ok ans" "nl_receive (nl_waits ans) 1 = Some (True, - ENOENT)"
    and again: "na_mem att" "na_event_alloc att" "na_event_up att" "False \<notin> set (na_members att)" "na_cmd_alloc att"
      "na_cmd_up att" "0 \<le> na_id att"
  shows "dwpal_ext_nl80211_cmd_send ((ans, att) # (ans', att') # rest) (Some True) (Some old) d = None"
proof -
  note d = reach_ok [OF reach]
  obtain s where s: "dx_service d i = Some s" "ds_type s = DWPAL_CONN_TYPE_DRIVER" using index_get [OF slot(1)] by blast
  obtain e k where k: "dc_event c = Some e" "dc_cmd c = Some k" using ext_driver [OF d s slot(2)] by (auto simp: not_None_eq)
  have sub: "socks_of (Some (DriverContext c)) \<subseteq># mset (sk_open (dx_socks d))" using ext_owned [OF d, of i] slot(2) by simp
  then have "k \<in># mset (sk_open (dx_socks d))" using k by (auto simp: insert_subset_eq_iff dest: in_diffD)
  then have "sock_use k (dx_socks d) = Some ()" by (rule sock_use_open)
  then have one: "dwpal_nl80211_cmd_send ans (dx_context d i) (Some True) (Some old) (dx_socks d) =
      Some (DWPAL_SUCCESS, Some (- ENOENT), Some False)"
    using slot(2,3) first k by (simp add: dwpal_nl80211_cmd_send_def Let_def del: nl_receive.simps)
  have clean: "nl_clean_attach att" using again by (simp add: nl_clean_attach_def)
  obtain w where w: "dwpal_driver_nl_detach (Some (DriverContext c)) (dx_socks d) = Some (DWPAL_SUCCESS, None, w)"
    using nl_link.detach_law [OF ext_sock_ok [OF d] ext_driver [OF d s slot(2)] sub] by blast
  obtain c2 w2 where w2: "dwpal_driver_nl_attach att w = Some (DWPAL_SUCCESS, Some (DriverContext c2), w2)"
    using again by (auto simp: dwpal_driver_nl_attach_def nlSocketCreate_def sock_open_def)
  have "nlRecoveryNeeded att i DWPAL_SUCCESS (- ENOENT) 2 d = Some (True, set_link i (Some (DriverContext c2)) w2 d)"
    using slot(2) w w2 by (simp add: nlRecoveryNeeded_def)
  then have "nl_cmd_loop i 2 ((ans, att) # (ans', att') # rest) (Some True) (Some old) d =
      nl_cmd_loop i 1 ((ans', att') # rest) (Some False) (Some (- ENOENT)) (set_link i (Some (DriverContext c2)) w2 d)"
    using one by (simp del: nl_receive.simps)
  also have "\<dots> = None" by (simp add: freed_message_used)
  finally show ?thesis using slot(1) by (simp add: dwpal_ext_nl80211_cmd_send_def)
qed

end
