(* ===== verification/Ext_Runs.thy ===== *)
theory Ext_Runs
  imports Ext_Faults
begin

text \<open>
  Runs of the interface services on concrete answers: an interface that is attached, lost and found
  again, an event, a cancelled check, and the driver.  They show that the hypotheses of the
  properties can hold.
\<close>

definition run_attach :: attach_answers where
  "run_attach = \<lparr>aa_mem = True, aa_exists = (\<lambda>p. p = cbytes ''/var/run/hostapd/wlan0''), aa_open = True,
     aa_open_listener = True, aa_attach = True, aa_fd = 7\<rparr>"

definition run_reply :: "int \<Rightarrow> cmd_answers" where
  "run_reply r = \<lparr>ca_stuck = [], ca_ret = r, ca_reply = []\<rparr>"

definition run_bss :: bss_parse where "run_bss reply j = (DWPAL_SUCCESS, if j < 2 then Some [119, of_nat (48 + j)] else None)"

definition run_nl_attach :: nl_attach_answers where
  "run_nl_attach = \<lparr>na_mem = True, na_event_alloc = True, na_event_up = True, na_members = [True, True], na_cmd_alloc = True,
     na_cmd_up = True, na_fd = 8, na_fd_cmd = 9, na_id = 26\<rparr>"

definition run_nl :: nl_answers where
  "run_nl = \<lparr>nl_cb_ok = True, nl_cleanup = [], nl_send_ok = True, nl_waits = [NlEintr, NlMessages (- 2)]\<rparr>"

definition run_wlan0 :: dwpal_service where
  "run_wlan0 = \<lparr>ds_type = DWPAL_CONN_TYPE_HOSTAP, ds_vap = cbytes ''wlan0'', ds_fd = 0, ds_fd_cmd = 0,
     ds_connect_needed = False, ds_reconnect_needed = False, ds_clb = True, ds_nl_clb = False\<rparr>"

definition run_context :: hostap_context where
  "run_context = \<lparr>hc_vap = cbytes ''wlan0'', hc_mode = cbytes ''AP'', hc_ctrl_name = cbytes ''/var/run/hostapd/wlan0'',
     hc_ctrl = Some 0, hc_listener = Some 1, hc_fd = 7, hc_two_way = False\<rparr>"

definition run_driver :: driver_context where
  "run_driver = \<lparr>dc_event = Some 2, dc_cmd = Some 3, dc_fd = 8, dc_fd_cmd = 9, dc_nl80211_id = 26\<rparr>"

definition ext_boot :: dwpal_ext where
  "ext_boot = \<lparr>dx_service = (\<lambda>i. None), dx_context = (\<lambda>i. None), dx_listener = \<lparr>td_running = False, td_stop = False\<rparr>,
     dx_monitor = \<lparr>td_running = False, td_stop = False\<rparr>, dx_socks = \<lparr>sk_next = 0, sk_open = []\<rparr>, dx_trace = []\<rparr>"

definition ext_up :: dwpal_ext where
  "ext_up = \<lparr>dx_service = (\<lambda>i. None)(0 := Some run_wlan0), dx_context = (\<lambda>i. None)(0 := Some (HostapContext run_context)),
     dx_listener = \<lparr>td_running = True, td_stop = False\<rparr>, dx_monitor = \<lparr>td_running = True, td_stop = False\<rparr>,
     dx_socks = \<lparr>sk_next = 2, sk_open = [1, 0]\<rparr>,
     dx_trace = [SendCmd 0 (cbytes ''STATUS''),
       CallEvent (cbytes ''wlan0'') (cbytes ''INTERFACE_CONNECTED_OK'') (cbytes ''vaps= w0 w1'') 11]\<rparr>"

lemma index_first:
  "dx_service d 0 = Some s \<Longrightarrow> ds_type s = t \<Longrightarrow> strncmp_eq v (ds_vap s) DWPAL_VAP_NAME_STRING_LENGTH \<Longrightarrow>
     interfaceIndexGet t v d = Some 0"
  by (simp add: interfaceIndexGet_def NUM_SERVICES_def NUM_OF_SUPPORTED_VAPS_def upt_conv_Cons)

lemma index_no_type: "(\<And>i s. dx_service d i = Some s \<Longrightarrow> ds_type s \<noteq> t) \<Longrightarrow> interfaceIndexGet t v d = None"
  by (fastforce simp: interfaceIndexGet_def find_None_iff split: option.splits)

lemma free_first: "dx_service d 0 = None \<Longrightarrow> find (\<lambda>i. dx_service d i = None) [0..<NUM_SERVICES] = Some 0"
  by (simp add: NUM_SERVICES_def NUM_OF_SUPPORTED_VAPS_def upt_conv_Cons)

lemma reach_boot: "ext_reach ext_boot"
  by (rule ext_init) (simp_all add: ext_boot_def)

lemma run_vaps: "collect_vaps (run_bss reply) VAPS_SIZE [0..<NUM_OF_SUPPORTED_VAPS] [] = cbytes ''vaps= w0 w1''"
  by (simp add: VAPS_SIZE_def NUM_OF_SUPPORTED_VAPS_def upt_conv_Cons run_bss_def cbytes_def strncpy_s_def strcat_s_def
      DWPAL_VAP_NAME_STRING_LENGTH_def)


lemma run_name: "wpa_ctrl_name run_attach (cbytes ''wlan0'') = Some (cbytes ''AP'', cbytes ''/var/run/hostapd/wlan0'')"
  by (simp add: wpa_ctrl_name_def run_attach_def cbytes_def sprintf_s_def DWPAL_WPA_CTRL_STRING_LENGTH_def)

lemma run_hostap_attach:
  "dwpal_hostap_interface_attach run_attach (Some (cbytes ''wlan0'')) False \<lparr>sk_next = 0, sk_open = []\<rparr> =
     Some (DWPAL_SUCCESS, Some (HostapContext run_context), \<lparr>sk_next = 2, sk_open = [1, 0]\<rparr>)"
proof -
  have n: "strncpy_s DWPAL_VAP_NAME_STRING_LENGTH (cbytes ''wlan0'') (strnlen_s (cbytes ''wlan0'') DWPAL_VAP_NAME_STRING_LENGTH) =
      cbytes ''wlan0''" by (rule short_name) (simp add: cbytes_def DWPAL_VAP_NAME_STRING_LENGTH_def)
  show ?thesis unfolding dwpal_hostap_interface_attach_def option.case Let_def n run_name
    by (simp add: run_attach_def run_context_def sock_open_def)
qed

lemma run_send:
  "dwpal_hostap_cmd_send (run_reply 0) (Some (HostapContext run_context)) (Some (cbytes ''STATUS'')) [] True
     (HOSTAPD_TO_DWPAL_MSG_LENGTH - 1) \<lparr>sk_next = 2, sk_open = [1, 0]\<rparr> = Some (DWPAL_SUCCESS, Some (cbytes ''STATUS''), [], 0)"
  by (simp add: dwpal_hostap_cmd_send_def run_context_def run_reply_def sock_use_def Let_def cbytes_def
      DWPAL_TO_HOSTAPD_MSG_LENGTH_INTERNAL_def HOSTAPD_TO_DWPAL_MSG_LENGTH_def)

lemma run_attach_step:
  "ext_run (Attach run_attach (run_reply 0) run_bss OtherThread True True True True (Some (cbytes ''wlan0'')) True) ext_boot =
     Some ext_up"
proof -
  let ?s = "\<lparr>ds_type = DWPAL_CONN_TYPE_HOSTAP, ds_vap = cbytes ''wlan0'', ds_fd = 0, ds_fd_cmd = 0,
     ds_connect_needed = False, ds_reconnect_needed = False, ds_clb = False, ds_nl_clb = False\<rparr>"
  have none: "interfaceIndexGet DWPAL_CONN_TYPE_HOSTAP (cbytes ''wlan0'') ext_boot = None"
    by (rule index_no_type) (simp add: ext_boot_def)
  let ?d1 = "cancel_threads OtherThread ext_boot"
  have name: "strcpy_s DWPAL_VAP_NAME_STRING_LENGTH (cbytes ''wlan0'') = cbytes ''wlan0''"
    by (simp add: strcpy_s_def cbytes_def DWPAL_VAP_NAME_STRING_LENGTH_def)
  have create: "interfaceIndexCreate True DWPAL_CONN_TYPE_HOSTAP (cbytes ''wlan0'') ?d1 = (DWPAL_SUCCESS, 0, set_service 0 (Some ?s) ?d1)"
    using none free_first [of ?d1] name by (simp add: interfaceIndexCreate_def ext_boot_def)
  define d3 where "d3 = set_service 0 (Some run_wlan0) (set_link 0 (Some (HostapContext run_context)) \<lparr>sk_next = 2, sk_open = [1, 0]\<rparr>
      (set_service 0 (Some ?s) ?d1))"
  have d3: "dx_service d3 0 = Some run_wlan0" "dx_context d3 0 = Some (HostapContext run_context)"
    "dx_socks d3 = \<lparr>sk_next = 2, sk_open = [1, 0]\<rparr>" by (simp_all add: d3_def)
  have index: "interfaceIndexGet DWPAL_CONN_TYPE_HOSTAP (cbytes ''wlan0'') d3 = Some 0"
    by (rule index_first [OF d3(1)]) (simp_all add: run_wlan0_def strncmp_eq_def)
  have w: "ds_vap run_wlan0 = cbytes ''wlan0''" "\<not> ds_connect_needed run_wlan0" "ds_clb run_wlan0" by (simp_all add: run_wlan0_def)
  have "dwpal_ext_hostap_cmd_send (run_reply 0) OtherThread (Some (cbytes ''wlan0'')) (Some (cbytes ''STATUS'')) [] True
      (HOSTAPD_TO_DWPAL_MSG_LENGTH - 1) d3 = Some (DWPAL_SUCCESS, [], 0, log_call (SendCmd 0 (cbytes ''STATUS'')) d3)"
    using ext_cmd_run [OF refl refl TrueI _ index d3(1) w(2) d3(2), of OtherThread "run_reply 0" "cbytes ''STATUS''" "[]"] run_send d3(3)
    by (simp add: thread_stopped_def log_sent_def)
  then have "interfaceConnectedOkSend (run_reply 0) run_bss OtherThread True 0 d3 = Some (DWPAL_SUCCESS,
      log_call (CallEvent (cbytes ''wlan0'') (cbytes ''INTERFACE_CONNECTED_OK'') (cbytes ''vaps= w0 w1'') 11)
        (log_call (SendCmd 0 (cbytes ''STATUS'')) d3))"
    using d3 w by (simp add: interfaceConnectedOkSend_def vaps_event_def activeVapsGet_def run_vaps event_law)
      (simp add: strnlen_s_def cbytes_def VAPS_SIZE_def NUM_OF_SUPPORTED_VAPS_def DWPAL_VAP_NAME_STRING_LENGTH_def)
  moreover have "set_service 0 (Some (?s\<lparr>ds_connect_needed := \<not> DWPAL_SUCCESS = DWPAL_SUCCESS, ds_clb := True\<rparr>))
      (set_link 0 (Some (HostapContext run_context)) \<lparr>sk_next = 2, sk_open = [1, 0]\<rparr> (set_service 0 (Some ?s) ?d1)) = d3"
    by (simp add: d3_def run_wlan0_def)
  ultimately have "dwpal_ext_hostap_interface_attach run_attach (run_reply 0) run_bss OtherThread True True True True
      (Some (cbytes ''wlan0'')) True ext_boot = Some (DWPAL_SUCCESS, create_threads True True
        (log_call (CallEvent (cbytes ''wlan0'') (cbytes ''INTERFACE_CONNECTED_OK'') (cbytes ''vaps= w0 w1'') 11)
          (log_call (SendCmd 0 (cbytes ''STATUS'')) d3)))"
    using none create run_hostap_attach by (simp add: dwpal_ext_hostap_interface_attach_def Let_def ext_boot_def)
  moreover have "isAnyInterfaceActive d3"
    unfolding isAnyInterfaceActive_def NUM_SERVICES_def NUM_OF_SUPPORTED_VAPS_def using d3(1) by (intro bexI [of _ 0]) auto
  ultimately show ?thesis
    by (simp add: d3_def ext_up_def create_threads_def isAnyInterfaceActive_def log_call_def set_service_def set_link_def cancel_threads_def
        thread_cancel_def thread_create_def threadCreate_def ext_boot_def)
qed

lemma reach_up: "ext_reach ext_up"
  by (rule ext_step [OF reach_boot _ run_attach_step]) (simp add: cbytes_def DWPAL_VAP_NAME_STRING_LENGTH_def)


section \<open>States after the attachment\<close>

text \<open>hostapd does not answer; the file descriptor is read and the monitor thread is cancelled; the driver is attached.\<close>

definition ext_lost :: dwpal_ext where
  "ext_lost = log_call (CallEvent (cbytes ''wlan0'') (cbytes ''INTERFACE_DISCONNECTED'') [] 0)
     (set_link 0 None \<lparr>sk_next = 2, sk_open = []\<rparr> (set_service 0 (Some (run_wlan0\<lparr>ds_connect_needed := True\<rparr>))
       (log_call (SendCmd 0 (cbytes ''PING'')) ext_up)))"

definition ext_fd :: dwpal_ext where "ext_fd = set_service 0 (Some (run_wlan0\<lparr>ds_fd := 7\<rparr>)) ext_up"

definition ext_stopping :: dwpal_ext where
  "ext_stopping = ext_fd\<lparr>dx_monitor := \<lparr>td_running = True, td_stop = True\<rparr>\<rparr>"

definition ext_drv :: dwpal_ext where
  "ext_drv = set_service 1 (Some \<lparr>ds_type = DWPAL_CONN_TYPE_DRIVER, ds_vap = ALL_DRIVERS, ds_fd = 0, ds_fd_cmd = 0,
       ds_connect_needed = False, ds_reconnect_needed = False, ds_clb = False, ds_nl_clb = True\<rparr>)
     (set_link 1 (Some (DriverContext run_driver)) \<lparr>sk_next = 4, sk_open = [3, 2, 1, 0]\<rparr> ext_up)"

lemma up_simps:
  "dx_service ext_up 0 = Some run_wlan0" "dx_context ext_up 0 = Some (HostapContext run_context)"
  "dx_socks ext_up = \<lparr>sk_next = 2, sk_open = [1, 0]\<rparr>" "dx_service ext_up (Suc i) = None" "dx_context ext_up (Suc i) = None"
  "\<not> td_stop (dx_listener ext_up)" "\<not> td_stop (dx_monitor ext_up)"
  by (simp_all add: ext_up_def)

lemma wlan0_simps:
  "ds_type run_wlan0 = DWPAL_CONN_TYPE_HOSTAP" "ds_vap run_wlan0 = cbytes ''wlan0''" "\<not> ds_connect_needed run_wlan0" "ds_clb run_wlan0"
  by (simp_all add: run_wlan0_def)

lemma run_lost_step:
  "ext_run (Command (run_reply (- 1)) OtherThread (Some (cbytes ''wlan0'')) (Some (cbytes ''PING'')) [] True 63) ext_up = Some ext_lost"
proof -
  have index: "interfaceIndexGet DWPAL_CONN_TYPE_HOSTAP (cbytes ''wlan0'') ext_up = Some 0"
    by (rule index_first [OF up_simps(1)]) (simp_all add: wlan0_simps strncmp_eq_def)
  have send: "dwpal_hostap_cmd_send (run_reply (- 1)) (Some (HostapContext run_context)) (Some (cbytes ''PING'')) [] True 63 (dx_socks ext_up) =
      Some (DWPAL_SOCKET_FAILURE, Some (cbytes ''PING''), [], 0)"
    by (simp add: dwpal_hostap_cmd_send_def run_context_def run_reply_def sock_use_def Let_def cbytes_def up_simps
        DWPAL_TO_HOSTAPD_MSG_LENGTH_INTERNAL_def)
  have drop: "drop_interface True 0 (log_sent 0 (Some (cbytes ''PING'')) ext_up) = Some (set_link 0 None \<lparr>sk_next = 2, sk_open = []\<rparr>
      (set_service 0 (Some (run_wlan0\<lparr>ds_connect_needed := True\<rparr>)) (log_sent 0 (Some (cbytes ''PING'')) ext_up)))"
    by (simp add: drop_interface_def up_simps dwpal_hostap_socket_close_def run_context_def sock_close_def sock_use_def)
  show ?thesis
    using ext_cmd_run [OF refl refl TrueI _ index up_simps(1) wlan0_simps(3) up_simps(2) send] drop
    by (simp add: thread_stopped_def up_simps disconnected_law wlan0_simps ext_lost_def log_sent_def)
qed

lemma reach_lost: "ext_reach ext_lost"
  by (rule ext_step [OF reach_up _ run_lost_step]) simp

lemma reach_fd: "ext_reach ext_fd"
proof -
  have run: "ext_run (RefreshFd 0) ext_up = Some ext_fd"
    by (simp add: refresh_fd_def up_simps wlan0_simps dwpal_hostap_event_fd_get_def run_context_def ext_fd_def)
  show ?thesis by (rule ext_step [OF reach_up _ run]) simp
qed

lemma reach_stopping: "ext_reach ext_stopping"
proof -
  have run: "ext_run (AskStop False True) ext_fd = Some ext_stopping"
    by (simp add: thread_ask_def ext_stopping_def ext_fd_def ext_up_def set_service_def)
  show ?thesis by (rule ext_step [OF reach_fd _ run]) simp
qed

lemma up_no_driver: "interfaceIndexGet DWPAL_CONN_TYPE_DRIVER ALL_DRIVERS ext_up = None"
  by (rule index_no_type) (auto simp: ext_up_def wlan0_simps split: if_splits)

lemma second_free: "find (\<lambda>i. dx_service ext_up i = None) [0..<NUM_SERVICES] = Some 1"
  by (simp add: NUM_SERVICES_def NUM_OF_SUPPORTED_VAPS_def upt_conv_Cons up_simps)

lemma reach_drv: "ext_reach ext_drv"
proof -
  have all: "strcpy_s DWPAL_VAP_NAME_STRING_LENGTH ALL_DRIVERS = ALL_DRIVERS"
    using all_drivers_short by (simp add: strcpy_s_def)
  have nl: "dwpal_driver_nl_attach run_nl_attach \<lparr>sk_next = 2, sk_open = [1, 0]\<rparr> =
      Some (DWPAL_SUCCESS, Some (DriverContext run_driver), \<lparr>sk_next = 4, sk_open = [3, 2, 1, 0]\<rparr>)"
    by (simp add: dwpal_driver_nl_attach_def nlSocketCreate_def sock_open_def run_nl_attach_def run_driver_def)
  have active: "isAnyInterfaceActive d" if "dx_service d 0 = Some run_wlan0" for d
    unfolding isAnyInterfaceActive_def NUM_SERVICES_def NUM_OF_SUPPORTED_VAPS_def using that by (intro bexI [of _ 0]) auto
  have run: "ext_run (DriverAttach run_nl_attach OtherThread True True True) ext_up = Some ext_drv"
    using up_no_driver second_free all nl active
    by (simp add: dwpal_ext_driver_nl_attach_def interfaceIndexCreate_def Let_def up_simps create_listener_def)
      (simp add: ext_drv_def set_service_def set_link_def thread_create_def threadCreate_def cancel_listener_def
        thread_cancel_def ext_up_def)
  have fine: "action_fine (DriverAttach run_nl_attach OtherThread True True True) ext_up"
    by (simp add: nl_clean_attach_def run_nl_attach_def driver_room_def)
      (rule disjI2, rule exI [of _ 1], simp add: up_simps ext_up_def NUM_SERVICES_def NUM_OF_SUPPORTED_VAPS_def)
  show ?thesis by (rule ext_step [OF reach_up fine run])
qed


section \<open>The properties at these states\<close>


lemma failed_command_drops_interface_witness:
  "\<exists>d'. dwpal_ext_hostap_cmd_send (run_reply (- 1)) OtherThread (Some (ds_vap run_wlan0)) (Some (cbytes ''PING'')) [] True 63 ext_up =
     Some (DWPAL_FAILURE, [], 0, d') \<and> dx_context d' 0 = None \<and>
     dx_trace d' = dx_trace ext_up @ [SendCmd 0 (cbytes ''PING''), CallEvent (ds_vap run_wlan0) (cbytes ''INTERFACE_DISCONNECTED'') [] 0]"
proof -
  have "\<not> thread_stopped OtherThread ext_up" "cbytes ''PING'' \<noteq> []" "(1::nat) < 63"
    "DWPAL_TO_HOSTAPD_MSG_LENGTH_INTERNAL \<le> length (cbytes ''PING'') \<or>
       clear_stuck (ca_stuck (run_reply (- 1))) = DWPAL_SUCCESS \<and> ca_ret (run_reply (- 1)) < 0"
    by (simp_all add: thread_stopped_def cbytes_def run_reply_def)
  from failed_command_drops_interface [OF reach_up up_simps(1) wlan0_simps(1) up_simps(2) this]
  show ?thesis by (simp add: cbytes_def DWPAL_TO_HOSTAPD_MSG_LENGTH_INTERNAL_def) blast
qed


lemma control_path_limits_names_witness:
  "\<exists>h. Some (HostapContext run_context) = Some (HostapContext h) \<and> hc_vap h = cbytes ''wlan0''"
proof -
  have "length (cbytes ''wlan0'') < DWPAL_VAP_NAME_STRING_LENGTH" by (simp add: cbytes_def DWPAL_VAP_NAME_STRING_LENGTH_def)
  from control_path_limits_names [OF this run_hostap_attach] show ?thesis by blast
qed


lemma cancelled_check_disconnects_witness:
  "\<exists>d'. ping_slot (run_reply 0) MonitorThread 0 ext_stopping = Some d' \<and> dx_context d' 0 = None \<and>
     dx_trace d' = dx_trace ext_stopping @ [CallEvent (cbytes ''wlan0'') (cbytes ''INTERFACE_DISCONNECTED'') [] 0]"
proof -
  let ?s = "run_wlan0\<lparr>ds_fd := 7\<rparr>"
  have name: "ds_vap ?s = cbytes ''wlan0''" by (simp add: wlan0_simps)
  have "dx_service ext_stopping 0 = Some ?s" "ds_type ?s = DWPAL_CONN_TYPE_HOSTAP"
    "dx_context ext_stopping 0 = Some (HostapContext run_context)" "0 < ds_fd ?s" "td_stop (dx_monitor ext_stopping)"
    by (simp_all add: ext_stopping_def ext_fd_def up_simps wlan0_simps)
  from cancelled_check_disconnects [OF reach_stopping this, of "run_reply 0"] show ?thesis
    unfolding name by (elim exE conjE) (intro exI conjI; assumption)
qed

lemma failed_driver_attach_frees_slot_0_witness:
  "\<exists>d'. dwpal_ext_driver_nl_attach run_nl_attach OtherThread False True True ext_up = Some (DWPAL_FAILURE, d') \<and>
     dx_service d' 0 = None \<and> dx_context d' 0 = Some (HostapContext run_context) \<and>
     ping_slot (run_reply 0) MonitorThread 0 d' = None"
proof -
  have "OtherThread \<noteq> ListenerThread" "\<not> False \<or> (\<forall>i < NUM_SERVICES. dx_service ext_up i \<noteq> None)" by simp_all
  from failed_driver_attach_frees_slot_0 [OF this(1) up_no_driver this(2) up_simps(2)] show ?thesis by blast
qed

lemma retried_netlink_message_freed_witness:
  "dwpal_ext_nl80211_cmd_send [(run_nl, run_nl_attach), (run_nl, run_nl_attach)] (Some True) (Some 0) ext_drv = None"
proof -
  have "\<exists>i. interfaceIndexGet DWPAL_CONN_TYPE_DRIVER ALL_DRIVERS ext_drv = Some i \<and> i = 1"
    by (simp add: interfaceIndexGet_def NUM_SERVICES_def NUM_OF_SUPPORTED_VAPS_def upt_conv_Cons ext_drv_def up_simps wlan0_simps
        strncmp_eq_def)
  then have index: "interfaceIndexGet DWPAL_CONN_TYPE_DRIVER ALL_DRIVERS ext_drv = Some 1" by blast
  have "dx_context ext_drv 1 = Some (DriverContext run_driver)" "dc_fd_cmd run_driver \<noteq> -1" "nl_cb_ok run_nl"
    "clean_nl_socket (nl_cleanup run_nl)" "nl_send_ok run_nl" "nl_receive (nl_waits run_nl) 1 = Some (True, - ENOENT)"
    "na_mem run_nl_attach" "na_event_alloc run_nl_attach" "na_event_up run_nl_attach" "False \<notin> set (na_members run_nl_attach)"
    "na_cmd_alloc run_nl_attach" "na_cmd_up run_nl_attach" "0 \<le> na_id run_nl_attach"
    by (simp_all add: ext_drv_def run_driver_def run_nl_def run_nl_attach_def ENOENT_def)
  from retried_netlink_message_freed [OF reach_drv index this] show ?thesis .
qed

end
