(* ===== verification/Spec2Isabelle.thy ===== *)
theory Spec2Isabelle
  imports Work_Serializer Ipc_Core Ipc_Server Hostap_Parse End_To_End Ext_Runs
begin

text \<open>
  D-WPAL: the library that owns the control sockets of hostapd and the netlink sockets of the
  driver, the daemon around it, the IPC library that the daemon and its clients are built on, and
  the client library.

  How the program is built.  A client program calls the client library
  (daemon/dwpald_client.c), which packs a request into an IPC message and sends it with the IPC
  client (wv_ipc/wave_ipc_client.c) over a Unix socket.  In the daemon the IPC server
  (wv_ipc/wave_ipc_server.c) hands the message to a callback of daemon/dwpal_daemon.c, which gives
  it to one of two interface managers (daemon/iface_manager.c), one for hostapd and one for
  netlink.  A manager makes a work of it that its serializer (wv_ipc/work_serializer.c) executes in
  its own thread, through the table of functions of daemon/hostap_iface.c or daemon/nl_iface.c.
  These call the dwpal library and answer through the server.  In the library dwpal_ext.c keeps a
  table of interfaces with a listener and a monitor thread, and dwpal.c opens, uses and closes the
  sockets of one interface.  Events go the other way: a callback of the library makes a message and submits a work, the work sends it to the
  stations that have registered for it, and the client's listener calls the program's functions.
  The text of commands and responses is built and parsed by daemon/dwpald_hostap_parse.c.  Below
  all of it are the messages (wv_ipc/wave_ipc_core.c), the linked lists and the object pools.

  Theories, from the bottom.

  \<^item> \<open>Dwpal_Prelude\<close>: machine integers, pointers, chains of cells, theorem collections.
  \<^item> \<open>Obj_Pool\<close> (wv_ipc/obj_pool.c) and \<open>Linked_List\<close> (wv_ipc/linked_list.c, linked_list.h): the
    pointer structures.  The pool is an instance of the locale \<open>object_pool\<close>; the list implements
    a sequence (locale \<open>sequence_container\<close>), which is what the later theories use for a list.
  \<^item> \<open>Work_Serializer\<close>: one function for each critical section, the threads as a step relation;
    no work is lost or used after it is freed.
  \<^item> \<open>Ipc_Msg\<close>: a message by value, the stack of headers (locale \<open>header_stack\<close>), reading and writing
    a socket.  \<open>Ipc_Core\<close>: messages in memory, in rings, from a pool (locale \<open>message_store\<close>).
  \<^item> \<open>Ipc_Server\<close>: the stations, their reference counts and pending messages, commands to stations.
    \<open>Ipc_Client\<close>: connection, listener, commands, responses in several messages.
  \<^item> \<open>C_Strings\<close>, \<open>Dwpald_Protocol\<close>: the string functions and the numbers the daemon's side shares.
    \<open>Hostap_Parse\<close>: hexadecimal strings, the command builder, the response parser.
  \<^item> \<open>Event_Registry\<close>: the locale of a registry of subscriptions, which \<open>Hostap_Iface\<close> and
    \<open>Nl_Iface\<close> provide and \<open>Iface_Manager\<close> (locale \<open>managed_registry\<close>) relies on.
  \<^item> \<open>Dwpal_Daemon\<close>: the daemon's callbacks and its state with both managers at work.
  \<^item> \<open>Dwpald_Client\<close>, \<open>Client_State\<close>: the client library and what it keeps of its connection.
  \<^item> \<open>Dwpal_Lib\<close> (dwpal.c): the contexts with their sockets, commands, events, netlink commands; an
    attachment and a detachment are instances of the locale \<open>socket_owner\<close>.  \<open>Dwpal_Ext\<close> (dwpal_ext.c):
    the table, the threads, commands, recovery, attachments.  \<open>Ext_State\<close>: what every operation keeps of
    the table and the open sockets.  \<open>Ext_Services\<close>: all operations in any order, and the properties;
    \<open>Ext_Faults\<close>: events, names and failures; \<open>Ext_Runs\<close>: concrete runs.
  \<^item> \<open>End_To_End\<close>: the composition: a command, an attachment and an event on their whole way.

  How the code is modelled.  A structure is a record with the fields of the C structure; a linked
  list in a structure is a HOL list; a pointer that may be NULL is an option; bytes and sequence
  numbers are words of their width, lengths of type \<open>size_t\<close> are natural numbers whose additions
  wrap where the code lets a caller choose them.  A function of the code is a HOL function that
  takes the state and returns the new one.  What the code gets from outside (the results of system
  calls and of allocations, what hostapd, wpa_ctrl and libnl answer, the clock) is an argument, so a
  theorem holds for whatever comes back.  A result of None means that the code reads or writes
  memory that it does not own, or does not return.  The code between a lock and its unlock is one
  step; threads are interleavings of such steps (\<open>ser_reach\<close>, \<open>srv_reach\<close>, \<open>daemon_reach\<close>,
  \<open>mgr_reach\<close>, \<open>client_reach\<close>, \<open>ext_reach\<close>).

  What the lemmas show.  Invariants and safety: who owns a work, a message, a node, a station at
  every moment, and that nothing is used after it was freed, except where a theorem of kind error
  shows that it is.  Function: what each operation does on every branch, in order for events and
  responses.  Refinement and composition: the lists refine sequences, and the end-to-end theorems
  join the layers by the messages that go over the socket.  Bounds: which lengths fit which buffer.
  The theorems of kind error, liveness and termination describe what the code does where it
  deviates from its intention.

  Bounds and termination.  All loops are structural or have a measure, except these partial
  functions: \<open>pop_scan\<close>, the loop over the header area in an 8-bit index, which may not end; the
  pointer loops of \<open>Obj_Pool\<close>, \<open>list_foreach\<close> and \<open>put_ring\<close>, which follow links.  Loops that wait for
  input run on the list of inputs, so that None means that the inputs did not suffice.  No fuel is
  used.

  Assumptions.  The string functions with bounds are those of C11 Annex K as libsafec has them; the
  bytes of an \<open>int\<close> lie in little-endian order; the calls of a callback return.

  Not modelled.  The attributes of netlink messages (libnl); in the dwpal library the parser
  dwpal_string_to_struct_parse (an older sibling of the one in \<open>Hostap_Parse\<close>), the scans, the older
  netlink calls and the driver's events; the build variants
  WAVE_IPC_CORE_DEBUG, CONFIG_DWPALD_DEBUG_TOOLS, DWPALD_ADD_TO_BRIDGE and
  EVENT_CALLBACK_THREAD; logging; the set-up of
  signal handlers; dwpal_cli.c and dwpald_client_reference.c (terminal programs); stats.c (tables and
  printing); wpa_ctrl.c and os_unix.c (vendored from hostapd); the header copies of the kernel and
  the driver.
\<close>

end
